(* ===== verification/Prelude.thy ===== *)
theory Prelude
  imports Main "HOL-Library.Word" "HOL-Library.Monad_Syntax"
begin

text \<open>
  What every component of the HanaCore model shares: names for the machine types of the
  C++ sources, the reading of a possibly faulting call as a value of an option type, C
  strings, little-endian integers, and the lemmas on words and lists that the component
  proofs use.

  Conventions.
  \<^item> An address is a 64-bit word and the null pointer is \<open>0\<close>.
  \<^item> A call that may dereference a null pointer, or run forever, has a result of an
    option type: \<open>None\<close> stands for the fault (or for not returning) and \<open>Some r\<close>
    for an ordinary return. Calls are sequenced by \<open>Option.bind\<close> in do-notation.
  \<^item> An integer status (\<open>0\<close>, \<open>-1\<close>, a file descriptor, a pid) is an \<open>int\<close>.
  \<^item> A NUL-terminated string is a \<^typ>\<open>string\<close> without the terminator; reading at its
    length yields the NUL (\<open>c_at\<close>).
\<close>

unbundle bit_operations_syntax

type_synonym byte = "8 word"
type_synonym u8 = "8 word"
type_synonym u16 = "16 word"
type_synonym u32 = "32 word"
type_synonym u64 = "64 word"
type_synonym addr = "64 word"

named_theorems cost_simps \<open>evaluation of the heap space a sequence of calls needs\<close>
named_theorems str_simps \<open>rewriting of C string operations\<close>

section \<open>Words\<close>

lemma unat_add_nowrap:
  fixes a b :: "'a::len word"
  assumes "unat a + unat b < 2 ^ LENGTH('a)"
  shows "unat (a + b) = unat a + unat b"
  using assms by (simp add: unat_word_ariths)

lemma unat_sub_le:
  fixes a b :: "'a::len word"
  assumes "b \<le> a"
  shows "unat (a - b) = unat a - unat b"
  using assms by (simp add: unat_sub)

lemma unat_lt_u64: "unat (a :: u64) < 2 ^ 64"
  using unsigned_less [of a] by simp

lemma unat_lt_u32: "unat (a :: u32) < 2 ^ 32"
  using unsigned_less [of a] by simp

text \<open>Rounding down to a power of two, the way the sources write it with a mask.\<close>

lemma and_not_mask_eq:
  fixes v :: "'a::len word"
  shows "v AND NOT (mask n) = push_bit n (drop_bit n v)"
  by (rule bit_word_eqI) (auto simp: bit_simps)

lemma unat_and_not_mask:
  fixes v :: "'a::len word"
  shows "unat (v AND NOT (mask n)) = unat v div 2 ^ n * 2 ^ n"
proof -
  have eq: "push_bit n (drop_bit n v) = v - take_bit n v"
    by (metis add_diff_cancel_right' bits_ident)
  have le: "unat (take_bit n v) \<le> unat v"
    by (metis unsigned_take_bit_eq take_bit_nat_less_eq_self)
  have "unat (v - take_bit n v) = unat v - unat (take_bit n v)"
    using le by (simp add: unat_sub word_le_nat_alt)
  also have "\<dots> = unat v - unat v mod 2 ^ n"
    unfolding unsigned_take_bit_eq by (simp add: take_bit_eq_mod)
  also have "\<dots> = unat v div 2 ^ n * 2 ^ n"
    by (simp add: minus_mod_eq_div_mult)
  finally show ?thesis
    by (simp add: and_not_mask_eq eq)
qed

text \<open>Reducing an index with a mask, and why the slots of one window of a ring differ.\<close>

lemma unat_and_mask:
  fixes w :: "'a::len word"
  assumes "a = 2 ^ n"
  shows "unat (w AND (a - 1)) = unat w mod 2 ^ n"
proof -
  have m: "a - 1 = mask n" using assms by (simp add: mask_eq_exp_minus_1)
  show ?thesis
    unfolding m take_bit_eq_mask [symmetric] unsigned_take_bit_eq by (simp add: take_bit_eq_mod)
qed

lemma mod_window_inj:
  fixes i j n :: nat
  assumes "i < j" "j < i + n"
  shows "i mod n \<noteq> j mod n"
proof
  assume "i mod n = j mod n"
  then have "n dvd j - i" using assms(1) by (metis less_imp_le mod_eq_dvd_iff_nat)
  then show False using assms dvd_imp_le [of n "j - i"] by simp
qed

section \<open>Rounding up\<close>

text \<open>The rounding every allocator of the kernel uses, \<open>(v + (a - 1)) & ~(a - 1)\<close>.\<close>

definition align_up :: "u64 \<Rightarrow> u64 \<Rightarrow> u64" where
  "align_up v a = (v + (a - 1)) AND NOT (a - 1)"

lemma unat_align_up:
  assumes "a = 2 ^ n"
  shows "unat (align_up v a) = unat (v + (2 ^ n - 1)) div 2 ^ n * 2 ^ n"
proof -
  have m: "a - 1 = mask n"
    using assms by (simp add: mask_eq_exp_minus_1)
  show ?thesis
    unfolding align_up_def m unat_and_not_mask by (simp add: mask_eq_exp_minus_1)
qed

lemma round_up_bounds:
  fixes v m :: nat
  assumes "0 < m"
  shows "v \<le> (v + (m - 1)) div m * m" and "(v + (m - 1)) div m * m < v + m"
proof -
  have "(v + (m - 1)) div m * m + (v + (m - 1)) mod m = v + (m - 1)"
    by (rule div_mult_mod_eq)
  moreover have "(v + (m - 1)) mod m < m"
    using assms by simp
  ultimately show "v \<le> (v + (m - 1)) div m * m" and "(v + (m - 1)) div m * m < v + m"
    using assms by arith+
qed

text \<open>Away from the top of the address space the rounding is the mathematical one.\<close>

lemma align_up_nowrap:
  assumes a: "a = 2 ^ n" and n: "n < 64" and fits: "unat v + 2 ^ n \<le> 2 ^ 64"
  shows "unat (align_up v a) = (unat v + (2 ^ n - 1)) div 2 ^ n * 2 ^ n"
    and "unat v \<le> unat (align_up v a)"
    and "unat (align_up v a) < unat v + 2 ^ n"
proof -
  have "uint (mask n :: u64) = mask n"
    using n by (simp add: uint_mask_eq min_def)
  then have "unat (mask n :: u64) = mask n"
    by (simp add: unat_eq_nat_uint mask_eq_exp_minus_1 nat_diff_distrib nat_power_eq)
  then have p: "unat (2 ^ n - 1 :: u64) = 2 ^ n - 1"
    by (simp add: mask_eq_exp_minus_1)
  show eq: "unat (align_up v a) = (unat v + (2 ^ n - 1)) div 2 ^ n * 2 ^ n"
    using a fits p by (simp add: unat_align_up unat_add_nowrap)
  show "unat v \<le> unat (align_up v a)" and "unat (align_up v a) < unat v + 2 ^ n"
    unfolding eq by (rule round_up_bounds, simp)+
qed

section \<open>C strings\<close>

definition NUL :: char where
  "NUL = CHR 0x00"

definition c_at :: "string \<Rightarrow> nat \<Rightarrow> char" where
  "c_at s i = (if i < length s then s ! i else NUL)"

definition cstring :: "string \<Rightarrow> bool" where
  "cstring s \<longleftrightarrow> NUL \<notin> set s"

definition char_of_byte :: "byte \<Rightarrow> char" where
  "char_of_byte b = char_of (unat b)"

definition byte_of_char :: "char \<Rightarrow> byte" where
  "byte_of_char c = of_nat (of_char c)"

lemma char_of_byte_of_char [simp]: "char_of_byte (byte_of_char c) = c"
proof -
  have "of_char c < (256 :: nat)"
    using nat_of_char_less_256 .
  then show ?thesis
    by (simp add: char_of_byte_def byte_of_char_def unat_of_nat)
qed

lemma byte_of_char_of_byte [simp]: "byte_of_char (char_of_byte b) = b"
proof -
  have "unat b < 256"
    using unsigned_less [of b] by simp
  then show ?thesis
    by (simp add: char_of_byte_def byte_of_char_def)
qed

lemma cstring_Nil [simp]: "cstring []"
  by (simp add: cstring_def)

lemma cstring_Cons [simp]: "cstring (c # s) \<longleftrightarrow> c \<noteq> NUL \<and> cstring s"
  by (auto simp: cstring_def)

lemma cstring_append [simp]: "cstring (s @ t) \<longleftrightarrow> cstring s \<and> cstring t"
  by (auto simp: cstring_def)

lemma c_at_NUL_iff: "cstring s \<Longrightarrow> c_at s i = NUL \<longleftrightarrow> length s \<le> i"
  by (auto simp: c_at_def cstring_def) (metis nth_mem)

text \<open>The string in a buffer: the bytes before the first NUL.\<close>

definition c_text :: "byte list \<Rightarrow> string" where
  "c_text bs = map char_of_byte (takeWhile (\<lambda>b. b \<noteq> 0) bs)"

lemma byte_of_char_inj [simp]: "byte_of_char c = byte_of_char d \<longleftrightarrow> c = d"
  by (metis char_of_byte_of_char)

lemma byte_of_char_zero [simp]: "byte_of_char c = 0 \<longleftrightarrow> c = NUL"
proof -
  have "byte_of_char NUL = 0" by (simp add: NUL_def byte_of_char_def)
  then show ?thesis by (metis byte_of_char_inj)
qed

lemma c_text_bytes: "cstring s \<Longrightarrow> c_text (map byte_of_char s) = s"
  by (induction s) (auto simp: c_text_def)

section \<open>Little-endian integers\<close>

definition le16 :: "byte \<Rightarrow> byte \<Rightarrow> u16" where
  "le16 b0 b1 = ucast b0 OR push_bit 8 (ucast b1)"

definition le32 :: "byte \<Rightarrow> byte \<Rightarrow> byte \<Rightarrow> byte \<Rightarrow> u32" where
  "le32 b0 b1 b2 b3 =
     ucast b0 OR push_bit 8 (ucast b1) OR push_bit 16 (ucast b2) OR push_bit 24 (ucast b3)"

definition bytes16 :: "u16 \<Rightarrow> byte list" where
  "bytes16 w = [ucast w, ucast (drop_bit 8 w)]"

definition bytes32 :: "u32 \<Rightarrow> byte list" where
  "bytes32 w = [ucast w, ucast (drop_bit 8 w), ucast (drop_bit 16 w), ucast (drop_bit 24 w)]"

lemma length_bytes16 [simp]: "length (bytes16 w) = 2"
  by (simp add: bytes16_def)

lemma length_bytes32 [simp]: "length (bytes32 w) = 4"
  by (simp add: bytes32_def)

lemma le16_bytes16 [simp]: "le16 (ucast w) (ucast (drop_bit 8 w)) = w"
  unfolding le16_def by (rule bit_word_eqI) (auto simp: bit_simps)

lemma le32_bytes32 [simp]:
  "le32 (ucast w) (ucast (drop_bit 8 w)) (ucast (drop_bit 16 w)) (ucast (drop_bit 24 w)) = w"
proof (rule bit_word_eqI)
  fix n
  assume "n < LENGTH(32)"
  then consider "n < 8" | "8 \<le> n" "n < 16" | "16 \<le> n" "n < 24" | "24 \<le> n" "n < 32"
    by fastforce
  then show "bit (le32 (ucast w) (ucast (drop_bit 8 w)) (ucast (drop_bit 16 w))
      (ucast (drop_bit 24 w))) n = bit w n"
    by cases (simp_all add: le32_def bit_simps less_diff_conv2)
qed

lemma bit_low_mask_int:
  "bit (0xFF :: int) n \<longleftrightarrow> n < 8" "bit (0xF :: int) n \<longleftrightarrow> n < 4"
  "bit (0xFFFF :: int) n \<longleftrightarrow> n < 16" "bit (0xFFFFFFFF :: int) n \<longleftrightarrow> n < 32"
proof -
  have m: "(0xFF :: int) = mask 8" "(0xF :: int) = mask 4" "(0xFFFF :: int) = mask 16"
    "(0xFFFFFFFF :: int) = mask 32"
    by (simp_all add: mask_eq_exp_minus_1)
  show "bit (0xFF :: int) n \<longleftrightarrow> n < 8" "bit (0xF :: int) n \<longleftrightarrow> n < 4"
    "bit (0xFFFF :: int) n \<longleftrightarrow> n < 16" "bit (0xFFFFFFFF :: int) n \<longleftrightarrow> n < 32"
    unfolding m by (simp_all add: bit_mask_iff)
qed

lemma ucast_low_byte [simp]:
  "(ucast ((w :: u16) AND 0xFF) :: byte) = ucast w" "(ucast ((v :: u32) AND 0xFF) :: byte) = ucast v"
  by (rule bit_word_eqI, auto simp: bit_simps bit_low_mask_int)+

lemma bit_byte_high: "8 \<le> n \<Longrightarrow> \<not> bit (b :: byte) n"
  using bit_imp_le_length [of b n] by auto

lemma bytes16_le16 [simp]: "bytes16 (le16 b0 b1) = [b0, b1]"
  unfolding bytes16_def le16_def by (auto intro!: bit_word_eqI simp: bit_simps bit_byte_high)

section \<open>Lists\<close>

lemma take_prefix_append [simp]: "take (length xs) (xs @ ys) = xs"
  by simp

lemma find_first:
  "\<forall>x\<in>set xs. \<not> P x \<Longrightarrow> P y \<Longrightarrow> find P (xs @ y # zs) = Some y"
  by (induction xs) auto

lemma find_split:
  "find P xs = Some x \<Longrightarrow> \<exists>us vs. xs = us @ x # vs \<and> P x \<and> (\<forall>u\<in>set us. \<not> P u)"
proof (induction xs)
  case (Cons a xs)
  show ?case
  proof (cases "P a")
    case True
    then show ?thesis using Cons.prems by (intro exI [of _ "[]"] exI [of _ xs]) auto
  next
    case False
    then obtain us vs where "xs = us @ x # vs" "P x" "\<forall>u\<in>set us. \<not> P u" using Cons by auto
    then show ?thesis using False by (intro exI [of _ "a # us"] exI [of _ vs]) auto
  qed
qed simp

lemma find_none: "\<forall>x\<in>set xs. \<not> P x \<Longrightarrow> find P xs = None"
  by (induction xs) auto

lemma map_nth_suffix: "map ((!) l) [k..<length l] = drop k l"
  by (metis add_0 drop_map drop_upt map_nth)

end
