(* ===== verification/Bump.thy ===== *)
theory Bump
  imports Prelude
begin

text \<open>
  The early-boot allocators of \<^verbatim>\<open>kernel/mem\<close>: the bump allocator
  (\<^verbatim>\<open>bump_alloc.cpp\<close>), the physical page allocator that delegates to it
  (\<^verbatim>\<open>pma.cpp\<close>) and the stub of the virtual memory manager (\<^verbatim>\<open>vmm.cpp\<close>).

  The state is the static \<open>bump_ptr\<close>, with \<open>0\<close> for not yet initialised. What the linker
  script and the boot loader supply, the address of \<open>__kernel_end\<close>, the address of the
  static heap array and the offset of the higher-half direct map, is a record that every
  operation takes as an argument.
\<close>

record boot_env =
  kernel_end :: u64
  hhdm_offset :: "u64 option"
  static_heap :: u64

definition bump_align_up :: "u64 \<Rightarrow> u64 \<Rightarrow> u64" where
  "bump_align_up v a = (let msk = a - 1 in (v + msk) AND NOT msk)"

lemma bump_align_up_eq [simp]: "bump_align_up v a = align_up v a"
  by (simp add: bump_align_up_def align_up_def Let_def)

text \<open>The first block starts at the page after \<open>__kernel_end\<close>, moved into the direct map
  when the linker symbol looks like a physical address.\<close>

definition bump_base :: "boot_env \<Rightarrow> u64" where
  "bump_base env =
     (let ke = kernel_end env;
          ke' = (case hhdm_offset env of
                   Some off \<Rightarrow> (if ke < 0x100000000 then ke + off else ke)
                 | None \<Rightarrow> ke)
      in bump_align_up ke' 0x1000)"

definition bump_alloc_alloc :: "boot_env \<Rightarrow> u64 \<Rightarrow> u64 \<Rightarrow> u64 \<Rightarrow> u64 \<times> u64" where
  "bump_alloc_alloc env sz algn bp =
     (let bp0 = (if bp = 0 then bump_base env else bp);
          a = bump_align_up bp0 (if algn \<noteq> 0 then algn else 1)
      in (a, bump_align_up (a + sz) 0x1000))"

definition bump_alloc_used :: "boot_env \<Rightarrow> u64 \<Rightarrow> u64" where
  "bump_alloc_used env bp = (if bp = 0 then 0 else bp - kernel_end env)"

definition pma_alloc_pages :: "boot_env \<Rightarrow> u64 \<Rightarrow> u64 \<Rightarrow> u64 \<times> u64" where
  "pma_alloc_pages env count bp =
     (if count = 0 then (0, bp) else bump_alloc_alloc env (count * 0x1000) 0x1000 bp)"

definition pma_free_pages :: "u64 \<Rightarrow> u64 \<Rightarrow> u64 \<Rightarrow> u64" where
  "pma_free_pages a count bp = bp"

definition vmm_map_range :: "u64 \<Rightarrow> u64 \<Rightarrow> u64 \<Rightarrow> u64 \<Rightarrow> int" where
  "vmm_map_range phys virt sz flags = 0"

definition vmm_unmap_range :: "u64 \<Rightarrow> u64 \<Rightarrow> int" where
  "vmm_unmap_range virt sz = 0"

section \<open>Where the next block goes\<close>

text \<open>The pointer the next allocation rounds up from.\<close>

definition bump_pos :: "boot_env \<Rightarrow> u64 \<Rightarrow> nat" where
  "bump_pos env bp = unat (if bp = 0 then bump_base env else bp)"

definition page_aligned :: "u64 \<Rightarrow> bool" where
  "page_aligned a \<longleftrightarrow> unat a mod 4096 = 0"

lemma unat_page [simp]: "unat (0x1000 :: u64) = 4096"
  by simp

lemma align_page_id:
  assumes "page_aligned a"
  shows "align_up a 0x1000 = a"
proof -
  obtain q where q: "unat a = 4096 * q"
    using assms by (auto simp: page_aligned_def mod_eq_0_iff_dvd dvd_def)
  have "4096 * q < 4096 * 2 ^ 52"
    using unat_lt_u64 [of a] unfolding q by simp
  then have "q < 2 ^ 52" by simp
  then have "unat a + 2 ^ 12 \<le> 2 ^ 64"
    unfolding q by simp
  then have "unat (align_up a 0x1000) = (unat a + (2 ^ 12 - 1)) div 2 ^ 12 * 2 ^ 12"
    by (intro align_up_nowrap(1)) simp_all
  also have "\<dots> = unat a"
    unfolding q by simp
  finally have "unat (align_up a 0x1000) = unat a" .
  then show ?thesis by (simp add: word_unat_eq_iff)
qed

lemma page_aligned_align_up:
  assumes "unat v + 4096 \<le> 2 ^ 64"
  shows "page_aligned (align_up v 0x1000)"
  using align_up_nowrap(1) [of "0x1000" 12 v] assms by (simp add: page_aligned_def)

text \<open>A page allocation that fits below the top of the address space returns the current
  position, rounded to the page it already is at, and moves the position past the block.\<close>

lemma pma_alloc_pages_spec:
  assumes pos: "page_aligned (if bp = 0 then bump_base env else bp)"
    and base: "(if bp = 0 then bump_base env else bp) \<noteq> 0"
    and n: "0 < unat count"
    and room: "bump_pos env bp + unat count * 4096 + 4096 \<le> 2 ^ 64"
    and r: "pma_alloc_pages env count bp = (blk, bp')"
  shows "unat blk = bump_pos env bp" and "blk \<noteq> 0"
    and "bump_pos env bp' = bump_pos env bp + unat count * 4096"
    and "bp' \<noteq> 0" and "page_aligned bp'"
proof -
  let ?p = "if bp = 0 then bump_base env else bp"
  have szc: "unat (count * 0x1000) = unat count * 4096"
  proof -
    have "unat count * 4096 < 2 ^ 64"
      using room by linarith
    then show ?thesis by (simp add: unat_word_ariths)
  qed
  have blk: "blk = ?p" and bp': "bp' = align_up (?p + count * 0x1000) 0x1000"
    using r n align_page_id [OF pos]
    by (auto simp: pma_alloc_pages_def bump_alloc_alloc_def Let_def split: if_splits)
  have sum: "unat (?p + count * 0x1000) = unat ?p + unat count * 4096"
    using room by (subst unat_add_nowrap) (simp_all only: szc, simp add: bump_pos_def)
  have "page_aligned (?p + count * 0x1000)"
    using pos by (simp only: page_aligned_def sum mod_mult_self1)
  then have bp'': "bp' = ?p + count * 0x1000"
    using bp' by (simp add: align_page_id)
  show "unat blk = bump_pos env bp" and "blk \<noteq> 0"
    using blk base by (auto simp: bump_pos_def)
  show "bp' \<noteq> 0"
    using sum n unfolding bp'' by (metis add_gr_0 less_not_refl mult_pos_pos unat_0 zero_less_numeral)
  then show "bump_pos env bp' = bump_pos env bp + unat count * 4096"
    using sum unfolding bp'' bump_pos_def by simp
  show "page_aligned bp'"
    using \<open>page_aligned (?p + count * 0x1000)\<close> bp'' by simp
qed

end
