(* ===== verification/Kheap.thy ===== *)
theory Kheap
  imports Bump
begin

text \<open>
  The kernel heap of \<^verbatim>\<open>kernel/mem/heap.cpp\<close>: a free list of blocks that live in the
  memory they describe. The state keeps the headers as the memory has them, a function from
  addresses to \<open>FreeBlock\<close> values, and the head pointer \<open>free_list\<close>; the list is
  followed through the \<open>next\<close> fields, so the loops of \<open>kmalloc\<close> and \<open>kfree\<close> are
  functions that may not return (\<open>None\<close>). The invariant \<open>heap_inv\<close> says that the
  free list is a finite list and that the free blocks and the allocated ones are disjoint.
\<close>

record free_block =
  fb_size :: u64
  fb_next :: u64

record heap =
  free_list :: u64
  heap_start :: u64
  heap_size :: u64
  hdr :: "u64 \<Rightarrow> free_block"
  bump_ptr :: u64

definition blk_size :: "heap \<Rightarrow> u64 \<Rightarrow> u64" where
  "blk_size h = (\<lambda>b. fb_size (hdr h b))"

definition blk_next :: "heap \<Rightarrow> u64 \<Rightarrow> u64" where
  "blk_next h = (\<lambda>b. fb_next (hdr h b))"

definition set_size :: "u64 \<Rightarrow> u64 \<Rightarrow> heap \<Rightarrow> heap" where
  "set_size b n h = h\<lparr>hdr := (hdr h)(b := (hdr h b)\<lparr>fb_size := n\<rparr>)\<rparr>"

definition set_next :: "u64 \<Rightarrow> u64 \<Rightarrow> heap \<Rightarrow> heap" where
  "set_next b n h = h\<lparr>hdr := (hdr h)(b := (hdr h b)\<lparr>fb_next := n\<rparr>)\<rparr>"

definition link_after :: "u64 \<Rightarrow> u64 \<Rightarrow> heap \<Rightarrow> heap" where
  "link_after prev b h = (if prev \<noteq> 0 then set_next prev b h else h\<lparr>free_list := b\<rparr>)"

text \<open>\<open>sizeof(FreeBlock)\<close> is 16, so the aligned header is 16 bytes.\<close>

definition heap_header :: u64 where
  "heap_header = align_up 16 16"

definition static_heap_size :: u64 where
  "static_heap_size = 1024 * 1024"

definition heap_grow_pages :: "boot_env \<Rightarrow> u64 \<Rightarrow> heap \<Rightarrow> bool \<times> heap" where
  "heap_grow_pages env pages h =
     (if pages = 0 then (False, h)
      else let (blk, bp) = pma_alloc_pages env pages (bump_ptr h);
               h1 = h\<lparr>bump_ptr := bp\<rparr>
           in if blk = 0 then (False, h1)
              else let grow_size = pages * 0x1000;
                       r = vmm_map_range blk blk grow_size 0
                   in if r \<noteq> 0 then (False, h1)
                      else let h2 = set_size blk grow_size h1;
                               h3 = set_next blk (free_list h2) h2;
                               h4 = h3\<lparr>free_list := blk, heap_size := heap_size h3 + grow_size\<rparr>
                           in (True, h4))"

definition heap_init :: "boot_env \<Rightarrow> u64 \<Rightarrow> heap \<Rightarrow> heap" where
  "heap_init env sz h =
     (if heap_start h \<noteq> 0 then h
      else let a = align_up sz 0x1000;
               alloc_size = (if static_heap_size < a then static_heap_size else a);
               mem = static_heap env;
               h1 = h\<lparr>heap_start := mem, heap_size := alloc_size, free_list := mem\<rparr>
           in set_next mem 0 (set_size mem alloc_size h1))"

text \<open>What \<open>kmalloc\<close> does with the block it found: split it when the rest can hold a
  header and sixteen bytes, use it whole otherwise.\<close>

definition kmalloc_take :: "u64 \<Rightarrow> u64 \<Rightarrow> u64 \<Rightarrow> heap \<Rightarrow> u64 \<times> heap" where
  "kmalloc_take tot prev cur h =
     (if tot + (heap_header + 16) \<le> blk_size h cur then
        let nxt = cur + tot;
            h1 = set_size nxt (blk_size h cur - tot) h;
            h2 = set_next nxt (blk_next h1 cur) h1;
            h3 = set_size cur tot h2
        in (cur + heap_header, link_after prev nxt h3)
      else (cur + heap_header, link_after prev (blk_next h cur) h))"

partial_function (option) kmalloc_scan ::
  "u64 \<Rightarrow> u64 \<Rightarrow> u64 \<Rightarrow> heap \<Rightarrow> (u64 option \<times> heap) option" where
  "kmalloc_scan tot prev cur h =
     (if cur = 0 then Some (None, h)
      else if tot \<le> blk_size h cur
      then Some (case kmalloc_take tot prev cur h of (p, h') \<Rightarrow> (Some p, h'))
      else kmalloc_scan tot cur (blk_next h cur) h)"

definition kmalloc_total :: "u64 \<Rightarrow> u64" where
  "kmalloc_total sz = align_up sz 16 + heap_header"

definition kmalloc_grow_pages :: "u64 \<Rightarrow> u64" where
  "kmalloc_grow_pages tot =
     (let n = align_up tot 0x1000 div 0x1000;
          pages_needed = (if n = 0 then 1 else n)
      in if pages_needed < 4 then 4 else pages_needed)"

definition kmalloc :: "boot_env \<Rightarrow> u64 \<Rightarrow> heap \<Rightarrow> (u64 \<times> heap) option" where
  "kmalloc env sz h =
     (if free_list h = 0 then Some (0, h)
      else if sz = 0 then Some (0, h)
      else let tot = kmalloc_total sz
           in do {
             (r, h1) \<leftarrow> kmalloc_scan tot 0 (free_list h) h;
             case r of
               Some p \<Rightarrow> Some (p, h1)
             | None \<Rightarrow>
                 (let (grew, h2) = heap_grow_pages env (kmalloc_grow_pages tot) h1
                  in if \<not> grew then Some (0, h2)
                     else do {
                       (r', h3) \<leftarrow> kmalloc_scan tot 0 (free_list h2) h2;
                       Some (case r' of Some p \<Rightarrow> p | None \<Rightarrow> 0, h3)
                     })
           })"

partial_function (option) kfree_find :: "u64 \<Rightarrow> u64 \<Rightarrow> u64 \<Rightarrow> heap \<Rightarrow> (u64 \<times> u64) option" where
  "kfree_find blk prev cur h =
     (if cur \<noteq> 0 \<and> cur < blk then kfree_find blk cur (blk_next h cur) h
      else Some (prev, cur))"

definition kfree_prev :: "u64 \<Rightarrow> u64 \<Rightarrow> heap \<Rightarrow> u64 \<times> heap" where
  "kfree_prev blk prev h =
     (if prev \<noteq> 0 then
        if prev + blk_size h prev = blk
        then (prev, set_size prev (blk_size h prev + blk_size h blk) h)
        else (blk, set_next prev blk h)
      else (blk, h\<lparr>free_list := blk\<rparr>))"

definition kfree_next :: "u64 \<Rightarrow> u64 \<Rightarrow> heap \<Rightarrow> heap" where
  "kfree_next blk cur h =
     (if cur \<noteq> 0 then
        if blk + blk_size h blk = cur
        then let h1 = set_size blk (blk_size h blk + blk_size h cur) h
             in set_next blk (blk_next h1 cur) h1
        else set_next blk cur h
      else set_next blk 0 h)"

definition kfree :: "u64 \<Rightarrow> heap \<Rightarrow> heap option" where
  "kfree ptr h =
     (if ptr = 0 then Some h
      else let blk = ptr - heap_header
           in do {
             (prev, cur) \<leftarrow> kfree_find blk 0 (free_list h) h;
             Some (case kfree_prev blk prev h of (b, h1) \<Rightarrow> kfree_next b cur h1)
           })"

section \<open>The free list as a list\<close>

text \<open>\<open>blk_path h p bs q\<close>: following \<open>next\<close> from \<open>p\<close> visits exactly \<open>bs\<close> and
  arrives at \<open>q\<close>.\<close>

fun blk_path :: "heap \<Rightarrow> u64 \<Rightarrow> u64 list \<Rightarrow> u64 \<Rightarrow> bool" where
  "blk_path h p [] q \<longleftrightarrow> p = q"
| "blk_path h p (b # bs) q \<longleftrightarrow> p = b \<and> b \<noteq> 0 \<and> blk_path h (blk_next h b) bs q"

abbreviation blk_chain :: "heap \<Rightarrow> u64 \<Rightarrow> u64 list \<Rightarrow> bool" where
  "blk_chain h p bs \<equiv> blk_path h p bs 0"

lemma blk_path_append: "blk_path h p (xs @ ys) q \<longleftrightarrow> (\<exists>r. blk_path h p xs r \<and> blk_path h r ys q)"
  by (induction xs arbitrary: p) auto

lemma blk_path_cong:
  "(\<And>b. b \<in> set bs \<Longrightarrow> blk_next h b = blk_next h' b) \<Longrightarrow> blk_path h p bs q \<longleftrightarrow> blk_path h' p bs q"
  by (induction bs arbitrary: p) auto

lemma blk_path_nonzero: "blk_path h p bs q \<Longrightarrow> b \<in> set bs \<Longrightarrow> b \<noteq> 0"
  by (induction bs arbitrary: p) auto

lemma blk_chain_zero [simp]: "blk_chain h 0 bs \<longleftrightarrow> bs = []"
  by (cases bs) auto

lemma blk_size_upd [simp]:
  "blk_size (set_size b n h) = (blk_size h)(b := n)"
  "blk_size (set_next b n h) = blk_size h"
  "blk_size (link_after b n h) = blk_size h"
  "blk_size (h\<lparr>free_list := x\<rparr>) = blk_size h"
  "blk_size (h\<lparr>bump_ptr := y\<rparr>) = blk_size h"
  "blk_size (h\<lparr>heap_size := y\<rparr>) = blk_size h"
  "blk_size (h\<lparr>heap_start := y\<rparr>) = blk_size h"
  by (auto simp: blk_size_def set_size_def set_next_def link_after_def fun_eq_iff)

lemma blk_next_upd [simp]:
  "blk_next (set_next b n h) = (blk_next h)(b := n)"
  "blk_next (set_size b n h) = blk_next h"
  "blk_next (h\<lparr>free_list := x\<rparr>) = blk_next h"
  "blk_next (h\<lparr>bump_ptr := y\<rparr>) = blk_next h"
  "blk_next (h\<lparr>heap_size := y\<rparr>) = blk_next h"
  "blk_next (h\<lparr>heap_start := y\<rparr>) = blk_next h"
  by (auto simp: blk_next_def set_size_def set_next_def fun_eq_iff)

lemma heap_fields_upd [simp]:
  "free_list (set_size b n h) = free_list h"
  "free_list (set_next b n h) = free_list h"
  "bump_ptr (set_size b n h) = bump_ptr h"
  "bump_ptr (set_next b n h) = bump_ptr h"
  "bump_ptr (link_after b n h) = bump_ptr h"
  "heap_size (set_size b n h) = heap_size h"
  "heap_size (set_next b n h) = heap_size h"
  "heap_size (link_after b n h) = heap_size h"
  by (auto simp: set_size_def set_next_def link_after_def)

lemma blk_path_set_size [simp]: "blk_path (set_size b n h) p bs q \<longleftrightarrow> blk_path h p bs q"
  by (rule blk_path_cong) simp

lemma blk_path_set_next_notin: "b \<notin> set bs \<Longrightarrow> blk_path (set_next b n h) p bs q \<longleftrightarrow> blk_path h p bs q"
  by (rule blk_path_cong) auto

lemma blk_path_free_list [simp]: "blk_path (h\<lparr>free_list := x\<rparr>) p bs q \<longleftrightarrow> blk_path h p bs q"
  by (rule blk_path_cong) simp

lemma blk_path_last:
  assumes "blk_path h p (xs @ [x]) q"
  shows "blk_path h p xs x" and "blk_next h x = q" and "x \<noteq> 0"
  using assms by (auto simp: blk_path_append)

lemma last_zero: "blk_path h p xs q \<Longrightarrow> last (0 # xs) = 0 \<longleftrightarrow> xs = []"
  by (metis last_ConsL last_ConsR last_in_set blk_path_nonzero)

text \<open>Relinking behind a prefix \<open>xs\<close> replaces the rest of the list.\<close>

lemma link_after_chain:
  assumes p: "blk_path h (free_list h) xs r" and d: "distinct xs"
    and z: "blk_chain h q zs" and xz: "set xs \<inter> set zs = {}"
  shows "blk_chain (link_after (last (0 # xs)) q h)
           (free_list (link_after (last (0 # xs)) q h)) (xs @ zs)"
proof (cases xs rule: rev_cases)
  case Nil
  with z show ?thesis by (simp add: link_after_def)
next
  case (snoc xs' x)
  from p have "blk_path h (free_list h) xs' x" and "x \<noteq> 0"
    unfolding snoc by (auto dest: blk_path_last)
  moreover have "x \<notin> set xs'" and "x \<notin> set zs"
    using d xz unfolding snoc by auto
  ultimately show ?thesis
    using z unfolding snoc
    by (auto simp: link_after_def blk_path_append blk_path_set_next_notin)
qed

section \<open>Disjoint blocks\<close>

text \<open>\<open>layout sz B L\<close>: the blocks at the addresses \<open>B\<close>, with the sizes \<open>sz\<close>, lie
  below \<open>L\<close> and do not overlap, and each has room for its header.\<close>

definition blk_hi :: "(u64 \<Rightarrow> u64) \<Rightarrow> u64 \<Rightarrow> nat" where
  "blk_hi sz b = unat b + unat (sz b)"

definition layout :: "(u64 \<Rightarrow> u64) \<Rightarrow> u64 set \<Rightarrow> nat \<Rightarrow> bool" where
  "layout sz B L \<longleftrightarrow> finite B \<and>
     (\<forall>b\<in>B. b \<noteq> 0 \<and> 16 \<le> unat (sz b) \<and> blk_hi sz b \<le> L) \<and>
     (\<forall>b\<in>B. \<forall>c\<in>B. b \<noteq> c \<longrightarrow> blk_hi sz b \<le> unat c \<or> blk_hi sz c \<le> unat b)"

lemma layoutD:
  assumes "layout sz B L" "b \<in> B"
  shows "b \<noteq> 0" and "16 \<le> unat (sz b)" and "unat b + unat (sz b) \<le> L"
  using assms by (auto simp: layout_def blk_hi_def)

lemma layout_disjoint:
  assumes "layout sz B L" "b \<in> B" "c \<in> B" "b \<noteq> c"
  shows "unat b + unat (sz b) \<le> unat c \<or> unat c + unat (sz c) \<le> unat b"
  using assms by (auto simp: layout_def blk_hi_def)

lemma layout_cong:
  "(\<And>b. b \<in> B \<Longrightarrow> sz b = sz' b) \<Longrightarrow> layout sz B L \<longleftrightarrow> layout sz' B L"
  by (simp add: layout_def blk_hi_def)

lemma layout_mono: "layout sz B L \<Longrightarrow> L \<le> L' \<Longrightarrow> layout sz B L'"
  by (auto simp: layout_def)

lemma layout_split:
  assumes lay: "layout sz B L" and b: "b \<in> B" and L: "L \<le> 2 ^ 64"
    and t: "16 \<le> unat t" "unat t + 16 \<le> unat (sz b)"
  shows "b + t \<notin> B"
    and "layout (sz(b := t, b + t := sz b - t)) (insert (b + t) B) L"
proof -
  note d = layoutD [OF lay]
  have nt: "unat (b + t) = unat b + unat t"
    using d(3) [OF b] t L by (intro unat_add_nowrap) simp
  have st: "unat (sz b - t) = unat (sz b) - unat t"
    using t by (intro unat_sub_le) (simp add: word_le_nat_alt)
  show new: "b + t \<notin> B"
  proof
    assume c: "b + t \<in> B"
    have "b + t \<noteq> b" using nt t by auto
    then show False
      using layout_disjoint [OF lay b c] d(2) [OF c] nt t by auto
  qed
  have nz: "b + t \<noteq> 0" using nt t by auto
  have "b + t \<noteq> b" using new b by auto
  note dj = layout_disjoint [OF lay _ b]
  have fin: "finite B" using lay by (simp add: layout_def)
  show "layout (sz(b := t, b + t := sz b - t)) (insert (b + t) B) L"
    unfolding layout_def blk_hi_def
  proof (intro conjI ballI impI)
    show "finite (insert (b + t) B)" using fin by simp
  next
    fix c assume c: "c \<in> insert (b + t) B"
    then show "c \<noteq> 0" and "16 \<le> unat ((sz(b := t, b + t := sz b - t)) c)"
      using d nz t st by auto
    show "unat c + unat ((sz(b := t, b + t := sz b - t)) c) \<le> L"
      using c d(3) [of c] d(3) [OF b] t nt st by auto
  next
    fix c e assume "c \<in> insert (b + t) B" and "e \<in> insert (b + t) B" and "c \<noteq> e"
    then show "unat c + unat ((sz(b := t, b + t := sz b - t)) c) \<le> unat e \<or>
      unat e + unat ((sz(b := t, b + t := sz b - t)) e) \<le> unat c"
      using dj [of c] dj [of e] layout_disjoint [OF lay, of c e] nt st t new b d(2)
      by auto
  qed
qed

lemma layout_merge:
  assumes lay: "layout sz B L" and b: "b \<in> B" and c: "c \<in> B" and L: "L \<le> 2 ^ 64"
    and adj: "b + sz b = c"
  shows "b \<noteq> c" and "layout (sz(b := sz b + sz c)) (B - {c}) L"
    and "unat (sz b + sz c) = unat (sz b) + unat (sz c)"
proof -
  note d = layoutD [OF lay]
  have uc: "unat c = unat b + unat (sz b)"
  proof (cases "unat b + unat (sz b) < 2 ^ 64")
    case True
    then show ?thesis using adj by (auto simp: unat_add_nowrap)
  next
    case False
    then have "unat b + unat (sz b) = 2 ^ 64"
      using d(3) [OF b] L by simp
    then have "unat (b + sz b) = 0"
      by (simp add: unat_word_ariths)
    with adj have "c = 0" by (metis unat_eq_zero)
    with d(1) [OF c] show ?thesis by simp
  qed
  show bc: "b \<noteq> c" using uc d(2) [OF b] by auto
  have "0 < unat b" using d(1) [OF b] by (simp add: unat_gt_0)
  then show us: "unat (sz b + sz c) = unat (sz b) + unat (sz c)"
    using d(3) [OF c] uc L by (intro unat_add_nowrap) simp
  have dj: "\<And>x y. x \<in> B \<Longrightarrow> y \<in> B \<Longrightarrow> x \<noteq> y \<Longrightarrow>
      unat x + unat (sz x) \<le> unat y \<or> unat y + unat (sz y) \<le> unat x"
    using layout_disjoint [OF lay] .
  have fin: "finite B" using lay by (simp add: layout_def)
  show "layout (sz(b := sz b + sz c)) (B - {c}) L"
    unfolding layout_def blk_hi_def
  proof (intro conjI ballI impI)
    show "finite (B - {c})" using fin by simp
  next
    fix x assume x: "x \<in> B - {c}"
    then show "x \<noteq> 0" and "16 \<le> unat ((sz(b := sz b + sz c)) x)"
      using d(1,2) us by (auto simp: trans_le_add1)
    show "unat x + unat ((sz(b := sz b + sz c)) x) \<le> L"
      using x d(3) [of x] d(3) [OF c] us uc by auto
  next
    fix x y assume x: "x \<in> B - {c}" and y: "y \<in> B - {c}" and "x \<noteq> y"
    then show "unat x + unat ((sz(b := sz b + sz c)) x) \<le> unat y \<or>
        unat y + unat ((sz(b := sz b + sz c)) y) \<le> unat x"
      using dj [of x y] dj [of x c] dj [of y c] b c us uc d(2) [of x] d(2) [of y] by auto
  qed
qed

lemma layout_insert:
  assumes lay: "layout sz B L" and b: "unat b = L" "b \<noteq> 0" and n: "16 \<le> unat n"
  shows "b \<notin> B" and "layout (sz(b := n)) (insert b B) (L + unat n)"
proof -
  note d = layoutD [OF lay]
  show nb: "b \<notin> B"
    using d(2,3) [of b] b by fastforce
  have "layout (sz(b := n)) B L"
    using lay nb layout_cong [of B sz "sz(b := n)" L] by (metis fun_upd_other)
  then show "layout (sz(b := n)) (insert b B) (L + unat n)"
    using b n by (auto simp: layout_def blk_hi_def)
qed

lemma layout_subset: "layout sz B L \<Longrightarrow> C \<subseteq> B \<Longrightarrow> layout sz C L"
  unfolding layout_def by (meson finite_subset subsetD)

section \<open>The heap invariant\<close>

text \<open>
  \<open>heap_inv env k A h\<close>: \<open>A\<close> are the pointers handed out and not yet freed. The free list
  is a finite list of blocks, none of them allocated, and the free and the allocated blocks
  together are disjoint and lie below the bump pointer. \<open>k\<close> is the number of bytes the
  bump pointer can still advance: the sources never check it against the size of the
  memory, so the invariant carries the room that is left as a budget.
\<close>

definition alloc_blocks :: "u64 set \<Rightarrow> u64 set" where
  "alloc_blocks A = (\<lambda>p. p - heap_header) ` A"

definition bump_ok :: "boot_env \<Rightarrow> nat \<Rightarrow> u64 \<Rightarrow> bool" where
  "bump_ok env k bp \<longleftrightarrow>
     (let p = (if bp = 0 then bump_base env else bp)
      in p \<noteq> 0 \<and> page_aligned p \<and> unat p + k + 4096 \<le> 2 ^ 64)"

text \<open>\<open>heap_ok h fs A L\<close>: the same with the list \<open>fs\<close> of free blocks named and the
  upper end \<open>L\<close> of the heap. The last conjunct says that no byte of the heap is lost:
  the sizes of all blocks add up to \<open>heap_size\<close>.\<close>

definition heap_ok :: "heap \<Rightarrow> u64 list \<Rightarrow> u64 set \<Rightarrow> nat \<Rightarrow> bool" where
  "heap_ok h fs A L \<longleftrightarrow>
     blk_chain h (free_list h) fs \<and> distinct fs \<and> set fs \<inter> alloc_blocks A = {} \<and>
     layout (blk_size h) (set fs \<union> alloc_blocks A) L \<and>
     (\<Sum>b\<in>set fs \<union> alloc_blocks A. blk_size h b) = heap_size h"

definition heap_inv :: "boot_env \<Rightarrow> nat \<Rightarrow> u64 set \<Rightarrow> heap \<Rightarrow> bool" where
  "heap_inv env k A h \<longleftrightarrow>
     (\<exists>fs. heap_ok h fs A (bump_pos env (bump_ptr h))) \<and> bump_ok env k (bump_ptr h)"

lemma heap_header_eq [simp]: "heap_header = 16"
  by (simp add: heap_header_def align_up_def)

lemma bump_ok_pos: "bump_ok env k bp \<Longrightarrow> bump_pos env bp + k + 4096 \<le> 2 ^ 64"
  by (auto simp: bump_ok_def bump_pos_def Let_def)

lemma bump_ok_mono: "bump_ok env k bp \<Longrightarrow> j \<le> k \<Longrightarrow> bump_ok env j bp"
  by (auto simp: bump_ok_def Let_def)

lemma heap_inv_mono: "heap_inv env k A h \<Longrightarrow> j \<le> k \<Longrightarrow> heap_inv env j A h"
  by (auto simp: heap_inv_def intro: bump_ok_mono)

lemma alloc_blocks_insert [simp]: "alloc_blocks (insert p A) = insert (p - 16) (alloc_blocks A)"
  by (simp add: alloc_blocks_def)

lemma alloc_blocks_diff: "alloc_blocks (A - {p}) = alloc_blocks A - {p - 16}"
  by (auto simp: alloc_blocks_def)

lemma in_alloc_blocks: "b \<in> alloc_blocks A \<longleftrightarrow> b + 16 \<in> A"
  by (auto simp: alloc_blocks_def image_iff) (metis add_diff_cancel)

text \<open>What a scan of the free list finds.\<close>

lemma kmalloc_scan_chain:
  "blk_chain h cur ys \<Longrightarrow>
     (\<forall>b\<in>set ys. blk_size h b < tot) \<and> kmalloc_scan tot prev cur h = Some (None, h) \<or>
     (\<exists>ys1 b ys2. ys = ys1 @ b # ys2 \<and> tot \<le> blk_size h b \<and>
        (\<forall>c\<in>set ys1. blk_size h c < tot) \<and>
        kmalloc_scan tot prev cur h =
          Some (case kmalloc_take tot (last (prev # ys1)) b h of (p, h') \<Rightarrow> (Some p, h')))"
proof (induction ys arbitrary: cur prev)
  case Nil
  then show ?case by (simp add: kmalloc_scan.simps)
next
  case (Cons b ys)
  then have cur: "cur = b" "b \<noteq> 0" and tl: "blk_chain h (blk_next h b) ys" by auto
  show ?case
  proof (cases "tot \<le> blk_size h b")
    case True
    then have "kmalloc_scan tot prev cur h =
        Some (case kmalloc_take tot (last (prev # [])) b h of (p, h') \<Rightarrow> (Some p, h'))"
      using cur by (simp add: kmalloc_scan.simps)
    with True show ?thesis by (intro disjI2 exI [of _ "[]"] exI [of _ b] exI [of _ ys]) simp
  next
    case False
    then have step: "kmalloc_scan tot prev cur h = kmalloc_scan tot b (blk_next h b) h"
      using cur by (subst kmalloc_scan.simps) simp
    from Cons.IH [OF tl, of b] show ?thesis
    proof
      assume "(\<forall>b\<in>set ys. blk_size h b < tot) \<and>
        kmalloc_scan tot b (blk_next h b) h = Some (None, h)"
      with step False show ?thesis by auto
    next
      assume "\<exists>ys1 b' ys2. ys = ys1 @ b' # ys2 \<and> tot \<le> blk_size h b' \<and>
        (\<forall>c\<in>set ys1. blk_size h c < tot) \<and> kmalloc_scan tot b (blk_next h b) h =
          Some (case kmalloc_take tot (last (b # ys1)) b' h of (p, h') \<Rightarrow> (Some p, h'))"
      then obtain ys1 b' ys2 where *: "ys = ys1 @ b' # ys2" "tot \<le> blk_size h b'"
        "\<forall>c\<in>set ys1. blk_size h c < tot"
        "kmalloc_scan tot b (blk_next h b) h =
          Some (case kmalloc_take tot (last (b # ys1)) b' h of (p, h') \<Rightarrow> (Some p, h'))"
        by blast
      then show ?thesis
        using step False by (intro disjI2 exI [of _ "b # ys1"] exI [of _ b'] exI [of _ ys2]) auto
    qed
  qed
qed

text \<open>Taking a block from the free list, whole or split.\<close>

lemma link_after_fields [simp]:
  "free_list (link_after prev b h) = (if prev = 0 then b else free_list h)"
  by (simp add: link_after_def)

lemma heap_ok_take_whole:
  assumes ok: "heap_ok h (ys1 @ b # ys2) A L"
  shows "heap_ok (link_after (last (0 # ys1)) (blk_next h b) h) (ys1 @ ys2) (insert (b + 16) A) L"
proof -
  let ?h = "link_after (last (0 # ys1)) (blk_next h b) h"
  have p: "blk_path h (free_list h) ys1 b" and c: "blk_chain h (blk_next h b) ys2"
    and d: "distinct (ys1 @ b # ys2)" and dj: "set (ys1 @ b # ys2) \<inter> alloc_blocks A = {}"
    using ok by (auto simp: heap_ok_def blk_path_append)
  have "blk_chain ?h (free_list ?h) (ys1 @ ys2)"
    by (rule link_after_chain [OF p _ c]) (use d in auto)
  moreover have "set (ys1 @ ys2) \<union> alloc_blocks (insert (b + 16) A) =
      set (ys1 @ b # ys2) \<union> alloc_blocks A"
    by auto
  ultimately show ?thesis
    using ok d dj unfolding heap_ok_def by auto
qed

lemma sum_split_block:
  fixes sz :: "u64 \<Rightarrow> u64"
  assumes "finite B" "b \<in> B" "c \<notin> B"
  shows "(\<Sum>x\<in>insert c B. (sz(b := t, c := sz b - t)) x) = (\<Sum>x\<in>B. sz x)"
proof -
  have "b \<noteq> c" using assms by auto
  have "(\<Sum>x\<in>B - {b}. (sz(b := t, c := sz b - t)) x) = (\<Sum>x\<in>B - {b}. sz x)"
    using assms by (intro sum.cong) auto
  then show ?thesis
    using assms \<open>b \<noteq> c\<close> sum.remove [of B b "sz(b := t, c := sz b - t)"] sum.remove [of B b sz]
    by simp
qed

lemma heap_ok_take_split:
  assumes ok: "heap_ok h (ys1 @ b # ys2) A L" and L: "L \<le> 2 ^ 64"
    and t: "16 \<le> unat t" "unat t + 16 \<le> unat (blk_size h b)"
  shows "heap_ok (link_after (last (0 # ys1)) (b + t)
      (set_size b t (set_next (b + t) (blk_next h b) (set_size (b + t) (blk_size h b - t) h))))
      (ys1 @ (b + t) # ys2) (insert (b + 16) A) L"
proof -
  let ?B = "set (ys1 @ b # ys2) \<union> alloc_blocks A"
  let ?g = "set_size b t (set_next (b + t) (blk_next h b) (set_size (b + t) (blk_size h b - t) h))"
  let ?h = "link_after (last (0 # ys1)) (b + t) ?g"
  have p: "blk_path h (free_list h) ys1 b" and c: "blk_chain h (blk_next h b) ys2"
    and d: "distinct (ys1 @ b # ys2)" and lay: "layout (blk_size h) ?B L"
    and dj: "set (ys1 @ b # ys2) \<inter> alloc_blocks A = {}"
    and sm: "(\<Sum>x\<in>?B. blk_size h x) = heap_size h"
    using ok by (auto simp: heap_ok_def blk_path_append)
  have bB: "b \<in> ?B" by simp
  note spl = layout_split [OF lay bB L t]
  have nb: "b + t \<noteq> b" using spl(1) by auto
  have nz: "b + t \<noteq> 0" using layoutD(1) [OF spl(2), of "b + t"] by simp
  have pg: "blk_path ?g (free_list ?g) ys1 b" and cg: "blk_chain ?g (b + t) ((b + t) # ys2)"
    using p c spl(1) nz by (auto simp: blk_path_set_next_notin)
  have ch: "blk_chain ?h (free_list ?h) (ys1 @ (b + t) # ys2)"
    by (rule link_after_chain [OF pg _ cg]) (use d spl(1) in auto)
  have B': "set (ys1 @ (b + t) # ys2) \<union> alloc_blocks (insert (b + 16) A) = insert (b + t) ?B"
    by auto
  have sz: "blk_size ?h = (blk_size h)(b := t, b + t := blk_size h b - t)"
    using nb by (simp add: fun_upd_twist)
  have "finite ?B" using lay by (simp add: layout_def)
  then have sm': "(\<Sum>x\<in>insert (b + t) ?B. blk_size ?h x) = heap_size ?h"
    unfolding sz using sum_split_block [OF _ bB spl(1), of "blk_size h" t] sm by simp
  have "set (ys1 @ (b + t) # ys2) \<inter> alloc_blocks (insert (b + 16) A) = {}"
    and "distinct (ys1 @ (b + t) # ys2)"
    using d dj spl(1) nb by auto
  then show ?thesis
    unfolding heap_ok_def B' using ch sm' spl(2) [folded sz] by blast
qed

lemma kmalloc_take_ok:
  assumes ok: "heap_ok h (ys1 @ b # ys2) A L" and L: "L < 2 ^ 64"
    and t: "32 \<le> unat t" "unat t + 32 < 2 ^ 64" "t \<le> blk_size h b"
    and r: "kmalloc_take t (last (0 # ys1)) b h = (p, h')"
  shows "p = b + 16" and "p \<noteq> 0" and "p \<notin> A" and "\<exists>fs. heap_ok h' fs (insert p A) L"
    and "bump_ptr h' = bump_ptr h" and "t \<le> blk_size h' b"
    and "\<forall>c\<in>alloc_blocks A. blk_size h' c = blk_size h c"
proof -
  have lay: "layout (blk_size h) (set (ys1 @ b # ys2) \<union> alloc_blocks A) L"
    and nA: "b \<notin> alloc_blocks A"
    using ok by (auto simp: heap_ok_def)
  show p: "p = b + 16"
    using r by (auto simp: kmalloc_take_def Let_def split: if_splits)
  have "unat b + 32 \<le> L"
    using layoutD(3) [OF lay, of b] t by (simp add: word_le_nat_alt)
  then have "unat (b + 16) = unat b + 16"
    using L by (subst unat_add_nowrap) simp_all
  then have "unat p \<noteq> 0" unfolding p by simp
  then show "p \<noteq> 0" by auto
  show "p \<notin> A" using nA p by (simp add: in_alloc_blocks)
  have sum: "unat (t + 32) = unat t + 32"
    using t by (subst unat_add_nowrap) simp_all
  have "(\<exists>fs. heap_ok h' fs (insert p A) L) \<and> bump_ptr h' = bump_ptr h \<and>
      t \<le> blk_size h' b \<and> (\<forall>c\<in>alloc_blocks A. blk_size h' c = blk_size h c)"
  proof (cases "t + 32 \<le> blk_size h b")
    case True
    then have t': "16 \<le> unat t" "unat t + 16 \<le> unat (blk_size h b)"
      using t sum by (auto simp: word_le_nat_alt)
    have h': "h' = link_after (last (0 # ys1)) (b + t)
        (set_size b t (set_next (b + t) (blk_next h b) (set_size (b + t) (blk_size h b - t) h)))"
      using r True by (auto simp: kmalloc_take_def Let_def)
    have "b + t \<notin> alloc_blocks A"
      using layout_split(1) [OF lay _ _ t'] L by simp
    then have "\<forall>c\<in>alloc_blocks A. blk_size h' c = blk_size h c" and "t \<le> blk_size h' b"
      and "bump_ptr h' = bump_ptr h"
      using nA unfolding h' by auto
    with heap_ok_take_split [OF ok _ t'] L
    show ?thesis
      unfolding h' [symmetric] p by auto
  next
    case False
    then have h': "h' = link_after (last (0 # ys1)) (blk_next h b) h"
      using r by (auto simp: kmalloc_take_def Let_def)
    with heap_ok_take_whole [OF ok] t
    show ?thesis
      unfolding h' [symmetric] p by (auto simp: h')
  qed
  then show "\<exists>fs. heap_ok h' fs (insert p A) L" and "bump_ptr h' = bump_ptr h"
    and "t \<le> blk_size h' b" and "\<forall>c\<in>alloc_blocks A. blk_size h' c = blk_size h c"
    by auto
qed

lemma kmalloc_total_bounds:
  assumes "unat sz + 64 \<le> 2 ^ 64" "sz \<noteq> 0"
  shows "unat sz + 16 \<le> unat (kmalloc_total sz)" and "unat (kmalloc_total sz) < unat sz + 32"
    and "32 \<le> unat (kmalloc_total sz)"
proof -
  note a = align_up_nowrap [of 16 4 sz]
  have "0 < unat sz" using assms by (simp add: unat_gt_0)
  then have "(unat sz + 15) div 16 \<ge> 1" by simp
  then have "16 \<le> unat (align_up sz 16)"
    using a(1) assms by simp
  moreover have "unat (kmalloc_total sz) = unat (align_up sz 16) + 16"
    unfolding kmalloc_total_def using a(3) assms by (subst unat_add_nowrap) simp_all
  ultimately show "unat sz + 16 \<le> unat (kmalloc_total sz)"
    and "unat (kmalloc_total sz) < unat sz + 32" and "32 \<le> unat (kmalloc_total sz)"
    using a assms by simp_all
qed

lemma kmalloc_grow_pages_bounds:
  assumes "unat t + 4096 \<le> 2 ^ 64"
  shows "4 \<le> unat (kmalloc_grow_pages t)" and "unat t \<le> unat (kmalloc_grow_pages t) * 4096"
    and "unat (kmalloc_grow_pages t) * 4096 \<le> unat t + 16384"
proof -
  let ?n = "align_up t 0x1000 div 0x1000"
  have a: "unat (align_up t 0x1000) = (unat t + 4095) div 4096 * 4096"
    using align_up_nowrap(1) [of "0x1000" 12 t] assms by simp
  then have n: "unat ?n = (unat t + 4095) div 4096"
    by (simp add: unat_div)
  have g: "unat (kmalloc_grow_pages t) = max 4 (unat ?n)"
    by (auto simp: kmalloc_grow_pages_def Let_def word_less_nat_alt max_def simp del: unat_div)
  show "4 \<le> unat (kmalloc_grow_pages t)" and "unat t \<le> unat (kmalloc_grow_pages t) * 4096"
    and "unat (kmalloc_grow_pages t) * 4096 \<le> unat t + 16384"
    unfolding g n using round_up_bounds [of 4096 "unat t"] by (auto simp: max_def)
qed

text \<open>Growing succeeds as long as the budget lasts, and puts the new block first.\<close>

lemma heap_grow_pages_ok:
  assumes inv: "heap_inv env (unat n * 4096 + k) A h" and n: "0 < unat n"
    and r: "heap_grow_pages env n h = (grew, h')"
  obtains b fs where "grew" and "heap_ok h' (b # fs) A (bump_pos env (bump_ptr h'))"
    and "bump_ok env k (bump_ptr h')" and "unat (blk_size h' b) = unat n * 4096"
    and "\<forall>c\<in>alloc_blocks A. blk_size h' c = blk_size h c"
proof -
  let ?L = "bump_pos env (bump_ptr h)"
  obtain fs where ok: "heap_ok h fs A ?L" and bk: "bump_ok env (unat n * 4096 + k) (bump_ptr h)"
    using inv by (auto simp: heap_inv_def)
  obtain b bp where pma: "pma_alloc_pages env n (bump_ptr h) = (b, bp)" by fastforce
  have room: "?L + unat n * 4096 + 4096 \<le> 2 ^ 64"
    using bump_ok_pos [OF bk] by simp
  note s = pma_alloc_pages_spec [OF _ _ n room pma]
  have base: "page_aligned (if bump_ptr h = 0 then bump_base env else bump_ptr h)"
    "(if bump_ptr h = 0 then bump_base env else bump_ptr h) \<noteq> 0"
    using bk by (simp_all add: bump_ok_def Let_def)
  note s = s [OF base]
  have "n \<noteq> 0" using n by auto
  have h': "grew" "h' = (set_next b (free_list h) (set_size b (n * 0x1000)
      (h\<lparr>bump_ptr := bp\<rparr>)))\<lparr>free_list := b, heap_size := heap_size h + n * 0x1000\<rparr>"
    using r pma s(2) \<open>n \<noteq> 0\<close>
    by (auto simp: heap_grow_pages_def Let_def vmm_map_range_def set_size_def set_next_def)
  have un: "unat (n * 0x1000) = unat n * 4096"
    using room by (simp add: unat_word_ariths)
  have lay: "layout (blk_size h) (set fs \<union> alloc_blocks A) ?L" and ch: "blk_chain h (free_list h) fs"
    and fin: "finite (set fs \<union> alloc_blocks A)"
    and sm: "(\<Sum>x\<in>set fs \<union> alloc_blocks A. blk_size h x) = heap_size h"
    using ok by (auto simp: heap_ok_def layout_def)
  have big: "16 \<le> unat (n * 0x1000)" using n un by simp
  note ins = layout_insert [OF lay s(1,2) big]
  have szs: "blk_size h' = (blk_size h)(b := n * 0x1000)"
    unfolding h' by (auto simp: blk_size_def set_size_def set_next_def)
  have nxt: "blk_next h' = (blk_next h)(b := free_list h)"
    unfolding h' by (auto simp: blk_next_def set_size_def set_next_def)
  have "blk_path h' (free_list h) fs 0 \<longleftrightarrow> blk_path h (free_list h) fs 0"
    by (rule blk_path_cong) (use nxt ins(1) in auto)
  then have chn: "blk_chain h' b (b # fs)" using ch s(2) nxt by simp
  have "(\<Sum>x\<in>set fs \<union> alloc_blocks A. blk_size h' x) = heap_size h"
    unfolding sm [symmetric] szs by (rule sum.cong) (use ins(1) in auto)
  moreover have "heap_size h' = heap_size h + n * 0x1000" and fl: "free_list h' = b"
    by (simp_all add: h')
  ultimately have sm': "(\<Sum>x\<in>set (b # fs) \<union> alloc_blocks A. blk_size h' x) = heap_size h'"
    using fin ins(1) szs by simp
  have "bump_pos env (bump_ptr h') = ?L + unat (n * 0x1000)"
    using s(3) un by (simp add: h')
  moreover have "distinct (b # fs)" "set (b # fs) \<inter> alloc_blocks A = {}"
    using ok ins(1) by (auto simp: heap_ok_def)
  ultimately have "heap_ok h' (b # fs) A (bump_pos env (bump_ptr h'))"
    using ins(2) szs sm' chn fl unfolding heap_ok_def by simp
  moreover have "bump_ok env k (bump_ptr h')"
    using s(3-5) bump_ok_pos [OF bk] by (auto simp: bump_ok_def h' Let_def bump_pos_def)
  moreover have "\<forall>c\<in>alloc_blocks A. blk_size h' c = blk_size h c"
    using ins(1) szs by auto
  moreover have "unat (blk_size h' b) = unat n * 4096" using szs un by simp
  ultimately show thesis using that h'(1) by blast
qed

section \<open>Allocation and release keep the invariant\<close>

text \<open>The bytes of the budget one \<open>kmalloc\<close> may use.\<close>

definition kmalloc_cost :: "u64 \<Rightarrow> nat" where
  "kmalloc_cost sz = unat sz + 20480"

text \<open>What a successful allocation of \<open>sz\<close> bytes returns.\<close>

definition fresh_block :: "boot_env \<Rightarrow> nat \<Rightarrow> u64 set \<Rightarrow> u64 \<Rightarrow> heap \<Rightarrow> u64 \<Rightarrow> heap \<Rightarrow> bool" where
  "fresh_block env k A sz h p h' \<longleftrightarrow>
     p \<noteq> 0 \<and> p \<notin> A \<and> heap_inv env k (insert p A) h' \<and>
     unat sz + 16 \<le> unat (blk_size h' (p - 16)) \<and>
     (\<forall>c\<in>alloc_blocks A. blk_size h' c = blk_size h c)"

lemma kmalloc_scan_ok:
  assumes ok: "heap_ok h fs A (bump_pos env (bump_ptr h))" and bk: "bump_ok env k (bump_ptr h)"
    and sz: "sz \<noteq> 0" "unat sz + 64 < 2 ^ 64" and t: "t = kmalloc_total sz"
  shows "(\<forall>b\<in>set fs. blk_size h b < t) \<and> kmalloc_scan t 0 (free_list h) h = Some (None, h) \<or>
    (\<exists>p h'. kmalloc_scan t 0 (free_list h) h = Some (Some p, h') \<and> fresh_block env k A sz h p h')"
proof -
  have ch: "blk_chain h (free_list h) fs" using ok by (simp add: heap_ok_def)
  have L: "bump_pos env (bump_ptr h) < 2 ^ 64" using bump_ok_pos [OF bk] by simp
  have tb: "32 \<le> unat t" "unat t + 32 < 2 ^ 64" "unat sz + 16 \<le> unat t"
    using kmalloc_total_bounds [of sz] sz t by auto
  from kmalloc_scan_chain [OF ch, of t 0] show ?thesis
  proof (rule disj_forward)
    assume "\<exists>ys1 b ys2. fs = ys1 @ b # ys2 \<and> t \<le> blk_size h b \<and>
      (\<forall>c\<in>set ys1. blk_size h c < t) \<and> kmalloc_scan t 0 (free_list h) h =
        Some (case kmalloc_take t (last (0 # ys1)) b h of (p, h') \<Rightarrow> (Some p, h'))"
    then obtain ys1 b ys2 where fs: "fs = ys1 @ b # ys2" and tb': "t \<le> blk_size h b"
      and r: "kmalloc_scan t 0 (free_list h) h =
        Some (case kmalloc_take t (last (0 # ys1)) b h of (p, h') \<Rightarrow> (Some p, h'))"
      by blast
    obtain p h' where tk: "kmalloc_take t (last (0 # ys1)) b h = (p, h')" by fastforce
    note k = kmalloc_take_ok [OF ok [unfolded fs] L tb(1,2) tb' tk]
    have "fresh_block env k A sz h p h'"
      using k bk tb(3) by (auto simp: fresh_block_def heap_inv_def word_le_nat_alt)
    with r tk show "\<exists>p h'. kmalloc_scan t 0 (free_list h) h = Some (Some p, h') \<and>
        fresh_block env k A sz h p h'"
      by auto
  qed
qed

lemma kmalloc_ok:
  assumes inv: "heap_inv env (kmalloc_cost sz + k) A h"
  shows "(sz = 0 \<or> free_list h = 0) \<and> kmalloc env sz h = Some (0, h) \<or>
    sz \<noteq> 0 \<and> free_list h \<noteq> 0 \<and>
      (\<exists>p h'. kmalloc env sz h = Some (p, h') \<and> fresh_block env k A sz h p h')"
proof (cases "sz = 0 \<or> free_list h = 0")
  case True
  then show ?thesis by (auto simp: kmalloc_def)
next
  case False
  let ?t = "kmalloc_total sz"
  obtain fs where ok: "heap_ok h fs A (bump_pos env (bump_ptr h))"
    and bk: "bump_ok env (kmalloc_cost sz + k) (bump_ptr h)"
    using inv by (auto simp: heap_inv_def)
  have sz: "sz \<noteq> 0" "unat sz + 24576 \<le> 2 ^ 64" and sz': "unat sz + 64 < 2 ^ 64"
    using False bump_ok_pos [OF bk] by (auto simp: kmalloc_cost_def)
  have tb: "unat ?t < unat sz + 32"
    using kmalloc_total_bounds [of sz] sz by simp
  have "bump_ok env k (bump_ptr h)" by (rule bump_ok_mono [OF bk]) simp
  from kmalloc_scan_ok [OF ok this sz(1) sz' refl] show ?thesis
  proof
    assume "\<exists>p h'. kmalloc_scan ?t 0 (free_list h) h = Some (Some p, h') \<and>
      fresh_block env k A sz h p h'"
    then show ?thesis using False by (auto simp: kmalloc_def Let_def)
  next
    assume s1: "(\<forall>b\<in>set fs. blk_size h b < ?t) \<and>
      kmalloc_scan ?t 0 (free_list h) h = Some (None, h)"
    let ?n = "kmalloc_grow_pages ?t"
    have g: "4 \<le> unat ?n" "unat ?t \<le> unat ?n * 4096" "unat ?n * 4096 \<le> unat ?t + 16384"
      using kmalloc_grow_pages_bounds [of ?t] tb sz by simp_all
    obtain grew h2 where gr: "heap_grow_pages env ?n h = (grew, h2)" by fastforce
    have inv2: "heap_inv env (unat ?n * 4096 + k) A h"
      by (rule heap_inv_mono [OF inv]) (use g(3) tb in \<open>simp add: kmalloc_cost_def\<close>)
    have n0: "0 < unat ?n" using g(1) by simp
    from heap_grow_pages_ok [OF inv2 n0 gr] obtain b fs2 where
      w: "grew" "heap_ok h2 (b # fs2) A (bump_pos env (bump_ptr h2))" "bump_ok env k (bump_ptr h2)"
        "unat (blk_size h2 b) = unat ?n * 4096" "\<forall>c\<in>alloc_blocks A. blk_size h2 c = blk_size h c" .
    have "\<not> (\<forall>c\<in>set (b # fs2). blk_size h2 c < ?t)"
      using g(2) w(4) by (simp add: word_less_nat_alt)
    then obtain p h3 where r: "kmalloc_scan ?t 0 (free_list h2) h2 = Some (Some p, h3)"
      and fr: "fresh_block env k A sz h2 p h3"
      using kmalloc_scan_ok [OF w(2,3) sz(1) sz' refl] by blast
    have "kmalloc env sz h = Some (p, h3)"
      using False s1 gr w(1) r by (simp add: kmalloc_def Let_def)
    moreover have "fresh_block env k A sz h p h3"
      using fr w(5) by (simp add: fresh_block_def)
    ultimately show ?thesis using False by blast
  qed
qed

text \<open>Release. \<open>head0 ys\<close> is the pointer to the first block of \<open>ys\<close>, null when there
  is none.\<close>

definition head0 :: "u64 list \<Rightarrow> u64" where
  "head0 ys = (case ys of [] \<Rightarrow> 0 | c # _ \<Rightarrow> c)"

lemma head0_simps [simp]: "head0 [] = 0" "head0 (c # ys) = c"
  by (simp_all add: head0_def)

lemma kfree_find_chain:
  "blk_chain h cur ys \<Longrightarrow>
     \<exists>ys1 ys2. ys = ys1 @ ys2 \<and> kfree_find blk prev cur h = Some (last (prev # ys1), head0 ys2)"
proof (induction ys arbitrary: cur prev)
  case Nil
  then show ?case by (simp add: kfree_find.simps)
next
  case (Cons b ys)
  then have cur: "cur = b" "b \<noteq> 0" and tl: "blk_chain h (blk_next h b) ys" by auto
  show ?case
  proof (cases "b < blk")
    case True
    obtain ys1 ys2 where "ys = ys1 @ ys2"
      "kfree_find blk b (blk_next h b) h = Some (last (b # ys1), head0 ys2)"
      using Cons.IH [OF tl] by blast
    with True cur show ?thesis
      by (intro exI [of _ "b # ys1"] exI [of _ ys2]) (simp add: kfree_find.simps [of _ _ b])
  next
    case False
    with cur show ?thesis
      by (intro exI [of _ "[]"] exI [of _ "b # ys"]) (simp add: kfree_find.simps)
  qed
qed

lemma sum_merge_block:
  fixes sz :: "u64 \<Rightarrow> u64"
  assumes "finite B" "b \<in> B" "c \<in> B" "b \<noteq> c"
  shows "(\<Sum>x\<in>B - {c}. (sz(b := sz b + sz c)) x) = (\<Sum>x\<in>B. sz x)"
proof -
  let ?C = "B - {c} - {b}"
  have "(\<Sum>x\<in>?C. (sz(b := sz b + sz c)) x) = (\<Sum>x\<in>?C. sz x)"
    by (intro sum.cong) auto
  then show ?thesis
    using assms sum.remove [of B c sz] sum.remove [of "B - {c}" b sz]
      sum.remove [of "B - {c}" b "sz(b := sz b + sz c)"]
    by (simp add: algebra_simps)
qed

text \<open>The state between the two coalescing steps: \<open>b\<close> is already in the list behind
  \<open>xs\<close>, its \<open>next\<close> field is still to be set to what follows.\<close>

definition free_mid :: "heap \<Rightarrow> u64 list \<Rightarrow> u64 \<Rightarrow> u64 list \<Rightarrow> u64 set \<Rightarrow> nat \<Rightarrow> bool" where
  "free_mid h xs b ys A L \<longleftrightarrow>
     blk_path h (free_list h) xs b \<and> blk_chain h (head0 ys) ys \<and> distinct (xs @ b # ys) \<and>
     set (xs @ b # ys) \<inter> alloc_blocks A = {} \<and>
     layout (blk_size h) (set (xs @ b # ys) \<union> alloc_blocks A) L \<and>
     (\<Sum>x\<in>set (xs @ b # ys) \<union> alloc_blocks A. blk_size h x) = heap_size h"

lemma free_mid_link:
  assumes m: "free_mid h xs b ys A L"
  shows "heap_ok (set_next b (head0 ys) h) (xs @ b # ys) A L"
proof -
  have "b \<noteq> 0"
    using m layoutD(1) by (fastforce simp: free_mid_def)
  then show ?thesis
    using m by (auto simp: free_mid_def heap_ok_def blk_path_append blk_path_set_next_notin)
qed

text \<open>\<open>covers h xs h' ys\<close>: for every block of \<open>xs\<close> there is one of \<open>ys\<close> at least as large.\<close>

definition covers :: "heap \<Rightarrow> u64 list \<Rightarrow> heap \<Rightarrow> u64 list \<Rightarrow> bool" where
  "covers h xs h' ys \<longleftrightarrow> (\<forall>x\<in>set xs. \<exists>y\<in>set ys. unat (blk_size h x) \<le> unat (blk_size h' y))"

lemma covers_trans: "covers h xs h1 ys \<Longrightarrow> covers h1 ys h2 zs \<Longrightarrow> covers h xs h2 zs"
  unfolding covers_def by (meson order_trans)

lemma covers_grow:
  assumes "blk_size h' = (blk_size h)(b := s)" "unat s = unat (blk_size h b) + unat (blk_size h c)"
    and "set xs \<subseteq> insert c (set ys)" "b \<in> set ys"
  shows "covers h xs h' ys"
  unfolding covers_def
proof
  fix x assume "x \<in> set xs"
  then have "x = c \<or> x \<in> set ys" using assms(3) by auto
  then have "x \<in> set ys \<and> x \<noteq> b \<or> unat (blk_size h x) \<le> unat s"
    using assms(2) by auto
  then show "\<exists>y\<in>set ys. unat (blk_size h x) \<le> unat (blk_size h' y)"
  proof
    assume "x \<in> set ys \<and> x \<noteq> b"
    then show ?thesis using assms(1) by (intro bexI [of _ x]) auto
  next
    assume "unat (blk_size h x) \<le> unat s"
    then show ?thesis using assms(1,4) by (intro bexI [of _ b]) auto
  qed
qed

lemma kfree_next_ok:
  assumes m: "free_mid h xs b ys A L" and L: "L \<le> 2 ^ 64"
  shows "\<exists>fs. heap_ok (kfree_next b (head0 ys) h) fs A L \<and>
      covers h (xs @ b # ys) (kfree_next b (head0 ys) h) fs"
    and "\<forall>c\<in>alloc_blocks A. blk_size (kfree_next b (head0 ys) h) c = blk_size h c"
proof -
  have bA: "b \<notin> alloc_blocks A" using m by (simp add: free_mid_def)
  then show "\<forall>c\<in>alloc_blocks A. blk_size (kfree_next b (head0 ys) h) c = blk_size h c"
    by (auto simp: kfree_next_def Let_def)
  have plain: "covers h (xs @ b # ys) (set_next b (head0 ys) h) (xs @ b # ys)"
    by (auto simp: covers_def)
  show "\<exists>fs. heap_ok (kfree_next b (head0 ys) h) fs A L \<and>
      covers h (xs @ b # ys) (kfree_next b (head0 ys) h) fs"
  proof (cases ys)
    case Nil
    then show ?thesis using free_mid_link [OF m] plain by (auto simp: kfree_next_def)
  next
    case (Cons c cs)
    have c0: "c \<noteq> 0" using m by (simp add: free_mid_def Cons)
    show ?thesis
    proof (cases "b + blk_size h b = c")
      case False
      then show ?thesis using free_mid_link [OF m] plain c0 by (auto simp: kfree_next_def Cons)
    next
      case True
      let ?B = "set (xs @ b # ys) \<union> alloc_blocks A"
      let ?h = "set_size b (blk_size h b + blk_size h c) h"
      have B: "layout (blk_size h) ?B L" "b \<in> ?B" "c \<in> ?B" "finite ?B"
        using m by (auto simp: free_mid_def Cons layout_def)
      note mg = layout_merge [OF B(1-3) L True]
      have B': "set (xs @ b # cs) \<union> alloc_blocks A = ?B - {c}"
        using m mg(1) by (auto simp: free_mid_def Cons)
      have cs: "blk_chain ?h (blk_next h c) cs" using m by (simp add: free_mid_def Cons)
      then have hd: "head0 cs = blk_next h c" by (cases cs) auto
      have "free_mid ?h xs b cs A L"
        unfolding free_mid_def B' hd blk_size_upd
        using m mg cs sum_merge_block [OF B(4,2,3) mg(1), of "blk_size h"]
        by (simp add: free_mid_def Cons)
      from free_mid_link [OF this] have "heap_ok (kfree_next b (head0 ys) h) (xs @ b # cs) A L"
        using True c0 hd by (simp add: kfree_next_def Cons Let_def)
      moreover have "covers h (xs @ b # ys) (kfree_next b (head0 ys) h) (xs @ b # cs)"
        using True c0 mg(3) by (intro covers_grow) (auto simp: kfree_next_def Cons Let_def)
      ultimately show ?thesis by blast
    qed
  qed
qed

lemma kfree_prev_ok:
  assumes ok: "heap_ok h (ys1 @ ys2) A L" and p: "p \<in> A" and L: "L \<le> 2 ^ 64"
    and r: "kfree_prev (p - 16) (last (0 # ys1)) h = (b, h')"
  shows "\<exists>xs. free_mid h' xs b ys2 (A - {p}) L \<and> covers h (ys1 @ ys2) h' (xs @ b # ys2)"
    and "\<forall>c\<in>alloc_blocks (A - {p}). blk_size h' c = blk_size h c"
    and "bump_ptr h' = bump_ptr h"
proof -
  let ?blk = "p - 16" and ?B = "set (ys1 @ ys2) \<union> alloc_blocks A"
  have pth: "\<exists>q. blk_path h (free_list h) ys1 q \<and> blk_chain h q ys2" and d: "distinct (ys1 @ ys2)"
    and dj: "set (ys1 @ ys2) \<inter> alloc_blocks A = {}" and lay: "layout (blk_size h) ?B L"
    and sm: "(\<Sum>x\<in>?B. blk_size h x) = heap_size h"
    using ok by (auto simp: heap_ok_def blk_path_append)
  obtain q where q: "blk_path h (free_list h) ys1 q" "blk_chain h q ys2" using pth by blast
  then have hd: "head0 ys2 = q" by (cases ys2) auto
  have blk: "?blk \<in> alloc_blocks A" using p by (simp add: alloc_blocks_def)
  then have nb: "?blk \<notin> set ys1" "?blk \<notin> set ys2" using dj by auto
  have fin: "finite ?B" using lay by (simp add: layout_def)
  have ad: "alloc_blocks (A - {p}) = alloc_blocks A - {?blk}" by (rule alloc_blocks_diff)
  consider (merge) x xs where "ys1 = xs @ [x]" "x + blk_size h x = ?blk"
    | (link) x xs where "ys1 = xs @ [x]" "x + blk_size h x \<noteq> ?blk" | (first) "ys1 = []"
    by (cases ys1 rule: rev_cases) auto
  then have "(\<exists>xs. free_mid h' xs b ys2 (A - {p}) L \<and> covers h (ys1 @ ys2) h' (xs @ b # ys2)) \<and>
      bump_ptr h' = bump_ptr h \<and>
      (\<forall>c\<in>alloc_blocks (A - {p}). blk_size h' c = blk_size h c)"
  proof cases
    case merge
    have x0: "x \<noteq> 0" using q(1) unfolding merge(1) by (auto dest: blk_path_last)
    have rr: "b = x" "h' = set_size x (blk_size h x + blk_size h ?blk) h"
      using r merge x0 by (auto simp: kfree_prev_def)
    have in_B: "x \<in> ?B" "?blk \<in> ?B" using blk by (auto simp: merge(1))
    note mg = layout_merge [OF lay in_B L merge(2)]
    have B': "set (xs @ x # ys2) \<union> alloc_blocks (A - {p}) = ?B - {?blk}"
      using nb unfolding ad by (auto simp: merge(1))
    have "free_mid h' xs b ys2 (A - {p}) L"
      unfolding free_mid_def rr B' hd blk_size_upd
      using mg sum_merge_block [OF fin in_B mg(1), of "blk_size h"] q d dj sm
      by (auto simp: merge(1) ad dest: blk_path_last)
    moreover have "covers h (ys1 @ ys2) h' (xs @ b # ys2)"
      using mg(3) by (intro covers_grow) (auto simp: rr merge(1))
    ultimately show ?thesis using dj by (auto simp: rr ad merge(1))
  next
    case link
    have x0: "x \<noteq> 0" and px: "blk_path h (free_list h) xs x"
      using q(1) unfolding link(1) by (auto dest: blk_path_last)
    have rr: "b = ?blk" "h' = set_next x ?blk h"
      using r link x0 by (auto simp: kfree_prev_def)
    have B': "set (ys1 @ ?blk # ys2) \<union> alloc_blocks (A - {p}) = ?B"
      using blk unfolding ad by auto
    have "free_mid h' ys1 b ys2 (A - {p}) L"
      unfolding free_mid_def rr B' hd blk_size_upd
      using lay sm px q x0 d dj nb
      by (auto simp: link(1) ad blk_path_append blk_path_set_next_notin)
    moreover have "covers h (ys1 @ ys2) h' (ys1 @ b # ys2)" by (auto simp: covers_def rr)
    ultimately show ?thesis by (auto simp: rr)
  next
    case first
    have rr: "b = ?blk" "h' = h\<lparr>free_list := ?blk\<rparr>"
      using r first by (auto simp: kfree_prev_def)
    have B': "set ([] @ ?blk # ys2) \<union> alloc_blocks (A - {p}) = ?B"
      using blk unfolding ad by (auto simp: first)
    have "free_mid h' [] b ys2 (A - {p}) L"
      unfolding free_mid_def rr B' hd blk_size_upd
      using lay sm q d dj nb by (auto simp: first ad)
    moreover have "covers h (ys1 @ ys2) h' ([] @ b # ys2)" by (auto simp: covers_def rr first)
    ultimately show ?thesis by (auto simp: rr)
  qed
  then show "\<exists>xs. free_mid h' xs b ys2 (A - {p}) L \<and> covers h (ys1 @ ys2) h' (xs @ b # ys2)"
    and "bump_ptr h' = bump_ptr h"
    and "\<forall>c\<in>alloc_blocks (A - {p}). blk_size h' c = blk_size h c"
    by auto
qed

lemma bump_ptr_kfree_next [simp]: "bump_ptr (kfree_next b c h) = bump_ptr h"
  by (simp add: kfree_next_def Let_def)

lemma kfree_heap_ok:
  assumes ok: "heap_ok h fs A L" and L: "L \<le> 2 ^ 64" and p: "p \<in> A" "p \<noteq> 0"
  shows "\<exists>h' fs'. kfree p h = Some h' \<and> heap_ok h' fs' (A - {p}) L \<and> covers h fs h' fs' \<and>
    bump_ptr h' = bump_ptr h \<and> (\<forall>c\<in>alloc_blocks (A - {p}). blk_size h' c = blk_size h c)"
proof -
  obtain ys1 ys2 where fs: "fs = ys1 @ ys2"
    and f: "kfree_find (p - 16) 0 (free_list h) h = Some (last (0 # ys1), head0 ys2)"
    using kfree_find_chain [of h "free_list h" fs "p - 16" 0] ok by (auto simp: heap_ok_def)
  obtain b h1 where r: "kfree_prev (p - 16) (last (0 # ys1)) h = (b, h1)" by fastforce
  note s1 = kfree_prev_ok [OF ok [unfolded fs] p(1) L r]
  obtain xs where m: "free_mid h1 xs b ys2 (A - {p}) L" and cv: "covers h fs h1 (xs @ b # ys2)"
    using s1(1) fs by blast
  note s2 = kfree_next_ok [OF m L]
  have "kfree p h = Some (kfree_next b (head0 ys2) h1)"
    using p(2) f r by (simp add: kfree_def Let_def)
  then show ?thesis
    using s1(2,3) s2 covers_trans [OF cv] by fastforce
qed

lemma kfree_ok:
  assumes inv: "heap_inv env k A h" and p: "p \<in> A" "p \<noteq> 0"
  shows "\<exists>h'. kfree p h = Some h' \<and> heap_inv env k (A - {p}) h' \<and>
    (\<forall>c\<in>alloc_blocks (A - {p}). blk_size h' c = blk_size h c)"
proof -
  obtain fs where ok: "heap_ok h fs A (bump_pos env (bump_ptr h))"
    and bk: "bump_ok env k (bump_ptr h)"
    using inv by (auto simp: heap_inv_def)
  have L: "bump_pos env (bump_ptr h) \<le> 2 ^ 64" using bump_ok_pos [OF bk] by simp
  from kfree_heap_ok [OF ok L p] bk show ?thesis by (fastforce simp: heap_inv_def)
qed

section \<open>Initialisation\<close>

text \<open>The image layout the kernel relies on: the static array lies inside the kernel image,
  below the page where the bump allocator starts.\<close>

definition boot_ok :: "boot_env \<Rightarrow> nat \<Rightarrow> bool" where
  "boot_ok env k \<longleftrightarrow> static_heap env \<noteq> 0 \<and> bump_ok env k 0 \<and>
     unat (static_heap env) + 1048576 \<le> unat (bump_base env)"

definition heap_boot :: heap where
  "heap_boot = \<lparr>free_list = 0, heap_start = 0, heap_size = 0,
     hdr = (\<lambda>_. \<lparr>fb_size = 0, fb_next = 0\<rparr>), bump_ptr = 0\<rparr>"

lemma heap_init_ok:
  assumes env: "boot_ok env k" and h: "heap_start h = 0" "bump_ptr h = 0"
    and sz: "sz \<noteq> 0" "unat sz + 4096 \<le> 2 ^ 64"
  shows "heap_inv env k {} (heap_init env sz h)"
    and "free_list (heap_init env sz h) = static_heap env"
proof -
  let ?a = "align_up sz 0x1000"
  let ?n = "if static_heap_size < ?a then static_heap_size else ?a"
  have "0 < unat sz" using sz by (simp add: unat_gt_0)
  then have "16 \<le> unat ?a"
    using align_up_nowrap(1) [of "0x1000" 12 sz] sz by simp
  then have n: "16 \<le> unat ?n" "unat ?n \<le> 1048576"
    by (auto simp: static_heap_size_def word_less_nat_alt)
  let ?h = "heap_init env sz h"
  have hi: "?h = set_next (static_heap env) 0 (set_size (static_heap env) ?n
      (h\<lparr>heap_start := static_heap env, heap_size := ?n, free_list := static_heap env\<rparr>))"
    using h by (simp add: heap_init_def Let_def)
  show fl: "free_list ?h = static_heap env" unfolding hi by simp
  have sz': "blk_size ?h (static_heap env) = ?n" "heap_size ?h = ?n" "bump_ptr ?h = 0"
    "blk_next ?h (static_heap env) = 0"
    unfolding hi using h by (auto simp: blk_size_def set_size_def set_next_def blk_next_def)
  have "heap_ok ?h [static_heap env] {} (bump_pos env 0)"
    using env n by (auto simp: heap_ok_def fl sz' layout_def blk_hi_def alloc_blocks_def
        bump_pos_def boot_ok_def)
  then show "heap_inv env k {} ?h"
    using env sz'(3) by (auto simp: heap_inv_def boot_ok_def)
qed

section \<open>What the rest of the kernel relies on\<close>

text \<open>The contract between the heap and its clients. \<open>inv k A h\<close> says that \<open>A\<close> are
  the live pointers of \<open>h\<close> and that \<open>k\<close> bytes of growth are left.\<close>

locale allocator =
  fixes alloc :: "u64 \<Rightarrow> 'h \<Rightarrow> (u64 \<times> 'h) option"
    and dealloc :: "u64 \<Rightarrow> 'h \<Rightarrow> 'h option"
    and cost :: "u64 \<Rightarrow> nat"
    and inv :: "nat \<Rightarrow> u64 set \<Rightarrow> 'h \<Rightarrow> bool"
  assumes alloc_law: "inv (cost n + k) A h \<Longrightarrow>
      \<exists>p h'. alloc n h = Some (p, h') \<and>
        (p = 0 \<and> inv k A h' \<or> p \<noteq> 0 \<and> p \<notin> A \<and> inv k (insert p A) h')"
    and dealloc_law: "inv k A h \<Longrightarrow> p \<in> A \<Longrightarrow> p \<noteq> 0 \<Longrightarrow>
      \<exists>h'. dealloc p h = Some h' \<and> inv k (A - {p}) h'"
    and dealloc_null: "dealloc 0 h = Some h"
begin

text \<open>Allocating and releasing a temporary leaves the live set as it was.\<close>

lemma alloc_dealloc:
  assumes "inv (cost n + k) A h" and "0 \<notin> A"
  shows "\<exists>p h1 h2. alloc n h = Some (p, h1) \<and> dealloc p h1 = Some h2 \<and> inv k A h2"
proof -
  obtain p h1 where a: "alloc n h = Some (p, h1)"
    and "p = 0 \<and> inv k A h1 \<or> p \<noteq> 0 \<and> p \<notin> A \<and> inv k (insert p A) h1"
    using alloc_law [OF assms(1)] by blast
  then show ?thesis
  proof (elim disjE conjE)
    assume "p = 0" "inv k A h1"
    with a dealloc_null show ?thesis by blast
  next
    assume p: "p \<noteq> 0" "p \<notin> A" and i: "inv k (insert p A) h1"
    from dealloc_law [OF i _ p(1)] p(2) a show ?thesis by auto
  qed
qed

lemma dealloc_if_live:
  assumes "inv k A h" and "p = 0 \<or> p \<in> A"
  shows "\<exists>h'. dealloc p h = Some h' \<and> inv k (if p = 0 then A else A - {p}) h'"
  using assms dealloc_law dealloc_null by (cases "p = 0") auto

end

interpretation kh: allocator "kmalloc env" kfree kmalloc_cost "heap_inv env"
proof unfold_locales
  fix n k A h
  assume inv: "heap_inv env (kmalloc_cost n + k) A h"
  then have "heap_inv env k A h" by (rule heap_inv_mono) simp
  with kmalloc_ok [OF inv]
  show "\<exists>p h'. kmalloc env n h = Some (p, h') \<and>
      (p = 0 \<and> heap_inv env k A h' \<or> p \<noteq> 0 \<and> p \<notin> A \<and> heap_inv env k (insert p A) h')"
    by (auto simp: fresh_block_def)
next
  fix k A h p
  assume "heap_inv env k A h" "p \<in> A" "p \<noteq> 0"
  then show "\<exists>h'. kfree p h = Some h' \<and> heap_inv env k (A - {p}) h'"
    using kfree_ok by blast
qed (simp add: kfree_def)

text \<open>The bytes a live pointer may be used for, and that no two of them meet.\<close>

definition payload :: "heap \<Rightarrow> u64 \<Rightarrow> nat set" where
  "payload h p = {unat p ..< unat (p - 16) + unat (blk_size h (p - 16))}"

lemma heap_inv_payload_disjoint:
  assumes inv: "heap_inv env k A h" and pq: "p \<in> A" "q \<in> A" "p \<noteq> q"
  shows "payload h p \<inter> payload h q = {}"
proof -
  obtain fs where lay: "layout (blk_size h) (set fs \<union> alloc_blocks A) (bump_pos env (bump_ptr h))"
    and L: "bump_pos env (bump_ptr h) < 2 ^ 64"
    using inv bump_ok_pos by (fastforce simp: heap_inv_def heap_ok_def)
  have up: "unat r = unat (r - 16) + 16" if "r \<in> A" for r
  proof -
    have "r - 16 \<in> alloc_blocks A" using that by (simp add: in_alloc_blocks)
    then have "unat (r - 16) + 16 < 2 ^ 64" using layoutD(2,3) [OF lay, of "r - 16"] L by simp
    then have "unat (r - 16 + 16) = unat (r - 16) + unat (16 :: u64)"
      by (intro unat_add_nowrap) simp
    then show ?thesis by simp
  qed
  have "unat (p - 16) + unat (blk_size h (p - 16)) \<le> unat (q - 16) \<or>
      unat (q - 16) + unat (blk_size h (q - 16)) \<le> unat (p - 16)"
    using pq by (intro layout_disjoint [OF lay]) (auto simp: in_alloc_blocks)
  then show ?thesis
    using up [OF pq(1)] up [OF pq(2)] unfolding payload_def by auto
qed

section \<open>When memory is available\<close>

text \<open>\<open>heap_room env S A h\<close>: beside the invariant, the heap is initialised and one free block has at least \<open>S\<close> bytes. As long
  as that block is large enough no allocation fails; each one takes at most its size and 64
  bytes from it, and a release never makes the largest block smaller.\<close>

definition heap_room :: "boot_env \<Rightarrow> nat \<Rightarrow> u64 set \<Rightarrow> heap \<Rightarrow> bool" where
  "heap_room env S A h \<longleftrightarrow> heap_start h \<noteq> 0 \<and> bump_ok env 0 (bump_ptr h) \<and>
     (\<exists>fs. heap_ok h fs A (bump_pos env (bump_ptr h)) \<and> (\<exists>b\<in>set fs. S \<le> unat (blk_size h b)))"

definition room_cost :: "nat \<Rightarrow> nat" where [cost_simps]:
  "room_cost n = n + 64"

lemma heap_room_inv: "heap_room env S A h \<Longrightarrow> heap_inv env 0 A h"
  by (auto simp: heap_room_def heap_inv_def)

lemma heap_room_mono: "heap_room env S A h \<Longrightarrow> T \<le> S \<Longrightarrow> heap_room env T A h"
  unfolding heap_room_def by (meson order_trans)

lemma kmalloc_take_room:
  assumes ok: "heap_ok h (ys1 @ b # ys2) A L" and L: "L < 2 ^ 64"
    and t: "32 \<le> unat t" "unat t + 32 < 2 ^ 64" "t \<le> blk_size h b"
    and B: "B \<in> set (ys1 @ b # ys2)" "S \<le> unat (blk_size h B)" "unat t + 32 \<le> S"
    and r: "kmalloc_take t (last (0 # ys1)) b h = (p, h')"
  shows "\<exists>fs. heap_ok h' fs (insert p A) L \<and> (\<exists>y\<in>set fs. S - unat t \<le> unat (blk_size h' y))"
proof -
  have p: "p = b + 16" by (rule kmalloc_take_ok(1) [OF ok L t r])
  have lay: "layout (blk_size h) (set (ys1 @ b # ys2) \<union> alloc_blocks A) L"
    using ok by (auto simp: heap_ok_def)
  have "unat (t + 32) = unat t + 32"
    using t(2) by (subst unat_add_nowrap) simp_all
  then have t32: "t + 32 \<le> blk_size h x \<longleftrightarrow> unat t + 32 \<le> unat (blk_size h x)" for x
    by (simp add: word_le_nat_alt)
  show ?thesis
  proof (cases "t + 32 \<le> blk_size h b")
    case True
    then have t': "16 \<le> unat t" "unat t + 16 \<le> unat (blk_size h b)" using t(1) t32 [of b] by auto
    have h': "h' = link_after (last (0 # ys1)) (b + t)
        (set_size b t (set_next (b + t) (blk_next h b) (set_size (b + t) (blk_size h b - t) h)))"
      using r True by (auto simp: kmalloc_take_def Let_def)
    have new: "b + t \<notin> set (ys1 @ b # ys2)"
      using layout_split(1) [OF lay _ _ t'] L by simp
    then have bt: "b + t \<noteq> b" by auto
    have sz: "blk_size h' = (blk_size h)(b := t, b + t := blk_size h b - t)"
      using bt by (auto simp: h' fun_eq_iff)
    have "unat (blk_size h b - t) = unat (blk_size h b) - unat t"
      using t(3) by (rule unat_sub_le)
    then have q: "unat (blk_size h' (b + t)) = unat (blk_size h b) - unat t" unfolding sz by simp
    have "\<exists>y\<in>set (ys1 @ (b + t) # ys2). S - unat t \<le> unat (blk_size h' y)"
    proof (cases "B = b")
      case True
      then have "S - unat t \<le> unat (blk_size h' (b + t))" using B(2) q by simp
      then show ?thesis by simp
    next
      case False
      then have "B \<in> set (ys1 @ (b + t) # ys2)" "B \<noteq> b + t" using B(1) new by auto
      with False B(2) sz show ?thesis by (intro bexI [of _ B]) simp_all
    qed
    moreover have "heap_ok h' (ys1 @ (b + t) # ys2) (insert p A) L"
      using heap_ok_take_split [OF ok _ t'] L unfolding h' [symmetric] p by simp
    ultimately show ?thesis by blast
  next
    case False
    then have h': "h' = link_after (last (0 # ys1)) (blk_next h b) h"
      using r by (auto simp: kmalloc_take_def Let_def)
    have "B \<noteq> b" using False B(2,3) t32 [of b] by auto
    then have "\<exists>y\<in>set (ys1 @ ys2). S - unat t \<le> unat (blk_size h' y)"
      using B(1,2) by (intro bexI [of _ B]) (auto simp: h')
    with heap_ok_take_whole [OF ok] show ?thesis unfolding h' [symmetric] p by blast
  qed
qed

lemma kmalloc_take_start: "kmalloc_take t prev cur h = (p, h') \<Longrightarrow> heap_start h' = heap_start h"
  by (auto simp: kmalloc_take_def link_after_def set_size_def set_next_def Let_def split: if_splits)

lemma kfree_prev_start: "kfree_prev blk prev h = (b, h') \<Longrightarrow> heap_start h' = heap_start h"
  by (auto simp: kfree_prev_def set_size_def set_next_def split: if_splits)

lemma kfree_next_start: "heap_start (kfree_next blk cur h) = heap_start h"
  by (simp add: kfree_next_def set_size_def set_next_def Let_def)

lemma kfree_start:
  assumes "kfree p h = Some h'"
  shows "heap_start h' = heap_start h"
proof (cases "p = 0")
  case False
  then obtain prev cur where "(case kfree_prev (p - heap_header) prev h of (b, h1) \<Rightarrow> kfree_next b cur h1) = h'"
    using assms by (auto simp: kfree_def Let_def bind_eq_Some_conv)
  then show ?thesis
    by (cases "kfree_prev (p - heap_header) prev h") (auto simp: kfree_next_start dest: kfree_prev_start)
qed (use assms in \<open>simp add: kfree_def\<close>)

lemma kmalloc_room:
  assumes room: "heap_room env S A h" and sz: "sz \<noteq> 0" "room_cost (unat sz) \<le> S"
  shows "\<exists>p h'. kmalloc env sz h = Some (p, h') \<and> p \<noteq> 0 \<and> p \<notin> A \<and>
    heap_room env (S - room_cost (unat sz)) (insert p A) h'"
proof -
  let ?t = "kmalloc_total sz"
  obtain fs B where ok: "heap_ok h fs A (bump_pos env (bump_ptr h))" and bk: "bump_ok env 0 (bump_ptr h)"
    and B: "B \<in> set fs" "S \<le> unat (blk_size h B)"
    using room by (auto simp: heap_room_def)
  have L: "bump_pos env (bump_ptr h) < 2 ^ 64" using bump_ok_pos [OF bk] by simp
  have S64: "S < 2 ^ 64" using B(2) unat_lt_u64 [of "blk_size h B"] by simp
  have tb: "32 \<le> unat ?t" "unat ?t < unat sz + 32"
    using kmalloc_total_bounds [of sz] sz S64 by (auto simp: room_cost_def)
  then have t2: "unat ?t + 32 \<le> S" "unat ?t + 32 < 2 ^ 64" using sz(2) S64 by (auto simp: room_cost_def)
  have ch: "blk_chain h (free_list h) fs" using ok by (simp add: heap_ok_def)
  have "\<not> (\<forall>b\<in>set fs. blk_size h b < ?t)"
    using B t2(1) by (intro notI) (fastforce simp: word_less_nat_alt)
  then obtain ys1 b ys2 where fs: "fs = ys1 @ b # ys2" and bt: "?t \<le> blk_size h b"
    and r: "kmalloc_scan ?t 0 (free_list h) h =
      Some (case kmalloc_take ?t (last (0 # ys1)) b h of (p, h') \<Rightarrow> (Some p, h'))"
    using kmalloc_scan_chain [OF ch, of ?t 0] by blast
  obtain p h' where tk: "kmalloc_take ?t (last (0 # ys1)) b h = (p, h')" by fastforce
  note k = kmalloc_take_ok [OF ok [unfolded fs] L tb(1) t2(2) bt tk]
  obtain fs' where fs': "heap_ok h' fs' (insert p A) (bump_pos env (bump_ptr h))"
    "\<exists>y\<in>set fs'. S - unat ?t \<le> unat (blk_size h' y)"
    using kmalloc_take_room [OF ok [unfolded fs] L tb(1) t2(2) bt B(1) [unfolded fs] B(2) t2(1) tk] by blast
  have "free_list h \<noteq> 0" using ch fs by auto
  then have "kmalloc env sz h = Some (p, h')"
    using sz(1) r tk by (simp add: kmalloc_def Let_def)
  moreover have "heap_start h' \<noteq> 0" using room kmalloc_take_start [OF tk] by (simp add: heap_room_def)
  then have "heap_room env (S - unat ?t) (insert p A) h'"
    using fs' bk k(5) by (auto simp: heap_room_def)
  then have "heap_room env (S - room_cost (unat sz)) (insert p A) h'"
    by (rule heap_room_mono) (use tb(2) in \<open>simp add: room_cost_def\<close>)
  ultimately show ?thesis using k(2,3) by blast
qed

lemma kfree_room:
  assumes room: "heap_room env S A h" and p: "p \<in> A" "p \<noteq> 0"
  shows "\<exists>h'. kfree p h = Some h' \<and> heap_room env S (A - {p}) h'"
proof -
  obtain fs b where ok: "heap_ok h fs A (bump_pos env (bump_ptr h))" and bk: "bump_ok env 0 (bump_ptr h)"
    and b: "b \<in> set fs" "S \<le> unat (blk_size h b)"
    using room by (auto simp: heap_room_def)
  have L: "bump_pos env (bump_ptr h) \<le> 2 ^ 64" using bump_ok_pos [OF bk] by simp
  obtain h' fs' where f: "kfree p h = Some h'" "heap_ok h' fs' (A - {p}) (bump_pos env (bump_ptr h))"
    "covers h fs h' fs'" "bump_ptr h' = bump_ptr h"
    using kfree_heap_ok [OF ok L p] by blast
  from f(3) b have "\<exists>y\<in>set fs'. S \<le> unat (blk_size h' y)"
    unfolding covers_def by (meson order_trans)
  moreover have "heap_start h' \<noteq> 0" using room kfree_start [OF f(1)] by (simp add: heap_room_def)
  ultimately show ?thesis using f bk by (auto simp: heap_room_def)
qed

text \<open>The contract for clients that have been given room.\<close>

locale room_allocator =
  fixes alloc :: "nat \<Rightarrow> 'h \<Rightarrow> (u64 \<times> 'h) option"
    and dealloc :: "u64 \<Rightarrow> 'h \<Rightarrow> 'h option"
    and room :: "nat \<Rightarrow> u64 set \<Rightarrow> 'h \<Rightarrow> bool"
  assumes alloc_room: "room S A h \<Longrightarrow> 0 < n \<Longrightarrow> room_cost n \<le> S \<Longrightarrow>
      \<exists>p h'. alloc n h = Some (p, h') \<and> p \<noteq> 0 \<and> p \<notin> A \<and> room (S - room_cost n) (insert p A) h'"
    and dealloc_room: "room S A h \<Longrightarrow> p \<in> A \<Longrightarrow> p \<noteq> 0 \<Longrightarrow>
      \<exists>h'. dealloc p h = Some h' \<and> room S (A - {p}) h'"
begin

text \<open>Releasing a list of different live pointers.\<close>

primrec dealloc_list :: "u64 list \<Rightarrow> 'h \<Rightarrow> 'h option" where
  "dealloc_list [] h = Some h"
| "dealloc_list (p # ps) h = Option.bind (dealloc p h) (dealloc_list ps)"

lemma dealloc_list_room:
  "room S A h \<Longrightarrow> set ps \<subseteq> A \<Longrightarrow> distinct ps \<Longrightarrow> 0 \<notin> set ps \<Longrightarrow>
     \<exists>h'. dealloc_list ps h = Some h' \<and> room S (A - set ps) h'"
proof (induction ps arbitrary: A h)
  case (Cons p ps)
  obtain h1 where h1: "dealloc p h = Some h1" "room S (A - {p}) h1"
    using dealloc_room [OF Cons.prems(1), of p] Cons.prems by auto
  have "A - set (p # ps) = A - {p} - set ps" by auto
  with Cons.IH [OF h1(2)] h1(1) Cons.prems show ?case by auto
qed simp

end

lemma heap_room_bound: "heap_room env S A h \<Longrightarrow> S < 2 ^ 64"
  by (auto simp: heap_room_def dest: order_le_less_trans [OF _ unat_lt_u64])

interpretation rm: room_allocator "\<lambda>n. kmalloc env (of_nat n)" kfree "heap_room env"
proof unfold_locales
  fix S A h n
  assume r: "heap_room env S A h" and n: "0 < n" "room_cost n \<le> S"
  have "n < 2 ^ 64" using heap_room_bound [OF r] n(2) by (simp add: room_cost_def)
  then have u: "unat (of_nat n :: u64) = n" by (simp add: unat_of_nat)
  moreover from this n(1) have "(of_nat n :: u64) \<noteq> 0" by (metis less_irrefl unat_0)
  ultimately show "\<exists>p h'. kmalloc env (of_nat n) h = Some (p, h') \<and> p \<noteq> 0 \<and> p \<notin> A \<and>
      heap_room env (S - room_cost n) (insert p A) h'"
    using kmalloc_room [OF r, of "of_nat n"] n(2) by simp
next
  fix S A h p
  assume "heap_room env S A h" "p \<in> A" "p \<noteq> 0"
  then show "\<exists>h'. kfree p h = Some h' \<and> heap_room env S (A - {p}) h'" by (rule kfree_room)
qed

lemma heap_init_room:
  assumes env: "boot_ok env 0" and sz: "1048576 \<le> unat sz" "unat sz + 4096 \<le> 2 ^ 64"
  shows "heap_room env 1048576 {} (heap_init env sz heap_boot)"
proof -
  let ?h = "heap_init env sz heap_boot" and ?b = "static_heap env"
  have b: "heap_start heap_boot = 0" "bump_ptr heap_boot = 0" by (simp_all add: heap_boot_def)
  have nz: "sz \<noteq> 0" using sz(1) by auto
  obtain fs where fs: "bump_ok env 0 (bump_ptr ?h)" "heap_ok ?h fs {} (bump_pos env (bump_ptr ?h))"
    using heap_init_ok(1) [OF env b nz sz(2)] by (auto simp: heap_inv_def)
  have "blk_chain ?h ?b fs" "?b \<noteq> 0"
    using fs(2) heap_init_ok(2) [OF env b nz sz(2)] env by (auto simp: heap_ok_def boot_ok_def)
  then have "?b \<in> set fs" by (cases fs) auto
  moreover have "static_heap_size \<le> align_up sz 0x1000"
    using align_up_nowrap(1) [of "0x1000" 12 sz] sz by (simp add: word_le_nat_alt static_heap_size_def)
  then have "blk_size ?h ?b = static_heap_size"
    by (auto simp: heap_init_def heap_boot_def Let_def)
  moreover have "heap_start ?h = ?b" using b by (simp add: heap_init_def Let_def set_size_def set_next_def)
  ultimately show ?thesis
    using fs \<open>?b \<noteq> 0\<close> unfolding heap_room_def
    by (intro conjI exI [of _ fs] bexI [of _ ?b]) (simp_all add: static_heap_size_def)
qed

section \<open>Every sequence of calls\<close>

text \<open>The states the kernel can bring the heap into: initialisation, then any sequence of
  allocations, and releases of live pointers. \<open>k\<close> is what is left of the growth budget.\<close>

inductive heap_reach :: "boot_env \<Rightarrow> nat \<Rightarrow> u64 set \<Rightarrow> heap \<Rightarrow> bool" for env where
  reach_init: "boot_ok env k \<Longrightarrow> sz \<noteq> 0 \<Longrightarrow> unat sz + 4096 \<le> 2 ^ 64 \<Longrightarrow>
    heap_reach env k {} (heap_init env sz heap_boot)"
| reach_alloc: "heap_reach env (kmalloc_cost n + k) A h \<Longrightarrow> kmalloc env n h = Some (p, h') \<Longrightarrow>
    heap_reach env k (if p = 0 then A else insert p A) h'"
| reach_free: "heap_reach env k A h \<Longrightarrow> p \<in> A \<Longrightarrow> kfree p h = Some h' \<Longrightarrow>
    heap_reach env k (A - {p}) h'"

lemma heap_reach_inv: "heap_reach env k A h \<Longrightarrow> heap_inv env k A h \<and> 0 \<notin> A"
proof (induction rule: heap_reach.induct)
  case (reach_init k sz)
  then show ?case using heap_init_ok(1) [of env k heap_boot sz] by (simp add: heap_boot_def)
next
  case (reach_alloc n k A h p h')
  then show ?case using kh.alloc_law [of env n k A h] by (auto split: if_splits)
next
  case (reach_free k A h p h')
  then show ?case using kh.dealloc_law [of env k A h p] by auto
qed

text \<open>A concrete machine for the examples: the static array at 1 MiB, the kernel image
  ending at 16 MiB, no direct map.\<close>

definition demo_env :: boot_env where
  "demo_env = \<lparr>kernel_end = 0x1000000, hhdm_offset = None, static_heap = 0x100000\<rparr>"

lemma demo_boot_ok: "boot_ok demo_env 0x10000000"
  by (simp add: boot_ok_def bump_ok_def demo_env_def bump_base_def align_up_def page_aligned_def
      Let_def)

lemma demo_heap_reach: "heap_reach demo_env 0x10000000 {} (heap_init demo_env 0x100000 heap_boot)"
  by (rule reach_init [OF demo_boot_ok]) simp_all

lemmas demo_heap_inv = heap_reach_inv [OF demo_heap_reach, THEN conjunct1]

section \<open>Properties\<close>

text \<open>C1. In every heap state the kernel can reach, the payloads of two different live
  pointers share no byte, the free list is finite and without repetition, and the sizes of
  the free and the allocated blocks add up to \<open>heap_size\<close>: nothing is handed out twice
  and no byte of the heap is lost.\<close>

theorem heap_reach_safe:
  assumes "heap_reach env k A h"
  shows "(\<forall>p\<in>A. \<forall>q\<in>A. p \<noteq> q \<longrightarrow> payload h p \<inter> payload h q = {}) \<and>
    (\<exists>fs. blk_chain h (free_list h) fs \<and> distinct fs \<and> set fs \<inter> alloc_blocks A = {} \<and>
      (\<Sum>b\<in>set fs \<union> alloc_blocks A. blk_size h b) = heap_size h)"
proof -
  have inv: "heap_inv env k A h" using heap_reach_inv [OF assms] ..
  then obtain fs where "heap_ok h fs A (bump_pos env (bump_ptr h))"
    by (auto simp: heap_inv_def)
  with heap_inv_payload_disjoint [OF inv] show ?thesis
    by (auto simp: heap_ok_def)
qed

theorem heap_reach_safe_witness:
  "heap_reach demo_env 0x10000000 {} (heap_init demo_env 0x100000 heap_boot) \<and>
   (\<exists>fs. blk_chain (heap_init demo_env 0x100000 heap_boot)
      (free_list (heap_init demo_env 0x100000 heap_boot)) fs \<and> distinct fs)"
  using heap_reach_safe [OF demo_heap_reach] demo_heap_reach by blast

text \<open>C6. \<open>kmalloc\<close> always returns. The pointer is null exactly when the size is zero or
  the free list is empty, and then the heap is unchanged; otherwise the pointer is new, at
  least \<open>sz\<close> bytes can be used behind the header, the blocks already handed out keep
  their sizes, and the invariant holds with the new pointer live.\<close>

theorem kmalloc_spec:
  assumes "heap_inv env (kmalloc_cost sz + k) A h"
  shows "\<exists>p h'. kmalloc env sz h = Some (p, h') \<and> (p = 0 \<longleftrightarrow> sz = 0 \<or> free_list h = 0) \<and>
    (if p = 0 then h' = h
     else p \<notin> A \<and> heap_inv env k (insert p A) h' \<and>
       unat sz + 16 \<le> unat (blk_size h' (p - heap_header)) \<and>
       (\<forall>q\<in>A. blk_size h' (q - heap_header) = blk_size h (q - heap_header)))"
  using kmalloc_ok [OF assms] by (auto simp: fresh_block_def alloc_blocks_def)

theorem kmalloc_spec_witness:
  "heap_inv demo_env (kmalloc_cost 100 + 1000) {} (heap_init demo_env 0x100000 heap_boot) \<and>
   (\<exists>p h'. kmalloc demo_env 100 (heap_init demo_env 0x100000 heap_boot) = Some (p, h') \<and>
      p \<noteq> 0 \<and> heap_inv demo_env 1000 {p} h')"
proof -
  have inv: "heap_inv demo_env (kmalloc_cost 100 + 1000) {} (heap_init demo_env 0x100000 heap_boot)"
    by (rule heap_inv_mono [OF demo_heap_inv]) (simp add: kmalloc_cost_def)
  have "free_list (heap_init demo_env 0x100000 heap_boot) \<noteq> 0"
    by (simp add: heap_init_def heap_boot_def demo_env_def Let_def)
  with kmalloc_spec [OF inv] inv show ?thesis by fastforce
qed

text \<open>C7. \<open>kfree\<close> of a live pointer always returns, whatever the order of the free list,
  and keeps the invariant with that pointer no longer live; the other live blocks keep
  their sizes.\<close>

theorem kfree_spec:
  assumes "heap_inv env k A h" and "p \<in> A" and "p \<noteq> 0"
  shows "\<exists>h'. kfree p h = Some h' \<and> heap_inv env k (A - {p}) h' \<and>
    (\<forall>q\<in>A - {p}. blk_size h' (q - heap_header) = blk_size h (q - heap_header))"
  using kfree_ok [OF assms] by (auto simp: alloc_blocks_def)

theorem kfree_spec_witness:
  "\<exists>p h1 h2. kmalloc demo_env 100 (heap_init demo_env 0x100000 heap_boot) = Some (p, h1) \<and>
     p \<noteq> 0 \<and> kfree p h1 = Some h2 \<and> heap_inv demo_env 1000 {} h2"
proof -
  have inv: "heap_inv demo_env (kmalloc_cost 100 + 1000) {} (heap_init demo_env 0x100000 heap_boot)"
    by (rule heap_inv_mono [OF demo_heap_inv]) (simp add: kmalloc_cost_def)
  have "free_list (heap_init demo_env 0x100000 heap_boot) \<noteq> 0"
    by (simp add: heap_init_def heap_boot_def demo_env_def Let_def)
  with kmalloc_ok [OF inv] obtain p h1 where
    m: "kmalloc demo_env 100 (heap_init demo_env 0x100000 heap_boot) = Some (p, h1)" "p \<noteq> 0"
    and i: "heap_inv demo_env 1000 {p} h1"
    by (fastforce simp: fresh_block_def)
  with kfree_spec [OF i _ m(2)] show ?thesis by auto
qed

text \<open>The search is first fit: the block taken is the first one of the free list that is
  large enough for the rounded size and the header.\<close>

lemma kmalloc_first_fit:
  assumes "blk_chain h (free_list h) fs" and "sz \<noteq> 0"
    and "find (\<lambda>b. kmalloc_total sz \<le> blk_size h b) fs = Some b"
  shows "\<exists>h'. kmalloc env sz h = Some (b + heap_header, h')"
proof -
  let ?t = "kmalloc_total sz"
  have nz: "free_list h \<noteq> 0" using assms(1,3) by (cases fs) auto
  have "\<not> (\<forall>c\<in>set fs. blk_size h c < ?t)"
    using assms(3) by (metis find_none linorder_not_less option.distinct(1))
  then obtain xs c zs where s: "fs = xs @ c # zs" "?t \<le> blk_size h c"
    "\<forall>c\<in>set xs. blk_size h c < ?t"
    "kmalloc_scan ?t 0 (free_list h) h =
       Some (case kmalloc_take ?t (last (0 # xs)) c h of (p, h') \<Rightarrow> (Some p, h'))"
    using kmalloc_scan_chain [OF assms(1), of ?t 0] by blast
  have "find (\<lambda>b. ?t \<le> blk_size h b) fs = Some c"
    unfolding s(1) by (rule find_first) (use s(2,3) in \<open>simp_all add: not_le\<close>)
  then have "c = b" using assms(3) by simp
  then have "\<exists>h'. kmalloc_take (kmalloc_total sz) (last (0 # xs)) c h = (b + heap_header, h')"
    by (simp add: kmalloc_take_def Let_def)
  then show ?thesis
    using s(4) nz assms(2) by (auto simp: kmalloc_def Let_def)
qed

end
