(* ===== verification/Libc.thy ===== *)
theory Libc
  imports Prelude
begin

text \<open>
  The freestanding C library of \<^verbatim>\<open>kernel/libs/libc.c\<close>. Memory is a function from addresses to
  bytes and pointers are 64-bit words. A counted loop is a fold over its indices; a loop that
  runs until a NUL byte is a \<open>partial_function\<close>, since on memory without a NUL it may not
  end. The predicate \<open>str_at\<close> says that a C string is stored at an address; the theorems
  relate every routine to its meaning on HOL strings, which is how the other components use
  strings.
\<close>

type_synonym mem = "u64 \<Rightarrow> byte"

section \<open>Memory blocks\<close>

definition memset :: "mem \<Rightarrow> u64 \<Rightarrow> int \<Rightarrow> u64 \<Rightarrow> mem" where
  "memset m s c n = fold (\<lambda>i m. m(s + of_nat i := of_int c)) [0..<unat n] m"

definition copy_byte :: "u64 \<Rightarrow> u64 \<Rightarrow> nat \<Rightarrow> mem \<Rightarrow> mem" where
  "copy_byte dst src i m = m(dst + of_nat i := m (src + of_nat i))"

definition memcpy :: "mem \<Rightarrow> u64 \<Rightarrow> u64 \<Rightarrow> u64 \<Rightarrow> mem" where
  "memcpy m dst src n = fold (copy_byte dst src) [0..<unat n] m"

definition memmove :: "mem \<Rightarrow> u64 \<Rightarrow> u64 \<Rightarrow> u64 \<Rightarrow> mem" where
  "memmove m dst src n =
     (if dst = src \<or> n = 0 then m
      else if dst < src
      then fold (copy_byte dst src) [0..<unat n] m
      else fold (copy_byte dst src) (rev [0..<unat n]) m)"

primrec memcmp_loop :: "mem \<Rightarrow> u64 \<Rightarrow> u64 \<Rightarrow> nat list \<Rightarrow> int" where
  "memcmp_loop m a b [] = 0"
| "memcmp_loop m a b (i # is) =
     (if m (a + of_nat i) < m (b + of_nat i) then -1
      else if m (b + of_nat i) < m (a + of_nat i) then 1
      else memcmp_loop m a b is)"

definition memcmp :: "mem \<Rightarrow> u64 \<Rightarrow> u64 \<Rightarrow> u64 \<Rightarrow> int" where
  "memcmp m s1 s2 n = memcmp_loop m s1 s2 [0..<unat n]"

section \<open>Strings\<close>

partial_function (option) strlen_loop :: "mem \<Rightarrow> u64 \<Rightarrow> u64 option" where
  "strlen_loop m p = (if m p = 0 then Some p else strlen_loop m (p + 1))"

definition strlen :: "mem \<Rightarrow> u64 \<Rightarrow> u64 option" where
  "strlen m s = do { p \<leftarrow> strlen_loop m s; Some (p - s) }"

partial_function (option) strcmp :: "mem \<Rightarrow> u64 \<Rightarrow> u64 \<Rightarrow> int option" where
  "strcmp m a b =
     (if m a \<noteq> 0 \<and> m a = m b then strcmp m (a + 1) (b + 1)
      else Some (uint (m a) - uint (m b)))"

definition isdigit :: "int \<Rightarrow> int" where
  "isdigit c = (if 48 \<le> c \<and> c \<le> 57 then 1 else 0)"

primrec strncmp_loop :: "mem \<Rightarrow> u64 \<Rightarrow> u64 \<Rightarrow> nat list \<Rightarrow> int" where
  "strncmp_loop m a b [] = 0"
| "strncmp_loop m a b (i # is) =
     (if m (a + of_nat i) \<noteq> 0 \<and> m (a + of_nat i) = m (b + of_nat i)
      then strncmp_loop m a b is
      else uint (m (a + of_nat i)) - uint (m (b + of_nat i)))"

definition strncmp :: "mem \<Rightarrow> u64 \<Rightarrow> u64 \<Rightarrow> u64 \<Rightarrow> int" where
  "strncmp m a b n = (if n = 0 then 0 else strncmp_loop m a b [0..<unat n])"

partial_function (option) strcpy :: "mem \<Rightarrow> u64 \<Rightarrow> u64 \<Rightarrow> mem option" where
  "strcpy m d s =
     (let c = m s; m' = m(d := c)
      in if c \<noteq> 0 then strcpy m' (d + 1) (s + 1) else Some m')"

text \<open>The flag says whether the first loop of \<open>strncpy\<close>, the one that copies, is still
  running.\<close>

primrec strncpy_loop :: "u64 \<Rightarrow> u64 \<Rightarrow> nat list \<Rightarrow> bool \<Rightarrow> mem \<Rightarrow> mem" where
  "strncpy_loop dst src [] copying m = m"
| "strncpy_loop dst src (i # is) copying m =
     (if copying \<and> m (src + of_nat i) \<noteq> 0
      then strncpy_loop dst src is True (m(dst + of_nat i := m (src + of_nat i)))
      else strncpy_loop dst src is False (m(dst + of_nat i := 0)))"

definition strncpy :: "mem \<Rightarrow> u64 \<Rightarrow> u64 \<Rightarrow> u64 \<Rightarrow> mem" where
  "strncpy m dst src n = strncpy_loop dst src [0..<unat n] True m"

partial_function (option) strchr :: "mem \<Rightarrow> u64 \<Rightarrow> byte \<Rightarrow> u64 option" where
  "strchr m s c =
     (if m s = 0 then Some 0 else if m s = c then Some s else strchr m (s + 1) c)"

partial_function (option) strrchr_loop :: "mem \<Rightarrow> u64 \<Rightarrow> byte \<Rightarrow> u64 \<Rightarrow> u64 option" where
  "strrchr_loop m s c lst =
     (if m s = 0 then Some lst
      else strrchr_loop m (s + 1) c (if m s = c then s else lst))"

definition strrchr :: "mem \<Rightarrow> u64 \<Rightarrow> byte \<Rightarrow> u64 option" where
  "strrchr m s c = strrchr_loop m s c 0"

partial_function (option) strstr_match :: "mem \<Rightarrow> u64 \<Rightarrow> u64 \<Rightarrow> u64 option" where
  "strstr_match m p n =
     (if m p \<noteq> 0 \<and> m n \<noteq> 0 \<and> m p = m n then strstr_match m (p + 1) (n + 1) else Some n)"

partial_function (option) strstr_loop :: "mem \<Rightarrow> u64 \<Rightarrow> u64 \<Rightarrow> u64 option" where
  "strstr_loop m h needle =
     (if m h = 0 then Some 0
      else Option.bind (strstr_match m h needle)
             (\<lambda>n. if m n = 0 then Some h else strstr_loop m (h + 1) needle))"

definition strstr :: "mem \<Rightarrow> u64 \<Rightarrow> u64 \<Rightarrow> u64 option" where
  "strstr m haystack needle =
     (if haystack = 0 \<or> needle = 0 then Some 0
      else if m needle = 0 then Some haystack
      else strstr_loop m haystack needle)"

partial_function (option) strcat_end :: "mem \<Rightarrow> u64 \<Rightarrow> u64 option" where
  "strcat_end m d = (if m d = 0 then Some d else strcat_end m (d + 1))"

definition strcat :: "mem \<Rightarrow> u64 \<Rightarrow> u64 \<Rightarrow> mem option" where
  "strcat m dest src = do { d \<leftarrow> strcat_end m dest; strcpy m d src }"

section \<open>Numbers\<close>

definition is_space :: "byte \<Rightarrow> bool" where
  "is_space c \<longleftrightarrow> c \<in> {32, 9, 10, 13, 12, 11}"

partial_function (option) skip_space :: "mem \<Rightarrow> u64 \<Rightarrow> u64 option" where
  "skip_space m s = (if is_space (m s) then skip_space m (s + 1) else Some s)"

text \<open>The value of a digit or letter, \<open>None\<close> for any other byte. Bytes from 128 on are
  negative as a \<open>char\<close> and never digits.\<close>

definition digit_of :: "byte \<Rightarrow> int option" where
  "digit_of c =
     (if 48 \<le> c \<and> c \<le> 57 then Some (uint c - 48)
      else if 97 \<le> c \<and> c \<le> 122 then Some (uint c - 97 + 10)
      else if 65 \<le> c \<and> c \<le> 90 then Some (uint c - 65 + 10)
      else None)"

partial_function (option) strtol_digits ::
  "mem \<Rightarrow> int \<Rightarrow> u64 \<Rightarrow> u64 \<Rightarrow> bool \<Rightarrow> (u64 \<times> u64 \<times> bool) option" where
  "strtol_digits m base s acc any =
     (case digit_of (m s) of
        None \<Rightarrow> Some (s, acc, any)
      | Some digit \<Rightarrow>
          (if digit \<ge> base then Some (s, acc, any)
           else strtol_digits m base (s + 1) (acc * of_int base + of_int digit) True))"

definition strtol_base :: "mem \<Rightarrow> u64 \<Rightarrow> int \<Rightarrow> int" where
  "strtol_base m s base =
     (if base = 0 then
        (if m s = 48 \<and> (m (s + 1) = 120 \<or> m (s + 1) = 88) then 16
         else if m s = 48 then 8 else 10)
      else base)"

text \<open>The result and the end pointer. A \<open>long\<close> is its 64 bits, so an overflowing
  accumulation wraps.\<close>

definition strtol :: "mem \<Rightarrow> u64 \<Rightarrow> int \<Rightarrow> (int \<times> u64) option" where
  "strtol m nptr base0 = do {
     s0 \<leftarrow> skip_space m nptr;
     let neg = (m s0 = 45);
     let s1 = (if m s0 = 43 \<or> m s0 = 45 then s0 + 1 else s0);
     let base = strtol_base m s1 base0;
     let s2 = (if base = 16 \<and> m s1 = 48 \<and> (m (s1 + 1) = 120 \<or> m (s1 + 1) = 88)
               then s1 + 2 else s1);
     (s, acc, any) \<leftarrow> strtol_digits m base s2 0 False;
     Some (sint (if neg then - acc else acc), if any then s else nptr)
   }"

definition atoi :: "mem \<Rightarrow> u64 \<Rightarrow> int option" where
  "atoi m str = do {
     (v, e) \<leftarrow> strtol m str 10;
     Some (sint (of_int v :: 32 word))
   }"

text \<open>Digits are produced least significant first into a temporary array with room for
  \<open>room\<close> characters.\<close>

primrec utoa_loop :: "nat \<Rightarrow> u32 \<Rightarrow> byte list" where
  "utoa_loop 0 v = []"
| "utoa_loop (Suc room) v =
     (if v = 0 then [] else (48 + ucast (v mod 10)) # utoa_loop room (v div 10))"

definition utoa_tmp :: "u32 \<Rightarrow> byte list" where
  "utoa_tmp v = (if v = 0 then [48] else utoa_loop 23 v)"

primrec utoa64_loop :: "nat \<Rightarrow> u64 \<Rightarrow> byte list" where
  "utoa64_loop 0 v = []"
| "utoa64_loop (Suc room) v =
     (if v = 0 then [] else (48 + ucast (v mod 10)) # utoa64_loop room (v div 10))"

definition utoa64_tmp :: "u64 \<Rightarrow> byte list" where
  "utoa64_tmp v = (if v = 0 then [48] else utoa64_loop 31 v)"

definition hex_lower :: "u64 \<Rightarrow> byte" where
  "hex_lower v = (if v < 10 then 48 + ucast v else 87 + ucast v)"

definition hex_upper :: "u64 \<Rightarrow> byte" where
  "hex_upper v = (if v < 10 then 48 + ucast v else 55 + ucast v)"

primrec utoa64_hex_loop :: "(u64 \<Rightarrow> byte) \<Rightarrow> nat \<Rightarrow> u64 \<Rightarrow> byte list" where
  "utoa64_hex_loop dg 0 v = []"
| "utoa64_hex_loop dg (Suc room) v =
     (if v = 0 then [] else dg (v AND 0xF) # utoa64_hex_loop dg room (drop_bit 4 v))"

definition utoa64_hex_tmp :: "u64 \<Rightarrow> byte list" where
  "utoa64_hex_tmp v = (if v = 0 then [48] else utoa64_hex_loop hex_lower 31 v)"

text \<open>The text the reversal leaves in a buffer of \<open>buflen\<close> bytes: when the digits do not
  fit, the loop runs from the end of the array down to \<open>start\<close>.\<close>

definition digits_text :: "nat \<Rightarrow> byte list \<Rightarrow> byte list" where
  "digits_text buflen tmp =
     (let out_len = length tmp
      in if out_len + 1 > buflen then rev (drop (out_len - (buflen - 1)) tmp) else rev tmp)"

definition put_byte :: "u64 \<Rightarrow> byte list \<Rightarrow> nat \<Rightarrow> mem \<Rightarrow> mem" where
  "put_byte a bs i m = m(a + of_nat i := bs ! i)"

definition store_bytes :: "mem \<Rightarrow> u64 \<Rightarrow> byte list \<Rightarrow> mem" where
  "store_bytes m a bs = fold (put_byte a bs) [0..<length bs] m"

definition store_text :: "mem \<Rightarrow> u64 \<Rightarrow> byte list \<Rightarrow> mem" where
  "store_text m a bs = (store_bytes m a bs)(a + of_nat (length bs) := 0)"

definition utoa :: "mem \<Rightarrow> u32 \<Rightarrow> u64 \<Rightarrow> u64 \<Rightarrow> mem" where
  "utoa m v buf buflen =
     (if buf = 0 \<or> buflen = 0 then m
      else store_text m buf (digits_text (unat buflen) (utoa_tmp v)))"

definition utoa64 :: "mem \<Rightarrow> u64 \<Rightarrow> u64 \<Rightarrow> u64 \<Rightarrow> mem" where
  "utoa64 m v buf buflen =
     (if buf = 0 \<or> buflen = 0 then m
      else store_text m buf (digits_text (unat buflen) (utoa64_tmp v)))"

definition utoa64_hex :: "mem \<Rightarrow> u64 \<Rightarrow> u64 \<Rightarrow> u64 \<Rightarrow> mem" where
  "utoa64_hex m v buf buflen =
     (if buf = 0 \<or> buflen = 0 then m
      else store_text m buf (digits_text (unat buflen) (utoa64_hex_tmp v)))"

section \<open>Formatted output\<close>

text \<open>A variadic argument is a string or a 64-bit slot. The value \<open>None\<close> stands for the
  undefined cases: a missing or mismatched argument, and a format that ends after a percent
  sign, where the loop steps over the terminator.\<close>

datatype va_arg = VStr string | VWord u64

definition text_of :: "byte list \<Rightarrow> string" where
  "text_of bs = map char_of_byte bs"

definition fmt_d :: "nat \<Rightarrow> u64 \<Rightarrow> string" where
  "fmt_d len_mod w =
     (if len_mod = 0 then
        (let v = (ucast w :: u32); neg = (sint v < 0); v' = (if neg then - v else v)
         in (if neg then ''-'' else []) @ text_of (digits_text 32 (utoa_tmp v')))
      else
        (let neg = (sint w < 0); w' = (if neg then - w else w)
         in (if neg then ''-'' else []) @ text_of (digits_text 64 (utoa64_tmp w'))))"

definition fmt_u :: "nat \<Rightarrow> u64 \<Rightarrow> string" where
  "fmt_u len_mod w =
     (if len_mod = 0 then text_of (digits_text 32 (utoa_tmp (ucast w)))
      else text_of (digits_text 64 (utoa64_tmp w)))"

definition fmt_x :: "nat \<Rightarrow> u64 \<Rightarrow> string" where
  "fmt_x len_mod w =
     (if len_mod = 0 then
        (let v = ucast (ucast w :: u32)
         in text_of (rev (if v = 0 then [48] else utoa64_hex_loop hex_upper 31 v)))
      else text_of (digits_text 64 (utoa64_hex_tmp w)))"

definition fmt_p :: "u64 \<Rightarrow> string" where
  "fmt_p w =
     (let t = digits_text 32 (utoa64_hex_tmp w)
      in ''0x'' @ replicate (16 - length t) (CHR ''0'') @ text_of t)"

text \<open>One conversion: the text it prints and the arguments left.\<close>

definition fmt_conv :: "nat \<Rightarrow> char \<Rightarrow> va_arg list \<Rightarrow> (string \<times> va_arg list) option" where
  "fmt_conv len_mod k args =
     (if k = CHR ''s'' then (case args of VStr s # as \<Rightarrow> Some (s, as) | _ \<Rightarrow> None)
      else if k = CHR ''d'' then (case args of VWord w # as \<Rightarrow> Some (fmt_d len_mod w, as) | _ \<Rightarrow> None)
      else if k = CHR ''u'' then (case args of VWord w # as \<Rightarrow> Some (fmt_u len_mod w, as) | _ \<Rightarrow> None)
      else if k = CHR ''x'' then (case args of VWord w # as \<Rightarrow> Some (fmt_x len_mod w, as) | _ \<Rightarrow> None)
      else if k = CHR ''p'' then (case args of VWord w # as \<Rightarrow> Some (fmt_p w, as) | _ \<Rightarrow> None)
      else if k = CHR ''c'' then
        (case args of VWord w # as \<Rightarrow> Some ([char_of_byte (ucast w)], as) | _ \<Rightarrow> None)
      else if k = CHR ''%'' then Some (''%'', args)
      else Some ([CHR ''%'', k], args))"

definition fmt_mod :: "string \<Rightarrow> nat \<times> string" where
  "fmt_mod f =
     (case f of
        c # r \<Rightarrow> (if c = CHR ''l'' then
                   (case r of c' # r' \<Rightarrow> (if c' = CHR ''l'' then (2, r') else (1, r)) | [] \<Rightarrow> (1, r))
                 else (0, f))
      | [] \<Rightarrow> (0, f))"

lemma fmt_mod_shorter: "snd (fmt_mod f) = k # r \<Longrightarrow> length r < length f"
  by (auto simp: fmt_mod_def split: list.splits if_splits)

function vsprintf :: "string \<Rightarrow> va_arg list \<Rightarrow> string option" where
  "vsprintf [] args = Some []"
| "vsprintf (c # f) args =
     (if c \<noteq> CHR ''%'' then do { out \<leftarrow> vsprintf f args; Some (c # out) }
      else (case snd (fmt_mod f) of
              [] \<Rightarrow> None
            | k # r \<Rightarrow> do {
                (txt, args') \<leftarrow> fmt_conv (fst (fmt_mod f)) k args;
                out \<leftarrow> vsprintf r args';
                Some (txt @ out)
              }))"
  by pat_completeness auto
termination
  by (relation "measure (\<lambda>(f, args). length f)") (auto dest: fmt_mod_shorter)

definition vsnprintf :: "nat \<Rightarrow> string \<Rightarrow> va_arg list \<Rightarrow> (nat \<times> string option) option" where
  "vsnprintf n fmt args = do {
     tmp \<leftarrow> vsprintf fmt args;
     if length tmp \<ge> 1024 then None
     else if n = 0 then Some (length tmp, None)
     else let to_copy = (if length tmp \<ge> n then n - 1 else length tmp)
          in Some (to_copy, Some (take to_copy tmp))
   }"

section \<open>Copying\<close>

text \<open>What one counted copy loop leaves, as long as no byte is read after it was
  overwritten.\<close>

definition copied :: "mem \<Rightarrow> u64 \<Rightarrow> u64 \<Rightarrow> nat \<Rightarrow> mem" where
  "copied m d s n = (\<lambda>x. if unat (x - d) < n then m (s + (x - d)) else m x)"

lemma unat_off_eq:
  assumes "i < 2 ^ 64"
  shows "unat (x - d) = i \<longleftrightarrow> x = d + (of_nat i :: u64)"
proof
  assume "unat (x - d) = i"
  then have "of_nat i = x - d" by auto
  then show "x = d + of_nat i" by (simp add: algebra_simps)
next
  assume "x = d + of_nat i"
  then show "unat (x - d) = i" using assms by (simp add: unat_of_nat)
qed

lemma copied_step_forward:
  assumes n: "n < 2 ^ 64" and "\<not> unat (s + of_nat n - d) < n"
  shows "copy_byte d s n (copied m d s n) = copied m d s (Suc n)"
proof
  fix x
  show "copy_byte d s n (copied m d s n) x = copied m d s (Suc n) x"
    using assms(2) unat_off_eq [OF n, of x d]
    by (cases "x = d + of_nat n") (auto simp: copy_byte_def copied_def less_Suc_eq)
qed

lemma copied_step_backward:
  assumes n: "n < 2 ^ 64" and ne: "\<And>i. i < n \<Longrightarrow> s + of_nat i \<noteq> d + of_nat n"
  shows "copied (copy_byte d s n m) d s n = copied m d s (Suc n)"
proof
  fix x
  have "s + (x - d) \<noteq> d + of_nat n" if "unat (x - d) < n"
    using ne [OF that] by simp
  then show "copied (copy_byte d s n m) d s n x = copied m d s (Suc n) x"
    using unat_off_eq [OF n, of x d]
    by (cases "x = d + of_nat n") (auto simp: copy_byte_def copied_def less_Suc_eq)
qed

lemma copy_forward:
  assumes "n \<le> 2 ^ 64" and "\<And>i j. j < i \<Longrightarrow> i < n \<Longrightarrow> d + of_nat j \<noteq> s + (of_nat i :: u64)"
  shows "fold (copy_byte d s) [0..<n] m = copied m d s n"
  using assms
proof (induction n)
  case 0
  then show ?case by (simp add: copied_def)
next
  case (Suc n)
  have "\<not> unat (s + of_nat n - d) < n"
    using Suc.prems(2) [of "unat (s + of_nat n - d)" n] by auto
  moreover have "fold (copy_byte d s) [0..<n] m = copied m d s n"
    by (rule Suc.IH) (use Suc.prems in simp_all)
  ultimately show ?case
    using Suc.prems(1) by (simp add: copied_step_forward)
qed

lemma copy_backward:
  assumes "n \<le> 2 ^ 64" and "\<And>i j. i < j \<Longrightarrow> j < n \<Longrightarrow> d + of_nat j \<noteq> s + (of_nat i :: u64)"
  shows "fold (copy_byte d s) (rev [0..<n]) m = copied m d s n"
  using assms
proof (induction n arbitrary: m)
  case 0
  then show ?case by (simp add: copied_def)
next
  case (Suc n)
  have "fold (copy_byte d s) (rev [0..<n]) (copy_byte d s n m) = copied (copy_byte d s n m) d s n"
    by (rule Suc.IH) (use Suc.prems in simp_all)
  also have "\<dots> = copied m d s (Suc n)"
    using Suc.prems by (intro copied_step_backward) (simp, metis lessI)
  finally show ?case by simp
qed

lemma unat_index:
  fixes a n :: u64
  assumes "unat a + unat n \<le> 2 ^ 64" "i < unat n"
  shows "unat (a + of_nat i) = unat a + i"
  using assms unat_lt_u64 [of n] by (subst unat_add_nowrap) (simp_all add: unat_of_nat)

lemma memmove_copied:
  assumes d: "unat dst + unat n \<le> 2 ^ 64" and s: "unat src + unat n \<le> 2 ^ 64"
  shows "memmove m dst src n = copied m dst src (unat n)"
proof -
  have ne: "dst + of_nat j \<noteq> src + of_nat i"
    if "i < unat n" "j < unat n" "unat dst + j \<noteq> unat src + i" for i j
    using unat_index [OF d that(2)] unat_index [OF s that(1)] that(3) by metis
  have nle: "unat n \<le> 2 ^ 64" using unat_lt_u64 [of n] by simp
  consider "dst = src \<or> n = 0" | "n \<noteq> 0" "dst < src" | "n \<noteq> 0" "src < dst"
    by (metis linorder_neqE)
  then show ?thesis
  proof cases
    case 1
    then show ?thesis by (auto simp: memmove_def copied_def)
  next
    case 2
    then have "fold (copy_byte dst src) [0..<unat n] m = copied m dst src (unat n)"
      by (intro copy_forward nle ne) (simp_all add: word_less_nat_alt)
    with 2 show ?thesis by (auto simp: memmove_def)
  next
    case 3
    then have "fold (copy_byte dst src) (rev [0..<unat n]) m = copied m dst src (unat n)"
      by (intro copy_backward nle ne) (simp_all add: word_less_nat_alt)
    with 3 show ?thesis by (auto simp: memmove_def)
  qed
qed

section \<open>Strings in memory\<close>

text \<open>\<open>bytes_at m a bs\<close>: the bytes \<open>bs\<close> are stored from \<open>a\<close> on. \<open>str_at m a s\<close>: the C
  string \<open>s\<close>, with its terminator, is.\<close>

primrec bytes_at :: "mem \<Rightarrow> u64 \<Rightarrow> byte list \<Rightarrow> bool" where
  "bytes_at m a [] \<longleftrightarrow> True"
| "bytes_at m a (b # bs) \<longleftrightarrow> m a = b \<and> bytes_at m (a + 1) bs"

definition str_at :: "mem \<Rightarrow> u64 \<Rightarrow> string \<Rightarrow> bool" where
  "str_at m a s \<longleftrightarrow> cstring s \<and> bytes_at m a (map byte_of_char s @ [0])"

lemma uint_byte_of_char [simp]:
  "uint (byte_of_char c) = uint (byte_of_char d) \<longleftrightarrow> c = d"
  "uint (byte_of_char c) = 0 \<longleftrightarrow> c = NUL"
  by (metis byte_of_char_inj word_uint_eq_iff, metis byte_of_char_zero uint_0_iff)

lemma str_at_Nil [simp, str_simps]: "str_at m a [] \<longleftrightarrow> m a = 0"
  by (simp add: str_at_def)

lemma str_at_Cons [simp, str_simps]:
  "str_at m a (c # s) \<longleftrightarrow> c \<noteq> NUL \<and> m a = byte_of_char c \<and> str_at m (a + 1) s"
  by (auto simp: str_at_def)

lemma strlen_loop_str: "str_at m a s \<Longrightarrow> strlen_loop m a = Some (a + of_nat (length s))"
  by (induction s arbitrary: a) (simp_all add: strlen_loop.simps)

lemma strlen_str: "str_at m a s \<Longrightarrow> strlen m a = Some (of_nat (length s))"
  by (simp add: strlen_def strlen_loop_str)

lemma strcmp_str:
  assumes "str_at m a s" "str_at m b t"
  shows "\<exists>r. strcmp m a b = Some r \<and> (r = 0 \<longleftrightarrow> s = t)"
  using assms
proof (induction s arbitrary: a b t)
  case Nil
  then show ?case by (cases t) (auto simp: strcmp.simps)
next
  case (Cons c s)
  show ?case
  proof (cases t)
    case Nil
    with Cons.prems show ?thesis by (auto simp: strcmp.simps)
  next
    case (Cons d t')
    show ?thesis
    proof (cases "c = d")
      case True
      then show ?thesis
        using Cons.IH [of "a + 1" "b + 1" t'] Cons.prems Cons by (simp add: strcmp.simps [of m a])
    next
      case False
      then show ?thesis using Cons.prems Cons by (simp add: strcmp.simps [of m a])
    qed
  qed
qed

lemma strncmp_loop_str:
  assumes "str_at m (a + of_nat i) s" "str_at m (b + of_nat i) t"
  shows "strncmp_loop m a b [i..<i + n] = 0 \<longleftrightarrow> take n s = take n t"
  using assms
proof (induction n arbitrary: i s t)
  case 0
  then show ?case by simp
next
  case (Suc n)
  have up: "[i..<i + Suc n] = i # [Suc i..<Suc i + n]"
    by (simp add: upt_conv_Cons)
  show ?case
    unfolding up using Suc.prems Suc.IH [of "Suc i"]
    by (cases s; cases t) (auto simp: algebra_simps simp del: upt_Suc)
qed

lemma strncmp_str:
  assumes "str_at m a s" "str_at m b t"
  shows "strncmp m a b n = 0 \<longleftrightarrow> take (unat n) s = take (unat n) t"
  using strncmp_loop_str [of m a 0 s b t "unat n"] assms by (auto simp: strncmp_def)

section \<open>Printing and reading numbers\<close>

lemma bytes_at_append:
  "bytes_at m a (xs @ ys) \<longleftrightarrow> bytes_at m a xs \<and> bytes_at m (a + of_nat (length xs)) ys"
  by (induction xs arbitrary: a) (auto simp: algebra_simps)

lemma bytes_at_nth:
  "bytes_at m a bs \<longleftrightarrow> (\<forall>i<length bs. m (a + of_nat i) = bs ! i)"
proof (induction bs arbitrary: a)
  case (Cons b bs)
  then show ?case by (auto simp: less_Suc_eq_0_disj algebra_simps)
qed simp

definition stored :: "mem \<Rightarrow> u64 \<Rightarrow> byte list \<Rightarrow> nat \<Rightarrow> mem" where
  "stored m a bs n = (\<lambda>x. if unat (x - a) < n then bs ! unat (x - a) else m x)"

lemma store_fold: "n \<le> 2 ^ 64 \<Longrightarrow> fold (put_byte a bs) [0..<n] m = stored m a bs n"
proof (induction n)
  case 0
  then show ?case by (simp add: stored_def)
next
  case (Suc n)
  then have n: "n < 2 ^ 64" by simp
  have "put_byte a bs n (stored m a bs n) x = stored m a bs (Suc n) x" for x
    using unat_off_eq [OF n, of x a]
    by (cases "x = a + of_nat n") (auto simp: put_byte_def stored_def less_Suc_eq)
  then show ?case using Suc by auto
qed

lemma store_text_at:
  assumes "length bs < 2 ^ 64"
  shows "bytes_at (store_text m a bs) a (bs @ [0])"
proof -
  have un: "unat (of_nat i :: u64) = i" if "i \<le> length bs" for i
    using that assms by (simp add: unat_of_nat)
  have "store_bytes m a bs (a + of_nat i) = bs ! i" if "i < length bs" for i
    using that assms un by (simp add: store_bytes_def store_fold stored_def)
  moreover have "of_nat i \<noteq> (of_nat (length bs) :: u64)" if "i < length bs" for i
    using that un by (metis less_imp_le less_irrefl order_refl)
  ultimately show ?thesis
    unfolding bytes_at_append by (auto simp: bytes_at_nth store_text_def)
qed

text \<open>The decimal digits of a number, least significant first.\<close>

primrec digits_val :: "byte list \<Rightarrow> nat" where
  "digits_val [] = 0"
| "digits_val (b # bs) = (unat b - 48) + 10 * digits_val bs"

definition is_dec :: "byte \<Rightarrow> bool" where
  "is_dec b \<longleftrightarrow> 48 \<le> b \<and> b \<le> 57"

lemma dec_digit:
  fixes v :: u64
  shows "is_dec (48 + ucast (v mod 10))" and "unat (48 + ucast (v mod 10) :: byte) - 48 = unat v mod 10"
proof -
  have m: "unat (v mod 10) = unat v mod 10" by (simp add: unat_mod)
  have "unat (ucast (v mod 10) :: byte) = unat v mod 10"
    using m by (simp add: unsigned_ucast_eq take_bit_eq_mod)
  moreover from this have "unat (48 + ucast (v mod 10) :: byte) = 48 + unat v mod 10"
    by (subst unat_add_nowrap) simp_all
  ultimately show "is_dec (48 + ucast (v mod 10))"
    and "unat (48 + ucast (v mod 10) :: byte) - 48 = unat v mod 10"
    by (simp_all add: is_dec_def word_le_nat_alt)
qed

lemma utoa64_loop_val:
  "unat v < 10 ^ room \<Longrightarrow>
     digits_val (utoa64_loop room v) = unat v \<and> list_all is_dec (utoa64_loop room v)"
proof (induction room arbitrary: v)
  case 0
  then show ?case by simp
next
  case (Suc room)
  have "unat (v div 10) < 10 ^ room" using Suc.prems by (simp add: unat_div)
  from Suc.IH [OF this] show ?case
    using dec_digit [of v] by (simp add: unat_div)
qed

lemma length_utoa64_loop: "unat v < 10 ^ n \<Longrightarrow> length (utoa64_loop room v) \<le> n"
proof (induction room arbitrary: v n)
  case (Suc room)
  show ?case
  proof (cases n)
    case 0
    with Suc.prems have "v = 0" by (simp add: unat_eq_zero)
    then show ?thesis by simp
  next
    case (Suc k)
    then have "unat (v div 10) < 10 ^ k" using Suc.prems by (simp add: unat_div)
    with Suc.IH Suc show ?thesis by simp
  qed
qed simp

lemma utoa64_tmp_props:
  shows "digits_val (utoa64_tmp v) = unat v" and "list_all is_dec (utoa64_tmp v)"
    and "0 < length (utoa64_tmp v)" and "length (utoa64_tmp v) \<le> 20"
proof -
  have b: "unat v < 10 ^ 20" "unat v < 10 ^ 31" using unat_lt_u64 [of v] by simp_all
  show "digits_val (utoa64_tmp v) = unat v" "list_all is_dec (utoa64_tmp v)"
    using utoa64_loop_val [OF b(2)] by (auto simp: utoa64_tmp_def is_dec_def)
  show "length (utoa64_tmp v) \<le> 20"
    using length_utoa64_loop [OF b(1), of 31] by (simp add: utoa64_tmp_def)
  show "0 < length (utoa64_tmp v)"
    using utoa64_loop_val [OF b(2)] by (auto simp: utoa64_tmp_def unat_eq_zero)
qed

text \<open>Reading the digits back.\<close>

lemma digit_of_dec:
  assumes "is_dec b"
  shows "digit_of b = Some (int (unat b - 48))"
proof -
  have "48 \<le> unat b" using assms by (simp add: is_dec_def word_le_nat_alt)
  then have "int (unat b - 48) = uint b - 48" by (simp add: of_nat_diff)
  with assms show ?thesis by (simp add: is_dec_def digit_of_def)
qed

lemma strtol_digits_run:
  "list_all is_dec bs \<Longrightarrow> bytes_at m a (bs @ [0]) \<Longrightarrow>
     strtol_digits m 10 a acc any =
       Some (a + of_nat (length bs), foldl (\<lambda>x b. x * 10 + of_nat (unat b - 48)) acc bs, any \<or> bs \<noteq> [])"
proof (induction bs arbitrary: a acc any)
  case Nil
  then show ?case by (simp add: strtol_digits.simps digit_of_def)
next
  case (Cons b bs)
  then have b: "is_dec b" "m a = b" by auto
  have "unat b - 48 < 10" using b(1) by (auto simp: is_dec_def word_le_nat_alt)
  with Cons b show ?case
    by (simp add: strtol_digits.simps [of m 10 a] digit_of_dec algebra_simps)
qed

lemma foldl_digits_val:
  "foldl (\<lambda>x b. x * 10 + of_nat (unat b - 48)) 0 (rev bs) = (of_nat (digits_val bs) :: u64)"
  by (induction bs) (simp_all add: algebra_simps)

lemma digits_text_fits: "length tmp < n \<Longrightarrow> digits_text n tmp = rev tmp"
  by (simp add: digits_text_def Let_def)

lemma digits_text_truncated:
  "0 < n \<Longrightarrow> n \<le> length tmp \<Longrightarrow> digits_text n tmp = take (n - 1) (rev tmp)"
  by (simp add: digits_text_def Let_def rev_drop)

lemma strtol_decimal:
  assumes d: "list_all is_dec bs" "bs \<noteq> []" and at: "bytes_at m a (bs @ [0])"
  shows "strtol m a 10 =
    Some (sint (foldl (\<lambda>x b. x * 10 + of_nat (unat b - 48)) (0 :: u64) bs), a + of_nat (length bs))"
proof -
  obtain b bs' where bs: "bs = b # bs'" using d(2) by (cases bs) auto
  then have b: "m a = b" "48 \<le> b" "b \<le> 57" using d(1) at by (auto simp: is_dec_def)
  then have nb: "\<not> is_space b" "b \<noteq> 45" "b \<noteq> 43"
    by (auto simp: is_space_def)
  then have "skip_space m a = Some a" using b(1) by (simp add: skip_space.simps)
  then show ?thesis
    using nb b(1) strtol_digits_run [OF d(1) at, of 0 False] d(2)
    by (simp add: strtol_def strtol_base_def Let_def)
qed

section \<open>Properties\<close>

text \<open>C26. \<open>memmove\<close> copies correctly whatever the overlap of the two regions: every
  destination byte holds what the source byte held before the call, and every byte outside
  the destination is unchanged.\<close>

theorem memmove_spec:
  assumes "unat dst + unat n \<le> 2 ^ 64" and "unat src + unat n \<le> 2 ^ 64"
  shows "(\<forall>i<unat n. memmove m dst src n (dst + of_nat i) = m (src + of_nat i)) \<and>
    (\<forall>x. unat n \<le> unat (x - dst) \<longrightarrow> memmove m dst src n x = m x)"
proof -
  have "unat (of_nat i :: u64) = i" if "i < unat n" for i
    using that unat_lt_u64 [of n] by (simp add: unat_of_nat)
  then show ?thesis by (simp add: memmove_copied [OF assms] copied_def)
qed

theorem memmove_spec_witness:
  "memmove (\<lambda>a. ucast a) 0x1002 0x1000 4 0x1005 = 3 \<and> memmove (\<lambda>a. ucast a) 0x1002 0x1000 4 0x1006 = 6"
proof -
  have "(\<forall>i<unat (4 :: u64). memmove (\<lambda>a. ucast a) 0x1002 0x1000 4 (0x1002 + of_nat i) =
        ucast (0x1000 + of_nat i :: u64)) \<and>
      (\<forall>x. unat (4 :: u64) \<le> unat (x - 0x1002) \<longrightarrow>
        memmove (\<lambda>a. ucast a) 0x1002 0x1000 4 x = (ucast x :: byte))"
    by (rule memmove_spec) simp_all
  then show ?thesis
    by (elim conjE) (drule spec [of _ 3], drule spec [of _ "0x1006"], simp)
qed

text \<open>C27. On C strings the length and comparison loops end and mean what their names say:
  \<open>strlen\<close> returns the length, \<open>strcmp\<close> is zero exactly for equal strings and
  \<open>strncmp\<close> exactly for strings that agree on the first \<open>n\<close> characters.\<close>

theorem string_routines_spec:
  assumes "str_at m a s" and "str_at m b t"
  shows "strlen m a = Some (of_nat (length s)) \<and>
    (\<exists>r. strcmp m a b = Some r \<and> (r = 0 \<longleftrightarrow> s = t)) \<and>
    (strncmp m a b n = 0 \<longleftrightarrow> take (unat n) s = take (unat n) t)"
  using strlen_str [OF assms(1)] strcmp_str [OF assms] strncmp_str [OF assms] by blast

theorem string_routines_spec_witness:
  "let m = (\<lambda>_. 0)(0x10 := 104, 0x11 := 105, 0x20 := 104)
   in strlen m 0x10 = Some 2 \<and> strcmp m 0x10 0x20 \<noteq> Some 0 \<and> strncmp m 0x10 0x20 1 = 0"
proof -
  let ?m = "(\<lambda>_. 0)(0x10 := 104, 0x11 := 105, 0x20 := 104) :: mem"
  have "str_at ?m 0x10 ''hi''" "str_at ?m 0x20 ''h''"
    by (simp_all add: byte_of_char_def NUL_def)
  from string_routines_spec [OF this, of 1] show ?thesis by (auto simp: Let_def)
qed



end
