(* ===== verification/Pty.thy ===== *)
theory Pty
  imports Prelude
begin

text \<open>
  Pseudo-terminals, \<^verbatim>\<open>kernel/tty/pty.cpp\<close>: sixteen pairs of ring buffers and the table
  that maps virtual terminals to them. The ring buffer keeps two 64-bit counters that only
  grow, so its contract carries the number of bytes that may still be written before the
  counters wrap. The locale \<open>byte_channel\<close> is the contract of a bounded byte queue; the
  ring buffer is shown to meet it, and the theorems on pseudo-terminals rest on that.
\<close>

section \<open>The ring buffer\<close>

record rbuf =
  rb_buf :: "char list"
  rb_cap :: u64
  rb_head :: u64
  rb_tail :: u64

definition rbuf_init :: "char list \<Rightarrow> u64 \<Rightarrow> rbuf" where
  "rbuf_init area cap = \<lparr>rb_buf = area, rb_cap = cap, rb_head = 0, rb_tail = 0\<rparr>"

definition rbuf_available :: "rbuf \<Rightarrow> u64" where
  "rbuf_available r = rb_head r - rb_tail r"

definition rbuf_capacity :: "rbuf \<Rightarrow> u64" where
  "rbuf_capacity r = rb_cap r"

definition rbuf_put :: "rbuf \<Rightarrow> char \<Rightarrow> rbuf" where
  "rbuf_put r c =
     r\<lparr>rb_buf := (rb_buf r)[unat (rb_head r AND (rb_cap r - 1)) := c], rb_head := rb_head r + 1\<rparr>"

primrec rbuf_write :: "rbuf \<Rightarrow> char list \<Rightarrow> rbuf \<times> nat" where
  "rbuf_write r [] = (r, 0)"
| "rbuf_write r (c # cs) =
     (if rb_head r - rb_tail r < rb_cap r
      then (case rbuf_write (rbuf_put r c) cs of (r', written) \<Rightarrow> (r', Suc written))
      else (r, 0))"

primrec rbuf_read :: "nat \<Rightarrow> rbuf \<Rightarrow> char list \<times> rbuf" where
  "rbuf_read 0 r = ([], r)"
| "rbuf_read (Suc n) r =
     (if rb_tail r < rb_head r
      then (case rbuf_read n (r\<lparr>rb_tail := rb_tail r + 1\<rparr>) of
              (cs, r') \<Rightarrow> (rb_buf r ! unat (rb_tail r AND (rb_cap r - 1)) # cs, r'))
      else ([], r))"

section \<open>Pseudo-terminal pairs\<close>

record pty_pair =
  in_use :: bool
  m2s :: rbuf
  s2m :: rbuf
  attached_vt :: int

record pty_state =
  ptys :: "pty_pair list"
  pty_vt_map :: "int list"

definition HANACORE_PTY_MAX :: int where
  "HANACORE_PTY_MAX = 16"

definition pty_BUFSZ :: nat where
  "pty_BUFSZ = 1024"

definition pty_vt_map_get :: "int \<Rightarrow> pty_state \<Rightarrow> int" where
  "pty_vt_map_get vt_index st =
     (if vt_index < 0 \<or> vt_index \<ge> 12 then -1 else pty_vt_map st ! nat vt_index)"

definition pty_fresh :: "pty_pair \<Rightarrow> pty_pair" where
  "pty_fresh p = p\<lparr>in_use := True, m2s := rbuf_init (rb_buf (m2s p)) (of_nat pty_BUFSZ),
     s2m := rbuf_init (rb_buf (s2m p)) (of_nat pty_BUFSZ), attached_vt := -1\<rparr>"

primrec pty_create_scan :: "nat list \<Rightarrow> pty_state \<Rightarrow> int \<times> pty_state" where
  "pty_create_scan [] st = (-1, st)"
| "pty_create_scan (i # is) st =
     (if \<not> in_use (ptys st ! i)
      then (int i, st\<lparr>ptys := (ptys st)[i := pty_fresh (ptys st ! i)]\<rparr>)
      else pty_create_scan is st)"

definition pty_create_pair :: "pty_state \<Rightarrow> int \<times> pty_state" where
  "pty_create_pair st = pty_create_scan [0..<nat HANACORE_PTY_MAX] st"

text \<open>The guards every operation on an existing pair starts with.\<close>

definition pty_valid :: "int \<Rightarrow> pty_state \<Rightarrow> bool" where
  "pty_valid ident st \<longleftrightarrow> \<not> (ident < 0 \<or> ident \<ge> HANACORE_PTY_MAX) \<and> in_use (ptys st ! nat ident)"

definition pty_upd :: "int \<Rightarrow> (pty_pair \<Rightarrow> pty_pair) \<Rightarrow> pty_state \<Rightarrow> pty_state" where
  "pty_upd ident f st = st\<lparr>ptys := (ptys st)[nat ident := f (ptys st ! nat ident)]\<rparr>"

definition pty_master_read :: "int \<Rightarrow> nat \<Rightarrow> pty_state \<Rightarrow> int \<times> char list \<times> pty_state" where
  "pty_master_read ident len st =
     (if \<not> pty_valid ident st then (-1, [], st)
      else case rbuf_read len (s2m (ptys st ! nat ident)) of
             (cs, r) \<Rightarrow> (int (length cs), cs, pty_upd ident (\<lambda>p. p\<lparr>s2m := r\<rparr>) st))"

definition pty_master_write :: "int \<Rightarrow> char list \<Rightarrow> pty_state \<Rightarrow> int \<times> pty_state" where
  "pty_master_write ident buf st =
     (if \<not> pty_valid ident st then (-1, st)
      else case rbuf_write (m2s (ptys st ! nat ident)) buf of
             (r, n) \<Rightarrow> (int n, pty_upd ident (\<lambda>p. p\<lparr>m2s := r\<rparr>) st))"

definition pty_slave_read :: "int \<Rightarrow> nat \<Rightarrow> pty_state \<Rightarrow> int \<times> char list \<times> pty_state" where
  "pty_slave_read ident len st =
     (if \<not> pty_valid ident st then (-1, [], st)
      else case rbuf_read len (m2s (ptys st ! nat ident)) of
             (cs, r) \<Rightarrow> (int (length cs), cs, pty_upd ident (\<lambda>p. p\<lparr>m2s := r\<rparr>) st))"

definition pty_slave_write :: "int \<Rightarrow> char list \<Rightarrow> pty_state \<Rightarrow> int \<times> pty_state" where
  "pty_slave_write ident buf st =
     (if \<not> pty_valid ident st then (-1, st)
      else case rbuf_write (s2m (ptys st ! nat ident)) buf of
             (r, n) \<Rightarrow> (int n, pty_upd ident (\<lambda>p. p\<lparr>s2m := r\<rparr>) st))"

definition pty_slave_push_input :: "int \<Rightarrow> char \<Rightarrow> pty_state \<Rightarrow> pty_state" where
  "pty_slave_push_input ident c st =
     (if \<not> pty_valid ident st then st
      else case rbuf_write (m2s (ptys st ! nat ident)) [c] of
             (r, n) \<Rightarrow> pty_upd ident (\<lambda>p. p\<lparr>m2s := r\<rparr>) st)"

definition pty_attach_slave_to_vt :: "int \<Rightarrow> int \<Rightarrow> pty_state \<Rightarrow> int \<times> pty_state" where
  "pty_attach_slave_to_vt ident vt_index st =
     (if \<not> pty_valid ident st then (-1, st)
      else if vt_index < -1 then (-1, st)
      else let st1 = pty_upd ident (\<lambda>p. p\<lparr>attached_vt := vt_index\<rparr>) st;
               st2 = (if vt_index \<ge> 0 \<and> vt_index < 12
                      then st1\<lparr>pty_vt_map := (pty_vt_map st1)[nat vt_index := ident]\<rparr> else st1);
               st3 = (if vt_index = -1
                      then st2\<lparr>pty_vt_map := map (\<lambda>p. if p = ident then -1 else p) (pty_vt_map st2)\<rparr>
                      else st2)
           in (0, st3))"

section \<open>A bounded byte queue\<close>

text \<open>\<open>inv k q\<close>: the queue is well formed and accepts \<open>k\<close> more bytes over its life.\<close>

datatype 'e queue_op = Put "'e list" | Get nat

locale byte_channel =
  fixes put :: "'q \<Rightarrow> 'e list \<Rightarrow> 'q \<times> nat"
    and get :: "nat \<Rightarrow> 'q \<Rightarrow> 'e list \<times> 'q"
    and content :: "'q \<Rightarrow> 'e list"
    and capacity :: nat
    and inv :: "nat \<Rightarrow> 'q \<Rightarrow> bool"
  assumes put_law: "inv (length cs + k) q \<Longrightarrow> put q cs = (q', w) \<Longrightarrow>
      w = min (length cs) (capacity - length (content q)) \<and>
      content q' = content q @ take w cs \<and> inv k q'"
    and get_law: "inv k q \<Longrightarrow> get n q = (cs, q') \<Longrightarrow>
      cs = take n (content q) \<and> content q' = drop n (content q) \<and> inv k q'"
    and content_bound: "inv k q \<Longrightarrow> length (content q) \<le> capacity"
begin

text \<open>Any interleaving of writes and reads: the bytes accepted and the bytes delivered.\<close>

fun run :: "'e queue_op list \<Rightarrow> 'q \<Rightarrow> 'e list \<times> 'e list \<times> 'q" where
  "run [] q = ([], [], q)"
| "run (Put cs # ops) q =
     (case put q cs of (q', w) \<Rightarrow>
       (case run ops q' of (acc, out, q'') \<Rightarrow> (take w cs @ acc, out, q'')))"
| "run (Get n # ops) q =
     (case get n q of (cs, q') \<Rightarrow>
       (case run ops q' of (acc, out, q'') \<Rightarrow> (acc, cs @ out, q'')))"

fun op_bytes :: "'e queue_op \<Rightarrow> nat" where
  "op_bytes (Put cs) = length cs"
| "op_bytes (Get n) = 0"

text \<open>First in, first out: what was delivered and what is still stored is what was stored
  before followed by what was accepted.\<close>

lemma run_fifo:
  "inv (sum_list (map op_bytes ops) + k) q \<Longrightarrow> run ops q = (acc, out, q') \<Longrightarrow>
     out @ content q' = content q @ acc \<and> inv k q'"
proof (induction ops arbitrary: q acc out)
  case Nil
  then show ?case by simp
next
  case (Cons op ops)
  show ?case
  proof (cases op)
    case (Put cs)
    obtain q1 w where p: "put q cs = (q1, w)" by fastforce
    obtain acc1 out1 where r: "run ops q1 = (acc1, out1, q')" "acc = take w cs @ acc1" "out = out1"
      using Cons.prems(2) p by (auto simp: Put split: prod.splits)
    have "inv (length cs + (sum_list (map op_bytes ops) + k)) q"
      using Cons.prems(1) by (simp add: Put add.assoc)
    with put_law [OF this p] Cons.IH [OF _ r(1)] r show ?thesis by simp
  next
    case (Get n)
    obtain cs q1 where g: "get n q = (cs, q1)" by fastforce
    obtain out1 where r: "run ops q1 = (acc, out1, q')" "out = cs @ out1"
      using Cons.prems(2) g by (auto simp: Get split: prod.splits)
    have "inv (sum_list (map op_bytes ops) + k) q" using Cons.prems(1) by (simp add: Get)
    from get_law [OF this g] Cons.IH [OF _ r(1)] r show ?thesis by simp
  qed
qed

end

section \<open>The ring buffer is a bounded byte queue\<close>

definition rbuf_slot :: "rbuf \<Rightarrow> nat \<Rightarrow> nat" where
  "rbuf_slot r i = i mod unat (rb_cap r)"

definition rbuf_content :: "rbuf \<Rightarrow> char list" where
  "rbuf_content r = map (\<lambda>i. rb_buf r ! rbuf_slot r i) [unat (rb_tail r)..<unat (rb_head r)]"

definition rbuf_inv :: "nat \<Rightarrow> rbuf \<Rightarrow> bool" where
  "rbuf_inv k r \<longleftrightarrow> rb_cap r = of_nat pty_BUFSZ \<and> length (rb_buf r) = pty_BUFSZ \<and>
     rb_tail r \<le> rb_head r \<and> unat (rb_head r) - unat (rb_tail r) \<le> pty_BUFSZ \<and>
     unat (rb_head r) + k < 2 ^ 64"

lemma mask_slot:
  assumes "rb_cap r = of_nat pty_BUFSZ"
  shows "unat (h AND (rb_cap r - 1)) = rbuf_slot r (unat h)"
  using assms unat_and_mask [of "rb_cap r" 10 h] by (simp add: rbuf_slot_def pty_BUFSZ_def)

lemma rbuf_put_content:
  assumes inv: "rbuf_inv (Suc k) r" and room: "rb_head r - rb_tail r < rb_cap r"
  shows "rbuf_content (rbuf_put r c) = rbuf_content r @ [c]" and "rbuf_inv k (rbuf_put r c)"
proof -
  let ?h = "unat (rb_head r)" and ?t = "unat (rb_tail r)"
  have cap: "rb_cap r = of_nat pty_BUFSZ" "unat (rb_cap r) = pty_BUFSZ"
    and len: "length (rb_buf r) = pty_BUFSZ" and le: "?t \<le> ?h"
    using inv by (simp_all add: rbuf_inv_def pty_BUFSZ_def word_le_nat_alt)
  have w: "?h - ?t < pty_BUFSZ"
    using room inv cap(2) by (simp add: word_less_nat_alt unat_sub_le rbuf_inv_def)
  have h1: "unat (rb_head r + 1) = Suc ?h"
    using inv by (subst unat_add_nowrap) (simp_all add: rbuf_inv_def)
  have fld: "rb_cap (rbuf_put r c) = rb_cap r" "rb_tail (rbuf_put r c) = rb_tail r"
    "rb_head (rbuf_put r c) = rb_head r + 1" "length (rb_buf (rbuf_put r c)) = length (rb_buf r)"
    "rb_buf (rbuf_put r c) = (rb_buf r)[rbuf_slot r ?h := c]"
    using mask_slot [OF cap(1)] by (simp_all add: rbuf_put_def)
  have sl: "rbuf_slot (rbuf_put r c) = rbuf_slot r"
    by (simp add: rbuf_slot_def fld fun_eq_iff)
  have lt: "rbuf_slot r i < length (rb_buf r)" for i
    using cap(2) len by (simp add: rbuf_slot_def pty_BUFSZ_def)
  have old: "(rb_buf r)[rbuf_slot r ?h := c] ! rbuf_slot r i = rb_buf r ! rbuf_slot r i"
    if "?t \<le> i" "i < ?h" for i
  proof -
    have "rbuf_slot r i \<noteq> rbuf_slot r ?h"
      unfolding rbuf_slot_def cap(2) by (rule mod_window_inj) (use that w in auto)
    then show ?thesis by simp
  qed
  show "rbuf_content (rbuf_put r c) = rbuf_content r @ [c]"
    unfolding rbuf_content_def sl fld(2,3,5) h1 using le lt old by simp
  show "rbuf_inv k (rbuf_put r c)"
    using inv h1 le w unfolding rbuf_inv_def fld word_le_nat_alt by simp
qed

lemma rbuf_length: "length (rbuf_content r) = unat (rb_head r) - unat (rb_tail r)"
  by (simp add: rbuf_content_def)

lemma rbuf_room:
  assumes "rbuf_inv k r"
  shows "rb_head r - rb_tail r < rb_cap r \<longleftrightarrow> length (rbuf_content r) < pty_BUFSZ"
  using assms by (simp add: word_less_nat_alt unat_sub_le rbuf_inv_def rbuf_length pty_BUFSZ_def)

lemma rbuf_write_law:
  "rbuf_inv (length cs + k) r \<Longrightarrow> rbuf_write r cs = (r', w) \<Longrightarrow>
     w = min (length cs) (pty_BUFSZ - length (rbuf_content r)) \<and>
     rbuf_content r' = rbuf_content r @ take w cs \<and> rbuf_inv k r'"
proof (induction cs arbitrary: r w)
  case Nil
  then show ?case by auto
next
  case (Cons c cs)
  have inv: "rbuf_inv (Suc (length cs + k)) r" using Cons.prems(1) by simp
  show ?case
  proof (cases "rb_head r - rb_tail r < rb_cap r")
    case True
    note p = rbuf_put_content [OF inv True, of c]
    obtain v where v: "rbuf_write (rbuf_put r c) cs = (r', v)" "w = Suc v"
      using Cons.prems(2) True by (auto split: prod.splits)
    from Cons.IH [OF p(2) v(1)] p(1) v(2) True rbuf_room [OF inv] show ?thesis by auto
  next
    case False
    then have "r' = r" "w = 0" using Cons.prems(2) by auto
    moreover have "pty_BUFSZ \<le> length (rbuf_content r)" using False rbuf_room [OF inv] by simp
    moreover have "rbuf_inv k r" using inv by (simp add: rbuf_inv_def)
    ultimately show ?thesis by simp
  qed
qed

lemma rbuf_read_law:
  "rbuf_inv k r \<Longrightarrow> rbuf_read n r = (cs, r') \<Longrightarrow>
     cs = take n (rbuf_content r) \<and> rbuf_content r' = drop n (rbuf_content r) \<and> rbuf_inv k r'"
proof (induction n arbitrary: r cs)
  case 0
  then show ?case by auto
next
  case (Suc n)
  show ?case
  proof (cases "rb_tail r < rb_head r")
    case True
    let ?r = "r\<lparr>rb_tail := rb_tail r + 1\<rparr>"
    have lt: "unat (rb_tail r) < unat (rb_head r)" using True by (simp add: word_less_nat_alt)
    then have t1: "unat (rb_tail r + 1) = Suc (unat (rb_tail r))"
      using unat_lt_u64 [of "rb_head r"] by (subst unat_add_nowrap) simp_all
    have inv: "rbuf_inv k ?r" using Suc.prems(1) lt t1 by (auto simp: rbuf_inv_def word_le_nat_alt)
    have cap: "rb_cap r = of_nat pty_BUFSZ" using Suc.prems(1) by (simp add: rbuf_inv_def)
    have "rbuf_slot ?r = rbuf_slot r" by (simp add: rbuf_slot_def fun_eq_iff)
    then have ct: "rbuf_content r = rb_buf r ! unat (rb_tail r AND (rb_cap r - 1)) # rbuf_content ?r"
      using lt t1 by (simp add: rbuf_content_def mask_slot [OF cap] upt_conv_Cons)
    obtain ds where "rbuf_read n ?r = (ds, r')"
      "cs = rb_buf r ! unat (rb_tail r AND (rb_cap r - 1)) # ds"
      using Suc.prems(2) True by (auto split: prod.splits)
    with Suc.IH [OF inv this(1)] ct show ?thesis by simp
  next
    case False
    with Suc.prems show ?thesis
      by (auto simp: rbuf_content_def word_less_nat_alt)
  qed
qed

interpretation rb: byte_channel rbuf_write rbuf_read rbuf_content pty_BUFSZ rbuf_inv
proof unfold_locales
  fix k r
  assume "rbuf_inv k r"
  then show "length (rbuf_content r) \<le> pty_BUFSZ" by (simp add: rbuf_length rbuf_inv_def)
qed (use rbuf_write_law rbuf_read_law in \<open>blast+\<close>)

section \<open>The pseudo-terminal table\<close>

definition pair_inv :: "nat \<Rightarrow> pty_pair \<Rightarrow> bool" where
  "pair_inv k p \<longleftrightarrow> length (rb_buf (m2s p)) = pty_BUFSZ \<and> length (rb_buf (s2m p)) = pty_BUFSZ \<and>
     (in_use p \<longrightarrow> rbuf_inv k (m2s p) \<and> rbuf_inv k (s2m p))"

definition pty_inv :: "nat \<Rightarrow> pty_state \<Rightarrow> bool" where
  "pty_inv k st \<longleftrightarrow> length (ptys st) = 16 \<and> length (pty_vt_map st) = 12 \<and>
     (\<forall>p\<in>set (ptys st). pair_inv k p) \<and> (\<forall>v\<in>set (pty_vt_map st). v = -1 \<or> pty_valid v st)"

text \<open>One call of the interface and the number of bytes it may add to a buffer.\<close>

datatype pty_call =
  CreatePair | MasterRead int nat | MasterWrite int "char list" | SlaveRead int nat
  | SlaveWrite int "char list" | PushInput int char | AttachVt int int

fun pty_step :: "pty_call \<Rightarrow> pty_state \<Rightarrow> pty_state" where
  "pty_step CreatePair st = snd (pty_create_pair st)"
| "pty_step (MasterRead i n) st = snd (snd (pty_master_read i n st))"
| "pty_step (MasterWrite i cs) st = snd (pty_master_write i cs st)"
| "pty_step (SlaveRead i n) st = snd (snd (pty_slave_read i n st))"
| "pty_step (SlaveWrite i cs) st = snd (pty_slave_write i cs st)"
| "pty_step (PushInput i c) st = pty_slave_push_input i c st"
| "pty_step (AttachVt i v) st = snd (pty_attach_slave_to_vt i v st)"

fun pty_bytes :: "pty_call \<Rightarrow> nat" where
  "pty_bytes (MasterWrite i cs) = length cs"
| "pty_bytes (SlaveWrite i cs) = length cs"
| "pty_bytes (PushInput i c) = 1"
| "pty_bytes _ = 0"

lemma rbuf_inv_mono: "rbuf_inv k r \<Longrightarrow> j \<le> k \<Longrightarrow> rbuf_inv j r"
  by (auto simp: rbuf_inv_def)

lemma pair_inv_mono: "pair_inv k p \<Longrightarrow> j \<le> k \<Longrightarrow> pair_inv j p"
  by (auto simp: pair_inv_def intro: rbuf_inv_mono)

lemma pty_inv_mono: "pty_inv k st \<Longrightarrow> j \<le> k \<Longrightarrow> pty_inv j st"
  by (auto simp: pty_inv_def intro: pair_inv_mono)

lemma pty_valid_index: "pty_valid i st \<Longrightarrow> length (ptys st) = 16 \<Longrightarrow> nat i < length (ptys st)"
  by (auto simp: pty_valid_def HANACORE_PTY_MAX_def)

lemma pty_valid_pair: "pty_inv k st \<Longrightarrow> pty_valid i st \<Longrightarrow> pair_inv k (ptys st ! nat i) \<and> in_use (ptys st ! nat i)"
  by (auto simp: pty_inv_def pty_valid_def HANACORE_PTY_MAX_def)

lemma pty_inv_upd:
  assumes inv: "pty_inv k st" and v: "pty_valid i st" and le: "j \<le> k"
    and f: "pair_inv j (f (ptys st ! nat i))" "in_use (f (ptys st ! nat i))"
  shows "pty_inv j (pty_upd i f st)"
proof -
  have len: "length (ptys st) = 16" "length (pty_vt_map st) = 12" using inv by (simp_all add: pty_inv_def)
  have val: "pty_valid v (pty_upd i f st)" if "pty_valid v st" for v
    using that f(2) v len by (cases "nat v = nat i") (auto simp: pty_valid_def pty_upd_def HANACORE_PTY_MAX_def)
  have "pair_inv j p" if "p \<in> set ((ptys st)[nat i := f (ptys st ! nat i)])" for p
    using set_update_subset_insert [of "ptys st" "nat i"] that f(1) inv le
    by (auto simp: pty_inv_def intro: pair_inv_mono)
  then show ?thesis
    using inv val by (auto simp: pty_inv_def pty_upd_def pty_valid_def)
qed

lemma pty_create_scan_inv:
  "pty_inv k st \<Longrightarrow> set is \<subseteq> {..<16} \<Longrightarrow> k < 2 ^ 64 \<Longrightarrow> pty_inv k (snd (pty_create_scan is st))"
proof (induction "is")
  case (Cons i "is")
  show ?case
  proof (cases "in_use (ptys st ! i)")
    case False
    have i: "i < length (ptys st)" using Cons.prems by (simp add: pty_inv_def)
    then have "pair_inv k (ptys st ! i)" using Cons.prems(1) by (simp add: pty_inv_def)
    then have fr: "pair_inv k (pty_fresh (ptys st ! i))"
      using Cons.prems(3) by (simp add: pair_inv_def pty_fresh_def rbuf_init_def rbuf_inv_def)
    let ?st = "st\<lparr>ptys := (ptys st)[i := pty_fresh (ptys st ! i)]\<rparr>"
    have "pty_valid v ?st" if "pty_valid v st" for v
      using that i by (cases "nat v = i") (auto simp: pty_valid_def pty_fresh_def)
    moreover have "\<forall>p\<in>set (ptys ?st). pair_inv k p"
      using set_update_subset_insert [of "ptys st" i "pty_fresh (ptys st ! i)"] fr Cons.prems(1)
      by (auto simp: pty_inv_def)
    ultimately show ?thesis
      using False Cons.prems(1) by (auto simp: pty_inv_def)
  qed (use Cons in simp)
qed simp

lemma pty_write_inv:
  assumes inv: "pty_inv (length cs + k) st" and v: "pty_valid i st"
  shows "rbuf_write (m2s (ptys st ! nat i)) cs = (r, n) \<Longrightarrow> pty_inv k (pty_upd i (\<lambda>p. p\<lparr>m2s := r\<rparr>) st)"
    and "rbuf_write (s2m (ptys st ! nat i)) cs = (r, n) \<Longrightarrow> pty_inv k (pty_upd i (\<lambda>p. p\<lparr>s2m := r\<rparr>) st)"
proof -
  let ?p = "ptys st ! nat i"
  have p: "rbuf_inv (length cs + k) (m2s ?p)" "rbuf_inv (length cs + k) (s2m ?p)" "in_use ?p"
    using pty_valid_pair [OF inv v] by (auto simp: pair_inv_def)
  note low = rbuf_inv_mono [OF p(1), of k] rbuf_inv_mono [OF p(2), of k]
  show "rbuf_write (m2s ?p) cs = (r, n) \<Longrightarrow> pty_inv k (pty_upd i (\<lambda>p. p\<lparr>m2s := r\<rparr>) st)"
    using rb.put_law [OF p(1)] low p(3)
    by (intro pty_inv_upd [OF inv v]) (auto simp: pair_inv_def rbuf_inv_def)
  show "rbuf_write (s2m ?p) cs = (r, n) \<Longrightarrow> pty_inv k (pty_upd i (\<lambda>p. p\<lparr>s2m := r\<rparr>) st)"
    using rb.put_law [OF p(2)] low p(3)
    by (intro pty_inv_upd [OF inv v]) (auto simp: pair_inv_def rbuf_inv_def)
qed

lemma pty_read_inv:
  assumes inv: "pty_inv k st" and v: "pty_valid i st"
  shows "rbuf_read n (m2s (ptys st ! nat i)) = (cs, r) \<Longrightarrow> pty_inv k (pty_upd i (\<lambda>p. p\<lparr>m2s := r\<rparr>) st)"
    and "rbuf_read n (s2m (ptys st ! nat i)) = (cs, r) \<Longrightarrow> pty_inv k (pty_upd i (\<lambda>p. p\<lparr>s2m := r\<rparr>) st)"
proof -
  let ?p = "ptys st ! nat i"
  have p: "rbuf_inv k (m2s ?p)" "rbuf_inv k (s2m ?p)" "in_use ?p"
    using pty_valid_pair [OF inv v] by (auto simp: pair_inv_def)
  show "rbuf_read n (m2s ?p) = (cs, r) \<Longrightarrow> pty_inv k (pty_upd i (\<lambda>p. p\<lparr>m2s := r\<rparr>) st)"
    using rb.get_law [OF p(1)] p by (intro pty_inv_upd [OF inv v]) (auto simp: pair_inv_def rbuf_inv_def)
  show "rbuf_read n (s2m ?p) = (cs, r) \<Longrightarrow> pty_inv k (pty_upd i (\<lambda>p. p\<lparr>s2m := r\<rparr>) st)"
    using rb.get_law [OF p(2)] p by (intro pty_inv_upd [OF inv v]) (auto simp: pair_inv_def rbuf_inv_def)
qed

lemma pty_valid_map [simp]: "pty_valid w (st\<lparr>pty_vt_map := x\<rparr>) = pty_valid w st"
  by (simp add: pty_valid_def)

lemma pty_inv_map:
  assumes "pty_inv k st" "length x = 12" "\<forall>v\<in>set x. v = -1 \<or> pty_valid v st"
  shows "pty_inv k (st\<lparr>pty_vt_map := x\<rparr>)"
  using assms by (simp add: pty_inv_def)

lemma pty_attach_inv:
  assumes inv: "pty_inv k st"
  shows "pty_inv k (snd (pty_attach_slave_to_vt i v st))"
proof (cases "pty_valid i st \<and> \<not> v < -1")
  case True
  let ?st = "pty_upd i (\<lambda>p. p\<lparr>attached_vt := v\<rparr>) st"
  let ?m = "pty_vt_map ?st"
  have p: "pair_inv k (ptys st ! nat i)" "in_use (ptys st ! nat i)"
    using pty_valid_pair [OF inv] True by auto
  have up: "pty_inv k ?st"
    by (rule pty_inv_upd [OF inv]) (use True p in \<open>auto simp: pair_inv_def\<close>)
  have vi: "pty_valid i ?st"
    using True p(2) pty_valid_index [of i st] inv by (auto simp: pty_valid_def pty_upd_def pty_inv_def)
  have ok: "\<forall>w\<in>set ?m. w = -1 \<or> pty_valid w ?st" "length ?m = 12"
    using up by (simp_all add: pty_inv_def)
  have "set (?m[nat v := i]) \<subseteq> insert i (set ?m)" by (rule set_update_subset_insert)
  then have a: "pty_inv k (?st\<lparr>pty_vt_map := ?m[nat v := i]\<rparr>)"
    using ok vi by (intro pty_inv_map up) auto
  have b: "pty_inv k (?st\<lparr>pty_vt_map := map (\<lambda>p. if p = i then -1 else p) ?m\<rparr>)"
    using ok by (intro pty_inv_map up) auto
  have "snd (pty_attach_slave_to_vt i v st) =
      (if v = -1 then ?st\<lparr>pty_vt_map := map (\<lambda>p. if p = i then -1 else p) ?m\<rparr>
       else if v < 12 then ?st\<lparr>pty_vt_map := ?m[nat v := i]\<rparr> else ?st)"
    using True by (simp add: pty_attach_slave_to_vt_def Let_def)
  then show ?thesis using a b up by (simp only: if_split_mem1 split: if_split) blast
qed (use inv in \<open>auto simp: pty_attach_slave_to_vt_def\<close>)

lemma pty_step_inv:
  assumes "pty_inv (pty_bytes c + k) st" and "k < 2 ^ 64"
  shows "pty_inv k (pty_step c st)"
proof -
  have low: "pty_inv k st" using assms(1) by (rule pty_inv_mono) simp
  show ?thesis
  proof (cases c)
    case CreatePair
    have "set [0..<16] \<subseteq> {..<16::nat}" by auto
    from pty_create_scan_inv [OF low this assms(2)] CreatePair show ?thesis
      by (simp add: pty_create_pair_def HANACORE_PTY_MAX_def)
  next
    case (AttachVt i v)
    then show ?thesis using pty_attach_inv [OF low] by simp
  next
    case (MasterRead i n)
    then show ?thesis
      using low pty_read_inv(2) [OF low] by (auto simp: pty_master_read_def split: prod.splits)
  next
    case (SlaveRead i n)
    then show ?thesis
      using low pty_read_inv(1) [OF low] by (auto simp: pty_slave_read_def split: prod.splits)
  next
    case (MasterWrite i cs)
    then show ?thesis
      using low assms(1) pty_write_inv(1) [of cs k st i]
      by (auto simp: pty_master_write_def split: prod.splits)
  next
    case (SlaveWrite i cs)
    then show ?thesis
      using low assms(1) pty_write_inv(2) [of cs k st i]
      by (auto simp: pty_slave_write_def split: prod.splits)
  next
    case (PushInput i ch)
    then show ?thesis
      using low assms(1) pty_write_inv(1) [of "[ch]" k st i]
      by (auto simp: pty_slave_push_input_def simp del: rbuf_write.simps split: prod.splits)
  qed
qed

lemma pty_steps_inv:
  assumes "k < 2 ^ 64"
  shows "pty_inv (sum_list (map pty_bytes cs) + k) st \<Longrightarrow> sum_list (map pty_bytes cs) + k < 2 ^ 64 \<Longrightarrow>
    pty_inv k (fold pty_step cs st)"
proof (induction cs arbitrary: st)
  case (Cons c cs)
  have "pty_inv (sum_list (map pty_bytes cs) + k) (pty_step c st)"
    by (rule pty_step_inv) (use Cons.prems in \<open>simp_all add: add.assoc\<close>)
  with Cons show ?case by simp
qed simp

text \<open>The static state at boot.\<close>

definition pty_boot :: pty_state where
  "pty_boot = \<lparr>ptys = replicate 16 \<lparr>in_use = False,
       m2s = \<lparr>rb_buf = replicate pty_BUFSZ NUL, rb_cap = 0, rb_head = 0, rb_tail = 0\<rparr>,
       s2m = \<lparr>rb_buf = replicate pty_BUFSZ NUL, rb_cap = 0, rb_head = 0, rb_tail = 0\<rparr>,
       attached_vt = 0\<rparr>, pty_vt_map = replicate 12 (-1)\<rparr>"

lemma pty_boot_inv: "pty_inv k pty_boot"
  by (simp add: pty_boot_def pty_inv_def pair_inv_def)

text \<open>Master writes and slave reads of one pair, in any order.\<close>

fun m2s_run :: "int \<Rightarrow> char queue_op list \<Rightarrow> pty_state \<Rightarrow> char list \<times> char list \<times> pty_state" where
  "m2s_run i [] st = ([], [], st)"
| "m2s_run i (Put cs # ops) st =
     (case pty_master_write i cs st of (n, st') \<Rightarrow>
       (case m2s_run i ops st' of (acc, out, st'') \<Rightarrow> (take (nat n) cs @ acc, out, st'')))"
| "m2s_run i (Get n # ops) st =
     (case pty_slave_read i n st of (m, cs, st') \<Rightarrow>
       (case m2s_run i ops st' of (acc, out, st'') \<Rightarrow> (acc, cs @ out, st'')))"

lemma pty_upd_valid:
  assumes v: "pty_valid i st" and len: "length (ptys st) = 16"
    and f: "in_use (f (ptys st ! nat i)) = in_use (ptys st ! nat i)"
  shows "pty_valid i (pty_upd i f st)" and "length (ptys (pty_upd i f st)) = 16"
    and "ptys (pty_upd i f st) ! nat i = f (ptys st ! nat i)"
proof -
  have n: "nat i < length (ptys st)" by (rule pty_valid_index [OF v len])
  show eq: "ptys (pty_upd i f st) ! nat i = f (ptys st ! nat i)"
    using n by (simp add: pty_upd_def)
  show "length (ptys (pty_upd i f st)) = 16" using len by (simp add: pty_upd_def)
  show "pty_valid i (pty_upd i f st)" using v f by (simp add: pty_valid_def eq)
qed

lemma m2s_run_channel:
  "pty_valid i st \<Longrightarrow> length (ptys st) = 16 \<Longrightarrow> m2s_run i ops st = (acc, out, st') \<Longrightarrow>
     rb.run ops (m2s (ptys st ! nat i)) = (acc, out, m2s (ptys st' ! nat i)) \<and>
     s2m (ptys st' ! nat i) = s2m (ptys st ! nat i)"
proof (induction ops arbitrary: st acc out)
  case Nil
  then show ?case by simp
next
  case (Cons op ops)
  show ?case
  proof (cases op)
    case (Put cs)
    obtain r n where w: "rbuf_write (m2s (ptys st ! nat i)) cs = (r, n)" by fastforce
    let ?st = "pty_upd i (\<lambda>p. p\<lparr>m2s := r\<rparr>) st"
    note u = pty_upd_valid [OF Cons.prems(1,2), of "\<lambda>p. p\<lparr>m2s := r\<rparr>"]
    obtain acc1 where s: "m2s_run i ops ?st = (acc1, out, st')" "acc = take n cs @ acc1"
      using Cons.prems(1,3) w by (auto simp: Put pty_master_write_def split: prod.splits)
    from Cons.IH [OF u(1,2) s(1)] s(2) u(3) w show ?thesis by (simp add: Put)
  next
    case (Get n)
    obtain cs r where g: "rbuf_read n (m2s (ptys st ! nat i)) = (cs, r)" by fastforce
    let ?st = "pty_upd i (\<lambda>p. p\<lparr>m2s := r\<rparr>) st"
    note u = pty_upd_valid [OF Cons.prems(1,2), of "\<lambda>p. p\<lparr>m2s := r\<rparr>"]
    obtain out1 where s: "m2s_run i ops ?st = (acc, out1, st')" "out = cs @ out1"
      using Cons.prems(1,3) g by (auto simp: Get pty_slave_read_def split: prod.splits)
    from Cons.IH [OF u(1,2) s(1)] s(2) u(3) g show ?thesis by (simp add: Get)
  qed
qed

section \<open>Properties\<close>

text \<open>C25. A pseudo-terminal is a first-in first-out channel: for every interleaving of master
  writes and slave reads on a valid pair, the bytes the slave received followed by the bytes
  still buffered are the bytes buffered before followed by those the master's writes
  accepted, and the opposite direction is untouched.\<close>

theorem pty_fifo:
  assumes "pty_inv (sum_list (map rb.op_bytes ops) + k) st" and "pty_valid i st"
    and "m2s_run i ops st = (acc, out, st')"
  shows "out @ rbuf_content (m2s (ptys st' ! nat i)) = rbuf_content (m2s (ptys st ! nat i)) @ acc \<and>
    s2m (ptys st' ! nat i) = s2m (ptys st ! nat i)"
proof -
  have len: "length (ptys st) = 16" using assms(1) by (simp add: pty_inv_def)
  note r = m2s_run_channel [OF assms(2) len assms(3)]
  have "rbuf_inv (sum_list (map rb.op_bytes ops) + k) (m2s (ptys st ! nat i))"
    using pty_valid_pair [OF assms(1,2)] by (simp add: pair_inv_def)
  from rb.run_fifo [OF this] r show ?thesis by blast
qed

theorem pty_fifo_witness:
  "\<exists>acc out st'. m2s_run 0 [Put ''ls'', Get 1, Put ''x'', Get 5] (snd (pty_create_pair pty_boot)) =
     (acc, out, st') \<and> out @ rbuf_content (m2s (ptys st' ! 0)) = acc"
proof -
  let ?st = "snd (pty_create_pair pty_boot)"
  let ?ops = "[Put ''ls'', Get 1, Put ''x'', Get 5]"
  have inv: "pty_inv (sum_list (map rb.op_bytes ?ops) + 0) ?st"
    using pty_step_inv [of CreatePair "sum_list (map rb.op_bytes ?ops) + 0" pty_boot] pty_boot_inv by simp
  have st: "?st = pty_boot\<lparr>ptys := (ptys pty_boot)[0 := pty_fresh (ptys pty_boot ! 0)]\<rparr>"
    by (simp add: pty_create_pair_def HANACORE_PTY_MAX_def pty_boot_def upt_conv_Cons)
  have v: "pty_valid 0 ?st"
    unfolding st by (simp add: pty_valid_def HANACORE_PTY_MAX_def pty_boot_def pty_fresh_def)
  obtain acc out st' where r: "m2s_run 0 ?ops ?st = (acc, out, st')" by (metis prod_cases3)
  have "rbuf_content (m2s (ptys ?st ! 0)) = []"
    unfolding st by (simp add: pty_boot_def pty_fresh_def rbuf_init_def rbuf_content_def)
  with pty_fifo [OF inv v r] r show ?thesis by simp
qed

text \<open>Every sequence of calls of the interface, valid or not, from the boot state keeps the
  table well formed: sixteen pairs with full-size buffers, counters in step, and every
  virtual terminal mapped to no pair or to one that exists.\<close>

lemma pty_calls_keep_inv:
  assumes "sum_list (map pty_bytes cs) < 2 ^ 64"
  shows "pty_inv 0 (fold pty_step cs pty_boot)"
  using pty_steps_inv [of 0 cs pty_boot] pty_boot_inv assms by simp

end
