(* ===== verification/Tty.thy ===== *)
theory Tty
  imports Pty
begin

text \<open>
  The terminal layer, \<^verbatim>\<open>kernel/tty/tty.cpp\<close>: an input buffer of 256 characters and twelve
  virtual terminals, each with a ring of 16 KiB that remembers its output. What reaches the
  console (the calls of \<open>print\<close> and \<open>clear_screen\<close>) is recorded as a list of events.
  The counters are 32-bit words, as in the code. The theorems show that the rings implement
  the abstract terminal \<open>vterm\<close>, which keeps everything ever written and shows the last
  16 KiB of it on a switch.
\<close>

datatype console_event = Print string | ClearScreen

record tty_state =
  input_buf :: "char list"
  input_read :: u32
  input_write :: u32
  vt_buf :: "char list list"
  vt_head :: "u32 list"
  active_vt :: nat
  console :: "console_event list"

definition TTY_NUM_VT :: int where
  "TTY_NUM_VT = 12"

definition TTY_BUF_SZ :: nat where
  "TTY_BUF_SZ = 16 * 1024"

definition print :: "string \<Rightarrow> tty_state \<Rightarrow> tty_state" where
  "print s st = st\<lparr>console := console st @ [Print s]\<rparr>"

definition clear_screen :: "tty_state \<Rightarrow> tty_state" where
  "clear_screen st = st\<lparr>console := console st @ [ClearScreen]\<rparr>"

definition tty_init :: "tty_state \<Rightarrow> tty_state" where
  "tty_init st = st\<lparr>input_read := 0, input_write := 0\<rparr>"

definition input_put :: "char \<Rightarrow> tty_state \<Rightarrow> tty_state" where
  "input_put c st =
     st\<lparr>input_buf := (input_buf st)[unat (input_write st AND (256 - 1)) := c],
        input_write := input_write st + 1\<rparr>"

definition tty_enqueue_input :: "string \<Rightarrow> tty_state \<Rightarrow> tty_state" where
  "tty_enqueue_input s st = fold input_put s st"

text \<open>The buffered branch of \<open>tty_poll_char\<close>.\<close>

definition tty_input_get :: "tty_state \<Rightarrow> (char \<times> tty_state) option" where
  "tty_input_get st =
     (if input_read st \<noteq> input_write st
      then Some (input_buf st ! unat (input_read st AND (256 - 1)),
                 st\<lparr>input_read := input_read st + 1\<rparr>)
      else None)"

definition vt_slot :: "u32 \<Rightarrow> nat" where
  "vt_slot h = unat (h AND (of_nat TTY_BUF_SZ - 1))"

definition vt_put :: "nat \<Rightarrow> char \<Rightarrow> tty_state \<Rightarrow> tty_state" where
  "vt_put v c st =
     (let h = vt_slot (vt_head st ! v)
      in st\<lparr>vt_buf := (vt_buf st)[v := (vt_buf st ! v)[h := c]],
            vt_head := (vt_head st)[v := vt_head st ! v + 1]\<rparr>)"

definition vt_append :: "string \<Rightarrow> tty_state \<Rightarrow> tty_state" where
  "vt_append s st = fold (vt_put (active_vt st)) s st"

definition vt_header :: "nat \<Rightarrow> string" where
  "vt_header idx =
     (let n = idx + 1
      in if n \<ge> 10 then ''VT 1'' @ [char_of (48 + (n - 10))] @ ''\<newline>''
         else ''VT '' @ [char_of (48 + n)] @ ''\<newline>'')"

definition tty_switch_vt :: "int \<Rightarrow> tty_state \<Rightarrow> tty_state" where
  "tty_switch_vt n st =
     (if n < 1 \<or> n > TTY_NUM_VT then st
      else let idx = nat (n - 1)
           in if idx = active_vt st then st
              else let st1 = clear_screen (st\<lparr>active_vt := idx\<rparr>);
                       len = vt_head st1 ! idx
                   in if len = 0 then print (vt_header idx) (fold (vt_put idx) (vt_header idx) st1)
                      else let start = (if len > of_nat TTY_BUF_SZ then len - of_nat TTY_BUF_SZ else 0)
                           in fold (\<lambda>i. print [vt_buf st1 ! idx ! vt_slot (of_nat i)])
                                [unat start..<unat len] st1)"

definition tty_write :: "string \<Rightarrow> tty_state \<Rightarrow> tty_state" where
  "tty_write s st = print s (vt_append s st)"

text \<open>The string \<open>{ c, '\0' }\<close>: empty when the character is the terminator itself.\<close>

definition char_string :: "char \<Rightarrow> string" where
  "char_string c = (if c = NUL then [] else [c])"

definition tty_putc :: "char \<Rightarrow> tty_state \<Rightarrow> tty_state" where
  "tty_putc c st = print (char_string c) (vt_append (char_string c) st)"

section \<open>The abstract terminal\<close>

text \<open>Everything written to each terminal, the terminal shown, and the console.\<close>

record vterm =
  vlog :: "string list"
  shown :: nat
  vconsole :: "console_event list"

definition recent :: "string \<Rightarrow> string" where
  "recent s = drop (length s - TTY_BUF_SZ) s"

definition vterm_write :: "string \<Rightarrow> vterm \<Rightarrow> vterm" where
  "vterm_write s t = t\<lparr>vlog := (vlog t)[shown t := vlog t ! shown t @ s], vconsole := vconsole t @ [Print s]\<rparr>"

definition vterm_switch :: "int \<Rightarrow> vterm \<Rightarrow> vterm" where
  "vterm_switch n t =
     (if n < 1 \<or> n > TTY_NUM_VT \<or> nat (n - 1) = shown t then t
      else let v = nat (n - 1)
           in if vlog t ! v = []
              then t\<lparr>shown := v, vlog := (vlog t)[v := vt_header v],
                     vconsole := vconsole t @ [ClearScreen, Print (vt_header v)]\<rparr>
              else t\<lparr>shown := v,
                     vconsole := vconsole t @ ClearScreen # map (\<lambda>c. Print [c]) (recent (vlog t ! v))\<rparr>)"

text \<open>A ring holds the recent part of a log.\<close>

definition ring_holds :: "char list \<Rightarrow> u32 \<Rightarrow> string \<Rightarrow> bool" where
  "ring_holds buf h l \<longleftrightarrow> length buf = TTY_BUF_SZ \<and> unat h = length l \<and>
     (\<forall>i<length l. length l \<le> i + TTY_BUF_SZ \<longrightarrow> buf ! (i mod TTY_BUF_SZ) = l ! i)"

definition tty_rel :: "nat \<Rightarrow> tty_state \<Rightarrow> vterm \<Rightarrow> bool" where
  "tty_rel k st t \<longleftrightarrow> length (vt_buf st) = 12 \<and> length (vt_head st) = 12 \<and> length (vlog t) = 12 \<and>
     active_vt st < 12 \<and> shown t = active_vt st \<and> vconsole t = console st \<and>
     (\<forall>v<12. ring_holds (vt_buf st ! v) (vt_head st ! v) (vlog t ! v) \<and>
        length (vlog t ! v) + k < 2 ^ 32)"

lemma vt_slot_mod: "vt_slot h = unat h mod TTY_BUF_SZ"
  using unat_and_mask [of "of_nat TTY_BUF_SZ" 14 h] by (simp add: vt_slot_def TTY_BUF_SZ_def)

lemma ring_put:
  assumes r: "ring_holds buf h l" and k: "Suc (length l) < 2 ^ 32"
  shows "ring_holds (buf[vt_slot h := c]) (h + 1) (l @ [c])"
proof -
  have h: "unat h = length l" and len: "length buf = TTY_BUF_SZ"
    using r by (simp_all add: ring_holds_def)
  have h1: "unat (h + 1) = Suc (length l)"
    using h k by (subst unat_add_nowrap) simp_all
  have sl: "vt_slot h = length l mod TTY_BUF_SZ" by (simp add: vt_slot_mod h)
  have pos: "0 < TTY_BUF_SZ" by (simp add: TTY_BUF_SZ_def)
  have "buf[vt_slot h := c] ! (i mod TTY_BUF_SZ) = (l @ [c]) ! i"
    if "i < Suc (length l)" "Suc (length l) \<le> i + TTY_BUF_SZ" for i
  proof (cases "i = length l")
    case True
    then show ?thesis using sl len pos by simp
  next
    case False
    then have i: "i < length l" using that(1) by simp
    then have "i mod TTY_BUF_SZ \<noteq> length l mod TTY_BUF_SZ"
      using that(2) by (intro mod_window_inj) simp_all
    then show ?thesis
      using r i that(2) sl by (simp add: ring_holds_def nth_append)
  qed
  then show ?thesis using len h1 by (simp add: ring_holds_def)
qed

text \<open>The window a switch replays is the recent part of the log.\<close>

lemma ring_replay:
  assumes r: "ring_holds buf h l"
  shows "map (\<lambda>i. buf ! vt_slot (of_nat i))
      [unat (if h > of_nat TTY_BUF_SZ then h - of_nat TTY_BUF_SZ else 0)..<unat h] = recent l"
proof -
  have h: "unat h = length l" using r by (simp add: ring_holds_def)
  have big: "unat (of_nat TTY_BUF_SZ :: u32) = TTY_BUF_SZ" by (simp add: TTY_BUF_SZ_def)
  have st: "unat (if h > of_nat TTY_BUF_SZ then h - of_nat TTY_BUF_SZ else 0) = length l - TTY_BUF_SZ"
    using h big by (auto simp: word_less_nat_alt unat_sub word_le_nat_alt)
  have "vt_slot (of_nat i) = i mod TTY_BUF_SZ" if "i < length l" for i
  proof -
    have "i < 2 ^ 32" using that h unat_lt_u32 [of h] by simp
    then show ?thesis by (simp add: vt_slot_mod unat_of_nat)
  qed
  then have "map (\<lambda>i. buf ! vt_slot (of_nat i)) [length l - TTY_BUF_SZ..<length l] =
      map (\<lambda>i. l ! i) [length l - TTY_BUF_SZ..<length l]"
    using r by (auto simp: ring_holds_def)
  also have "\<dots> = recent l" by (simp add: recent_def map_nth_suffix)
  finally show ?thesis unfolding st h .
qed

section \<open>The rings implement the abstract terminal\<close>

lemma tty_rel_mono: "tty_rel k st t \<Longrightarrow> j \<le> k \<Longrightarrow> tty_rel j st t"
  by (auto simp: tty_rel_def)

lemma tty_rel_vt_put:
  assumes rel: "tty_rel (Suc k) st t" and v: "v < 12"
  shows "tty_rel k (vt_put v c st) (t\<lparr>vlog := (vlog t)[v := vlog t ! v @ [c]]\<rparr>)"
proof -
  have "ring_holds ((vt_buf st ! v)[vt_slot (vt_head st ! v) := c]) (vt_head st ! v + 1)
      (vlog t ! v @ [c])"
    using rel v by (intro ring_put) (auto simp: tty_rel_def)
  then show ?thesis
    using rel v by (auto simp: tty_rel_def vt_put_def Let_def nth_list_update)
qed

lemma tty_rel_puts:
  "tty_rel (length s + k) st t \<Longrightarrow> v < 12 \<Longrightarrow>
     tty_rel k (fold (vt_put v) s st) (t\<lparr>vlog := (vlog t)[v := vlog t ! v @ s]\<rparr>)"
proof (induction s arbitrary: st t)
  case Nil
  then show ?case by (simp add: tty_rel_def)
next
  case (Cons c s)
  have "tty_rel (length s + k) (vt_put v c st) (t\<lparr>vlog := (vlog t)[v := vlog t ! v @ [c]]\<rparr>)"
    by (rule tty_rel_vt_put) (use Cons.prems in simp_all)
  moreover have "v < length (vlog t)" using Cons.prems by (simp add: tty_rel_def)
  ultimately show ?case
    using Cons.IH [OF _ Cons.prems(2)] by fastforce
qed

lemma tty_rel_print:
  "tty_rel k st t \<Longrightarrow> tty_rel k (print s st) (t\<lparr>vconsole := vconsole t @ [Print s]\<rparr>)"
  by (simp add: tty_rel_def print_def)

lemma active_vt_puts [simp]: "active_vt (fold (vt_put v) s st) = active_vt st"
  by (induction s arbitrary: st) (simp_all add: vt_put_def Let_def)

lemma fold_print:
  "fold (\<lambda>i. print (f i)) xs st = st\<lparr>console := console st @ map (\<lambda>i. Print (f i)) xs\<rparr>"
  by (induction xs arbitrary: st) (simp_all add: print_def)

lemma tty_write_refines:
  assumes "tty_rel (length s + k) st t"
  shows "tty_rel k (tty_write s st) (vterm_write s t)"
proof -
  have a: "active_vt st < 12" "shown t = active_vt st" using assms by (simp_all add: tty_rel_def)
  from tty_rel_print [OF tty_rel_puts [OF assms a(1)], of s] show ?thesis
    using a by (simp add: tty_write_def vt_append_def vterm_write_def)
qed

lemma vt_header_length: "length (vt_header v) \<le> 6"
  by (simp add: vt_header_def Let_def)

lemma tty_switch_refines:
  assumes rel: "tty_rel (6 + k) st t"
  shows "tty_rel k (tty_switch_vt n st) (vterm_switch n t)"
proof (cases "n < 1 \<or> n > TTY_NUM_VT \<or> nat (n - 1) = active_vt st")
  case True
  then have "tty_switch_vt n st = st" "vterm_switch n t = t"
    using rel by (auto simp: tty_switch_vt_def vterm_switch_def tty_rel_def)
  then show ?thesis using tty_rel_mono [OF rel, of k] by simp
next
  case False
  let ?v = "nat (n - 1)"
  let ?st = "clear_screen (st\<lparr>active_vt := ?v\<rparr>)"
  let ?t = "t\<lparr>shown := ?v, vconsole := vconsole t @ [ClearScreen]\<rparr>"
  have v: "?v < 12" and sh: "shown t = active_vt st"
    using False rel by (auto simp: TTY_NUM_VT_def tty_rel_def)
  have rel': "tty_rel (6 + k) ?st ?t"
    using rel v by (simp add: tty_rel_def clear_screen_def)
  have ring: "ring_holds (vt_buf st ! ?v) (vt_head st ! ?v) (vlog t ! ?v)"
    using rel v by (simp add: tty_rel_def)
  have fld: "vt_head ?st = vt_head st" "vt_buf ?st = vt_buf st" by (simp_all add: clear_screen_def)
  show ?thesis
  proof (cases "vt_head st ! ?v = 0")
    case True
    then have empty: "vlog t ! ?v = []" using ring by (simp add: ring_holds_def)
    have "tty_rel (length (vt_header ?v) + k) ?st ?t"
      by (rule tty_rel_mono [OF rel']) (simp add: vt_header_length)
    from tty_rel_print [OF tty_rel_puts [OF this v]] show ?thesis
      using False True empty sh by (simp add: tty_switch_vt_def vterm_switch_def Let_def fld)
  next
    case nz: False
    then have ne: "vlog t ! ?v \<noteq> []" using ring by (auto simp: ring_holds_def unat_eq_zero)
    let ?h = "vt_head st ! ?v"
    have "tty_switch_vt n st = ?st\<lparr>console := console ?st @ map (\<lambda>c. Print [c]) (recent (vlog t ! ?v))\<rparr>"
      using False nz ring_replay [OF ring, symmetric]
      by (simp add: tty_switch_vt_def Let_def fld fold_print comp_def)
    moreover have "vterm_switch n t =
        ?t\<lparr>vconsole := vconsole ?t @ map (\<lambda>c. Print [c]) (recent (vlog t ! ?v))\<rparr>"
      using False ne sh by (simp add: vterm_switch_def Let_def)
    ultimately show ?thesis
      using tty_rel_mono [OF rel', of k] by (simp add: tty_rel_def)
  qed
qed

section \<open>The input buffer\<close>

text \<open>The characters waiting: those between the two counters. With at most 256 of them the
  buffer is a queue.\<close>

definition input_pending :: "tty_state \<Rightarrow> string" where
  "input_pending st =
     map (\<lambda>i. input_buf st ! (i mod 256)) [unat (input_read st)..<unat (input_write st)]"

definition input_ok :: "nat \<Rightarrow> tty_state \<Rightarrow> bool" where
  "input_ok k st \<longleftrightarrow> length (input_buf st) = 256 \<and> input_read st \<le> input_write st \<and>
     unat (input_write st) - unat (input_read st) + k \<le> 256 \<and> unat (input_write st) + k < 2 ^ 32"

lemma input_put_pending:
  assumes ok: "input_ok (Suc k) st"
  shows "input_pending (input_put c st) = input_pending st @ [c]" and "input_ok k (input_put c st)"
proof -
  let ?w = "unat (input_write st)" and ?r = "unat (input_read st)"
  have len: "length (input_buf st) = 256" and le: "?r \<le> ?w" and room: "?w - ?r < 256"
    using ok by (simp_all add: input_ok_def word_le_nat_alt)
  have w1: "unat (input_write st + 1) = Suc ?w"
    using ok by (subst unat_add_nowrap) (simp_all add: input_ok_def)
  have m: "unat (input_write st AND (256 - 1)) = ?w mod 256"
    using unat_and_mask [of 256 8 "input_write st"] by simp
  have "?w mod 256 \<noteq> i mod 256" if "?r \<le> i" "i < ?w" for i
    using that room by (intro not_sym [OF mod_window_inj]) simp_all
  then show "input_pending (input_put c st) = input_pending st @ [c]"
    using len le w1 m by (auto simp: input_pending_def input_put_def)
  show "input_ok k (input_put c st)"
    using ok le w1 by (auto simp: input_ok_def input_put_def word_le_nat_alt)
qed

lemma tty_enqueue_pending:
  "input_ok (length s + k) st \<Longrightarrow>
     input_pending (tty_enqueue_input s st) = input_pending st @ s \<and> input_ok k (tty_enqueue_input s st)"
proof (induction s arbitrary: st)
  case Nil
  then show ?case by (simp add: tty_enqueue_input_def)
next
  case (Cons c s)
  note p = input_put_pending [of "length s + k" st c]
  show ?case using Cons p by (simp add: tty_enqueue_input_def)
qed

lemma tty_input_get_pending:
  assumes ok: "input_ok k st"
  shows "case input_pending st of
      [] \<Rightarrow> tty_input_get st = None
    | c # cs \<Rightarrow> \<exists>st'. tty_input_get st = Some (c, st') \<and> input_pending st' = cs \<and> input_ok k st' \<and>
        st' = st\<lparr>input_read := input_read st + 1\<rparr>"
proof -
  let ?w = "unat (input_write st)" and ?r = "unat (input_read st)"
  have le: "?r \<le> ?w" using ok by (simp add: input_ok_def word_le_nat_alt)
  show ?thesis
  proof (cases "input_read st = input_write st")
    case True
    then show ?thesis by (simp add: input_pending_def tty_input_get_def)
  next
    case False
    then have lt: "?r < ?w" using le by (simp add: word_unat_eq_iff)
    then have r1: "unat (input_read st + 1) = Suc ?r"
      using unat_lt_u32 [of "input_write st"] by (subst unat_add_nowrap) simp_all
    have m: "unat (input_read st AND (256 - 1)) = ?r mod 256"
      using unat_and_mask [of 256 8 "input_read st"] by simp
    have "input_pending st = input_buf st ! (?r mod 256) # input_pending (st\<lparr>input_read := input_read st + 1\<rparr>)"
      using lt r1 by (simp add: input_pending_def upt_conv_Cons)
    moreover have "input_ok k (st\<lparr>input_read := input_read st + 1\<rparr>)"
      using ok lt r1 by (auto simp: input_ok_def word_le_nat_alt)
    ultimately show ?thesis using False m by (simp add: tty_input_get_def)
  qed
qed

section \<open>Properties\<close>

datatype tty_call = Write string | Putc char | SwitchVt int

fun tty_step :: "tty_call \<Rightarrow> tty_state \<Rightarrow> tty_state" where
  "tty_step (Write s) st = tty_write s st"
| "tty_step (Putc c) st = tty_putc c st"
| "tty_step (SwitchVt n) st = tty_switch_vt n st"

fun vterm_step :: "tty_call \<Rightarrow> vterm \<Rightarrow> vterm" where
  "vterm_step (Write s) t = vterm_write s t"
| "vterm_step (Putc c) t = vterm_write (char_string c) t"
| "vterm_step (SwitchVt n) t = vterm_switch n t"

text \<open>The characters a call may add to one terminal: a switch adds at most the header.\<close>

fun tty_bytes :: "tty_call \<Rightarrow> nat" where
  "tty_bytes (Write s) = length s"
| "tty_bytes (Putc c) = 1"
| "tty_bytes (SwitchVt n) = 6"

definition tty_boot :: tty_state where
  "tty_boot = \<lparr>input_buf = replicate 256 NUL, input_read = 0, input_write = 0,
     vt_buf = replicate 12 (replicate TTY_BUF_SZ NUL), vt_head = replicate 12 0, active_vt = 0,
     console = []\<rparr>"

definition vterm_boot :: vterm where
  "vterm_boot = \<lparr>vlog = replicate 12 [], shown = 0, vconsole = []\<rparr>"

lemma tty_boot_rel: "k < 2 ^ 32 \<Longrightarrow> tty_rel k tty_boot vterm_boot"
  by (simp add: tty_rel_def tty_boot_def vterm_boot_def ring_holds_def)

lemma tty_step_refines:
  assumes "tty_rel (tty_bytes c + k) st t"
  shows "tty_rel k (tty_step c st) (vterm_step c t)"
proof (cases c)
  case (Write s)
  then show ?thesis using assms tty_write_refines by simp
next
  case (Putc ch)
  have "tty_rel (length (char_string ch) + k) st t"
    by (rule tty_rel_mono [OF assms]) (simp add: Putc char_string_def)
  from tty_write_refines [OF this] show ?thesis
    by (simp add: Putc tty_putc_def tty_write_def)
next
  case (SwitchVt n)
  then show ?thesis using assms tty_switch_refines by simp
qed

lemma tty_steps_refine:
  "tty_rel (sum_list (map tty_bytes cs) + k) st t \<Longrightarrow>
     tty_rel k (fold tty_step cs st) (fold vterm_step cs t)"
proof (induction cs arbitrary: st t)
  case (Cons c cs)
  then have "tty_rel (sum_list (map tty_bytes cs) + k) (tty_step c st) (vterm_step c t)"
    by (intro tty_step_refines) (simp add: add.assoc)
  with Cons.IH show ?case by simp
qed simp

text \<open>C17. Twelve rings of 16 KiB implement the abstract terminal: for every sequence of
  writes and terminal switches since boot (with fewer than \<open>2 ^ 32\<close> characters), the console
  has received exactly the events of the abstract terminal, which keeps the complete output
  of every terminal and replays its last 16 KiB on a switch.\<close>

theorem tty_refines_vterm:
  assumes "sum_list (map tty_bytes cs) < 2 ^ 32"
  shows "console (fold tty_step cs tty_boot) = vconsole (fold vterm_step cs vterm_boot) \<and>
    active_vt (fold tty_step cs tty_boot) = shown (fold vterm_step cs vterm_boot)"
proof -
  have "tty_rel 0 (fold tty_step cs tty_boot) (fold vterm_step cs vterm_boot)"
    using assms by (intro tty_steps_refine tty_boot_rel) simp
  then show ?thesis by (simp add: tty_rel_def)
qed

theorem tty_refines_vterm_witness:
  "console (fold tty_step [Write ''hi'', SwitchVt 2, SwitchVt 1] tty_boot) =
     [Print ''hi'', ClearScreen, Print (vt_header 1), ClearScreen, Print ''h'', Print ''i'']"
  using tty_refines_vterm [of "[Write ''hi'', SwitchVt 2, SwitchVt 1]"]
  by (simp add: vterm_boot_def vterm_write_def vterm_switch_def TTY_NUM_VT_def Let_def recent_def
      TTY_BUF_SZ_def vt_header_def)

end
