(* ===== verification/Keyboard.thy ===== *)
theory Keyboard
  imports Tty
begin

text \<open>
  The polled PS/2 keyboard of \<^verbatim>\<open>kernel/drivers/keyboard.cpp\<close> and the function
  \<open>tty_poll_char\<close> of \<^verbatim>\<open>kernel/tty/tty.cpp\<close> that joins it to the terminals and the
  pseudo-terminals. The controller is the list \<open>ps2_rx\<close> of the bytes waiting in it: bit 0
  of the status port is set when the list is not empty and reading the data port takes its
  first byte.
\<close>

record kbd_state =
  kb_tty :: tty_state
  kb_pty :: pty_state
  shift_down :: bool
  alt_down :: bool
  ctrl_down :: bool
  ps2_rx :: "u8 list"

definition ESC :: char where
  "ESC = CHR 0x1B"

definition scancode_map :: string where
  "scancode_map =
     [NUL, ESC] @ ''1234567890-='' @ [CHR 0x08, CHR 0x09] @
     ''qwertyuiop[]'' @ [CHR 0x0A, NUL] @ ''as'' @
     ''dfghjkl;'' @ [CHR 0x27, CHR 0x60, NUL, CHR 0x5C] @ ''zxcv'' @
     ''bnm,./'' @ [NUL] @ ''*'' @ [NUL] @ '' ''"

definition scancode_map_shift :: string where
  "scancode_map_shift =
     [NUL, ESC] @ ''!@#$%^&*()_+'' @ [CHR 0x08, CHR 0x09] @
     ''QWERTYUIOP{}'' @ [CHR 0x0A, NUL] @ ''AS'' @
     ''DFGHJKL:'' @ [CHR 0x22, CHR 0x7E, NUL, CHR 0x7C] @ ''ZXCV'' @
     ''BNM<>?'' @ [NUL] @ ''*'' @ [NUL] @ '' ''"

definition hex_char :: "u8 \<Rightarrow> char" where
  "hex_char d = ''0123456789ABCDEF'' ! unat d"

text \<open>The terminator is written over the closing bracket, so the text has three characters.\<close>

definition print_scancode :: "u8 \<Rightarrow> kbd_state \<Rightarrow> kbd_state" where
  "print_scancode sc st =
     (let buf = [CHR ''['', CHR ''0'', CHR ''0'', CHR '']''];
          buf1 = buf[1 := hex_char (drop_bit 4 sc AND 0xF)];
          buf2 = buf1[2 := hex_char (sc AND 0xF)];
          buf3 = buf2[3 := NUL]
      in st\<lparr>kb_tty := print (takeWhile (\<lambda>c. c \<noteq> NUL) buf3) (kb_tty st)\<rparr>)"

definition keyboard_init :: "kbd_state \<Rightarrow> kbd_state" where
  "keyboard_init st = st\<lparr>ps2_rx := []\<rparr>"

text \<open>The escape sequences, without the leading escape, of the two switch statements.\<close>

definition ansi_tail :: "u8 \<Rightarrow> string option" where
  "ansi_tail sc =
     (if sc = 0x48 then Some ''[A'' else if sc = 0x50 then Some ''[B''
      else if sc = 0x4B then Some ''[D'' else if sc = 0x4D then Some ''[C''
      else if sc = 0x47 then Some ''[H'' else if sc = 0x4F then Some ''[F''
      else if sc = 0x52 then Some ''[2~'' else if sc = 0x53 then Some ''[3~''
      else None)"

definition kb_enqueue :: "string \<Rightarrow> kbd_state \<Rightarrow> kbd_state" where
  "kb_enqueue s st = st\<lparr>kb_tty := tty_enqueue_input s (kb_tty st)\<rparr>"

definition kb_extended :: "u8 \<Rightarrow> kbd_state \<Rightarrow> char \<times> kbd_state" where
  "kb_extended nxt st =
     (case ansi_tail nxt of
        Some s \<Rightarrow> (ESC, kb_enqueue s st)
      | None \<Rightarrow> (NUL, print_scancode nxt (print_scancode 0xE0 st)))"

definition kb_release :: "u8 \<Rightarrow> kbd_state \<Rightarrow> kbd_state" where
  "kb_release sc st =
     (let base = sc AND 0x7F;
          st1 = (if base = 0x2A \<or> base = 0x36 then st\<lparr>shift_down := False\<rparr> else st);
          st2 = (if base = 0x38 then st1\<lparr>alt_down := False\<rparr> else st1)
      in if base = 0x1D then st2\<lparr>ctrl_down := False\<rparr> else st2)"

definition alt_vt :: "u8 \<Rightarrow> int" where
  "alt_vt sc =
     (if sc \<ge> 0x3B \<and> sc \<le> 0x44 then uint (sc - 0x3B) + 1
      else if sc = 0x57 then 11 else if sc = 0x58 then 12 else -1)"

definition is_letter :: "char \<Rightarrow> bool" where
  "is_letter c \<longleftrightarrow> (of_char c :: nat) \<in> {97..122} \<or> (of_char c :: nat) \<in> {65..90}"

definition kb_map :: "u8 \<Rightarrow> kbd_state \<Rightarrow> char \<times> kbd_state" where
  "kb_map sc st =
     (if unat sc < length scancode_map
      then let c = (if shift_down st then scancode_map_shift ! unat sc else scancode_map ! unat sc)
           in (if ctrl_down st \<and> is_letter c then char_of_byte (byte_of_char c AND 0x1F) else c, st)
      else (NUL, print_scancode sc st))"

definition kb_press :: "u8 \<Rightarrow> kbd_state \<Rightarrow> char \<times> kbd_state" where
  "kb_press sc st =
     (if sc = 0x2A \<or> sc = 0x36 then (NUL, st\<lparr>shift_down := True\<rparr>)
      else if sc = 0x38 then (NUL, st\<lparr>alt_down := True\<rparr>)
      else if sc = 0x1D then (NUL, st\<lparr>ctrl_down := True\<rparr>)
      else if alt_down st \<and> alt_vt sc \<noteq> -1
      then (NUL, st\<lparr>kb_tty := tty_switch_vt (alt_vt sc) (kb_tty st)\<rparr>)
      else case ansi_tail sc of
             Some s \<Rightarrow> (ESC, kb_enqueue s st)
           | None \<Rightarrow> kb_map sc st)"

definition keyboard_poll_char :: "kbd_state \<Rightarrow> char \<times> kbd_state" where
  "keyboard_poll_char st =
     (case ps2_rx st of
        [] \<Rightarrow> (NUL, st)
      | sc # rx \<Rightarrow>
          (let st1 = st\<lparr>ps2_rx := rx\<rparr>
           in if sc = 0xE0 then
                (case rx of
                   [] \<Rightarrow> (NUL, st1)
                 | nxt # rx' \<Rightarrow> kb_extended nxt (st1\<lparr>ps2_rx := rx'\<rparr>))
              else if sc AND 0x80 \<noteq> 0 then (NUL, kb_release sc st1)
              else kb_press sc st1))"

definition keyboard_poll_and_log :: "kbd_state \<Rightarrow> kbd_state" where
  "keyboard_poll_and_log st =
     (case keyboard_poll_char st of
        (c, st1) \<Rightarrow> if c = NUL then st1 else st1\<lparr>kb_tty := print [c] (kb_tty st1)\<rparr>)"

definition tty_poll_char :: "kbd_state \<Rightarrow> char \<times> kbd_state" where
  "tty_poll_char st =
     (case tty_input_get (kb_tty st) of
        Some (c, t) \<Rightarrow> (c, st\<lparr>kb_tty := t\<rparr>)
      | None \<Rightarrow>
          (case keyboard_poll_char st of
             (c, st1) \<Rightarrow>
               if c = NUL then (NUL, st1)
               else let st2 = st1\<lparr>kb_tty := vt_append [c] (kb_tty st1)\<rparr>;
                        pid = pty_vt_map_get (int (active_vt (kb_tty st2))) (kb_pty st2)
                    in (c, if pid \<ge> 0 then st2\<lparr>kb_pty := pty_slave_push_input pid c (kb_pty st2)\<rparr>
                           else st2)))"

text \<open>Repeated polling.\<close>

primrec kbd_polls :: "nat \<Rightarrow> kbd_state \<Rightarrow> string \<times> kbd_state" where
  "kbd_polls 0 st = ([], st)"
| "kbd_polls (Suc n) st =
     (case keyboard_poll_char st of (c, st1) \<Rightarrow>
       (case kbd_polls n st1 of (cs, st2) \<Rightarrow> (c # cs, st2)))"

primrec tty_polls :: "nat \<Rightarrow> kbd_state \<Rightarrow> string \<times> kbd_state" where
  "tty_polls 0 st = ([], st)"
| "tty_polls (Suc n) st =
     (case tty_poll_char st of (c, st1) \<Rightarrow>
       (case tty_polls n st1 of (cs, st2) \<Rightarrow> (c # cs, st2)))"

section \<open>Escape sequences\<close>

lemma input_vt_put [simp]:
  "input_pending (fold (vt_put v) s t) = input_pending t"
  "input_ok k (fold (vt_put v) s t) = input_ok k t"
  by (induction s arbitrary: t) (simp_all add: vt_put_def Let_def input_pending_def input_ok_def)

lemma input_vt_append [simp]:
  "input_pending (vt_append s t) = input_pending t"
  "input_ok k (vt_append s t) = input_ok k t"
  by (simp_all add: vt_append_def)

lemma tty_polls_pending:
  "input_ok k (kb_tty st) \<Longrightarrow> input_pending (kb_tty st) = s \<Longrightarrow>
     \<exists>st'. tty_polls (length s) st = (s, st') \<and> ps2_rx st' = ps2_rx st \<and> kb_pty st' = kb_pty st \<and>
       input_pending (kb_tty st') = []"
proof (induction s arbitrary: st)
  case Nil
  then show ?case by simp
next
  case (Cons c s)
  obtain t where t: "tty_input_get (kb_tty st) = Some (c, t)" "input_pending t = s" "input_ok k t"
    using tty_input_get_pending [OF Cons.prems(1)] Cons.prems(2) by auto
  obtain st' where "tty_polls (length s) (st\<lparr>kb_tty := t\<rparr>) = (s, st')" "ps2_rx st' = ps2_rx st"
    "kb_pty st' = kb_pty st" "input_pending (kb_tty st') = []"
    using Cons.IH [of "st\<lparr>kb_tty := t\<rparr>"] t by auto
  then show ?case using t(1) by (simp add: tty_poll_char_def)
qed

lemma ansi_tail_length: "ansi_tail sc = Some s \<Longrightarrow> length s \<le> 3"
  by (auto simp: ansi_tail_def split: if_splits)

lemma active_vt_input [simp]:
  "active_vt (vt_append s t) = active_vt t"
  "active_vt (tty_enqueue_input s t) = active_vt t"
proof -
  show "active_vt (vt_append s t) = active_vt t" by (simp add: vt_append_def)
  show "active_vt (tty_enqueue_input s t) = active_vt t"
    unfolding tty_enqueue_input_def by (induction s arbitrary: t) (simp_all add: input_put_def)
qed

text \<open>One poll that meets an extended key: the escape is returned, the rest is queued, and
  only the escape reaches the pseudo-terminal.\<close>

lemma poll_extended:
  assumes ok: "input_ok 3 (kb_tty st)" and none: "input_pending (kb_tty st) = []"
    and rx: "ps2_rx st = 0xE0 # code # rest" and tail: "ansi_tail code = Some s"
  shows "\<exists>st1. tty_poll_char st = (ESC, st1) \<and> ps2_rx st1 = rest \<and>
    input_pending (kb_tty st1) = s \<and> input_ok (3 - length s) (kb_tty st1) \<and>
    kb_pty st1 = (let pid = pty_vt_map_get (int (active_vt (kb_tty st))) (kb_pty st)
       in if pid \<ge> 0 then pty_slave_push_input pid ESC (kb_pty st) else kb_pty st)"
proof -
  have "input_ok (length s + (3 - length s)) (kb_tty st)"
    using ok ansi_tail_length [OF tail] by simp
  note q = tty_enqueue_pending [OF this]
  have "tty_input_get (kb_tty st) = None"
    using tty_input_get_pending [OF ok] none by simp
  moreover have "ESC \<noteq> NUL" by (simp add: ESC_def NUL_def)
  ultimately show ?thesis
    using rx tail q none
    by (simp add: tty_poll_char_def keyboard_poll_char_def kb_extended_def kb_enqueue_def Let_def)
qed

section \<open>Typing\<close>

definition plain_key :: "u8 \<Rightarrow> bool" where
  "plain_key sc \<longleftrightarrow> sc < 58 \<and> sc \<notin> {0x2A, 0x36, 0x38, 0x1D}"

lemma low_key_bits:
  fixes sc :: u8
  assumes "sc < 128"
  shows "sc AND 0x80 = 0" and "(sc OR 0x80) AND 0x80 \<noteq> 0" and "(sc OR 0x80) AND 0x7F = sc"
proof -
  have "unat sc < 2 ^ 7" using assms by (simp add: word_less_nat_alt)
  then have "unat (take_bit 7 sc) = unat sc"
    unfolding unsigned_take_bit_eq by (rule take_bit_nat_eq_self)
  then have t: "take_bit 7 sc = sc" by (simp only: word_unat_eq_iff)
  have b7: "\<not> bit sc 7" using t by (metis bit_take_bit_iff less_irrefl)
  have e: "(0x80 :: u8) = 2 ^ 7" "(0x7F :: u8) = mask 7" by (simp_all add: mask_eq_exp_minus_1)
  show "sc AND 0x80 = 0" unfolding e using b7 by (simp only: and_exp_eq_0_iff_not_bit not_False_eq_True)
  have "bit (sc OR 2 ^ 7) 7" by (simp add: bit_simps)
  then show "(sc OR 0x80) AND 0x80 \<noteq> 0" unfolding e by (simp only: and_exp_eq_0_iff_not_bit not_not)
  have "take_bit 7 (2 ^ 7 :: u8) = 0" by simp
  then show "(sc OR 0x80) AND 0x7F = sc"
    unfolding e(2) take_bit_eq_mask [symmetric] using t by (simp add: take_bit_or)
qed

lemma kb_press_release:
  assumes k: "plain_key sc" and m: "\<not> alt_down st" "\<not> ctrl_down st"
    and rx: "ps2_rx st = sc # (sc OR 0x80) # rest"
  shows "kbd_polls 2 st =
    ([if shift_down st then scancode_map_shift ! unat sc else scancode_map ! unat sc, NUL],
     st\<lparr>ps2_rx := rest\<rparr>)"
proof -
  have lt: "sc < 58" and ne: "sc \<noteq> 0x2A" "sc \<noteq> 0x36" "sc \<noteq> 0x38" "sc \<noteq> 0x1D"
    using k by (simp_all add: plain_key_def)
  have "sc < 128" using lt by (simp add: word_less_nat_alt)
  note b = low_key_bits [OF this]
  have "sc \<noteq> 0xE0" and n: "ansi_tail sc = None" "unat sc < length scancode_map"
    using lt by (auto simp: ansi_tail_def scancode_map_def word_less_nat_alt)
  have "sc OR 0x80 \<noteq> 0xE0"
  proof
    assume "sc OR 0x80 = 0xE0"
    then have "sc = 0xE0 AND 0x7F" using b(3) by metis
    then show False using lt by simp
  qed
  with rx m ne n b \<open>sc \<noteq> 0xE0\<close> show ?thesis
    by (simp add: numeral_2_eq_2 keyboard_poll_char_def kb_press_def kb_map_def kb_release_def Let_def)
qed

lemma kbd_polls_add:
  "kbd_polls (a + b) st =
     (case kbd_polls a st of (cs, st1) \<Rightarrow> (case kbd_polls b st1 of (ds, st2) \<Rightarrow> (cs @ ds, st2)))"
  by (induction a arbitrary: st) (auto split: prod.splits)

definition key_taps :: "u8 list \<Rightarrow> u8 list" where
  "key_taps ks = concat (map (\<lambda>k. [k, k OR 0x80]) ks)"

lemma kbd_taps:
  "list_all plain_key ks \<Longrightarrow> \<not> alt_down st \<Longrightarrow> \<not> ctrl_down st \<Longrightarrow>
   ps2_rx st = key_taps ks @ rest \<Longrightarrow>
     kbd_polls (2 * length ks) st =
       (concat (map (\<lambda>k. [(if shift_down st then scancode_map_shift else scancode_map) ! unat k, NUL]) ks),
        st\<lparr>ps2_rx := rest\<rparr>)"
proof (induction ks arbitrary: st)
  case Nil
  then show ?case by (simp add: key_taps_def)
next
  case (Cons k ks)
  have p: "kbd_polls 2 st = ([(if shift_down st then scancode_map_shift else scancode_map) ! unat k, NUL],
      st\<lparr>ps2_rx := key_taps ks @ rest\<rparr>)"
    using kb_press_release [of k st "key_taps ks @ rest"] Cons.prems by (simp add: key_taps_def)
  have n: "2 * length (k # ks) = 2 + 2 * length ks" by simp
  show ?case
    unfolding n kbd_polls_add p using Cons.IH [of "st\<lparr>ps2_rx := key_taps ks @ rest\<rparr>"] Cons.prems
    by simp
qed

section \<open>Properties\<close>

text \<open>The bytes of a row of key taps, with the left shift key held around them or not.\<close>

definition shift_held :: "bool \<Rightarrow> u8 list \<Rightarrow> u8 list" where
  "shift_held sh bs = (if sh then 0x2A # bs @ [0xAA] else bs)"

text \<open>C34. Typing: when no modifier is down and the controller holds the press and release
  codes of a row of ordinary keys, with the shift key held around them or not, polling once
  per byte returns the characters of the matching table, in order, with NUL for the codes
  that produce no character, and leaves the modifiers up and the later bytes untouched.\<close>

theorem keyboard_typing:
  assumes "list_all plain_key ks" and "\<not> shift_down st" and "\<not> alt_down st" and "\<not> ctrl_down st"
    and "ps2_rx st = shift_held sh (key_taps ks) @ rest"
  shows "\<exists>cs. kbd_polls (length (shift_held sh (key_taps ks))) st = (cs, st\<lparr>ps2_rx := rest\<rparr>) \<and>
    filter (\<lambda>c. c \<noteq> NUL) cs =
      filter (\<lambda>c. c \<noteq> NUL) (map (\<lambda>k. (if sh then scancode_map_shift else scancode_map) ! unat k) ks)"
proof -
  have len: "length (key_taps ks) = 2 * length ks"
    by (induction ks) (simp_all add: key_taps_def)
  have flt: "filter (\<lambda>c. c \<noteq> NUL) (concat (map (\<lambda>k. [f k, NUL]) ks)) =
      filter (\<lambda>c. c \<noteq> NUL) (map f ks)" for f
    by (induction ks) simp_all
  show ?thesis
  proof (cases sh)
    case False
    then show ?thesis
      using kbd_taps [of ks st rest] assms len flt by (simp add: shift_held_def)
  next
    case True
    let ?st = "st\<lparr>shift_down := True, ps2_rx := key_taps ks @ 0xAA # rest\<rparr>"
    have n: "length (shift_held sh (key_taps ks)) = 1 + (2 * length ks + 1)"
      using True len by (simp add: shift_held_def)
    have a: "kbd_polls 1 st = ([NUL], ?st)"
      using True assms by (simp add: shift_held_def keyboard_poll_char_def kb_press_def)
    have b: "kbd_polls 1 (?st\<lparr>ps2_rx := 0xAA # rest\<rparr>) = ([NUL], st\<lparr>ps2_rx := rest\<rparr>)"
      using assms(2) by (simp add: keyboard_poll_char_def kb_release_def Let_def)
    have c: "kbd_polls (2 * length ks) ?st =
        (concat (map (\<lambda>k. [scancode_map_shift ! unat k, NUL]) ks), ?st\<lparr>ps2_rx := 0xAA # rest\<rparr>)"
      using kbd_taps [of ks ?st "0xAA # rest"] assms by simp
    have "kbd_polls (length (shift_held sh (key_taps ks))) st =
        ([NUL] @ concat (map (\<lambda>k. [scancode_map_shift ! unat k, NUL]) ks) @ [NUL], st\<lparr>ps2_rx := rest\<rparr>)"
      unfolding n kbd_polls_add a prod.case c b by simp
    then show ?thesis using flt True by simp
  qed
qed

definition kbd_boot :: kbd_state where
  "kbd_boot = \<lparr>kb_tty = tty_boot, kb_pty = pty_boot, shift_down = False, alt_down = False,
     ctrl_down = False, ps2_rx = []\<rparr>"

theorem keyboard_typing_witness:
  "\<exists>cs. kbd_polls (length [0x2A, 0x23, 0xA3, 0x17, 0x97, 0xAA :: u8])
      (kbd_boot\<lparr>ps2_rx := [0x2A, 0x23, 0xA3, 0x17, 0x97, 0xAA]\<rparr>) = (cs, kbd_boot) \<and>
     filter (\<lambda>c. c \<noteq> NUL) cs = ''HI''"
proof -
  let ?st = "kbd_boot\<lparr>ps2_rx := [0x2A, 0x23, 0xA3, 0x17, 0x97, 0xAA]\<rparr>"
  have rx: "shift_held True (key_taps [0x23, 0x17]) = [0x2A, 0x23, 0xA3, 0x17, 0x97, 0xAA]"
    by (simp add: shift_held_def key_taps_def)
  have "\<exists>cs. kbd_polls (length (shift_held True (key_taps [0x23, 0x17]))) ?st = (cs, ?st\<lparr>ps2_rx := []\<rparr>) \<and>
    filter (\<lambda>c. c \<noteq> NUL) cs = filter (\<lambda>c. c \<noteq> NUL)
      (map (\<lambda>k. (if True then scancode_map_shift else scancode_map) ! unat k) [0x23, 0x17 :: u8])"
    by (rule keyboard_typing) (simp_all only: rx, simp_all add: plain_key_def kbd_boot_def)
  then show ?thesis
    unfolding rx by (simp add: kbd_boot_def scancode_map_shift_def NUL_def del: kbd_polls.simps)
qed

text \<open>Extended keys: when nothing is waiting in the input buffer and the controller holds
  the two bytes of an arrow, home, end, insert or delete key, polling the terminal returns the
  whole escape sequence, one character per poll. The pseudo-terminal attached to the active
  terminal receives only the first character, the escape.\<close>

lemma extended_key_sequence:
  assumes "input_ok 3 (kb_tty st)" and "input_pending (kb_tty st) = []"
    and "ps2_rx st = 0xE0 # code # rest" and "ansi_tail code = Some s"
  shows "\<exists>st'. tty_polls (Suc (length s)) st = (ESC # s, st') \<and> ps2_rx st' = rest \<and>
    input_pending (kb_tty st') = [] \<and>
    kb_pty st' = (let pid = pty_vt_map_get (int (active_vt (kb_tty st))) (kb_pty st)
       in if pid \<ge> 0 then pty_slave_push_input pid ESC (kb_pty st) else kb_pty st)"
proof -
  obtain st1 where p: "tty_poll_char st = (ESC, st1)" "ps2_rx st1 = rest"
    "input_pending (kb_tty st1) = s" "input_ok (3 - length s) (kb_tty st1)"
    "kb_pty st1 = (let pid = pty_vt_map_get (int (active_vt (kb_tty st))) (kb_pty st)
       in if pid \<ge> 0 then pty_slave_push_input pid ESC (kb_pty st) else kb_pty st)"
    using poll_extended [OF assms] by blast
  from tty_polls_pending [OF p(4,3)] obtain st' where
    "tty_polls (length s) st1 = (s, st')" "ps2_rx st' = rest" "kb_pty st' = kb_pty st1"
    "input_pending (kb_tty st') = []"
    using p(2) by auto
  with p show ?thesis by simp
qed

end
