(* ===== verification/Ports.thy ===== *)
theory Ports
  imports Prelude
begin

text \<open>
  Port input and output and the drivers that are little else: the PS/2 mouse
  (\<^verbatim>\<open>kernel/drivers/mouse.cpp\<close>), the interrupt controllers and the timer
  (\<^verbatim>\<open>kernel/arch/pic.cpp\<close>, \<^verbatim>\<open>kernel/arch/pit.cpp\<close>), the descriptor tables
  (\<^verbatim>\<open>kernel/arch/gdt.cpp\<close>, \<^verbatim>\<open>kernel/arch/idt.cpp\<close>) and the PCI scan
  (\<^verbatim>\<open>kernel/drivers/pci.cpp\<close>). The hardware behind the ports is a parameter: a record of
  functions on a device state of any type.
\<close>

record 'd ports =
  inb :: "u16 \<Rightarrow> 'd \<Rightarrow> u8 \<times> 'd"
  outb :: "u16 \<Rightarrow> u8 \<Rightarrow> 'd \<Rightarrow> 'd"
  inw :: "u16 \<Rightarrow> 'd \<Rightarrow> u16 \<times> 'd"
  outw :: "u16 \<Rightarrow> u16 \<Rightarrow> 'd \<Rightarrow> 'd"
  inl :: "u16 \<Rightarrow> 'd \<Rightarrow> u32 \<times> 'd"
  outl :: "u16 \<Rightarrow> u32 \<Rightarrow> 'd \<Rightarrow> 'd"

definition io_wait :: "'d ports \<Rightarrow> 'd \<Rightarrow> 'd" where
  "io_wait P d = outb P 0x80 0 d"

section \<open>Mouse\<close>

record mouse =
  pkt :: "u8 list"
  pkt_idx :: nat

text \<open>A packet: the two signed movements and the button bits.\<close>

type_synonym mouse_event = "int \<times> int \<times> int"

primrec wait_input_clear :: "'d ports \<Rightarrow> nat \<Rightarrow> 'd \<Rightarrow> bool \<times> 'd" where
  "wait_input_clear P 0 d = (False, d)"
| "wait_input_clear P (Suc timeout) d =
     (case inb P 0x64 d of (s, d1) \<Rightarrow>
       if s AND 0x02 = 0 then (True, d1) else wait_input_clear P timeout (io_wait P d1))"

primrec read_ack :: "'d ports \<Rightarrow> nat \<Rightarrow> 'd \<Rightarrow> bool \<times> 'd" where
  "read_ack P 0 d = (False, d)"
| "read_ack P (Suc timeout) d =
     (case inb P 0x64 d of (s, d1) \<Rightarrow>
       if s AND 1 \<noteq> 0
       then (case inb P 0x60 d1 of (b, d2) \<Rightarrow>
              if b = 0xFA then (True, d2) else read_ack P timeout (io_wait P d2))
       else read_ack P timeout (io_wait P d1))"

primrec mouse_drain :: "'d ports \<Rightarrow> nat \<Rightarrow> 'd \<Rightarrow> 'd" where
  "mouse_drain P 0 d = d"
| "mouse_drain P (Suc n) d =
     (case inb P 0x64 d of (s, d1) \<Rightarrow>
       if s AND 1 \<noteq> 0 then mouse_drain P n (snd (inb P 0x60 d1)) else d1)"

text \<open>A command byte for the controller or the mouse, followed by the delay.\<close>

definition ps2_out :: "'d ports \<Rightarrow> u16 \<Rightarrow> u8 \<Rightarrow> 'd \<Rightarrow> 'd" where
  "ps2_out P port v d = io_wait P (outb P port v d)"

text \<open>The second half of \<open>mouse_init\<close>: a busy controller is only reported there.\<close>

definition mouse_enable :: "'d ports \<Rightarrow> 'd \<Rightarrow> 'd" where
  "mouse_enable P d0 =
     (let (_, d1) = wait_input_clear P 500 d0;
          d2 = ps2_out P 0x64 0xD4 d1;
          (_, d3) = wait_input_clear P 500 d2;
          d4 = ps2_out P 0x60 0xF6 d3;
          (_, d5) = read_ack P 200 d4;
          (_, d6) = wait_input_clear P 500 d5;
          d7 = ps2_out P 0x64 0xD4 d6;
          (_, d8) = wait_input_clear P 500 d7;
          d9 = ps2_out P 0x60 0xF4 d8;
          (_, d10) = read_ack P 500 d9
      in d10)"

definition mouse_init :: "'d ports \<Rightarrow> mouse \<Rightarrow> 'd \<Rightarrow> mouse \<times> 'd" where
  "mouse_init P m d =
     (let d0 = mouse_drain P 32 d;
          (ok1, d1) = wait_input_clear P 500 d0
      in if \<not> ok1 then (m, d1)
         else let d2 = ps2_out P 0x64 0xA8 d1;
                  (ok2, d3) = wait_input_clear P 500 d2
              in if \<not> ok2 then (m, d3)
                 else let d4 = ps2_out P 0x64 0x20 d3;
                          (_, d5) = inb P 0x64 d4;
                          (cmd, d6) = inb P 0x60 d5;
                          (ok3, d7) = wait_input_clear P 500 d6
                      in if \<not> ok3 then (m, d7)
                         else let d8 = ps2_out P 0x64 0x60 d7;
                                  (ok4, d9) = wait_input_clear P 500 d8
                              in if \<not> ok4 then (m, d9)
                                 else (m\<lparr>pkt_idx := 0\<rparr>,
                                       mouse_enable P (ps2_out P 0x60 (cmd OR 0x02) d9)))"

text \<open>What \<open>mouse_poll_delta\<close> does with the byte it read.\<close>

definition mouse_byte :: "u8 \<Rightarrow> mouse \<Rightarrow> mouse_event option \<times> mouse" where
  "mouse_byte b m =
     (if pkt_idx m = 0 \<and> b AND 0x08 = 0 then (None, m)
      else let m1 = m\<lparr>pkt := (pkt m)[pkt_idx m := b], pkt_idx := pkt_idx m + 1\<rparr>
           in if pkt_idx m1 < 3 then (None, m1)
              else let b0 = pkt m1 ! 0; b1 = pkt m1 ! 1; b2 = pkt m1 ! 2
                   in (Some (sint b1, sint b2, uint (b0 AND 0x07)), m1\<lparr>pkt_idx := 0\<rparr>))"

definition mouse_poll_delta :: "'d ports \<Rightarrow> mouse \<Rightarrow> 'd \<Rightarrow> mouse_event option \<times> mouse \<times> 'd" where
  "mouse_poll_delta P m d =
     (case inb P 0x64 d of (s, d1) \<Rightarrow>
       if s AND 1 = 0 then (None, m, d1)
       else (case inb P 0x60 d1 of (b, d2) \<Rightarrow>
              (case mouse_byte b m of (ev, m1) \<Rightarrow> (ev, m1, d2))))"

section \<open>Interrupt controllers and timer\<close>

definition pic_remap :: "'d ports \<Rightarrow> 'd \<Rightarrow> 'd" where
  "pic_remap P d =
     (let (a1, d1) = inb P 0x21 d;
          (a2, d2) = inb P 0xA1 d1
      in fold (\<lambda>(p, v). outb P p v)
           [(0x20, 0x11), (0xA0, 0x11), (0x21, 0x20), (0xA1, 0x28), (0x21, 0x04), (0xA1, 0x02),
            (0x21, 0x01), (0xA1, 0x01), (0x21, a1), (0xA1, a2)] d2)"

definition pic_send_eoi :: "'d ports \<Rightarrow> u8 \<Rightarrow> 'd \<Rightarrow> 'd" where
  "pic_send_eoi P irq d =
     outb P 0x20 0x20 (if irq \<ge> 8 then outb P 0xA0 0x20 d else d)"

definition pit_isr :: "'d ports \<Rightarrow> u64 \<times> 'd \<Rightarrow> u64 \<times> 'd" where
  "pit_isr P = (\<lambda>(ticks, d). (ticks + 1, pic_send_eoi P 0 d))"

text \<open>The divisor is cut to sixteen bits.\<close>

definition pit_divisor :: "u32 \<Rightarrow> u16" where
  "pit_divisor freq = ucast ((1193182 :: u32) div freq)"

section \<open>Descriptor tables\<close>

record gdt_entry =
  limit_low :: u16
  base_low :: u16
  base_middle :: u8
  access :: u8
  granularity :: u8
  base_high :: u8

definition set_gdt_entry :: "u32 \<Rightarrow> u32 \<Rightarrow> u8 \<Rightarrow> u8 \<Rightarrow> gdt_entry" where
  "set_gdt_entry base limit acc gran =
     \<lparr>limit_low = ucast (limit AND 0xFFFF), base_low = ucast (base AND 0xFFFF),
      base_middle = ucast (drop_bit 16 base AND 0xFF), access = acc,
      granularity = ucast (drop_bit 16 limit AND 0x0F) OR (gran AND 0xF0),
      base_high = ucast (drop_bit 24 base AND 0xFF)\<rparr>"

definition gdt_install :: "gdt_entry list \<Rightarrow> gdt_entry list" where
  "gdt_install gdt =
     gdt[0 := set_gdt_entry 0 0 0 0, 1 := set_gdt_entry 0 0 0x9A 0x20,
         2 := set_gdt_entry 0 0 0x92 0x00, 3 := set_gdt_entry 0 0 0xFA 0x20,
         4 := set_gdt_entry 0 0 0xF2 0x00]"

record idt_entry =
  offset_low :: u16
  selector :: u16
  ist :: u8
  type_attr :: u8
  offset_mid :: u16
  offset_high :: u32
  idt_zero :: u32

definition set_idt_entry :: "u64 \<Rightarrow> u16 \<Rightarrow> u8 \<Rightarrow> idt_entry" where
  "set_idt_entry handler sel attr =
     \<lparr>offset_low = ucast (handler AND 0xFFFF), selector = sel, ist = 0, type_attr = attr,
      offset_mid = ucast (drop_bit 16 handler AND 0xFFFF),
      offset_high = ucast (drop_bit 32 handler AND 0xFFFFFFFF), idt_zero = 0\<rparr>"

definition idt_set_handler :: "nat \<Rightarrow> u64 \<Rightarrow> idt_entry list \<Rightarrow> idt_entry list" where
  "idt_set_handler vec handler idt = idt[vec := set_idt_entry handler 0x08 0x8E]"

definition idt_install :: "u64 \<Rightarrow> idt_entry list \<Rightarrow> idt_entry list" where
  "idt_install isr_common_stub idt =
     fold (\<lambda>i t. t[i := set_idt_entry isr_common_stub 0x08 0x8E]) [0..<256] idt"

definition pit_init :: "'d ports \<Rightarrow> u64 \<Rightarrow> u32 \<Rightarrow> idt_entry list \<times> 'd \<Rightarrow> idt_entry list \<times> 'd" where
  "pit_init P pit_entry freq = (\<lambda>(idt, d).
     if freq = 0 then (idt, d)
     else let d1 = pic_remap P d;
              divisor = pit_divisor freq;
              d2 = outb P 0x43 0x34 d1;
              d3 = outb P 0x40 (ucast (divisor AND 0xFF)) d2;
              d4 = outb P 0x40 (ucast (drop_bit 8 divisor AND 0xFF)) d3
          in (idt_set_handler 0x20 pit_entry idt, d4))"

section \<open>PCI\<close>

definition pci_cfg_addr :: "u8 \<Rightarrow> u8 \<Rightarrow> u8 \<Rightarrow> u8 \<Rightarrow> u32" where
  "pci_cfg_addr bus slot func offset =
     0x80000000 OR push_bit 16 (ucast bus) OR push_bit 11 (ucast slot) OR push_bit 8 (ucast func) OR
     ucast (offset AND 0xFC)"

definition pci_cfg_read32 :: "'d ports \<Rightarrow> u8 \<Rightarrow> u8 \<Rightarrow> u8 \<Rightarrow> u8 \<Rightarrow> 'd \<Rightarrow> u32 \<times> 'd" where
  "pci_cfg_read32 P bus slot func offset d =
     inl P 0xCFC (outl P 0xCF8 (pci_cfg_addr bus slot func offset) d)"

text \<open>The functions of one slot; the callback is a list of the devices it was called with.\<close>

fun pci_scan_slot :: "'d ports \<Rightarrow> u8 \<Rightarrow> u8 list \<Rightarrow> 'd \<Rightarrow> (u8 \<times> u8 \<times> u8 \<times> u16 \<times> u16) list \<times> 'd" where
  "pci_scan_slot P slot [] d = ([], d)"
| "pci_scan_slot P slot (func # fs) d =
     (case pci_cfg_read32 P 0 slot func 0 d of (w, d1) \<Rightarrow>
       let vendor = (ucast (w AND 0xFFFF) :: u16)
       in if vendor = 0xFFFF
          then (if func = 0 then ([], d1) else pci_scan_slot P slot fs d1)
          else (case pci_scan_slot P slot fs d1 of (cb, d2) \<Rightarrow>
                 ((0, slot, func, vendor, ucast (drop_bit 16 w AND 0xFFFF)) # cb, d2)))"

fun pci_scan :: "'d ports \<Rightarrow> u8 list \<Rightarrow> 'd \<Rightarrow> (u8 \<times> u8 \<times> u8 \<times> u16 \<times> u16) list \<times> 'd" where
  "pci_scan P [] d = ([], d)"
| "pci_scan P (slot # ss) d =
     (case pci_scan_slot P slot (map of_nat [0..<8]) d of (cb, d1) \<Rightarrow>
       (case pci_scan P ss d1 of (cb', d2) \<Rightarrow> (cb @ cb', d2)))"

definition pci_enumerate :: "'d ports \<Rightarrow> 'd \<Rightarrow> (u8 \<times> u8 \<times> u8 \<times> u16 \<times> u16) list \<times> 'd" where
  "pci_enumerate P d = pci_scan P (map of_nat [0..<32]) d"

section \<open>Mouse packets\<close>

primrec mouse_bytes :: "u8 list \<Rightarrow> mouse \<Rightarrow> mouse_event list \<times> mouse" where
  "mouse_bytes [] m = ([], m)"
| "mouse_bytes (b # bs) m =
     (case mouse_byte b m of (ev, m1) \<Rightarrow>
       (case mouse_bytes bs m1 of (evs, m2) \<Rightarrow>
         ((case ev of Some e \<Rightarrow> [e] | None \<Rightarrow> []) @ evs, m2)))"

definition mouse_ok :: "mouse \<Rightarrow> bool" where
  "mouse_ok m \<longleftrightarrow> length (pkt m) = 3 \<and> pkt_idx m < 3"

lemma mouse_byte_ok: "mouse_ok m \<Longrightarrow> mouse_ok (snd (mouse_byte b m))"
  by (auto simp: mouse_ok_def mouse_byte_def Let_def)

lemma mouse_bytes_append:
  "mouse_bytes (xs @ ys) m =
     (case mouse_bytes xs m of (e1, m1) \<Rightarrow> (case mouse_bytes ys m1 of (e2, m2) \<Rightarrow> (e1 @ e2, m2)))"
  by (induction xs arbitrary: m) (auto split: prod.splits)

lemma mouse_noise:
  "list_all (\<lambda>b. b AND 0x08 = 0) ns \<Longrightarrow> pkt_idx m = 0 \<Longrightarrow> mouse_bytes ns m = ([], m)"
  by (induction ns) (simp_all add: mouse_byte_def)

lemma mouse_packet:
  assumes "length (pkt m) = 3" "pkt_idx m = 0" "b0 AND 0x08 \<noteq> 0"
  shows "mouse_bytes [b0, b1, b2] m =
    ([(sint b1, sint b2, uint (b0 AND 0x07))], m\<lparr>pkt := [b0, b1, b2], pkt_idx := 0\<rparr>)"
proof -
  obtain x y z where "pkt m = [x, y, z]" using assms(1) by (auto simp: length_Suc_conv numeral_3_eq_3)
  then show ?thesis using assms by (simp add: mouse_byte_def Let_def)
qed

definition mouse_encode :: "u8 \<times> u8 \<times> u8 \<Rightarrow> u8 list" where
  "mouse_encode = (\<lambda>(b0, b1, b2). [b0, b1, b2])"

lemma mouse_packets:
  "list_all (\<lambda>(b0, b1, b2). b0 AND 0x08 \<noteq> 0) ps \<Longrightarrow> length (pkt m) = 3 \<Longrightarrow> pkt_idx m = 0 \<Longrightarrow>
     \<exists>m'. mouse_bytes (concat (map mouse_encode ps)) m =
       (map (\<lambda>(b0, b1, b2). (sint b1, sint b2, uint (b0 AND 0x07))) ps, m') \<and>
       length (pkt m') = 3 \<and> pkt_idx m' = 0"
proof (induction ps arbitrary: m)
  case Nil
  then show ?case by simp
next
  case (Cons p ps)
  obtain b0 b1 b2 where p: "p = (b0, b1, b2)" by (cases p)
  let ?m = "m\<lparr>pkt := [b0, b1, b2], pkt_idx := 0\<rparr>"
  have e: "mouse_bytes (mouse_encode p) m = ([(sint b1, sint b2, uint (b0 AND 0x07))], ?m)"
    using mouse_packet [of m b0 b1 b2] Cons.prems by (simp add: p mouse_encode_def del: mouse_bytes.simps)
  obtain m' where "mouse_bytes (concat (map mouse_encode ps)) ?m =
      (map (\<lambda>(b0, b1, b2). (sint b1, sint b2, uint (b0 AND 0x07))) ps, m')"
    "length (pkt m') = 3" "pkt_idx m' = 0"
    using Cons.IH [of ?m] Cons.prems by auto
  with e show ?case by (simp add: mouse_bytes_append p)
qed

section \<open>Gates\<close>

text \<open>The address the processor reads from a gate.\<close>

definition gate_address :: "idt_entry \<Rightarrow> u64" where
  "gate_address e = ucast (offset_low e) OR push_bit 16 (ucast (offset_mid e)) OR
     push_bit 32 (ucast (offset_high e))"

lemma gate_address_set: "gate_address (set_idt_entry handler sel attr) = handler"
proof (rule bit_word_eqI)
  fix n
  assume "n < LENGTH(64)"
  then consider "n < 16" | "16 \<le> n" "n < 32" | "32 \<le> n" "n < 64" by fastforce
  then show "bit (gate_address (set_idt_entry handler sel attr)) n = bit handler n"
    by cases (simp_all add: gate_address_def set_idt_entry_def bit_simps bit_low_mask_int less_diff_conv2)
qed

section \<open>Properties\<close>

text \<open>C35. The mouse packet machine: from a packet boundary, bytes that cannot start a packet
  are skipped, and then every three-byte packet yields exactly one event with its two signed
  movements and its button bits, in order, ending at a packet boundary.\<close>

theorem mouse_stream_decodes:
  assumes "mouse_ok m" and "pkt_idx m = 0" and "list_all (\<lambda>b. b AND 0x08 = 0) noise"
    and "list_all (\<lambda>(b0, b1, b2). b0 AND 0x08 \<noteq> 0) ps"
  shows "\<exists>m'. mouse_bytes (noise @ concat (map mouse_encode ps)) m =
      (map (\<lambda>(b0, b1, b2). (sint b1, sint b2, uint (b0 AND 0x07))) ps, m') \<and>
      mouse_ok m' \<and> pkt_idx m' = 0"
proof -
  have "length (pkt m) = 3" using assms(1) by (simp add: mouse_ok_def)
  from mouse_packets [OF assms(4) this assms(2)] show ?thesis
    by (auto simp: mouse_bytes_append mouse_noise [OF assms(3,2)] mouse_ok_def)
qed

theorem mouse_stream_decodes_witness:
  "\<exists>m'. mouse_bytes [0x00, 0x09, 0xFF, 0x02] \<lparr>pkt = [0, 0, 0], pkt_idx = 0\<rparr> = ([(-1, 2, 1)], m')"
  using mouse_stream_decodes [of "\<lparr>pkt = [0, 0, 0], pkt_idx = 0\<rparr>" "[0x00]" "[(0x09, 0xFF, 0x02)]"]
  by (auto simp: mouse_ok_def mouse_encode_def)

text \<open>An interrupt gate keeps the whole handler address: the three offset fields that
  \<open>idt_set_handler\<close> stores put together are the address, the gate is a present interrupt
  gate of the kernel code segment, and the other vectors are unchanged.\<close>

lemma idt_gate_roundtrip:
  assumes "vec < length idt"
  shows "let e = idt_set_handler vec handler idt ! vec
    in gate_address e = handler \<and> selector e = 0x08 \<and> type_attr e = 0x8E \<and>
       (\<forall>v. v \<noteq> vec \<longrightarrow> idt_set_handler vec handler idt ! v = idt ! v)"
  using assms gate_address_set by (simp add: idt_set_handler_def set_idt_entry_def Let_def)

end
