(* ===== verification/Ide.thy ===== *)
theory Ide
  imports Ports
begin

text \<open>
  The PIO disk driver, \<^verbatim>\<open>kernel/drivers/ide.cpp\<close>, over the port interface of
  \<^theory_text>\<open>Ports\<close>. The drive is hardware: the record \<open>ata\<close> and the functions on it describe
  an ATA drive as its documentation does (task file registers, a data request while words
  are pending), and the theorems hold for the driver running on such a drive. The locale
  \<open>block_device\<close> is what the file systems rely on.
\<close>

section \<open>The driver\<close>

primrec ata_poll_not_busy :: "'d ports \<Rightarrow> nat \<Rightarrow> 'd \<Rightarrow> bool \<times> 'd" where
  "ata_poll_not_busy P 0 d = (False, d)"
| "ata_poll_not_busy P (Suc loops) d =
     (case inb P 0x1F7 d of (s, d1) \<Rightarrow>
       if s AND 0x80 = 0 then (True, d1) else ata_poll_not_busy P loops d1)"

definition ata_wait_not_busy :: "'d ports \<Rightarrow> u32 \<Rightarrow> 'd \<Rightarrow> bool \<times> 'd" where
  "ata_wait_not_busy P timeout_ms d = ata_poll_not_busy P (unat (timeout_ms * 1000)) d"

definition ide_init :: "'d ports \<Rightarrow> 'd \<Rightarrow> bool \<times> 'd" where
  "ide_init P d =
     (let d1 = io_wait P (outb P 0x1F6 0xA0 d);
          d2 = io_wait P (outb P 0x1F7 0xEC d1);
          (s, d3) = inb P 0x1F7 d2
      in if s = 0 then (False, d3)
         else if s AND 0x01 \<noteq> 0 then (False, d3)
         else if s AND 0x08 \<noteq> 0 then (True, d3)
         else let (ok, d4) = ata_wait_not_busy P 50 d3
              in if \<not> ok then (False, d4)
                 else let (s', d5) = inb P 0x1F7 d4 in (s' AND 0x08 \<noteq> 0, d5))"

text \<open>Selecting the drive, the registers and the command, the same for both directions.\<close>

definition ata_issue :: "'d ports \<Rightarrow> u32 \<Rightarrow> u8 \<Rightarrow> bool \<Rightarrow> u8 \<Rightarrow> 'd \<Rightarrow> 'd" where
  "ata_issue P lba count master cmd d =
     (let drive = 0xE0 OR (if master then 0x0 else 0x10) OR ucast (drop_bit 24 lba AND 0x0F);
          d1 = io_wait P (outb P 0x1F6 drive d);
          d2 = outb P 0x1F2 count d1;
          d3 = outb P 0x1F3 (ucast (lba AND 0xFF)) d2;
          d4 = outb P 0x1F4 (ucast (drop_bit 8 lba AND 0xFF)) d3;
          d5 = outb P 0x1F5 (ucast (drop_bit 16 lba AND 0xFF)) d4
      in outb P 0x1F7 cmd d5)"

text \<open>Waiting for a data request: \<open>True\<close> when the error bit was seen. When the tries run out
  the transfer goes on all the same.\<close>

primrec ata_wait_drq :: "'d ports \<Rightarrow> nat \<Rightarrow> 'd \<Rightarrow> bool \<times> 'd" where
  "ata_wait_drq P 0 d = (False, d)"
| "ata_wait_drq P (Suc tries) d =
     (case inb P 0x1F7 d of (st, d1) \<Rightarrow>
       if st AND 0x01 \<noteq> 0 then (True, d1)
       else if st AND 0x80 = 0 \<and> st AND 0x08 \<noteq> 0 then (False, d1)
       else ata_wait_drq P tries d1)"

primrec ata_read_words :: "'d ports \<Rightarrow> nat \<Rightarrow> 'd \<Rightarrow> byte list \<times> 'd" where
  "ata_read_words P 0 d = ([], d)"
| "ata_read_words P (Suc n) d =
     (case inw P 0x1F0 d of (w, d1) \<Rightarrow>
       (case ata_read_words P n d1 of (bs, d2) \<Rightarrow>
         (ucast (w AND 0xFF) # ucast (drop_bit 8 w AND 0xFF) # bs, d2)))"

primrec ata_read_sectors :: "'d ports \<Rightarrow> nat \<Rightarrow> 'd \<Rightarrow> bool \<times> byte list \<times> 'd" where
  "ata_read_sectors P 0 d = (True, [], d)"
| "ata_read_sectors P (Suc n) d =
     (case ata_wait_drq P 1000000 d of (err, d1) \<Rightarrow>
       if err then (False, [], d1)
       else (case ata_read_words P 256 d1 of (bs, d2) \<Rightarrow>
              (case ata_read_sectors P n d2 of (ok, bs', d3) \<Rightarrow> (ok, bs @ bs', d3))))"

text \<open>The count is an eight-bit variable, so the assignment of 256 stores zero.\<close>

definition ide_count :: "u8 \<Rightarrow> u8" where
  "ide_count count = (if count = 0 then of_nat 256 else count)"

definition ide_read_lba28 :: "'d ports \<Rightarrow> u64 \<Rightarrow> u8 \<Rightarrow> bool \<Rightarrow> 'd \<Rightarrow> bool \<times> byte list \<times> 'd" where
  "ide_read_lba28 P lba64 count0 master d =
     (let count = ide_count count0; lba = (ucast lba64 :: u32)
      in if unat count > 256 then (False, [], d)
         else if drop_bit 28 lba64 \<noteq> 0 then (False, [], d)
         else let (ok, d1) = ata_wait_not_busy P 500 d
              in if \<not> ok then (False, [], d1)
                 else ata_read_sectors P (unat count) (ata_issue P lba count master 0x20 d1))"

fun ata_write_words :: "'d ports \<Rightarrow> byte list \<Rightarrow> 'd \<Rightarrow> 'd" where
  "ata_write_words P (b0 # b1 # bs) d = ata_write_words P bs (outw P 0x1F0 (le16 b0 b1) d)"
| "ata_write_words P _ d = d"

primrec ata_write_sectors :: "'d ports \<Rightarrow> nat \<Rightarrow> byte list \<Rightarrow> 'd \<Rightarrow> bool \<times> 'd" where
  "ata_write_sectors P 0 bs d = (True, d)"
| "ata_write_sectors P (Suc n) bs d =
     (case ata_wait_drq P 1000000 d of (err, d1) \<Rightarrow>
       if err then (False, d1)
       else ata_write_sectors P n (drop 512 bs) (ata_write_words P (take 512 bs) d1))"

definition ide_write_lba28 :: "'d ports \<Rightarrow> u64 \<Rightarrow> u8 \<Rightarrow> byte list \<Rightarrow> bool \<Rightarrow> 'd \<Rightarrow> bool \<times> 'd" where
  "ide_write_lba28 P lba64 count0 buf master d =
     (let count = ide_count count0; lba = (ucast lba64 :: u32)
      in if unat count > 256 then (False, d)
         else if drop_bit 28 lba64 \<noteq> 0 then (False, d)
         else let (ok, d1) = ata_wait_not_busy P 500 d
              in if \<not> ok then (False, d1)
                 else ata_write_sectors P (unat count) buf (ata_issue P lba count master 0x30 d1))"

text \<open>Each wrapper has its own static \<open>ide_initialized\<close>.\<close>

record 'd ide =
  ide_dev :: 'd
  rd_initialized :: bool
  wr_initialized :: bool
  rdd_initialized :: bool
  wrd_initialized :: bool

definition ata_read_sector :: "'d ports \<Rightarrow> u32 \<Rightarrow> 'd ide \<Rightarrow> int \<times> byte list \<times> 'd ide" where
  "ata_read_sector P lba s =
     (let (ini, d1) = (if rd_initialized s then (True, ide_dev s) else ide_init P (ide_dev s));
          s1 = s\<lparr>ide_dev := d1, rd_initialized := ini\<rparr>
      in if \<not> ini then (-1, [], s1)
         else let (ok, bs, d2) = ide_read_lba28 P (ucast lba) 1 True d1
              in (if ok then 0 else -1, bs, s1\<lparr>ide_dev := d2\<rparr>))"

definition ata_write_sector :: "'d ports \<Rightarrow> u32 \<Rightarrow> byte list \<Rightarrow> 'd ide \<Rightarrow> int \<times> 'd ide" where
  "ata_write_sector P lba buf s =
     (let (ini, d1) = (if wr_initialized s then (True, ide_dev s) else ide_init P (ide_dev s));
          s1 = s\<lparr>ide_dev := d1, wr_initialized := ini\<rparr>
      in if \<not> ini then (-1, s1)
         else let (ok, d2) = ide_write_lba28 P (ucast lba) 1 buf True d1
              in (if ok then 0 else -1, s1\<lparr>ide_dev := d2\<rparr>))"

definition ata_read_sector_drive :: "'d ports \<Rightarrow> u32 \<Rightarrow> u32 \<Rightarrow> 'd ide \<Rightarrow> int \<times> byte list \<times> 'd ide" where
  "ata_read_sector_drive P drive lba s =
     (let (ini, d1) = (if rdd_initialized s then (True, ide_dev s) else ide_init P (ide_dev s));
          s1 = s\<lparr>ide_dev := d1, rdd_initialized := ini\<rparr>
      in if \<not> ini then (-1, [], s1)
         else let (ok, bs, d2) = ide_read_lba28 P (ucast lba) 1 (drive = 0) d1
              in (if ok then 0 else -1, bs, s1\<lparr>ide_dev := d2\<rparr>))"

definition ata_write_sector_drive ::
  "'d ports \<Rightarrow> u32 \<Rightarrow> u32 \<Rightarrow> byte list \<Rightarrow> 'd ide \<Rightarrow> int \<times> 'd ide" where
  "ata_write_sector_drive P drive lba buf s =
     (let (ini, d1) = (if wrd_initialized s then (True, ide_dev s) else ide_init P (ide_dev s));
          s1 = s\<lparr>ide_dev := d1, wrd_initialized := ini\<rparr>
      in if \<not> ini then (-1, s1)
         else let (ok, d2) = ide_write_lba28 P (ucast lba) 1 buf (drive = 0) d1
              in (if ok then 0 else -1, s1\<lparr>ide_dev := d2\<rparr>))"

primrec ata_wait_ident :: "'d ports \<Rightarrow> nat \<Rightarrow> 'd \<Rightarrow> bool \<times> 'd" where
  "ata_wait_ident P 0 d = (False, d)"
| "ata_wait_ident P (Suc tries) d =
     (case inb P 0x1F7 d of (st, d1) \<Rightarrow>
       if st AND 0x08 \<noteq> 0 then (False, d1)
       else if st AND 0x01 \<noteq> 0 then (True, d1)
       else ata_wait_ident P tries d1)"

primrec ata_ident_words :: "'d ports \<Rightarrow> nat \<Rightarrow> 'd \<Rightarrow> u16 list \<times> 'd" where
  "ata_ident_words P 0 d = ([], d)"
| "ata_ident_words P (Suc n) d =
     (case inw P 0x1F0 d of (w, d1) \<Rightarrow>
       (case ata_ident_words P n d1 of (ws, d2) \<Rightarrow> (w # ws, d2)))"

text \<open>The two capacity queries differ in the port the drive byte is written to.\<close>

definition ata_sector_count_from :: "'d ports \<Rightarrow> u16 \<Rightarrow> 'd \<Rightarrow> int \<times> 'd" where
  "ata_sector_count_from P drive_port d =
     (let d1 = io_wait P (outb P drive_port 0xA0 d);
          d2 = io_wait P (outb P 0x1F7 0xEC d1);
          (s, d3) = inb P 0x1F7 d2
      in if s = 0 then (-1, d3)
         else if s AND 0x01 \<noteq> 0 then (-1, d3)
         else let (ok, d4) = ata_wait_not_busy P 500 d3
              in if \<not> ok then (-1, d4)
                 else let (err, d5) = ata_wait_ident P 1000000 d4
                      in if err then (-1, d5)
                         else let (ident, d6) = ata_ident_words P 256 d5;
                                  tot = push_bit 16 (ucast (ident ! 61)) OR (ucast (ident ! 60) :: u32)
                              in (sint tot, d6))"

definition ata_get_sector_count :: "'d ports \<Rightarrow> 'd \<Rightarrow> int \<times> 'd" where
  "ata_get_sector_count P d = ata_sector_count_from P 0x1F6 d"

definition ata_get_sector_count_drive :: "'d ports \<Rightarrow> int \<Rightarrow> 'd \<Rightarrow> int \<times> 'd" where
  "ata_get_sector_count_drive P drive d =
     ata_sector_count_from P (if drive = 0 then 0x1F6 else 0x1F6 OR 0x10) d"

section \<open>An ATA drive\<close>

text \<open>The drive answers at once: it is never busy, and requests data while words are pending.
  A new command drops what is left of the previous one.\<close>

record ata =
  a_count :: u8
  a_low :: u8
  a_mid :: u8
  a_high :: u8
  a_sel :: u8
  a_disk :: "bool \<Rightarrow> u32 \<Rightarrow> byte list"
  a_ident :: "u16 list"
  a_rq :: "u16 list"
  a_wq :: nat
  a_wbuf :: "byte list"
  a_wpos :: u32

definition ata_master :: "ata \<Rightarrow> bool" where
  "ata_master a \<longleftrightarrow> a_sel a AND 0x10 = 0"

definition ata_lba :: "ata \<Rightarrow> u32" where
  "ata_lba a = le32 (a_low a) (a_mid a) (a_high a) (a_sel a AND 0x0F)"

fun words_of :: "byte list \<Rightarrow> u16 list" where
  "words_of (b0 # b1 # bs) = le16 b0 b1 # words_of bs"
| "words_of _ = []"

definition ata_blocks :: "ata \<Rightarrow> nat" where
  "ata_blocks a = (if a_count a = 0 then 256 else unat (a_count a))"

definition ata_command :: "u8 \<Rightarrow> ata \<Rightarrow> ata" where
  "ata_command cmd a =
     (if cmd = 0x20 then
        a\<lparr>a_rq := concat (map (\<lambda>i. words_of (a_disk a (ata_master a) (ata_lba a + of_nat i))) [0..<ata_blocks a]),
          a_wq := 0\<rparr>
      else if cmd = 0x30 then a\<lparr>a_rq := [], a_wq := ata_blocks a * 256, a_wbuf := [], a_wpos := ata_lba a\<rparr>
      else if cmd = 0xEC then a\<lparr>a_rq := a_ident a, a_wq := 0\<rparr>
      else a)"

definition ata_outb :: "u16 \<Rightarrow> u8 \<Rightarrow> ata \<Rightarrow> ata" where
  "ata_outb port v a =
     (if port = 0x1F2 then a\<lparr>a_count := v\<rparr>
      else if port = 0x1F3 then a\<lparr>a_low := v\<rparr>
      else if port = 0x1F4 then a\<lparr>a_mid := v\<rparr>
      else if port = 0x1F5 then a\<lparr>a_high := v\<rparr>
      else if port = 0x1F6 then a\<lparr>a_sel := v\<rparr>
      else if port = 0x1F7 then ata_command v a
      else a)"

definition ata_inb :: "u16 \<Rightarrow> ata \<Rightarrow> u8 \<times> ata" where
  "ata_inb port a =
     (if port = 0x1F7 then (if a_rq a \<noteq> [] \<or> a_wq a > 0 then 0x58 else 0x50, a) else (0, a))"

definition ata_inw :: "u16 \<Rightarrow> ata \<Rightarrow> u16 \<times> ata" where
  "ata_inw port a =
     (if port = 0x1F0 then (case a_rq a of [] \<Rightarrow> (0, a) | w # ws \<Rightarrow> (w, a\<lparr>a_rq := ws\<rparr>)) else (0, a))"

definition ata_commit :: "bool \<Rightarrow> u32 \<Rightarrow> byte list \<Rightarrow> (bool \<Rightarrow> u32 \<Rightarrow> byte list) \<Rightarrow> bool \<Rightarrow> u32 \<Rightarrow> byte list" where
  "ata_commit m n bs disk = disk(m := (disk m)(n := bs))"

definition ata_outw :: "u16 \<Rightarrow> u16 \<Rightarrow> ata \<Rightarrow> ata" where
  "ata_outw port w a =
     (if port = 0x1F0 \<and> a_wq a > 0
      then let buf = a_wbuf a @ bytes16 w; a1 = a\<lparr>a_wq := a_wq a - 1\<rparr>
           in if length buf = 512
              then a1\<lparr>a_wbuf := [], a_wpos := a_wpos a + 1,
                      a_disk := ata_commit (ata_master a) (a_wpos a) buf (a_disk a)\<rparr>
              else a1\<lparr>a_wbuf := buf\<rparr>
      else a)"

definition ata_ports :: "ata ports" where
  "ata_ports = \<lparr>inb = ata_inb, outb = ata_outb, inw = ata_inw, outw = ata_outw,
     inl = (\<lambda>p a. (0, a)), outl = (\<lambda>p v a. a)\<rparr>"

text \<open>Between two calls of the driver: whole sectors, no transfer half done, an identify
  block of 256 words.\<close>

definition ata_ok :: "ata \<Rightarrow> bool" where
  "ata_ok a \<longleftrightarrow> (\<forall>m n. length (a_disk a m n) = 512) \<and> length (a_ident a) = 256 \<and> a_wq a = 0"

lemma ata_ports_simps [simp]:
  "inb ata_ports = ata_inb" "outb ata_ports = ata_outb" "inw ata_ports = ata_inw"
  "outw ata_ports = ata_outw" "io_wait ata_ports a = a"
  by (simp_all add: ata_ports_def io_wait_def ata_outb_def fun_eq_iff)

lemma ata_inb_status [simp]:
  "ata_inb 0x1F7 a = (if a_rq a \<noteq> [] \<or> a_wq a > 0 then 0x58 else 0x50, a)"
  by (simp add: ata_inb_def)

section \<open>The driver on the drive\<close>

lemma wait_not_busy_ata: "0 < unat (t * 1000) \<Longrightarrow> ata_wait_not_busy ata_ports t a = (True, a)"
  by (cases "unat (t * 1000)") (auto simp: ata_wait_not_busy_def)

lemma wait_drq_ata: "0 < n \<Longrightarrow> a_rq a \<noteq> [] \<or> a_wq a > 0 \<Longrightarrow> ata_wait_drq ata_ports n a = (False, a)"
  by (cases n) auto

lemma ide_init_ata:
  assumes "ata_ok a"
  shows "\<exists>a'. ide_init ata_ports a = (True, a') \<and> ata_ok a' \<and> a_disk a' = a_disk a"
  using assms by (auto simp: ide_init_def ata_outb_def ata_command_def ata_ok_def Let_def)

lemma read_words_ata:
  "a_rq a = ws @ rest \<Longrightarrow>
     ata_read_words ata_ports (length ws) a = (concat (map bytes16 ws), a\<lparr>a_rq := rest\<rparr>)"
proof (induction ws arbitrary: a)
  case Nil
  then show ?case by simp
next
  case (Cons w ws)
  then show ?case by (simp add: ata_inw_def bytes16_def)
qed

lemma words_of_bytes:
  "even (length bs) \<Longrightarrow> concat (map bytes16 (words_of bs)) = bs \<and> length (words_of bs) = length bs div 2"
  by (induction bs rule: words_of.induct) auto

lemma drive_byte:
  fixes x :: u8
  shows "(0xE0 OR (if master then 0x0 else 0x10) OR (x AND 0x0F)) AND 0x0F = x AND 0x0F"
    and "(0xE0 OR (if master then 0x0 else 0x10) OR (x AND 0x0F)) AND 0x10 = 0 \<longleftrightarrow> master"
proof -
  have c: "(0xE0 :: u8) AND 0x0F = 0" "(0x10 :: u8) AND 0x0F = 0" "(0xE0 :: u8) AND 0x10 = 0"
    "(0x0F :: u8) AND 0x10 = 0" "(0x10 :: u8) AND 0x10 = 0x10"
    by simp_all
  show "(0xE0 OR (if master then 0x0 else 0x10) OR (x AND 0x0F)) AND 0x0F = x AND 0x0F"
    by (simp add: bit.conj_disj_distrib2 c and.assoc)
  show "(0xE0 OR (if master then 0x0 else 0x10) OR (x AND 0x0F)) AND 0x10 = 0 \<longleftrightarrow> master"
    by (simp add: bit.conj_disj_distrib2 c and.assoc)
qed

lemma lba_fields:
  fixes lba :: u32
  assumes "drop_bit 28 lba = 0"
  shows "le32 (ucast lba) (ucast (drop_bit 8 lba)) (ucast (drop_bit 16 lba))
    (ucast (drop_bit 24 lba) AND 0x0F) = lba"
proof -
  have hi: "(ucast (drop_bit 24 lba) :: u8) AND 0x0F = ucast (drop_bit 24 lba)"
  proof (rule bit_word_eqI)
    fix n
    have "\<not> bit lba (24 + n)" if "4 \<le> n"
    proof -
      have "bit (drop_bit 28 lba) (n - 4) = bit lba (24 + n)" using that by (simp add: bit_drop_bit_eq)
      then show ?thesis using assms by simp
    qed
    then show "bit ((ucast (drop_bit 24 lba) :: u8) AND 0x0F) n = bit (ucast (drop_bit 24 lba) :: u8) n"
      by (auto simp: bit_simps bit_low_mask_int not_less [symmetric])
  qed
  show ?thesis unfolding hi by (rule le32_bytes32)
qed

definition ata_regs :: "u32 \<Rightarrow> u8 \<Rightarrow> bool \<Rightarrow> ata \<Rightarrow> ata" where
  "ata_regs lba count master a =
     a\<lparr>a_sel := 0xE0 OR (if master then 0x0 else 0x10) OR (ucast (drop_bit 24 lba) AND 0x0F),
       a_count := count, a_low := ucast lba, a_mid := ucast (drop_bit 8 lba),
       a_high := ucast (drop_bit 16 lba)\<rparr>"

lemma ata_issue_regs:
  assumes "drop_bit 28 lba = 0"
  shows "ata_issue ata_ports lba count master cmd a = ata_command cmd (ata_regs lba count master a)"
    and "ata_lba (ata_regs lba count master a) = lba"
    and "ata_master (ata_regs lba count master a) = master"
proof -
  have u: "(ucast (drop_bit 24 lba AND 0x0F) :: u8) = ucast (drop_bit 24 lba) AND 0x0F"
    by (rule bit_word_eqI) (auto simp: bit_simps bit_low_mask_int)
  show "ata_issue ata_ports lba count master cmd a = ata_command cmd (ata_regs lba count master a)"
    by (simp add: ata_issue_def ata_outb_def Let_def ata_regs_def u)
  show "ata_lba (ata_regs lba count master a) = lba"
    using lba_fields [OF assms(1)] by (simp add: ata_lba_def ata_regs_def drive_byte)
  show "ata_master (ata_regs lba count master a) = master"
    by (simp add: ata_master_def ata_regs_def drive_byte)
qed

lemma ata_regs_fields [simp]:
  "a_disk (ata_regs lba count master a) = a_disk a" "a_count (ata_regs lba count master a) = count"
  "ata_ok (ata_regs lba count master a) = ata_ok a"
  by (simp_all add: ata_regs_def ata_ok_def)

lemma lba28_word:
  assumes "drop_bit 28 (lba :: u32) = 0"
  shows "drop_bit 28 (ucast lba :: u64) = 0" and "(ucast (ucast lba :: u64) :: u32) = lba"
proof -
  have "drop_bit 28 (ucast lba :: u64) = ucast (drop_bit 28 lba)"
    by (rule bit_word_eqI) (auto simp: bit_simps dest: bit_imp_le_length)
  then show "drop_bit 28 (ucast lba :: u64) = 0" using assms by simp
  show "(ucast (ucast lba :: u64) :: u32) = lba"
    by (rule bit_word_eqI) (simp add: bit_simps)
qed

lemma ide_read_ata:
  assumes ok: "ata_ok a" and lba: "drop_bit 28 lba = 0"
  shows "\<exists>a'. ide_read_lba28 ata_ports (ucast lba) 1 master a = (True, a_disk a master lba, a') \<and>
    ata_ok a' \<and> a_disk a' = a_disk a"
proof -
  define a1 where "a1 = ata_regs lba 1 master a"
  let ?ws = "words_of (a_disk a master lba)"
  let ?a = "a1\<lparr>a_rq := ?ws, a_wq := 0\<rparr>"
  have w: "concat (map bytes16 ?ws) = a_disk a master lba" "length ?ws = 256"
    using ok words_of_bytes [of "a_disk a master lba"] by (auto simp: ata_ok_def)
  have iss: "ata_issue ata_ports lba 1 master 0x20 a = ?a"
    using ata_issue_regs [OF lba] by (simp add: a1_def ata_command_def ata_blocks_def)
  have d: "ata_wait_drq ata_ports 1000000 ?a = (False, ?a)"
    using w(2) by (intro wait_drq_ata) auto
  have rd: "ata_read_words ata_ports 256 ?a = (a_disk a master lba, a1\<lparr>a_rq := [], a_wq := 0\<rparr>)"
    using read_words_ata [of ?a ?ws "[]"] w by simp
  have "ata_read_sectors ata_ports (Suc 0) ?a = (True, a_disk a master lba, a1\<lparr>a_rq := [], a_wq := 0\<rparr>)"
    by (simp add: d rd)
  then have "ide_read_lba28 ata_ports (ucast lba) 1 master a =
      (True, a_disk a master lba, a1\<lparr>a_rq := [], a_wq := 0\<rparr>)"
    using lba28_word [OF lba]
    by (simp add: ide_read_lba28_def ide_count_def wait_not_busy_ata Let_def iss del: ata_read_sectors.simps)
  moreover have "ata_ok a1" using ok by (simp add: a1_def)
  ultimately show ?thesis by (simp add: ata_ok_def a1_def)
qed

lemma write_words_ata:
  "bs \<noteq> [] \<Longrightarrow> even (length bs) \<Longrightarrow> length (a_wbuf a) + length bs = 512 \<Longrightarrow> a_wq a = length bs div 2 \<Longrightarrow>
     ata_write_words ata_ports bs a =
       a\<lparr>a_wq := 0, a_wbuf := [], a_wpos := a_wpos a + 1,
         a_disk := ata_commit (ata_master a) (a_wpos a) (a_wbuf a @ bs) (a_disk a)\<rparr>"
proof (induction bs arbitrary: a rule: words_of.induct)
  case (1 b0 b1 bs)
  let ?a = "ata_outw 0x1F0 (le16 b0 b1) a"
  show ?case
  proof (cases "bs = []")
    case True
    with "1.prems" show ?thesis by (simp add: ata_outw_def Let_def)
  next
    case False
    have a: "?a = a\<lparr>a_wq := a_wq a - 1, a_wbuf := a_wbuf a @ [b0, b1]\<rparr>"
      using "1.prems" False by (auto simp: ata_outw_def Let_def)
    have "ata_master ?a = ata_master a" by (simp add: a ata_master_def)
    with "1.IH" [of ?a] "1.prems" False show ?thesis by (simp add: a)
  qed
qed auto

lemma ide_write_ata:
  assumes ok: "ata_ok a" and lba: "drop_bit 28 lba = 0" and len: "length bs = 512"
  shows "\<exists>a'. ide_write_lba28 ata_ports (ucast lba) 1 bs master a = (True, a') \<and> ata_ok a' \<and>
    a_disk a' = (a_disk a)(master := (a_disk a master)(lba := bs))"
proof -
  define a1 where "a1 = ata_regs lba 1 master a"
  let ?a = "a1\<lparr>a_rq := [], a_wq := 256, a_wbuf := [], a_wpos := lba\<rparr>"
  have iss: "ata_issue ata_ports lba 1 master 0x30 a = ?a"
    using ata_issue_regs [OF lba] by (simp add: a1_def ata_command_def ata_blocks_def)
  have d: "ata_wait_drq ata_ports 1000000 ?a = (False, ?a)"
    by (intro wait_drq_ata) auto
  define a2 where "a2 = ata_write_words ata_ports bs ?a"
  have "ata_master ?a = master"
    using ata_issue_regs(3) [OF lba, of 1 master a] by (simp add: a1_def ata_master_def)
  then have a2: "a2 = ?a\<lparr>a_wq := 0, a_wbuf := [], a_wpos := lba + 1,
      a_disk := ata_commit master lba bs (a_disk a1)\<rparr>"
    unfolding a2_def using len by (subst write_words_ata) auto
  have "ata_write_sectors ata_ports (Suc 0) bs ?a = (True, a2)"
    using len by (simp add: d a2_def)
  then have "ide_write_lba28 ata_ports (ucast lba) 1 bs master a = (True, a2)"
    using lba28_word [OF lba]
    by (simp add: ide_write_lba28_def ide_count_def wait_not_busy_ata Let_def iss del: ata_write_sectors.simps)
  moreover have "ata_ok a1" using ok by (simp add: a1_def)
  ultimately show ?thesis using len by (simp add: a2 ata_ok_def a1_def ata_commit_def)
qed

section \<open>What the file systems rely on\<close>

text \<open>A disk of 512-byte sectors: a write stores the sector and nothing else changes, a read
  returns it.\<close>

locale block_device =
  fixes rd :: "u32 \<Rightarrow> 's \<Rightarrow> int \<times> byte list \<times> 's"
    and wr :: "u32 \<Rightarrow> byte list \<Rightarrow> 's \<Rightarrow> int \<times> 's"
    and sector :: "'s \<Rightarrow> u32 \<Rightarrow> byte list"
    and lba_ok :: "u32 \<Rightarrow> bool"
    and ok :: "'s \<Rightarrow> bool"
  assumes rd_law: "ok s \<Longrightarrow> lba_ok n \<Longrightarrow>
      \<exists>s'. rd n s = (0, sector s n, s') \<and> ok s' \<and> sector s' = sector s"
    and wr_law: "ok s \<Longrightarrow> lba_ok n \<Longrightarrow> length bs = 512 \<Longrightarrow>
      \<exists>s'. wr n bs s = (0, s') \<and> ok s' \<and> sector s' = (sector s)(n := bs)"
    and sector_length: "ok s \<Longrightarrow> length (sector s n) = 512"
begin

primrec wr_many :: "(u32 \<times> byte list) list \<Rightarrow> 's \<Rightarrow> bool \<times> 's" where
  "wr_many [] s = (True, s)"
| "wr_many (w # ws) s =
     (case wr (fst w) (snd w) s of (r, s1) \<Rightarrow> if r \<noteq> 0 then (False, s1) else wr_many ws s1)"

primrec rd_many :: "u32 list \<Rightarrow> 's \<Rightarrow> byte list option \<times> 's" where
  "rd_many [] s = (Some [], s)"
| "rd_many (n # ns) s =
     (case rd n s of (r, bs, s1) \<Rightarrow>
       if r \<noteq> 0 then (None, s1)
       else (case rd_many ns s1 of (out, s2) \<Rightarrow> (map_option ((@) bs) out, s2)))"

lemma rd_many_law:
  "ok s \<Longrightarrow> list_all lba_ok ns \<Longrightarrow>
     \<exists>s'. rd_many ns s = (Some (concat (map (sector s) ns)), s') \<and> ok s' \<and> sector s' = sector s"
proof (induction ns arbitrary: s)
  case (Cons n ns)
  obtain s1 where s1: "rd n s = (0, sector s n, s1)" "ok s1" "sector s1 = sector s"
    using rd_law [of s n] Cons.prems by auto
  with Cons.IH [of s1] Cons.prems show ?case by auto
qed simp

lemma wr_many_law:
  "ok s \<Longrightarrow> list_all (\<lambda>w. lba_ok (fst w) \<and> length (snd w) = 512) ws \<Longrightarrow>
     \<exists>s'. wr_many ws s = (True, s') \<and> ok s' \<and>
       sector s' = fold (\<lambda>w f. f(fst w := snd w)) ws (sector s)"
proof (induction ws arbitrary: s)
  case (Cons w ws)
  obtain s1 where s1: "wr (fst w) (snd w) s = (0, s1)" "ok s1" "sector s1 = (sector s)(fst w := snd w)"
    using wr_law [of s "fst w" "snd w"] Cons.prems by auto
  with Cons.IH [of s1] Cons.prems show ?case by auto
qed simp

end

definition ide_ok :: "ata ide \<Rightarrow> bool" where
  "ide_ok s \<longleftrightarrow> ata_ok (ide_dev s)"

definition ide_sector :: "ata ide \<Rightarrow> u32 \<Rightarrow> byte list" where
  "ide_sector s = a_disk (ide_dev s) True"

definition lba28 :: "u32 \<Rightarrow> bool" where
  "lba28 n \<longleftrightarrow> drop_bit 28 n = 0"

lemma ata_read_sector_ide:
  assumes "ide_ok s" "lba28 n"
  shows "\<exists>s'. ata_read_sector ata_ports n s = (0, ide_sector s n, s') \<and> ide_ok s' \<and> ide_sector s' = ide_sector s"
proof -
  obtain d1 where d1: "(if rd_initialized s then (True, ide_dev s) else ide_init ata_ports (ide_dev s)) = (True, d1)"
    "ata_ok d1" "a_disk d1 = a_disk (ide_dev s)"
    using assms(1) ide_init_ata [of "ide_dev s"] by (cases "rd_initialized s") (auto simp: ide_ok_def)
  obtain d2 where d2: "ide_read_lba28 ata_ports (ucast n) 1 True d1 = (True, a_disk d1 True n, d2)"
    "ata_ok d2" "a_disk d2 = a_disk d1"
    using ide_read_ata [of d1 n True] d1(2) assms(2) by (auto simp: lba28_def)
  show ?thesis
    using d1 d2 by (simp add: ata_read_sector_def Let_def ide_ok_def ide_sector_def)
qed

lemma ata_write_sector_ide:
  assumes "ide_ok s" "lba28 n" "length bs = 512"
  shows "\<exists>s'. ata_write_sector ata_ports n bs s = (0, s') \<and> ide_ok s' \<and> ide_sector s' = (ide_sector s)(n := bs)"
proof -
  obtain d1 where d1: "(if wr_initialized s then (True, ide_dev s) else ide_init ata_ports (ide_dev s)) = (True, d1)"
    "ata_ok d1" "a_disk d1 = a_disk (ide_dev s)"
    using assms(1) ide_init_ata [of "ide_dev s"] by (cases "wr_initialized s") (auto simp: ide_ok_def)
  obtain d2 where d2: "ide_write_lba28 ata_ports (ucast n) 1 bs True d1 = (True, d2)"
    "ata_ok d2" "a_disk d2 = (a_disk d1)(True := (a_disk d1 True)(n := bs))"
    using ide_write_ata [of d1 n bs True] d1(2) assms(2,3) by (auto simp: lba28_def)
  show ?thesis
    using d1 d2 by (simp add: ata_write_sector_def Let_def ide_ok_def ide_sector_def)
qed

interpretation ide_disk: block_device "ata_read_sector ata_ports" "ata_write_sector ata_ports"
  ide_sector lba28 ide_ok
  by unfold_locales
    (use ata_read_sector_ide ata_write_sector_ide in \<open>auto simp: ide_ok_def ata_ok_def ide_sector_def\<close>)

text \<open>The capacity query for a given drive ignores the drive: the port it selects with,
  \<open>ATA_DRIVE | 0x10\<close>, is \<open>ATA_DRIVE\<close> again, so for every drive number the master is asked.\<close>

lemma sector_count_ignores_drive:
  "ata_get_sector_count_drive P drive d = ata_get_sector_count P d"
  by (simp add: ata_get_sector_count_drive_def ata_get_sector_count_def)

text \<open>The capacity is the number of sectors of the identify block, and the query keeps the disk.\<close>

definition ident_sectors :: "ata \<Rightarrow> u32" where
  "ident_sectors a = push_bit 16 (ucast (a_ident a ! 61)) OR ucast (a_ident a ! 60)"

lemma ident_words_ata:
  "a_rq a = ws @ rest \<Longrightarrow> ata_ident_words ata_ports (length ws) a = (ws, a\<lparr>a_rq := rest\<rparr>)"
proof (induction ws arbitrary: a)
  case (Cons w ws)
  then show ?case by (simp add: ata_inw_def)
qed simp

lemma wait_ident_ata: "0 < n \<Longrightarrow> a_rq a \<noteq> [] \<Longrightarrow> ata_wait_ident ata_ports n a = (False, a)"
  by (cases n) auto

lemma sector_count_ata:
  assumes "ata_ok a"
  obtains a' where "ata_get_sector_count ata_ports a = (sint (ident_sectors a), a')" "ata_ok a'" "a_disk a' = a_disk a"
proof -
  define b where "b = ata_outb 0x1F7 0xEC (ata_outb 0x1F6 0xA0 a)"
  have b: "a_rq b = a_ident a" "a_disk b = a_disk a" "a_ident b = a_ident a" "a_wq b = 0"
    by (simp_all add: b_def ata_outb_def ata_command_def)
  have n: "length (a_ident a) = 256" "a_ident a \<noteq> []" using assms by (auto simp: ata_ok_def)
  have w: "ata_ident_words ata_ports 256 b = (a_ident a, b\<lparr>a_rq := []\<rparr>)"
    using ident_words_ata [of b "a_ident a" "[]"] b(1) n(1) by simp
  have "ata_get_sector_count ata_ports a = (sint (ident_sectors a), b\<lparr>a_rq := []\<rparr>)"
    using w wait_ident_ata [of 1000000 b] wait_not_busy_ata [of 500 b] n(2) b(1)
    by (simp add: ata_get_sector_count_def ata_sector_count_from_def b_def [symmetric] ident_sectors_def)
  then show ?thesis by (rule that) (use assms b in \<open>simp_all add: ata_ok_def\<close>)
qed

section \<open>Properties\<close>

text \<open>C18. On an ATA drive the driver is a disk: after \<open>ata_write_sector\<close> returns success (it
  always does for a 28-bit address), \<open>ata_read_sector\<close> returns the written bytes for that
  sector and the former bytes for every other one.\<close>

theorem ata_write_read_sector:
  assumes "ide_ok s" and "lba28 n" and "lba28 k" and "length bs = 512"
  shows "\<exists>s1 s2. ata_write_sector ata_ports n bs s = (0, s1) \<and>
    ata_read_sector ata_ports k s1 = (0, if k = n then bs else ide_sector s k, s2) \<and> ide_ok s2"
proof -
  obtain s1 where s1: "ata_write_sector ata_ports n bs s = (0, s1)" "ide_ok s1"
    "ide_sector s1 = (ide_sector s)(n := bs)"
    using ide_disk.wr_law [OF assms(1,2,4)] by blast
  from ide_disk.rd_law [OF s1(2) assms(3)] s1 show ?thesis by auto
qed

definition demo_disk :: "ata ide" where
  "demo_disk = \<lparr>ide_dev = \<lparr>a_count = 0, a_low = 0, a_mid = 0, a_high = 0, a_sel = 0,
       a_disk = (\<lambda>m n. replicate 512 0), a_ident = replicate 256 0, a_rq = [], a_wq = 0,
       a_wbuf = [], a_wpos = 0\<rparr>,
     rd_initialized = False, wr_initialized = False, rdd_initialized = False,
     wrd_initialized = False\<rparr>"

lemma demo_disk_ok: "ide_ok demo_disk"
  by (simp add: ide_ok_def ata_ok_def demo_disk_def)

theorem ata_write_read_sector_witness:
  "\<exists>s1 s2. ata_write_sector ata_ports 7 (replicate 512 0xAB) demo_disk = (0, s1) \<and>
     ata_read_sector ata_ports 7 s1 = (0, replicate 512 0xAB, s2)"
  using ata_write_read_sector [OF demo_disk_ok, of 7 7 "replicate 512 0xAB"] by (auto simp: lba28_def)

text \<open>A count of zero, documented as 256 sectors, transfers nothing: the read reports
  success and stores no byte.\<close>

lemma ide_read_count_zero:
  assumes "ata_ok a" and "lba28 lba"
  shows "\<exists>a'. ide_read_lba28 ata_ports (ucast lba) 0 master a = (True, [], a')"
  using lba28_word assms(2)
  by (simp add: ide_read_lba28_def ide_count_def wait_not_busy_ata Let_def lba28_def)

end
