(* ===== verification/HanaPath.thy ===== *)
theory HanaPath
  imports Prelude
begin

text \<open>
  The path handling of \<^verbatim>\<open>kernel/filesystem/hanafs.cpp\<close>: the optional drive prefix, the
  normal form with one leading slash and no trailing ones, and the internal path that names
  an entry. The buffers have sizes in the code, so the functions take them and truncate or
  give up where the code does. A drive is an integer, \<open>-1\<close> for no prefix.
\<close>

definition slash :: char where
  "slash = CHR ''/''"

definition parse_drive_prefix :: "nat \<Rightarrow> string \<Rightarrow> int \<times> string" where
  "parse_drive_prefix sz buf =
     (if sz < 3 then (-1, buf)
      else if c_at buf 0 \<in> set ''0123456789'' \<and> c_at buf 1 = CHR '':''
      then (int (of_char (c_at buf 0)) - 48, drop 2 buf)
      else (-1, buf))"

primrec strip_slashes :: "string \<Rightarrow> string" where
  "strip_slashes [] = []"
| "strip_slashes (c # r) = (if c = slash \<and> r \<noteq> [] then strip_slashes r else c # r)"

text \<open>The loop removes trailing slashes from the end of the buffer while more than one
  character is left, so it runs over the reversed string.\<close>

definition normalize_path :: "nat \<Rightarrow> string \<Rightarrow> string" where
  "normalize_path sz buf =
     (if sz = 0 then buf
      else if c_at buf 0 \<noteq> slash \<and> length buf + 1 \<ge> sz then buf
      else let b = (if c_at buf 0 \<noteq> slash then slash # buf else buf)
           in rev (strip_slashes (rev b)))"

definition drive_text :: "int \<Rightarrow> string" where
  "drive_text drive = ''/drv'' @ [char_of (nat drive + 48)]"

definition build_internal_path :: "nat \<Rightarrow> string \<Rightarrow> int \<Rightarrow> string" where
  "build_internal_path out_sz path drive =
     (if drive < 0 then take (out_sz - 1) path
      else let out = take (out_sz - 1) (drive_text drive); pos = length out
           in if pos + 1 < out_sz \<and> c_at path 0 = slash then take (out_sz - 1) (out @ path)
              else let out' = (if pos + 1 < out_sz then out @ [slash] else out)
                   in take (out_sz - 1) (out' @ path))"

text \<open>What every operation computes from its argument first: the drive, the normalised copy
  \<open>pbuf\<close> and the internal path \<open>ipath\<close> in its buffer of 512 bytes.\<close>

definition hana_resolve :: "string \<Rightarrow> int \<times> string \<times> string" where
  "hana_resolve path =
     (let psz = length path + 2;
          (drv, b) = parse_drive_prefix psz path;
          pbuf = normalize_path psz b
      in (drv, pbuf, build_internal_path 512 pbuf drv))"

definition hana_ipath :: "string \<Rightarrow> string" where
  "hana_ipath path = snd (snd (hana_resolve path))"

definition hana_pbuf :: "string \<Rightarrow> string" where
  "hana_pbuf path = fst (snd (hana_resolve path))"

definition hana_drv :: "string \<Rightarrow> int" where
  "hana_drv path = fst (hana_resolve path)"

section \<open>Normal form\<close>

definition normal_path :: "string \<Rightarrow> bool" where
  "normal_path p \<longleftrightarrow> p \<noteq> [] \<and> hd p = slash \<and> (p = [slash] \<or> last p \<noteq> slash)"

lemma strip_slashes_append:
  "xs \<noteq> [] \<Longrightarrow> \<exists>zs. xs = zs @ strip_slashes xs \<and> set zs \<subseteq> {slash} \<and> strip_slashes xs \<noteq> []"
proof (induction xs)
  case (Cons c r)
  show ?case
  proof (cases "c = slash \<and> r \<noteq> []")
    case True
    then obtain zs where "r = zs @ strip_slashes r" "set zs \<subseteq> {slash}" "strip_slashes r \<noteq> []"
      using Cons.IH by blast
    with True show ?thesis by (intro exI [of _ "c # zs"]) auto
  qed auto
qed simp

lemma strip_slashes_hd:
  "xs \<noteq> [] \<Longrightarrow> hd (strip_slashes xs) \<noteq> slash \<or> length (strip_slashes xs) = 1"
  by (induction xs) auto

lemma strip_slashes_id: "hd xs \<noteq> slash \<or> length xs = 1 \<Longrightarrow> strip_slashes xs = xs"
  by (cases xs) auto

lemma normalize_normal:
  assumes "length buf + 1 < sz"
  shows "normal_path (normalize_path sz buf)"
proof -
  define b where "b = (if c_at buf 0 \<noteq> slash then slash # buf else buf)"
  have b: "b \<noteq> []" "hd b = slash"
    by (auto simp: b_def c_at_def slash_def NUL_def hd_conv_nth split: if_splits)
  have n: "normalize_path sz buf = rev (strip_slashes (rev b))"
    using assms by (auto simp: normalize_path_def b_def Let_def)
  let ?s = "strip_slashes (rev b)"
  obtain zs where zs: "rev b = zs @ ?s" "?s \<noteq> []"
    using strip_slashes_append [of "rev b"] b(1) by auto
  then have "b = rev ?s @ rev zs" by (metis rev_append rev_rev_ident)
  then have h: "hd (rev ?s) = slash" using b(2) zs(2) by (metis Nil_is_rev_conv hd_append2)
  have "hd ?s \<noteq> slash \<or> length ?s = 1"
    using strip_slashes_hd [of "rev b"] b(1) by simp
  moreover have "last (rev ?s) = hd ?s" using zs(2) by (simp add: last_rev)
  moreover have "length ?s = 1 \<Longrightarrow> rev ?s = [slash]"
    using h by (cases ?s) auto
  ultimately show ?thesis
    unfolding normal_path_def n using h zs(2) by auto
qed

lemma normalize_idem: "normal_path p \<Longrightarrow> normalize_path sz p = p"
proof -
  assume p: "normal_path p"
  then have "c_at p 0 = slash" by (auto simp: normal_path_def c_at_def hd_conv_nth)
  moreover have "hd (rev p) \<noteq> slash \<or> length (rev p) = 1"
    using p by (auto simp: normal_path_def hd_rev)
  ultimately show ?thesis
    by (simp add: normalize_path_def strip_slashes_id Let_def)
qed

lemma parse_drive_length: "length (snd (parse_drive_prefix sz b)) \<le> length b"
  by (simp add: parse_drive_prefix_def)

lemma hana_pbuf_normal: "normal_path (hana_pbuf path)"
proof -
  have "length (snd (parse_drive_prefix (length path + 2) path)) + 1 < length path + 2"
    using parse_drive_length [of "length path + 2" path] by simp
  from normalize_normal [OF this] show ?thesis
    by (simp add: hana_pbuf_def hana_resolve_def Let_def case_prod_beta)
qed

lemma hana_ipath_no_drive: "hana_drv path < 0 \<Longrightarrow> hana_ipath path = take 511 (hana_pbuf path)"
  by (auto simp: hana_drv_def hana_ipath_def hana_pbuf_def hana_resolve_def build_internal_path_def
      Let_def split: prod.splits)

lemma normal_no_prefix: "normal_path p \<Longrightarrow> parse_drive_prefix sz p = (-1, p)"
  by (auto simp: normal_path_def parse_drive_prefix_def c_at_def hd_conv_nth slash_def)

text \<open>A path in normal form names itself.\<close>

lemma hana_resolve_normal:
  assumes "normal_path p" "length p \<le> 511"
  shows "hana_resolve p = (-1, p, p)"
  using assms by (simp add: hana_resolve_def normal_no_prefix normalize_idem build_internal_path_def Let_def)

lemma hana_ipath_ne [simp]: "hana_ipath path \<noteq> []"
proof (cases "hana_drv path < 0")
  case True
  then show ?thesis
    using hana_pbuf_normal [of path] by (simp add: hana_ipath_no_drive normal_path_def)
next
  case False
  then show ?thesis
    by (auto simp: hana_drv_def hana_ipath_def hana_resolve_def build_internal_path_def drive_text_def
        Let_def split: prod.splits)
qed

lemma hana_ipath_length: "length (hana_ipath path) \<le> 511"
  by (auto simp: hana_ipath_def hana_resolve_def build_internal_path_def Let_def split: prod.splits)

lemma strip_slashes_length: "length (strip_slashes xs) \<le> length xs"
  by (induction xs) auto

lemma hana_pbuf_length: "length (hana_pbuf path) \<le> length path + 1"
proof -
  let ?b = "snd (parse_drive_prefix (length path + 2) path)"
  have "length (normalize_path sz b) \<le> length b + 1" for sz b
    using strip_slashes_length [of "rev b"] strip_slashes_length [of "rev b @ [slash]"]
    by (auto simp: normalize_path_def Let_def)
  then have "length (hana_pbuf path) \<le> length ?b + 1"
    by (simp add: hana_pbuf_def hana_resolve_def Let_def case_prod_beta)
  then show ?thesis using parse_drive_length [of "length path + 2" path] by simp
qed

lemma cstring_take [simp]: "cstring s \<Longrightarrow> cstring (take n s)"
  by (auto simp: cstring_def dest: in_set_takeD)

lemma cstring_drop [simp]: "cstring s \<Longrightarrow> cstring (drop n s)"
  by (auto simp: cstring_def dest: in_set_dropD)

lemma cstring_rev [simp]: "cstring (rev s) = cstring s"
  by (simp add: cstring_def)

lemma cstring_strip: "cstring s \<Longrightarrow> cstring (strip_slashes s)"
  by (induction s) auto

lemma cstring_normalize: "cstring s \<Longrightarrow> cstring (normalize_path sz s)"
  by (auto simp: normalize_path_def Let_def slash_def NUL_def intro: cstring_strip)

lemma parse_drive_range:
  assumes "parse_drive_prefix sz b = (d, r)"
  shows "d = -1 \<or> 0 \<le> d \<and> d \<le> 9"
  using assms by (auto simp: parse_drive_prefix_def split: if_splits)

lemma cstring_drive_text:
  assumes "d = -1 \<or> 0 \<le> d \<and> d \<le> 9" "\<not> d < 0"
  shows "cstring (drive_text d)"
proof -
  have "nat d + 48 < 256" "nat d + 48 \<noteq> 0" using assms by auto
  then have "of_char (char_of (nat d + 48) :: char) \<noteq> (0 :: nat)" by simp
  moreover have "of_char NUL = (0 :: nat)" by (simp add: NUL_def)
  ultimately have "char_of (nat d + 48) \<noteq> NUL" by metis
  then show ?thesis by (simp add: drive_text_def NUL_def)
qed

lemma cstring_hana_pbuf: "cstring path \<Longrightarrow> cstring (hana_pbuf path)"
  by (auto simp: hana_pbuf_def hana_resolve_def Let_def case_prod_beta parse_drive_prefix_def
      intro!: cstring_normalize)

lemma cstring_hana_ipath: "cstring path \<Longrightarrow> cstring (hana_ipath path)"
proof -
  assume c: "cstring path"
  obtain d r where pd: "parse_drive_prefix (length path + 2) path = (d, r)" by fastforce
  have p: "cstring (hana_pbuf path)" by (rule cstring_hana_pbuf [OF c])
  have i: "hana_ipath path = build_internal_path 512 (hana_pbuf path) d"
    using pd by (simp add: hana_ipath_def hana_pbuf_def hana_resolve_def Let_def)
  have "cstring [slash]" by (simp add: slash_def NUL_def)
  then show ?thesis
    using p cstring_drive_text [OF parse_drive_range [OF pd]]
    by (auto simp: i build_internal_path_def Let_def simp del: cstring_Cons)
qed

section \<open>Properties\<close>

text \<open>Path resolution reaches a normal form: every operation works on a path with one
  leading slash and no trailing slash (the root apart), and a path without a drive prefix
  that fits the internal buffer resolves to a path that resolves to itself.\<close>

lemma hana_resolve_stable:
  assumes "hana_drv path < 0" and "length (hana_pbuf path) \<le> 511"
  shows "normal_path (hana_ipath path) \<and>
    hana_resolve (hana_ipath path) = (-1, hana_ipath path, hana_ipath path)"
proof -
  have "hana_ipath path = hana_pbuf path"
    using assms by (simp add: hana_ipath_no_drive)
  then show ?thesis
    using hana_pbuf_normal [of path] assms(2) by (simp add: hana_resolve_normal)
qed

end
