(* ===== verification/HanaFS.thy ===== *)
theory HanaFS
  imports HanaPath Kheap Libc Ide
begin

text \<open>
  The in-memory file system of \<^verbatim>\<open>kernel/filesystem/hanafs.cpp\<close>. The linked list
  \<open>g_head\<close> is a list of entries in the order of the list; every entry keeps the addresses
  of its node, its path and its data beside their contents, and every allocation and release
  goes through the heap of \<^theory_text>\<open>Kheap\<close>, so that a failed allocation, a leak and a double
  release are visible in the state. An operation returns \<open>None\<close> where the code dereferences a
  null pointer or reads outside a buffer. The disk is reached through the sector functions of
  the record \<open>hw\<close>.
\<close>

record 'd hw =
  hw_boot :: boot_env
  hw_rd :: "u32 \<Rightarrow> 'd \<Rightarrow> int \<times> byte list \<times> 'd"
  hw_wr :: "u32 \<Rightarrow> byte list \<Rightarrow> 'd \<Rightarrow> int \<times> 'd"
  hw_rdd :: "u32 \<Rightarrow> u32 \<Rightarrow> 'd \<Rightarrow> int \<times> byte list \<times> 'd"
  hw_count :: "'d \<Rightarrow> int \<times> 'd"

record hentry =
  e_ptr :: u64
  e_path_ptr :: u64
  e_path :: string
  e_is_dir :: bool
  e_data_ptr :: u64
  e_data :: "byte list"
  e_len :: nat

record 'd hanafs =
  hf_heap :: heap
  entries :: "hentry list"
  loaded_from_ata :: bool
  persist_enabled :: bool
  hf_disk :: 'd

section \<open>Allocation\<close>

definition hf_alloc :: "'d hw \<Rightarrow> nat \<Rightarrow> 'd hanafs \<Rightarrow> (u64 \<times> 'd hanafs) option" where
  "hf_alloc E n st = do {
     (p, h) \<leftarrow> kmalloc (hw_boot E) (of_nat n) (hf_heap st);
     Some (p, st\<lparr>hf_heap := h\<rparr>)
   }"

definition hf_free :: "u64 \<Rightarrow> 'd hanafs \<Rightarrow> 'd hanafs option" where
  "hf_free p st = do { h \<leftarrow> kfree p (hf_heap st); Some (st\<lparr>hf_heap := h\<rparr>) }"

definition hf_free_if :: "u64 \<Rightarrow> 'd hanafs \<Rightarrow> 'd hanafs option" where
  "hf_free_if p st = (if p \<noteq> 0 then hf_free p st else Some st)"

definition sizeof_HanaEntry :: nat where [cost_simps]:
  "sizeof_HanaEntry = 40"

definition strdup_k :: "'d hw \<Rightarrow> string \<Rightarrow> 'd hanafs \<Rightarrow> (u64 \<times> 'd hanafs) option" where
  "strdup_k E s st = hf_alloc E (length s + 1) st"

section \<open>The list of entries\<close>

primrec hana_find :: "(string \<Rightarrow> bool) \<Rightarrow> hentry list \<Rightarrow> hentry option option" where
  "hana_find P [] = Some None"
| "hana_find P (e # es) =
     (if e_path_ptr e = 0 then None
      else if P (e_path e) then Some (Some e) else hana_find P es)"

definition find_entry :: "string \<Rightarrow> 'd hanafs \<Rightarrow> hentry option option" where
  "find_entry path st = hana_find (\<lambda>p. p = path) (entries st)"

text \<open>The list without the first entry a search stops at.\<close>

primrec hana_cut :: "(string \<Rightarrow> bool) \<Rightarrow> hentry list \<Rightarrow> hentry list" where
  "hana_cut P [] = []"
| "hana_cut P (e # es) = (if P (e_path e) then es else e # hana_cut P es)"

definition free_entry :: "hentry \<Rightarrow> 'd hanafs \<Rightarrow> 'd hanafs option" where
  "free_entry e st = do {
     st1 \<leftarrow> hf_free_if (e_path_ptr e) st;
     st2 \<leftarrow> hf_free_if (e_data_ptr e) st1;
     hf_free (e_ptr e) st2
   }"

text \<open>The search and \<open>remove_entry_node\<close>, as \<open>hanafs_write_file\<close> and \<open>hanafs_unlink\<close> combine
  them: whether an entry was removed.\<close>

definition remove_entry_node :: "(string \<Rightarrow> bool) \<Rightarrow> 'd hanafs \<Rightarrow> (bool \<times> 'd hanafs) option" where
  "remove_entry_node P st = do {
     r \<leftarrow> hana_find P (entries st);
     case r of
       None \<Rightarrow> Some (False, st)
     | Some e \<Rightarrow> do {
         st1 \<leftarrow> free_entry e (st\<lparr>entries := hana_cut P (entries st)\<rparr>);
         Some (True, st1)
       }
   }"

definition new_entry :: "u64 \<Rightarrow> u64 \<Rightarrow> string \<Rightarrow> bool \<Rightarrow> hentry" where
  "new_entry p pp path is_dir =
     \<lparr>e_ptr = p, e_path_ptr = pp, e_path = path, e_is_dir = is_dir, e_data_ptr = 0, e_data = [],
      e_len = 0\<rparr>"

definition push_entry :: "hentry \<Rightarrow> 'd hanafs \<Rightarrow> 'd hanafs" where
  "push_entry e st = st\<lparr>entries := e # entries st\<rparr>"

section \<open>Persistence\<close>

definition HANAFS_PERSIST_LBA :: u32 where
  "HANAFS_PERSIST_LBA = 2048"

definition hana_record_len :: "hentry \<Rightarrow> nat" where
  "hana_record_len e = 2 + 1 + 4 + length (e_path e) + (if e_is_dir e then 0 else e_len e)"

definition hana_record :: "hentry \<Rightarrow> byte list" where
  "hana_record e =
     (let plen = (of_nat (length (e_path e)) :: u16);
          dlen = (if e_is_dir e then 0 else of_nat (e_len e) :: u32)
      in bytes16 plen @ [if e_is_dir e then 1 else 0] @ bytes32 dlen @
         map byte_of_char (take (unat plen) (e_path e)) @
         (if \<not> e_is_dir e then take (unat dlen) (e_data e) else []))"

definition hana_header :: "hentry list \<Rightarrow> byte list" where
  "hana_header es =
     map byte_of_char ''HANA'' @ bytes32 1 @ bytes32 (of_nat (length es)) @
     bytes32 (of_nat (sum_list (map hana_record_len es)))"

definition hana_blob :: "hentry list \<Rightarrow> byte list" where
  "hana_blob es = hana_header es @ concat (map hana_record es)"

function write_blob ::
  "(u32 \<Rightarrow> byte list \<Rightarrow> 'd \<Rightarrow> int \<times> 'd) \<Rightarrow> u32 \<Rightarrow> byte list \<Rightarrow> 'd \<Rightarrow> bool \<times> 'd" where
  "write_blob wr n bs d =
     (if bs = [] then (True, d)
      else let chunk = take 512 bs
           in case wr n (chunk @ replicate (512 - length chunk) 0) d of
                (r, d1) \<Rightarrow> if r \<noteq> 0 then (False, d1) else write_blob wr (n + 1) (drop 512 bs) d1)"
  by pat_completeness auto
termination
  by (relation "measure (\<lambda>(wr, n, bs, d). length bs)") auto

declare write_blob.simps [simp del]

definition hanafs_persist_to_ata :: "'d hw \<Rightarrow> 'd hanafs \<Rightarrow> (int \<times> 'd hanafs) option" where
  "hanafs_persist_to_ata E st =
     (if \<exists>e\<in>set (entries st). e_path_ptr e = 0 then None
      else let tot = 16 + sum_list (map hana_record_len (entries st)); blob = hana_blob (entries st)
           in do {
             (p, st1) \<leftarrow> hf_alloc E tot st;
             if p = 0 then Some (-1, st1)
             else if length blob \<noteq> tot then None
             else case write_blob (hw_wr E) HANAFS_PERSIST_LBA blob (hf_disk st1) of
                    (ok, d) \<Rightarrow> do {
                      st2 \<leftarrow> hf_free p (st1\<lparr>hf_disk := d\<rparr>);
                      Some (if ok then (0, st2\<lparr>loaded_from_ata := True\<rparr>) else (-1, st2))
                    }
           })"

definition hanafs_set_persist_enabled :: "int \<Rightarrow> 'd hanafs \<Rightarrow> 'd hanafs" where
  "hanafs_set_persist_enabled enabled st = st\<lparr>persist_enabled := (enabled \<noteq> 0)\<rparr>"

section \<open>Files and directories\<close>

text \<open>The temporary copy of the path every operation starts with. The second component is
  the address of the copy, null when there was no memory.\<close>

definition path_copy :: "'d hw \<Rightarrow> string \<Rightarrow> 'd hanafs \<Rightarrow> (u64 \<times> 'd hanafs) option" where
  "path_copy E path st = hf_alloc E (length path + 2) st"

definition persist_quietly :: "'d hw \<Rightarrow> 'd hanafs \<Rightarrow> 'd hanafs option" where
  "persist_quietly E st = do { (r, st1) \<leftarrow> hanafs_persist_to_ata E st; Some st1 }"

text \<open>The data of a new file: \<open>None\<close> as the entry when there was no memory for the copy and
  the node was removed again.\<close>

definition store_data ::
  "'d hw \<Rightarrow> hentry \<Rightarrow> byte list option \<Rightarrow> nat \<Rightarrow> 'd hanafs \<Rightarrow> (hentry option \<times> 'd hanafs) option" where
  "store_data E e buf len st =
     (case buf of
        None \<Rightarrow> Some (Some e, st)
      | Some bs \<Rightarrow>
          (if len = 0 then Some (Some e, st)
           else do {
             (dp, st1) \<leftarrow> hf_alloc E len st;
             if dp = 0 then do { st2 \<leftarrow> free_entry e st1; Some (None, st2) }
             else if length bs < len then None
             else Some (Some (e\<lparr>e_data_ptr := dp, e_data := take len bs, e_len := len\<rparr>), st1)
           }))"

definition hanafs_write_file ::
  "'d hw \<Rightarrow> string option \<Rightarrow> byte list option \<Rightarrow> nat \<Rightarrow> 'd hanafs \<Rightarrow> (int \<times> 'd hanafs) option" where
  "hanafs_write_file E path_arg buf len st =
     (case path_arg of
        None \<Rightarrow> Some (-1, st)
      | Some path \<Rightarrow> do {
          (pbuf, st1) \<leftarrow> path_copy E path st;
          if pbuf = 0 then Some (-1, st1)
          else do {
            let ipath = hana_ipath path;
            (_, st2) \<leftarrow> remove_entry_node (\<lambda>p. p = ipath) st1;
            (e, st3) \<leftarrow> hf_alloc E sizeof_HanaEntry st2;
            if e = 0 then do { st4 \<leftarrow> hf_free pbuf st3; Some (-1, st4) }
            else do {
              (pp, st4) \<leftarrow> strdup_k E ipath st3;
              (r, st5) \<leftarrow> store_data E (new_entry e pp ipath False) buf len st4;
              (case r of
                 None \<Rightarrow> Some (-1, st5)
               | Some ent \<Rightarrow> do {
                   let st6 = push_entry ent st5;
                   st7 \<leftarrow> (if ipath \<noteq> ''/hcsh_history'' \<and> persist_enabled st6
                           then persist_quietly E st6 else Some st6);
                   Some (0, st7)
                 })
            }
          }
        })"

definition hanafs_create_file :: "'d hw \<Rightarrow> string option \<Rightarrow> 'd hanafs \<Rightarrow> (int \<times> 'd hanafs) option" where
  "hanafs_create_file E path st = hanafs_write_file E path None 0 st"

definition hanafs_make_dir :: "'d hw \<Rightarrow> string option \<Rightarrow> 'd hanafs \<Rightarrow> (int \<times> 'd hanafs) option" where
  "hanafs_make_dir E path_arg st =
     (case path_arg of
        None \<Rightarrow> Some (-1, st)
      | Some path \<Rightarrow> do {
          (pbuf, st1) \<leftarrow> path_copy E path st;
          if pbuf = 0 then Some (-1, st1)
          else do {
            let ipath = hana_ipath path;
            f1 \<leftarrow> find_entry ipath st1;
            f2 \<leftarrow> (if f1 = None \<and> hana_drv path < 0 then find_entry (hana_pbuf path) st1 else Some None);
            if f1 \<noteq> None \<or> f2 \<noteq> None then do { st2 \<leftarrow> hf_free pbuf st1; Some (-1, st2) }
            else do {
              (e, st2) \<leftarrow> hf_alloc E sizeof_HanaEntry st1;
              if e = 0 then do { st3 \<leftarrow> hf_free pbuf st2; Some (-1, st3) }
              else do {
                (pp, st3) \<leftarrow> strdup_k E ipath st2;
                st4 \<leftarrow> persist_quietly E (push_entry (new_entry e pp ipath True) st3);
                Some (0, st4)
              }
            }
          }
        })"

definition hanafs_unlink :: "'d hw \<Rightarrow> string option \<Rightarrow> 'd hanafs \<Rightarrow> (int \<times> 'd hanafs) option" where
  "hanafs_unlink E path_arg st =
     (case path_arg of
        None \<Rightarrow> Some (-1, st)
      | Some path \<Rightarrow> do {
          (pbuf, st1) \<leftarrow> path_copy E path st;
          if pbuf = 0 then Some (-1, st1)
          else do {
            (removed, st2) \<leftarrow> remove_entry_node
               (\<lambda>p. p = hana_ipath path \<or> (hana_drv path < 0 \<and> p = hana_pbuf path)) st1;
            if removed then do {
              st3 \<leftarrow> persist_quietly E st2;
              st4 \<leftarrow> hf_free pbuf st3;
              Some (0, st4)
            }
            else do { st3 \<leftarrow> hf_free pbuf st2; Some (-1, st3) }
          }
        })"

text \<open>The check of \<open>hanafs_remove_dir\<close> for entries below the directory; \<open>None\<close> when it meets
  an entry without a path first.\<close>

primrec has_children :: "string \<Rightarrow> string \<Rightarrow> int \<Rightarrow> hentry list \<Rightarrow> bool option" where
  "has_children ipath pbuf drv [] = Some False"
| "has_children ipath pbuf drv (e # es) =
     (if e_path_ptr e = 0 then None
      else if e_path e = ipath then has_children ipath pbuf drv es
      else if take (length ipath) (e_path e) = ipath \<and> c_at (e_path e) (length ipath) = slash then Some True
      else if drv \<le> 0 \<and> e_path e = pbuf then has_children ipath pbuf drv es
      else if drv \<le> 0 \<and> take (length pbuf) (e_path e) = pbuf \<and> c_at (e_path e) (length pbuf) = slash
      then Some True
      else has_children ipath pbuf drv es)"

definition hanafs_remove_dir :: "'d hw \<Rightarrow> string option \<Rightarrow> 'd hanafs \<Rightarrow> (int \<times> 'd hanafs) option" where
  "hanafs_remove_dir E path_arg st =
     (case path_arg of
        None \<Rightarrow> Some (-1, st)
      | Some path \<Rightarrow> do {
          (pbuf, st1) \<leftarrow> path_copy E path st;
          if pbuf = 0 then Some (-1, st1)
          else do {
            ch \<leftarrow> has_children (hana_ipath path) (hana_pbuf path) (hana_drv path) (entries st1);
            if ch then do { st2 \<leftarrow> hf_free pbuf st1; Some (-1, st2) }
            else do {
              (rc, st2) \<leftarrow> hanafs_unlink E (Some (hana_pbuf path)) st1;
              st3 \<leftarrow> hf_free pbuf st2;
              Some (rc, st3)
            }
          }
        })"

text \<open>The address and the contents of the copy \<open>hanafs_get_file_alloc\<close> returns. On the way out
  without a file the temporary path is not released.\<close>

definition hanafs_get_file_alloc ::
  "'d hw \<Rightarrow> string option \<Rightarrow> 'd hanafs \<Rightarrow> ((u64 \<times> byte list) option \<times> 'd hanafs) option" where
  "hanafs_get_file_alloc E path_arg st =
     (case path_arg of
        None \<Rightarrow> Some (None, st)
      | Some path \<Rightarrow> do {
          (pbuf, st1) \<leftarrow> path_copy E path st;
          if pbuf = 0 then Some (None, st1)
          else do {
            r \<leftarrow> find_entry (hana_ipath path) st1;
            (case r of
               None \<Rightarrow> Some (None, st1)
             | Some e \<Rightarrow>
                 (if e_is_dir e then Some (None, st1)
                  else do {
                    (b, st2) \<leftarrow> hf_alloc E (if e_len e \<noteq> 0 then e_len e else 1) st1;
                    if b = 0 then Some (None, st2)
                    else if length (e_data e) < e_len e then None
                    else do {
                      st3 \<leftarrow> hf_free pbuf st2;
                      Some (Some (b, take (e_len e) (e_data e)), st3)
                    }
                  }))
          }
        })"

text \<open>The name of an entry relative to a listed directory: what is left of the path behind the
  prefix, without one separating slash. The directory itself and deeper entries have none.\<close>

definition child_name :: "nat \<Rightarrow> string \<Rightarrow> string option" where
  "child_name n p =
     (let candidate = drop n p
      in if candidate = [] then None
         else let c = (if hd candidate = slash then tl candidate else candidate)
              in if slash \<in> set c then None else Some c)"

primrec list_children :: "string \<Rightarrow> string \<Rightarrow> int \<Rightarrow> hentry list \<Rightarrow> string list option" where
  "list_children ipath pbuf drv [] = Some []"
| "list_children ipath pbuf drv (e # es) =
     (if e_path_ptr e = 0 then None
      else do {
        rest \<leftarrow> list_children ipath pbuf drv es;
        Some ((if take (length ipath) (e_path e) = ipath
               then (case child_name (length ipath) (e_path e) of Some c \<Rightarrow> [c] | None \<Rightarrow> [])
               else if drv < 0 \<and> take (length pbuf) (e_path e) = pbuf
               then (case child_name (length pbuf) (e_path e) of Some c \<Rightarrow> [c] | None \<Rightarrow> [])
               else []) @ rest)
      })"

definition hanafs_list_dir ::
  "'d hw \<Rightarrow> string option \<Rightarrow> 'd hanafs \<Rightarrow> (int \<times> string list \<times> 'd hanafs) option" where
  "hanafs_list_dir E path_arg st =
     (case path_arg of
        None \<Rightarrow> Some (-1, [], st)
      | Some path \<Rightarrow> do {
          (pbuf, st1) \<leftarrow> path_copy E path st;
          if pbuf = 0 then Some (-1, [], st1)
          else do {
            names \<leftarrow> list_children (hana_ipath path) (hana_pbuf path) (hana_drv path) (entries st1);
            st2 \<leftarrow> hf_free pbuf st1;
            Some (0, names, st2)
          }
        })"

record hana_dir_obj =
  dir_ptr :: u64
  dir_ipath_ptr :: u64
  dir_ipath :: string
  dir_next :: u64

definition hanafs_opendir ::
  "'d hw \<Rightarrow> string option \<Rightarrow> 'd hanafs \<Rightarrow> (hana_dir_obj option \<times> 'd hanafs) option" where
  "hanafs_opendir E path_arg st =
     (case path_arg of
        None \<Rightarrow> Some (None, st)
      | Some path \<Rightarrow> do {
          (pbuf, st1) \<leftarrow> path_copy E path st;
          if pbuf = 0 then Some (None, st1)
          else do {
            (d, st2) \<leftarrow> hf_alloc E 24 st1;
            if d = 0 then do { st3 \<leftarrow> hf_free pbuf st2; Some (None, st3) }
            else do {
              (ip, st3) \<leftarrow> strdup_k E (hana_ipath path) st2;
              if ip = 0 then None
              else do {
                st4 \<leftarrow> hf_free pbuf st3;
                Some (Some \<lparr>dir_ptr = d, dir_ipath_ptr = ip, dir_ipath = hana_ipath path,
                  dir_next = (case entries st4 of [] \<Rightarrow> 0 | e # _ \<Rightarrow> e_ptr e)\<rparr>, st4)
              }
            }
          }
        })"

text \<open>The entries from a node on; \<open>None\<close> for the address of a node that is gone.\<close>

primrec entries_from :: "u64 \<Rightarrow> hentry list \<Rightarrow> hentry list option" where
  "entries_from p [] = None"
| "entries_from p (e # es) = (if e_ptr e = p then Some (e # es) else entries_from p es)"

primrec readdir_scan :: "string \<Rightarrow> hentry list \<Rightarrow> ((string \<times> bool) option \<times> u64) option" where
  "readdir_scan ipath [] = Some (None, 0)"
| "readdir_scan ipath (e # es) =
     (let nxt = (case es of [] \<Rightarrow> 0 | e' # _ \<Rightarrow> e_ptr e'); rest = drop (length ipath) (e_path e);
          rest' = (if rest \<noteq> [] \<and> hd rest = slash then tl rest else rest)
      in if e_path_ptr e = 0 then None
         else if e_path e = ipath then readdir_scan ipath es
         else if take (length ipath) (e_path e) \<noteq> ipath then readdir_scan ipath es
         else if slash \<in> set rest' then readdir_scan ipath es
         else Some (Some (rest', e_is_dir e), nxt))"

definition hanafs_readdir ::
  "'d hw \<Rightarrow> hana_dir_obj option \<Rightarrow> 'd hanafs \<Rightarrow>
     ((u64 \<times> string \<times> bool) option \<times> hana_dir_obj option \<times> 'd hanafs) option" where
  "hanafs_readdir E dirp st =
     (case dirp of
        None \<Rightarrow> Some (None, None, st)
      | Some d \<Rightarrow>
          (if dir_next d = 0 then Some (None, Some d, st)
           else do {
             es \<leftarrow> entries_from (dir_next d) (entries st);
             (r, nxt) \<leftarrow> readdir_scan (dir_ipath d) es;
             (case r of
                None \<Rightarrow> Some (None, Some (d\<lparr>dir_next := nxt\<rparr>), st)
              | Some (name, is_dir) \<Rightarrow> do {
                  (de, st1) \<leftarrow> hf_alloc E 272 st;
                  Some (if de = 0 then None else Some (de, take 255 name, is_dir),
                    Some (d\<lparr>dir_next := nxt\<rparr>), st1)
                })
           }))"

definition hanafs_closedir :: "hana_dir_obj option \<Rightarrow> 'd hanafs \<Rightarrow> (int \<times> 'd hanafs) option" where
  "hanafs_closedir dirp st =
     (case dirp of
        None \<Rightarrow> Some (-1, st)
      | Some d \<Rightarrow> do {
          st1 \<leftarrow> hf_free_if (dir_ipath_ptr d) st;
          st2 \<leftarrow> hf_free (dir_ptr d) st1;
          Some (0, st2)
        })"

record hana_stat =
  st_size :: nat
  st_nlink :: nat
  st_mode :: nat

definition hanafs_stat ::
  "'d hw \<Rightarrow> string option \<Rightarrow> 'd hanafs \<Rightarrow> (int \<times> hana_stat option \<times> 'd hanafs) option" where
  "hanafs_stat E path_arg st =
     (case path_arg of
        None \<Rightarrow> Some (-1, None, st)
      | Some path \<Rightarrow> do {
          (pbuf, st1) \<leftarrow> path_copy E path st;
          if pbuf = 0 then Some (-1, None, st1)
          else do {
            f1 \<leftarrow> find_entry (hana_ipath path) st1;
            f2 \<leftarrow> (if f1 = None \<and> hana_drv path < 0 then find_entry (hana_pbuf path) st1 else Some f1);
            st2 \<leftarrow> hf_free pbuf st1;
            Some (case f2 of
                None \<Rightarrow> (-1, None, st2)
              | Some e \<Rightarrow> (0, Some \<lparr>st_size = e_len e, st_nlink = 1,
                  st_mode = (if e_is_dir e then 0x4000 else 0x8000)\<rparr>, st2))
          }
        })"

text \<open>The lines \<open>hanafs_list_mounts\<close> reports.\<close>

primrec list_drives :: "nat list \<Rightarrow> hentry list \<Rightarrow> string list" where
  "list_drives seen [] = []"
| "list_drives seen (e # es) =
     (let c = c_at (e_path e) 4; d = of_char c - 48
      in if e_path_ptr e \<noteq> 0 \<and> take 4 (e_path e) = ''/drv'' \<and> c \<in> set ''0123456789'' \<and> d \<notin> set seen
         then (if d = 0 then [] else [''HanaFS mount: [/drv'' @ [c] @ '']'']) @ list_drives (d # seen) es
         else list_drives seen es)"

definition hanafs_list_mounts :: "'d hanafs \<Rightarrow> int \<times> string list" where
  "hanafs_list_mounts st =
     (0, (if loaded_from_ata st then ''HanaFS mount: [0: ATA image -> LBA=2048]''
          else ''HanaFS mount: [in-memory]'') # list_drives [] (entries st))"

section \<open>Initialisation, formatting and loading\<close>

definition make_root :: "'d hw \<Rightarrow> 'd hanafs \<Rightarrow> (bool \<times> 'd hanafs) option" where
  "make_root E st = do {
     (p, st1) \<leftarrow> hf_alloc E sizeof_HanaEntry st;
     if p = 0 then Some (False, st1)
     else do {
       (pp, st2) \<leftarrow> strdup_k E ''/'' st1;
       if pp = 0 then do { st3 \<leftarrow> hf_free p st2; Some (False, st3) }
       else Some (True, st2\<lparr>entries := [new_entry p pp ''/'' True]\<rparr>)
     }
   }"

definition hanafs_init :: "'d hw \<Rightarrow> 'd hanafs \<Rightarrow> (int \<times> 'd hanafs) option" where
  "hanafs_init E st =
     (if entries st \<noteq> [] then Some (0, st)
      else do {
        (ok, st1) \<leftarrow> make_root E st;
        if \<not> ok then Some (-1, st1)
        else do {
          (_, st2) \<leftarrow> hanafs_make_dir E (Some ''/bin'') st1;
          (_, st3) \<leftarrow> hanafs_make_dir E (Some ''/dev'') st2;
          (_, st4) \<leftarrow> hanafs_make_dir E (Some ''/proc'') st3;
          (_, st5) \<leftarrow> hanafs_make_dir E (Some ''/home'') st4;
          Some (0, st5)
        }
      })"

primrec free_entries :: "hentry list \<Rightarrow> 'd hanafs \<Rightarrow> 'd hanafs option" where
  "free_entries [] st = Some st"
| "free_entries (e # es) st = do { st1 \<leftarrow> free_entry e st; free_entries es st1 }"

definition clear_entries :: "'d hanafs \<Rightarrow> 'd hanafs option" where
  "clear_entries st = free_entries (entries st) (st\<lparr>entries := []\<rparr>)"

definition hanafs_format_ata_master :: "'d hw \<Rightarrow> 'd hanafs \<Rightarrow> (int \<times> 'd hanafs) option" where
  "hanafs_format_ata_master E st = do {
     st1 \<leftarrow> clear_entries st;
     (ok, st2) \<leftarrow> make_root E st1;
     if \<not> ok then Some (-1, st2)
     else do {
       (rc, st3) \<leftarrow> hanafs_persist_to_ata E st2;
       Some (if rc = 0 then (0, st3\<lparr>loaded_from_ata := True\<rparr>) else (-1, st3))
     }
   }"

function read_blob ::
  "(u32 \<Rightarrow> 'd \<Rightarrow> int \<times> byte list \<times> 'd) \<Rightarrow> u32 \<Rightarrow> nat \<Rightarrow> 'd \<Rightarrow> byte list option \<times> 'd" where
  "read_blob rd n need d =
     (if need = 0 then (Some [], d)
      else case rd n d of
             (r, sec, d1) \<Rightarrow>
               if r \<noteq> 0 then (None, d1)
               else case read_blob rd (n + 1) (need - 512) d1 of
                      (rest, d2) \<Rightarrow> (map_option ((@) (take (min need 512) sec)) rest, d2))"
  by pat_completeness auto
termination
  by (relation "measure (\<lambda>(rd, n, need, d). need)") auto

declare read_blob.simps [simp del]

text \<open>The entries of the image: \<open>bs\<close> is what is left of the buffer. The result \<open>None\<close> is a read
  behind the buffer, which only the data of a file can cause.\<close>

primrec parse_entries :: "'d hw \<Rightarrow> nat \<Rightarrow> byte list \<Rightarrow> 'd hanafs \<Rightarrow> 'd hanafs option" where
  "parse_entries E 0 bs st = Some st"
| "parse_entries E (Suc n) bs st =
     (if length bs < 2 + 1 + 4 then Some st
      else do {
        let plen = unat (le16 (bs ! 0) (bs ! 1));
        let is_dir = (bs ! 2 \<noteq> 0);
        let dlen = unat (le32 (bs ! 3) (bs ! 4) (bs ! 5) (bs ! 6));
        let bs1 = drop 7 bs;
        if length bs1 < plen then Some st
        else do {
          (pp, st1) \<leftarrow> hf_alloc E (plen + 1) st;
          if pp = 0 then Some st1
          else do {
            let path = takeWhile (\<lambda>c. c \<noteq> NUL) (map char_of_byte (take plen bs1));
            let bs2 = drop plen bs1;
            (p, st2) \<leftarrow> hf_alloc E sizeof_HanaEntry st1;
            if p = 0 then hf_free pp st2
            else do {
              let e = (new_entry p pp path is_dir)\<lparr>e_len := dlen\<rparr>;
              if \<not> is_dir \<and> dlen > 0 then do {
                (dp, st3) \<leftarrow> hf_alloc E dlen st2;
                if dp = 0 then free_entry e st3
                else if length bs2 < dlen then None
                else parse_entries E n (drop dlen bs2)
                       (push_entry (e\<lparr>e_data_ptr := dp, e_data := take dlen bs2\<rparr>) st3)
              }
              else parse_entries E n bs2 (push_entry e st2)
            }
          }
        }
      })"

definition hanafs_load_from_ata :: "'d hw \<Rightarrow> 'd hanafs \<Rightarrow> (int \<times> 'd hanafs) option" where
  "hanafs_load_from_ata E st =
     (case hw_rd E HANAFS_PERSIST_LBA (hf_disk st) of
        (r, sec, d1) \<Rightarrow>
          (let st1 = st\<lparr>hf_disk := d1\<rparr>
           in if r \<noteq> 0 then Some (-1, st1)
              else if length sec < 512 then None
              else if take 4 sec \<noteq> map byte_of_char ''HANA'' then Some (-1, st1)
              else do {
                let entry_count = unat (le32 (sec ! 8) (sec ! 9) (sec ! 10) (sec ! 11));
                let tot = 16 + unat (le32 (sec ! 12) (sec ! 13) (sec ! 14) (sec ! 15));
                (b, st2) \<leftarrow> hf_alloc E tot st1;
                if b = 0 then Some (-1, st2)
                else case read_blob (hw_rd E) (HANAFS_PERSIST_LBA + 1) (tot - 512) (hf_disk st2) of
                       (rest, d2) \<Rightarrow>
                         (let st3 = st2\<lparr>hf_disk := d2\<rparr>
                          in case rest of
                               None \<Rightarrow> do { st4 \<leftarrow> hf_free b st3; Some (-1, st4) }
                             | Some bs \<Rightarrow> do {
                                 let buf = take tot sec @ bs;
                                 st4 \<leftarrow> clear_entries st3;
                                 (p, st5) \<leftarrow> hf_alloc E sizeof_HanaEntry st4;
                                 if p = 0 then do { st6 \<leftarrow> hf_free b st5; Some (-1, st6) }
                                 else do {
                                   (pp, st6) \<leftarrow> strdup_k E ''/'' st5;
                                   st7 \<leftarrow> parse_entries E entry_count (drop 16 buf)
                                            (st6\<lparr>entries := [new_entry p pp ''/'' True]\<rparr>);
                                   st8 \<leftarrow> hf_free b st7;
                                   Some (0, st8)
                                 }
                               })
              }))"

end
