(* ===== verification/HanaSpec.thy ===== *)
theory HanaSpec
  imports HanaFS
begin

text \<open>
  What HanaFS promises: its entries represent a finite map from internal paths to files and
  directories, and every operation that has room in the heap returns and acts on that map.
  The contract is the locale \<open>file_store\<close>; sequences of calls are followed there once and
  the laws are discharged for the operations of \<^theory_text>\<open>HanaFS\<close>.
\<close>

section \<open>The abstract file system\<close>

datatype hnode = Dir | File "byte list"

type_synonym fmap = "string \<rightharpoonup> hnode"

datatype fs_call =
    Write string "byte list"
  | Create string
  | MkDir string
  | Unlink string
  | RmDir string
  | Read string
  | Stat string

datatype fs_result = Status int | Data "byte list option" | Info "(nat \<times> bool) option"

text \<open>A path below a directory: the directory's text, then a slash.\<close>

definition below :: "string \<Rightarrow> string \<Rightarrow> bool" where
  "below d p \<longleftrightarrow> take (length d) p = d \<and> c_at p (length d) = slash"

definition spec_unlink :: "string \<Rightarrow> fmap \<Rightarrow> fs_result \<times> fmap" where
  "spec_unlink p m = (if m (hana_ipath p) = None then (Status (-1), m) else (Status 0, m(hana_ipath p := None)))"

fun fs_spec :: "fs_call \<Rightarrow> fmap \<Rightarrow> fs_result \<times> fmap" where
  "fs_spec (Write p bs) m = (Status 0, m(hana_ipath p \<mapsto> File bs))"
| "fs_spec (Create p) m = (Status 0, m(hana_ipath p \<mapsto> File []))"
| "fs_spec (MkDir p) m =
     (if m (hana_ipath p) = None then (Status 0, m(hana_ipath p \<mapsto> Dir)) else (Status (-1), m))"
| "fs_spec (Unlink p) m = spec_unlink p m"
| "fs_spec (RmDir p) m =
     (if \<exists>q\<in>dom m. below (hana_ipath p) q \<or> hana_drv p \<le> 0 \<and> q \<noteq> hana_ipath p \<and> below (hana_pbuf p) q
      then (Status (-1), m) else spec_unlink (hana_pbuf p) m)"
| "fs_spec (Read p) m = (Data (case m (hana_ipath p) of Some (File bs) \<Rightarrow> Some bs | _ \<Rightarrow> None), m)"
| "fs_spec (Stat p) m =
     (Info (case m (hana_ipath p) of
        None \<Rightarrow> None | Some (File bs) \<Rightarrow> Some (length bs, False) | Some Dir \<Rightarrow> Some (0, True)), m)"

text \<open>The same calls on the program.\<close>

fun hana_call :: "'d hw \<Rightarrow> fs_call \<Rightarrow> 'd hanafs \<Rightarrow> (fs_result \<times> 'd hanafs) option" where
  "hana_call E (Write p bs) st = map_option (apfst Status) (hanafs_write_file E (Some p) (Some bs) (length bs) st)"
| "hana_call E (Create p) st = map_option (apfst Status) (hanafs_create_file E (Some p) st)"
| "hana_call E (MkDir p) st = map_option (apfst Status) (hanafs_make_dir E (Some p) st)"
| "hana_call E (Unlink p) st = map_option (apfst Status) (hanafs_unlink E (Some p) st)"
| "hana_call E (RmDir p) st = map_option (apfst Status) (hanafs_remove_dir E (Some p) st)"
| "hana_call E (Read p) st =
     map_option (apfst (\<lambda>r. Data (map_option snd r))) (hanafs_get_file_alloc E (Some p) st)"
| "hana_call E (Stat p) st =
     map_option (\<lambda>(r, s, st'). (Info (map_option (\<lambda>x. (st_size x, st_mode x = 0x4000)) s), st'))
       (hanafs_stat E (Some p) st)"

text \<open>The bytes a call may add to the image, and the room it needs when the image has \<open>pay\<close>
  bytes of records.\<close>

fun call_path :: "fs_call \<Rightarrow> string" where
  "call_path (Write p bs) = p" | "call_path (Create p) = p" | "call_path (MkDir p) = p"
| "call_path (Unlink p) = p" | "call_path (RmDir p) = p" | "call_path (Read p) = p"
| "call_path (Stat p) = p"

fun call_data :: "fs_call \<Rightarrow> nat" where
  "call_data (Write p bs) = length bs" | "call_data c = 0"

definition call_bytes :: "fs_call \<Rightarrow> nat" where [cost_simps]:
  "call_bytes c = 518 + call_data c"

definition call_cost :: "nat \<Rightarrow> fs_call \<Rightarrow> nat" where [cost_simps]:
  "call_cost pay c = 2 * room_cost (length (call_path c) + 3) + room_cost sizeof_HanaEntry + room_cost 512 +
     room_cost (pay + call_data c) + room_cost (16 + (pay + call_bytes c))"

definition call_ok :: "fs_call \<Rightarrow> bool" where
  "call_ok c \<longleftrightarrow> cstring (call_path c) \<and> call_data c < 2 ^ 32"

section \<open>The contract\<close>

locale file_store =
  fixes call :: "fs_call \<Rightarrow> 's \<Rightarrow> (fs_result \<times> 's) option"
    and content :: "'s \<Rightarrow> fmap"
    and inv :: "nat \<Rightarrow> nat \<Rightarrow> 's \<Rightarrow> bool"
  assumes call_law: "inv S pay s \<Longrightarrow> call_ok c \<Longrightarrow> call_cost pay c \<le> S \<Longrightarrow>
    \<exists>s'. call c s = Some (fst (fs_spec c (content s)), s') \<and>
      content s' = snd (fs_spec c (content s)) \<and> inv (S - call_cost pay c) (pay + call_bytes c) s'"
begin

primrec calls :: "fs_call list \<Rightarrow> 's \<Rightarrow> (fs_result list \<times> 's) option" where
  "calls [] s = Some ([], s)"
| "calls (c # cs) s = do { (r, s1) \<leftarrow> call c s; (rs, s2) \<leftarrow> calls cs s1; Some (r # rs, s2) }"

end

primrec spec_calls :: "fs_call list \<Rightarrow> fmap \<Rightarrow> fs_result list \<times> fmap" where
  "spec_calls [] m = ([], m)"
| "spec_calls (c # cs) m =
     (case fs_spec c m of (r, m1) \<Rightarrow> case spec_calls cs m1 of (rs, m2) \<Rightarrow> (r # rs, m2))"

primrec calls_cost :: "nat \<Rightarrow> fs_call list \<Rightarrow> nat" where
  "calls_cost pay [] = 0"
| "calls_cost pay (c # cs) = call_cost pay c + calls_cost (pay + call_bytes c) cs"

context file_store
begin

lemma calls_refine:
  "inv S pay s \<Longrightarrow> list_all call_ok cs \<Longrightarrow> calls_cost pay cs \<le> S \<Longrightarrow>
     \<exists>s'. calls cs s = Some (fst (spec_calls cs (content s)), s') \<and>
       content s' = snd (spec_calls cs (content s)) \<and>
       inv (S - calls_cost pay cs) (pay + sum_list (map call_bytes cs)) s'"
proof (induction cs arbitrary: S pay s)
  case (Cons c cs)
  obtain s1 where c: "call c s = Some (fst (fs_spec c (content s)), s1)"
    "content s1 = snd (fs_spec c (content s))" "inv (S - call_cost pay c) (pay + call_bytes c) s1"
    using call_law [OF Cons.prems(1)] Cons.prems by fastforce
  have "calls_cost (pay + call_bytes c) cs \<le> S - call_cost pay c" using Cons.prems(3) by simp
  from Cons.IH [OF c(3) _ this] Cons.prems(2) c(1,2) show ?case
    by (auto simp: case_prod_beta add.assoc diff_diff_left)
qed simp

end

section \<open>The representation\<close>

definition node_of :: "hentry \<Rightarrow> hnode" where
  "node_of e = (if e_is_dir e then Dir else File (e_data e))"

definition hana_map :: "hentry list \<Rightarrow> fmap" where
  "hana_map es = map_of (map (\<lambda>e. (e_path e, node_of e)) es)"

text \<open>The heap blocks of an entry, in the order they are released.\<close>

definition owned :: "hentry \<Rightarrow> u64 list" where
  "owned e = e_path_ptr e # (if e_data_ptr e \<noteq> 0 then [e_data_ptr e] else []) @ [e_ptr e]"

definition entry_ok :: "hentry \<Rightarrow> bool" where
  "entry_ok e \<longleftrightarrow> length (e_data e) = e_len e \<and> (e_is_dir e \<longrightarrow> e_len e = 0) \<and> e_len e < 2 ^ 32 \<and>
     length (e_path e) < 512 \<and> cstring (e_path e)"

definition entries_ok :: "u64 set \<Rightarrow> hentry list \<Rightarrow> bool" where
  "entries_ok A es \<longleftrightarrow> distinct (concat (map owned es)) \<and> set (concat (map owned es)) \<subseteq> A \<and>
     list_all entry_ok es \<and> distinct (map e_path es)"

definition payload_len :: "hentry list \<Rightarrow> nat" where
  "payload_len es = sum_list (map hana_record_len es)"

definition hf_room :: "'d hw \<Rightarrow> nat \<Rightarrow> u64 set \<Rightarrow> heap \<Rightarrow> bool" where
  "hf_room E S A h \<longleftrightarrow> heap_room (hw_boot E) S A h \<and> 0 \<notin> A"

definition hf_inv :: "'d hw \<Rightarrow> nat \<Rightarrow> nat \<Rightarrow> 'd hanafs \<Rightarrow> bool" where
  "hf_inv E S pay st \<longleftrightarrow> payload_len (entries st) \<le> pay \<and>
     (\<exists>A. hf_room E S A (hf_heap st) \<and> entries_ok A (entries st))"

text \<open>The same, with a set of blocks of other owners that no entry uses.\<close>

definition hf_frame :: "'d hw \<Rightarrow> nat \<Rightarrow> nat \<Rightarrow> u64 set \<Rightarrow> 'd hanafs \<Rightarrow> bool" where
  "hf_frame E S pay F st \<longleftrightarrow> payload_len (entries st) \<le> pay \<and>
     (\<exists>A. hf_room E S A (hf_heap st) \<and> entries_ok A (entries st) \<and> F \<subseteq> A - set (concat (map owned (entries st))))"

lemma hf_frame_empty: "hf_frame E S pay {} st \<longleftrightarrow> hf_inv E S pay st"
  by (simp add: hf_frame_def hf_inv_def)

lemma hf_room_mono: "hf_room E S A h \<Longrightarrow> T \<le> S \<Longrightarrow> hf_room E T A h"
  by (auto simp: hf_room_def intro: heap_room_mono)

text \<open>Allocation and release leave everything but the heap alone. The lemmas below name the
  resulting state and say what of it matters to the file system.\<close>

lemma hf_alloc_room:
  assumes "hf_room E S A (hf_heap st)" "0 < n" "room_cost n \<le> S"
  obtains p st' where "hf_alloc E n st = Some (p, st')" "p \<noteq> 0" "p \<notin> A"
    "hf_room E (S - room_cost n) (insert p A) (hf_heap st')"
    "entries st' = entries st" "hf_disk st' = hf_disk st"
proof -
  obtain p h where k: "kmalloc (hw_boot E) (of_nat n) (hf_heap st) = Some (p, h)" "p \<noteq> 0" "p \<notin> A"
    "heap_room (hw_boot E) (S - room_cost n) (insert p A) h"
    using rm.alloc_room [of "hw_boot E" S A "hf_heap st" n] assms by (auto simp: hf_room_def)
  show ?thesis
    by (rule that [of p "st\<lparr>hf_heap := h\<rparr>"]) (use k assms(1) in \<open>simp_all add: hf_alloc_def hf_room_def\<close>)
qed

lemma hf_free_room:
  assumes "hf_room E S A (hf_heap st)" "p \<in> A"
  obtains st' where "hf_free p st = Some st'" "hf_room E S (A - {p}) (hf_heap st')"
    "entries st' = entries st" "hf_disk st' = hf_disk st" "loaded_from_ata st' = loaded_from_ata st"
proof -
  have "p \<noteq> 0" using assms by (auto simp: hf_room_def)
  then obtain h where k: "kfree p (hf_heap st) = Some h" "heap_room (hw_boot E) S (A - {p}) h"
    using rm.dealloc_room [of "hw_boot E" S A "hf_heap st" p] assms by (auto simp: hf_room_def)
  show ?thesis
    by (rule that [of "st\<lparr>hf_heap := h\<rparr>"]) (use k assms(1) in \<open>simp_all add: hf_free_def hf_room_def\<close>)
qed

text \<open>Releasing an entry is releasing its list of blocks.\<close>

lemma free_entry_dealloc:
  assumes "e_path_ptr e \<noteq> 0"
  shows "free_entry e st = map_option (\<lambda>h. st\<lparr>hf_heap := h\<rparr>) (rm.dealloc_list (owned e) (hf_heap st))"
  using assms by (auto simp: free_entry_def hf_free_if_def hf_free_def owned_def split: bind_splits)

lemma free_entry_room:
  assumes "hf_room E S A (hf_heap st)" "set (owned e) \<subseteq> A" "distinct (owned e)"
  obtains st' where "free_entry e st = Some st'" "hf_room E S (A - set (owned e)) (hf_heap st')"
    "entries st' = entries st" "hf_disk st' = hf_disk st"
proof -
  have z: "0 \<notin> set (owned e)" "e_path_ptr e \<noteq> 0" using assms by (auto simp: hf_room_def owned_def)
  then obtain h where h: "rm.dealloc_list (owned e) (hf_heap st) = Some h"
    "heap_room (hw_boot E) S (A - set (owned e)) h"
    using rm.dealloc_list_room [of "hw_boot E" S A "hf_heap st" "owned e"] assms by (auto simp: hf_room_def)
  show ?thesis
    by (rule that [of "st\<lparr>hf_heap := h\<rparr>"])
      (use h z assms(1) in \<open>simp_all add: free_entry_dealloc hf_room_def\<close>)
qed

lemma new_entry_simps [simp]:
  "e_ptr (new_entry p pp q d) = p" "e_path_ptr (new_entry p pp q d) = pp" "e_path (new_entry p pp q d) = q"
  "e_is_dir (new_entry p pp q d) = d" "e_data_ptr (new_entry p pp q d) = 0"
  "e_data (new_entry p pp q d) = []" "e_len (new_entry p pp q d) = 0"
  by (simp_all add: new_entry_def)

lemma owned_new_entry [simp]: "owned (new_entry p pp q d) = [pp, p]"
  by (simp add: owned_def)

lemma push_entry_simps [simp]:
  "entries (push_entry e st) = e # entries st" "hf_heap (push_entry e st) = hf_heap st"
  "hf_disk (push_entry e st) = hf_disk st"
  by (simp_all add: push_entry_def)

lemma entries_ok_ptrs:
  assumes "entries_ok A es" "0 \<notin> A" "e \<in> set es"
  shows "e_path_ptr e \<noteq> 0" "e_ptr e \<noteq> 0"
  using assms by (auto simp: entries_ok_def owned_def)

lemma hana_find_ok:
  "(\<And>e. e \<in> set es \<Longrightarrow> e_path_ptr e \<noteq> 0) \<Longrightarrow> hana_find P es = Some (find (\<lambda>e. P (e_path e)) es)"
  by (induction es) auto

lemma hana_map_Nil [simp]: "hana_map [] = Map.empty"
  by (simp add: hana_map_def)

lemma hana_map_Cons [simp]: "hana_map (e # es) = (hana_map es)(e_path e \<mapsto> node_of e)"
  by (simp add: hana_map_def)

lemma dom_hana_map: "dom (hana_map es) = e_path ` set es"
  by (simp add: hana_map_def dom_map_of_conv_image_fst image_image)

lemma hana_map_find:
  "hana_map es q = map_option node_of (find (\<lambda>e. e_path e = q) es)"
  by (induction es) auto

lemma hana_cut_split:
  assumes "find (\<lambda>e. P (e_path e)) es = Some e"
  obtains xs ys where "es = xs @ e # ys" "hana_cut P es = xs @ ys" "P (e_path e)"
  using assms
proof (induction es arbitrary: thesis)
  case (Cons a es)
  show ?case
  proof (cases "P (e_path a)")
    case True
    then show ?thesis using Cons.prems(1) [of "[]" es] Cons.prems(2) by auto
  next
    case False
    then obtain xs ys where "es = xs @ e # ys" "hana_cut P es = xs @ ys" "P (e_path e)"
      using Cons.IH Cons.prems(2) by auto
    then show ?thesis using Cons.prems(1) [of "a # xs" ys] False by auto
  qed
qed simp

lemma entries_ok_remove:
  assumes "entries_ok A (xs @ e # ys)"
  shows "entries_ok (A - set (owned e)) (xs @ ys)" "set (owned e) \<subseteq> A" "distinct (owned e)"
    "hana_map (xs @ ys) = (hana_map (xs @ e # ys))(e_path e := None)"
proof -
  show "entries_ok (A - set (owned e)) (xs @ ys)" "set (owned e) \<subseteq> A" "distinct (owned e)"
    using assms by (auto simp: entries_ok_def)
  have d: "e_path e \<notin> e_path ` set xs" "e_path e \<notin> e_path ` set ys"
    using assms by (auto simp: entries_ok_def)
  have n: "hana_map ys (e_path e) = None" using d(2) by (auto simp: dom_hana_map [symmetric])
  have a: "hana_map (us @ vs) = hana_map vs ++ hana_map us" for us vs
    by (simp add: hana_map_def)
  show "hana_map (xs @ ys) = (hana_map (xs @ e # ys))(e_path e := None)"
    using d(1) n unfolding a
    by (auto simp: fun_eq_iff map_add_def dom_hana_map [symmetric] split: option.splits)
qed

lemma entries_ok_push:
  assumes "entries_ok A es" "entry_ok e" "distinct (owned e)" "set (owned e) \<inter> A = {}"
    "hana_map es (e_path e) = None"
  shows "entries_ok (A \<union> set (owned e)) (e # es)"
proof -
  have "e_path e \<notin> e_path ` set es" using assms(5) by (auto simp: dom_hana_map [symmetric])
  with assms show ?thesis by (auto simp: entries_ok_def)
qed

lemma entries_ok_mono: "entries_ok A es \<Longrightarrow> A \<subseteq> B \<Longrightarrow> entries_ok B es"
  by (auto simp: entries_ok_def)

lemma entries_ok_drop:
  assumes "entries_ok B es" "set es \<subseteq> set es'" "p \<notin> set (concat (map owned es'))"
  shows "entries_ok (B - {p}) es"
proof -
  have "p \<notin> set (concat (map owned es))" using assms(2,3) by auto
  with assms(1) show ?thesis by (simp add: entries_ok_def subset_Diff_insert)
qed

lemma payload_len_simps [simp]:
  "payload_len [] = 0" "payload_len (e # es) = hana_record_len e + payload_len es"
  "payload_len (xs @ ys) = payload_len xs + payload_len ys"
  by (simp_all add: payload_len_def)

text \<open>The search and removal that writing and unlinking start with.\<close>

lemma remove_entry_node_room:
  assumes room: "hf_room E S A (hf_heap st)" and ok: "entries_ok A (entries st)"
    and P: "\<And>e. e \<in> set (entries st) \<Longrightarrow> P (e_path e) \<longleftrightarrow> e_path e = q"
  obtains st' B where
    "remove_entry_node P st = Some (hana_map (entries st) q \<noteq> None, st')"
    "hf_room E S B (hf_heap st')" "entries_ok B (entries st')"
    "hana_map (entries st') = (hana_map (entries st))(q := None)"
    "payload_len (entries st') \<le> payload_len (entries st)"
    "B \<subseteq> A" "A - B \<subseteq> set (concat (map owned (entries st)))" "set (entries st') \<subseteq> set (entries st)"
proof -
  have z: "0 \<notin> A" using room by (simp add: hf_room_def)
  have fP: "find (\<lambda>e. P (e_path e)) (entries st) = find (\<lambda>e. e_path e = q) (entries st)"
    using P by (intro find_cong) auto
  have f: "hana_find P (entries st) = Some (find (\<lambda>e. P (e_path e)) (entries st))"
    using entries_ok_ptrs [OF ok z] by (intro hana_find_ok) auto
  show ?thesis
  proof (cases "find (\<lambda>e. P (e_path e)) (entries st)")
    case None
    then have m: "hana_map (entries st) q = None" by (simp add: hana_map_find fP)
    show ?thesis
      by (rule that [of st A]) (use None f room ok m in \<open>simp_all add: remove_entry_node_def fun_upd_idem\<close>)
  next
    case (Some e)
    obtain xs ys where s: "entries st = xs @ e # ys" "hana_cut P (entries st) = xs @ ys" "P (e_path e)"
      using hana_cut_split [OF Some] by blast
    have q: "e_path e = q" using s P by auto
    note r = entries_ok_remove [OF ok [unfolded s(1)]]
    let ?st = "st\<lparr>entries := xs @ ys\<rparr>"
    have room': "hf_room E S A (hf_heap ?st)" using room by simp
    obtain st' where h: "free_entry e ?st = Some st'" "hf_room E S (A - set (owned e)) (hf_heap st')"
      "entries st' = entries ?st"
      by (rule free_entry_room [OF room' r(2,3)])
    have m: "hana_map (entries st) q \<noteq> None" using Some by (simp add: hana_map_find fP)
    show ?thesis
    proof (rule that [of st' "A - set (owned e)"])
      show "remove_entry_node P st = Some (hana_map (entries st) q \<noteq> None, st')"
        using h(1) f Some s(2) m by (simp add: remove_entry_node_def)
      show "hana_map (entries st') = (hana_map (entries st))(q := None)"
        using h(3) r(4) q s(1) by simp
    qed (use h r s(1) in auto)
  qed
qed

section \<open>Room for every operation\<close>

lemma entry_ok_lengths:
  assumes "entry_ok e"
  shows "unat (of_nat (length (e_path e)) :: u16) = length (e_path e)"
    "unat (of_nat (e_len e) :: u32) = e_len e"
  using assms by (simp_all add: entry_ok_def unat_of_nat)

lemma length_hana_record: "entry_ok e \<Longrightarrow> length (hana_record e) = hana_record_len e"
  using entry_ok_lengths [of e]
  by (simp add: hana_record_def hana_record_len_def Let_def entry_ok_def)

lemma length_hana_blob: "list_all entry_ok es \<Longrightarrow> length (hana_blob es) = 16 + payload_len es"
  by (induction es) (simp_all add: hana_blob_def hana_header_def length_hana_record)

lemma persist_room:
  assumes room: "hf_room E S A (hf_heap st)" and ok: "entries_ok A (entries st)"
    and S: "room_cost (16 + payload_len (entries st)) \<le> S"
    and w: "write_blob (hw_wr E) HANAFS_PERSIST_LBA (hana_blob (entries st)) (hf_disk st) = (done, d)"
  obtains st' where
    "hanafs_persist_to_ata E st = Some (if done then 0 else -1, st')"
    "hf_room E (S - room_cost (16 + payload_len (entries st))) A (hf_heap st')"
    "entries st' = entries st" "hf_disk st' = d" "done \<Longrightarrow> loaded_from_ata st'"
proof -
  let ?n = "16 + payload_len (entries st)"
  obtain p st1 where p: "hf_alloc E ?n st = Some (p, st1)" "p \<noteq> 0" "p \<notin> A"
    "hf_room E (S - room_cost ?n) (insert p A) (hf_heap st1)" "entries st1 = entries st"
    "hf_disk st1 = hf_disk st"
    by (rule hf_alloc_room [OF room _ S]) simp
  have "hf_room E (S - room_cost ?n) (insert p A) (hf_heap (st1\<lparr>hf_disk := d\<rparr>))" using p(4) by simp
  then obtain st2 where h2: "hf_free p (st1\<lparr>hf_disk := d\<rparr>) = Some st2"
    "hf_room E (S - room_cost ?n) (insert p A - {p}) (hf_heap st2)"
    "entries st2 = entries (st1\<lparr>hf_disk := d\<rparr>)" "hf_disk st2 = hf_disk (st1\<lparr>hf_disk := d\<rparr>)"
    by (rule hf_free_room) (rule insertI1)
  have n0: "\<not> (\<exists>e\<in>set (entries st). e_path_ptr e = 0)"
    using entries_ok_ptrs(1) [OF ok] room by (auto simp: hf_room_def)
  have len: "length (hana_blob (entries st)) = ?n"
    using ok by (simp add: length_hana_blob entries_ok_def)
  have r: "hanafs_persist_to_ata E st =
      Some (if done then (0, st2\<lparr>loaded_from_ata := True\<rparr>) else (-1, st2))"
    using p(1,2) n0 len h2(1) unfolding hanafs_persist_to_ata_def payload_len_def [symmetric]
    by (simp add: Let_def w p(6))
  have A: "hf_room E (S - room_cost ?n) A (hf_heap st2)" using h2(2) p(3) by simp
  show ?thesis
    by (rule that [of "if done then st2\<lparr>loaded_from_ata := True\<rparr> else st2"])
      (use r A h2(3,4) p(5) in auto)
qed

lemma path_copy_room:
  assumes "hf_room E S A (hf_heap st)" "room_cost (length path + 3) \<le> S"
  obtains p st' where "path_copy E path st = Some (p, st')" "p \<noteq> 0" "p \<notin> A"
    "hf_room E (S - room_cost (length path + 3)) (insert p A) (hf_heap st')"
    "entries st' = entries st"
proof -
  have "room_cost (length path + 2) \<le> S" using assms(2) by (simp add: room_cost_def)
  with hf_alloc_room [OF assms(1), of "length path + 2"] obtain p st' where
    p: "hf_alloc E (length path + 2) st = Some (p, st')" "p \<noteq> 0" "p \<notin> A"
    "hf_room E (S - room_cost (length path + 2)) (insert p A) (hf_heap st')" "entries st' = entries st"
    by (metis add_gr_0 zero_less_numeral)
  have "hf_room E (S - room_cost (length path + 3)) (insert p A) (hf_heap st')"
    using p(4) by (rule hf_room_mono) (simp add: room_cost_def)
  with p that [of p st'] show ?thesis by (simp add: path_copy_def)
qed

text \<open>A node and its path, as \<open>hanafs_write_file\<close> and \<open>hanafs_make_dir\<close> allocate them.\<close>

lemma node_room:
  assumes room: "hf_room E S A (hf_heap st)" and S: "room_cost sizeof_HanaEntry + room_cost 512 \<le> S"
    and q: "length q \<le> 511"
  obtains e pp st1 st2 where
    "hf_alloc E sizeof_HanaEntry st = Some (e, st1)" "strdup_k E q st1 = Some (pp, st2)"
    "e \<noteq> 0" "pp \<noteq> 0" "e \<noteq> pp" "e \<notin> A" "pp \<notin> A"
    "hf_room E (S - room_cost sizeof_HanaEntry - room_cost 512) (insert pp (insert e A)) (hf_heap st2)"
    "entries st2 = entries st" "hf_disk st2 = hf_disk st"
proof -
  have n: "0 < sizeof_HanaEntry" "room_cost sizeof_HanaEntry \<le> S" "0 < length q + 1"
    "room_cost (length q + 1) \<le> S - room_cost sizeof_HanaEntry"
    using S q by (simp_all add: sizeof_HanaEntry_def room_cost_def)
  obtain e st1 where e: "hf_alloc E sizeof_HanaEntry st = Some (e, st1)" "e \<noteq> 0" "e \<notin> A"
    "hf_room E (S - room_cost sizeof_HanaEntry) (insert e A) (hf_heap st1)" "entries st1 = entries st"
    "hf_disk st1 = hf_disk st"
    by (rule hf_alloc_room [OF room n(1,2)])
  obtain pp st2 where pp: "hf_alloc E (length q + 1) st1 = Some (pp, st2)" "pp \<noteq> 0" "pp \<notin> insert e A"
    "hf_room E (S - room_cost sizeof_HanaEntry - room_cost (length q + 1)) (insert pp (insert e A)) (hf_heap st2)"
    "entries st2 = entries st1" "hf_disk st2 = hf_disk st1"
    by (rule hf_alloc_room [OF e(4) n(3,4)])
  have "hf_room E (S - room_cost sizeof_HanaEntry - room_cost 512) (insert pp (insert e A)) (hf_heap st2)"
    using pp(4) by (rule hf_room_mono) (use q in \<open>simp add: room_cost_def\<close>)
  then show ?thesis
    using e pp that [of e st1 pp st2] by (auto simp: strdup_k_def)
qed

lemma hf_frameI:
  "hf_room E T A (hf_heap st) \<Longrightarrow> S \<le> T \<Longrightarrow> entries_ok A (entries st) \<Longrightarrow>
     payload_len (entries st) \<le> pay \<Longrightarrow> F \<subseteq> A - set (concat (map owned (entries st))) \<Longrightarrow> hf_frame E S pay F st"
  unfolding hf_frame_def by (blast intro: hf_room_mono)

lemma hf_frame_mono: "hf_frame E S pay F st \<Longrightarrow> T \<le> S \<Longrightarrow> pay \<le> pay' \<Longrightarrow> hf_frame E T pay' F st"
  unfolding hf_frame_def by (meson hf_room_mono order_trans)

lemma hf_invI:
  "hf_room E T A (hf_heap st) \<Longrightarrow> S \<le> T \<Longrightarrow> entries_ok A (entries st) \<Longrightarrow>
     payload_len (entries st) \<le> pay \<Longrightarrow> hf_inv E S pay st"
  unfolding hf_inv_def by (blast intro: hf_room_mono)

text \<open>The write to the disk at the end of an operation.\<close>

lemma finish_room:
  assumes room: "hf_room E S A (hf_heap st)" and ok: "entries_ok A (entries st)"
    and pay: "payload_len (entries st) \<le> pay" "room_cost (16 + pay) \<le> S"
  obtains st' where "(if b then persist_quietly E st else Some st) = Some st'"
    "entries st' = entries st" "hf_room E (S - room_cost (16 + pay)) A (hf_heap st')"
proof (cases b)
  case True
  have n: "room_cost (16 + payload_len (entries st)) \<le> S" using pay by (simp add: room_cost_def)
  obtain dn d where w: "write_blob (hw_wr E) HANAFS_PERSIST_LBA (hana_blob (entries st)) (hf_disk st) = (dn, d)"
    by fastforce
  obtain st' where
    p: "hanafs_persist_to_ata E st = Some (if dn then 0 else -1, st')"
    "hf_room E (S - room_cost (16 + payload_len (entries st))) A (hf_heap st')" "entries st' = entries st"
    by (rule persist_room [OF room ok n w])
  have "hf_room E (S - room_cost (16 + pay)) A (hf_heap st')"
    using hf_room_mono [OF p(2)] pay(1) by (simp add: room_cost_def)
  with True p show ?thesis by (intro that [of st']) (simp_all add: persist_quietly_def)
next
  case False
  have "hf_room E (S - room_cost (16 + pay)) A (hf_heap st)"
    using room by (rule hf_room_mono) simp
  with False show ?thesis by (intro that [of st]) simp_all
qed

definition stored_bytes :: "byte list option \<Rightarrow> nat \<Rightarrow> byte list" where
  "stored_bytes buf len = (case buf of None \<Rightarrow> [] | Some bs \<Rightarrow> take len bs)"

lemma store_data_room:
  assumes room: "hf_room E S A (hf_heap st)" and S: "room_cost (length (stored_bytes buf len)) \<le> S"
    and len: "case buf of None \<Rightarrow> True | Some bs \<Rightarrow> len \<le> length bs"
    and e: "e_data_ptr e = 0" "e_data e = []" "e_len e = 0"
    and own: "set (owned e) \<subseteq> A" "distinct (owned e)"
  obtains e' st' where "store_data E e buf len st = Some (Some e', st')" "entries st' = entries st"
    "e_path e' = e_path e" "e_is_dir e' = e_is_dir e" "e_data e' = stored_bytes buf len"
    "e_len e' = length (stored_bytes buf len)" "distinct (owned e')"
    "set (owned e') \<inter> (A - set (owned e)) = {}"
    "hf_room E (S - room_cost (length (stored_bytes buf len))) ((A - set (owned e)) \<union> set (owned e')) (hf_heap st')"
proof (cases "stored_bytes buf len = []")
  case True
  then have "store_data E e buf len st = Some (Some e, st)"
    using len by (auto simp: store_data_def stored_bytes_def split: option.splits)
  moreover have "(A - set (owned e)) \<union> set (owned e) = A" using own(1) by auto
  then have "hf_room E (S - room_cost (length (stored_bytes buf len))) ((A - set (owned e)) \<union> set (owned e)) (hf_heap st)"
    using hf_room_mono [OF room] by simp
  ultimately show ?thesis
    using True e own(2) by (intro that [of e st]) auto
next
  case False
  then obtain bs where bs: "buf = Some bs" "len \<noteq> 0" "len \<le> length bs"
    using len by (auto simp: stored_bytes_def split: option.splits)
  then have n: "length (stored_bytes buf len) = len" by (simp add: stored_bytes_def)
  have S': "0 < len" "room_cost len \<le> S" using S bs(2) by (simp_all add: n)
  obtain p st' where
    p: "hf_alloc E len st = Some (p, st')" "p \<noteq> 0" "p \<notin> A"
    "hf_room E (S - room_cost len) (insert p A) (hf_heap st')" "entries st' = entries st"
    by (rule hf_alloc_room [OF room S'])
  let ?e = "e\<lparr>e_data_ptr := p, e_data := take len bs, e_len := len\<rparr>"
  have o: "set (owned ?e) = insert p (set (owned e))" "distinct (owned ?e)"
    using e p(2,3) own by (auto simp: owned_def)
  have "(A - set (owned e)) \<union> set (owned ?e) = insert p A" using own(1) o(1) by auto
  then have "hf_room E (S - room_cost (length (stored_bytes buf len))) ((A - set (owned e)) \<union> set (owned ?e)) (hf_heap st')"
    using p(4) n by simp
  moreover have "store_data E e buf len st = Some (Some ?e, st')"
    using p(1,2) bs by (simp add: store_data_def)
  moreover have "set (owned ?e) \<inter> (A - set (owned e)) = {}" using o(1) p(3) by auto
  ultimately show ?thesis
    using n o(2) bs p(5) by (intro that [of ?e st']) (simp_all add: stored_bytes_def)
qed

text \<open>The last part of writing a file or making a directory: the entry becomes the head of the
  list and the image is written.\<close>

lemma push_finish:
  assumes room: "hf_room E S (B \<union> set (owned e)) (hf_heap st)" and ok: "entries_ok B (entries st)"
    and e: "entry_ok e" "distinct (owned e)" "set (owned e) \<inter> B = {}"
    and new: "hana_map (entries st) (e_path e) = None"
    and pay: "payload_len (entries st) \<le> pay" "hana_record_len e \<le> n" "room_cost (16 + (pay + n)) \<le> S"
    and F: "F \<subseteq> B - set (concat (map owned (entries st)))"
  obtains st' where "(if b then persist_quietly E (push_entry e st) else Some (push_entry e st)) = Some st'"
    "hana_map (entries st') = (hana_map (entries st))(e_path e \<mapsto> node_of e)"
    "hf_frame E (S - room_cost (16 + (pay + n))) (pay + n) F st'"
proof -
  have r: "hf_room E S (B \<union> set (owned e)) (hf_heap (push_entry e st))" using room by simp
  have k: "entries_ok (B \<union> set (owned e)) (entries (push_entry e st))"
    using entries_ok_push [OF ok e new] by simp
  have p: "payload_len (entries (push_entry e st)) \<le> pay + n" using pay(1,2) by simp
  obtain st' where f: "(if b then persist_quietly E (push_entry e st) else Some (push_entry e st)) = Some st'"
    "entries st' = entries (push_entry e st)"
    "hf_room E (S - room_cost (16 + (pay + n))) (B \<union> set (owned e)) (hf_heap st')"
    by (rule finish_room [OF r k p pay(3)])
  have "F \<subseteq> (B \<union> set (owned e)) - set (concat (map owned (entries (push_entry e st))))"
    using F e(3) by auto
  then have "hf_frame E (S - room_cost (16 + (pay + n))) (pay + n) F st'"
    by (intro hf_frameI [OF f(3) order_refl]) (use k p f(2) in simp_all)
  with f(1,2) show ?thesis by (intro that) simp_all
qed

lemma hf_inv_mono: "hf_inv E S pay st \<Longrightarrow> T \<le> S \<Longrightarrow> pay \<le> pay' \<Longrightarrow> hf_inv E T pay' st"
  unfolding hf_inv_def by (meson hf_room_mono order_trans)

lemma write_file_frame:
  assumes inv: "hf_frame E S pay F st" and path: "cstring path"
    and len: "case buf of None \<Rightarrow> True | Some bs \<Rightarrow> len \<le> length bs"
    and c: "c = Write path (stored_bytes buf len)" "call_data c < 2 ^ 32" "call_cost pay c \<le> S"
  shows "\<exists>st'. hanafs_write_file E (Some path) buf len st = Some (0, st') \<and>
    hana_map (entries st') = (hana_map (entries st))(hana_ipath path \<mapsto> File (stored_bytes buf len)) \<and>
    hf_frame E (S - call_cost pay c) (pay + call_bytes c) F st'"
proof -
  let ?q = "hana_ipath path" and ?bs = "stored_bytes buf len"
  let ?S1 = "S - room_cost (length path + 3)"
  let ?S2 = "?S1 - room_cost sizeof_HanaEntry - room_cost 512"
  let ?S3 = "?S2 - room_cost (length ?bs)"
  obtain A where A: "hf_room E S A (hf_heap st)" "entries_ok A (entries st)" "payload_len (entries st) \<le> pay"
    "F \<subseteq> A - set (concat (map owned (entries st)))"
    using inv by (auto simp: hf_frame_def)
  have cost: "room_cost (length path + 3) \<le> S" "room_cost sizeof_HanaEntry + room_cost 512 \<le> ?S1"
    "room_cost (length ?bs) \<le> ?S2" "room_cost (16 + (pay + call_bytes c)) \<le> ?S3"
    "S - call_cost pay c \<le> ?S3 - room_cost (16 + (pay + call_bytes c))"
    using c by (simp_all add: call_cost_def room_cost_def)
  obtain pb st1 where pb: "path_copy E path st = Some (pb, st1)" "pb \<noteq> 0" "pb \<notin> A"
    "hf_room E ?S1 (insert pb A) (hf_heap st1)" "entries st1 = entries st"
    by (rule path_copy_room [OF A(1) cost(1)])
  have r1: "entries_ok (insert pb A) (entries st1)"
    using pb(5) A(2) by (auto elim: entries_ok_mono)
  obtain st2 B where rm: "remove_entry_node (\<lambda>p. p = ?q) st1 = Some (hana_map (entries st1) ?q \<noteq> None, st2)"
    "hf_room E ?S1 B (hf_heap st2)" "entries_ok B (entries st2)"
    "hana_map (entries st2) = (hana_map (entries st1))(?q := None)"
    "payload_len (entries st2) \<le> payload_len (entries st1)"
    "B \<subseteq> insert pb A" "insert pb A - B \<subseteq> set (concat (map owned (entries st1)))" "set (entries st2) \<subseteq> set (entries st1)"
    by (rule remove_entry_node_room [OF pb(4) r1, of "\<lambda>p. p = ?q" ?q]) (rule refl)
  have F: "F \<subseteq> B - set (concat (map owned (entries st2)))"
    using A(4) rm(7,8) pb(5) by (auto 0 3)
  obtain e pp st3 st4 where nd: "hf_alloc E sizeof_HanaEntry st2 = Some (e, st3)"
    "strdup_k E ?q st3 = Some (pp, st4)" "e \<noteq> 0" "pp \<noteq> 0" "e \<noteq> pp" "e \<notin> B" "pp \<notin> B"
    "hf_room E ?S2 (insert pp (insert e B)) (hf_heap st4)" "entries st4 = entries st2"
    by (rule node_room [OF rm(2) cost(2) hana_ipath_length])
  let ?e = "new_entry e pp ?q False" and ?A4 = "insert pp (insert e B)"
  have B: "?A4 - set (owned ?e) = B" and own: "set (owned ?e) \<subseteq> ?A4" "distinct (owned ?e)"
    using nd(5-7) by auto
  obtain e' st5 where sd: "store_data E ?e buf len st4 = Some (Some e', st5)" "entries st5 = entries st4"
    "e_path e' = e_path ?e" "e_is_dir e' = e_is_dir ?e" "e_data e' = ?bs" "e_len e' = length ?bs"
    "distinct (owned e')" "set (owned e') \<inter> (?A4 - set (owned ?e)) = {}"
    "hf_room E ?S3 ((?A4 - set (owned ?e)) \<union> set (owned e')) (hf_heap st5)"
    by (rule store_data_room [OF nd(8) cost(3) len new_entry_simps(5-7) own])
  have ok': "entry_ok e'"
    using sd hana_ipath_length [of path] cstring_hana_ipath [OF path] c(1,2)
    by (simp add: entry_ok_def)
  have es: "entries st5 = entries st2" using sd(2) nd(9) by simp
  have len': "hana_record_len e' \<le> call_bytes c" "payload_len (entries st5) \<le> pay"
    using sd(3,4,6) c(1) hana_ipath_length [of path] rm(5) A(3) pb(5)
    by (simp_all add: hana_record_len_def call_bytes_def es)
  have absent: "hana_map (entries st5) (e_path e') = None" using rm(4) sd(3) es by simp
  obtain st' where fin: "(if ?q \<noteq> ''/hcsh_history'' \<and> persist_enabled (push_entry e' st5)
      then persist_quietly E (push_entry e' st5) else Some (push_entry e' st5)) = Some st'"
    "hana_map (entries st') = (hana_map (entries st5))(e_path e' \<mapsto> node_of e')"
    "hf_frame E (?S3 - room_cost (16 + (pay + call_bytes c))) (pay + call_bytes c) F st'"
    by (rule push_finish [OF sd(9) [unfolded B] rm(3) [folded es] ok' sd(7) sd(8) [unfolded B] absent
          len'(2,1) cost(4) F [folded es]])
  have "hanafs_write_file E (Some path) buf len st = Some (0, st')"
    using pb(2) nd(3) by (simp add: hanafs_write_file_def Let_def pb(1) rm(1) nd(1,2) sd(1) fin(1) del: if_split)
  moreover have "hana_map (entries st') = (hana_map (entries st))(?q \<mapsto> File ?bs)"
    using sd(3-5) rm(4) pb(5) es fin(2) by (simp add: node_of_def)
  ultimately show ?thesis using hf_frame_mono [OF fin(3) cost(5) order_refl] by blast
qed

lemma hf_frame_free:
  assumes "hf_frame E S pay F st" "p \<in> F"
  obtains h where "kfree p (hf_heap st) = Some h" "hf_frame E S pay (F - {p}) (st\<lparr>hf_heap := h\<rparr>)"
proof -
  obtain A where A: "hf_room E S A (hf_heap st)" "entries_ok A (entries st)" "F \<subseteq> A - set (concat (map owned (entries st)))"
    "payload_len (entries st) \<le> pay"
    using assms(1) by (auto simp: hf_frame_def)
  have p: "p \<in> A" "p \<noteq> 0" using assms(2) A(1,3) by (auto simp: hf_room_def)
  obtain h where h: "kfree p (hf_heap st) = Some h" "heap_room (hw_boot E) S (A - {p}) h"
    using rm.dealloc_room [of "hw_boot E" S A "hf_heap st" p] A(1) p by (auto simp: hf_room_def)
  have "entries_ok (A - {p}) (entries st)" using A(2,3) assms(2) by (auto simp: entries_ok_def)
  then have "hf_frame E S pay (F - {p}) (st\<lparr>hf_heap := h\<rparr>)"
    using A h(2) by (intro hf_frameI [of E S "A - {p}"]) (auto simp: hf_room_def)
  with h(1) show ?thesis by (rule that)
qed

lemmas write_file_law = write_file_frame [where F = "{}", unfolded hf_frame_empty]

text \<open>Reading the map through \<open>find_entry\<close>.\<close>

lemma find_entry_room:
  assumes "hf_room E S A (hf_heap st')" "entries_ok A (entries st)"
  shows "find_entry q st = Some (find (\<lambda>e. e_path e = q) (entries st))"
  using assms entries_ok_ptrs(1) by (auto simp: find_entry_def hf_room_def intro!: hana_find_ok)

text \<open>The second search of some operations, with the normalised path when there is no drive
  prefix, finds nothing new: the two paths are equal, or the normalised one is longer than
  every stored path.\<close>

lemma pbuf_matches:
  assumes "entries_ok A es" "e \<in> set es" "hana_drv path < 0"
  shows "e_path e = hana_pbuf path \<longrightarrow> e_path e = hana_ipath path"
proof -
  have "length (e_path e) < 512" using assms(1,2) by (auto simp: entries_ok_def list_all_iff entry_ok_def)
  with hana_ipath_no_drive [OF assms(3)] show ?thesis by auto
qed

lemma find_pbuf:
  assumes "entries_ok A es" "hana_drv path < 0" "find (\<lambda>e. e_path e = hana_ipath path) es = None"
  shows "find (\<lambda>e. e_path e = hana_pbuf path) es = None"
  using assms pbuf_matches [OF assms(1) _ assms(2)] by (force simp: find_None_iff)

lemma make_dir_law:
  assumes inv: "hf_inv E S pay st" and path: "cstring path"
    and c: "c = MkDir path" "call_cost pay c \<le> S"
  shows "\<exists>st'. hana_call E c st = Some (fst (fs_spec c (hana_map (entries st))), st') \<and>
    hana_map (entries st') = snd (fs_spec c (hana_map (entries st))) \<and>
    hf_inv E (S - call_cost pay c) (pay + call_bytes c) st'"
proof -
  let ?q = "hana_ipath path" and ?S1 = "S - room_cost (length path + 3)"
  let ?S2 = "?S1 - room_cost sizeof_HanaEntry - room_cost 512"
  obtain A where A: "hf_room E S A (hf_heap st)" "entries_ok A (entries st)" "payload_len (entries st) \<le> pay"
    using inv by (auto simp: hf_inv_def)
  have cost: "room_cost (length path + 3) \<le> S" "room_cost sizeof_HanaEntry + room_cost 512 \<le> ?S1"
    "room_cost (16 + (pay + call_bytes c)) \<le> ?S2"
    "S - call_cost pay c \<le> ?S2 - room_cost (16 + (pay + call_bytes c))" "S - call_cost pay c \<le> ?S1"
    using c by (simp_all add: call_cost_def room_cost_def)
  obtain pb st1 where pb: "path_copy E path st = Some (pb, st1)" "pb \<noteq> 0" "pb \<notin> A"
    "hf_room E ?S1 (insert pb A) (hf_heap st1)" "entries st1 = entries st"
    by (rule path_copy_room [OF A(1) cost(1)])
  have f: "find_entry q st1 = Some (find (\<lambda>e. e_path e = q) (entries st))" for q
    using find_entry_room [OF A(1), of st1] A(2) pb(5) by simp
  show ?thesis
  proof (cases "hana_map (entries st) ?q")
    case None
    then have n1: "find (\<lambda>e. e_path e = ?q) (entries st) = None" by (simp add: hana_map_find)
    have k1: "entries_ok (insert pb A) (entries st1)"
      using pb(5) A(2) by (auto elim: entries_ok_mono)
    obtain e pp st2 st3 where nd: "hf_alloc E sizeof_HanaEntry st1 = Some (e, st2)"
      "strdup_k E ?q st2 = Some (pp, st3)" "e \<noteq> 0" "pp \<noteq> 0" "e \<noteq> pp" "e \<notin> insert pb A" "pp \<notin> insert pb A"
      "hf_room E ?S2 (insert pp (insert e (insert pb A))) (hf_heap st3)" "entries st3 = entries st1"
      by (rule node_room [OF pb(4) cost(2) hana_ipath_length])
    let ?e = "new_entry e pp ?q True"
    have r3: "hf_room E ?S2 (insert pb A \<union> set (owned ?e)) (hf_heap st3)"
      using nd(8) by (simp add: insert_commute)
    have e: "entry_ok ?e" "distinct (owned ?e)" "set (owned ?e) \<inter> insert pb A = {}"
      "hana_map (entries st3) (e_path ?e) = None" "payload_len (entries st3) \<le> pay"
      "hana_record_len ?e \<le> call_bytes c"
      using nd(5-7,9) hana_ipath_length [of path] cstring_hana_ipath [OF path] None pb(5) A(3)
      by (simp_all add: entry_ok_def hana_record_len_def call_bytes_def)
    obtain st' where fin: "(if True then persist_quietly E (push_entry ?e st3) else Some (push_entry ?e st3)) = Some st'"
      "hana_map (entries st') = (hana_map (entries st3))(e_path ?e \<mapsto> node_of ?e)"
      "hf_inv E (?S2 - room_cost (16 + (pay + call_bytes c))) (pay + call_bytes c) st'"
      by (rule push_finish [OF r3 k1 [folded nd(9)] e cost(3) empty_subsetI, unfolded hf_frame_empty])
    have "hanafs_make_dir E (Some path) st = Some (0, st')"
      using n1 find_pbuf [OF A(2) _ n1] pb(2) nd(3) fin(1)
      by (simp add: hanafs_make_dir_def Let_def f pb(1) nd(1,2))
    with fin(2) None nd(9) pb(5) hf_inv_mono [OF fin(3) cost(4) order_refl] show ?thesis
      by (simp add: c(1) node_of_def)
  next
    case (Some a)
    then obtain e where n1: "find (\<lambda>e. e_path e = ?q) (entries st) = Some e" by (auto simp: hana_map_find)
    obtain st2 where fr: "hf_free pb st1 = Some st2" "hf_room E ?S1 (insert pb A - {pb}) (hf_heap st2)"
      "entries st2 = entries st1"
      by (rule hf_free_room [OF pb(4) insertI1])
    have "hanafs_make_dir E (Some path) st = Some (-1, st2)"
      using n1 pb(2) fr(1) by (simp add: hanafs_make_dir_def Let_def f pb(1))
    moreover have "hf_inv E (S - call_cost pay c) (pay + call_bytes c) st2"
      by (rule hf_invI [of _ ?S1 A]) (use fr(2,3) pb(3,5) A cost(5) in simp_all)
    ultimately show ?thesis using Some fr(3) pb(5) by (simp add: c(1))
  qed
qed

text \<open>Unlinking, with the live blocks named: besides the blocks of the removed entry none is
  released.\<close>

lemma unlink_room:
  assumes A: "hf_room E S A (hf_heap st)" "entries_ok A (entries st)" "payload_len (entries st) \<le> pay"
    and S: "room_cost (length path + 3) + room_cost (16 + pay) \<le> S"
  obtains rc st' B where "hanafs_unlink E (Some path) st = Some (rc, st')"
    "spec_unlink path (hana_map (entries st)) = (Status rc, hana_map (entries st'))"
    "hf_room E (S - room_cost (length path + 3) - room_cost (16 + pay)) B (hf_heap st')"
    "entries_ok B (entries st')" "payload_len (entries st') \<le> pay"
    "B \<subseteq> A" "A - B \<subseteq> set (concat (map owned (entries st)))" "set (entries st') \<subseteq> set (entries st)"
proof -
  let ?q = "hana_ipath path" and ?S1 = "S - room_cost (length path + 3)"
  let ?P = "\<lambda>p. p = ?q \<or> (hana_drv path < 0 \<and> p = hana_pbuf path)"
  have cost: "room_cost (length path + 3) \<le> S" "room_cost (16 + pay) \<le> ?S1" using S by simp_all
  obtain pb st1 where pb: "path_copy E path st = Some (pb, st1)" "pb \<noteq> 0" "pb \<notin> A"
    "hf_room E ?S1 (insert pb A) (hf_heap st1)" "entries st1 = entries st"
    by (rule path_copy_room [OF A(1) cost(1)])
  have k1: "entries_ok (insert pb A) (entries st1)"
    using pb(5) A(2) by (auto elim: entries_ok_mono)
  obtain st2 B where rm: "remove_entry_node ?P st1 = Some (hana_map (entries st1) ?q \<noteq> None, st2)"
    "hf_room E ?S1 B (hf_heap st2)" "entries_ok B (entries st2)"
    "hana_map (entries st2) = (hana_map (entries st1))(?q := None)"
    "payload_len (entries st2) \<le> payload_len (entries st1)"
    "B \<subseteq> insert pb A" "insert pb A - B \<subseteq> set (concat (map owned (entries st1)))"
    "set (entries st2) \<subseteq> set (entries st1)"
    by (rule remove_entry_node_room [OF pb(4) k1, of ?P ?q]) (use pbuf_matches [OF k1] in blast)
  have own: "pb \<notin> set (concat (map owned (entries st)))" using A(2) pb(3) by (auto simp: entries_ok_def)
  then have pB: "pb \<in> B" using rm(7) pb(5) by auto
  have ok2: "entries_ok (B - {pb}) (entries st2)"
    using entries_ok_drop [OF rm(3,8)] own pb(5) by simp
  have p2: "payload_len (entries st2) \<le> pay" using rm(5) A(3) pb(5) by simp
  obtain st3 where f3: "(if hana_map (entries st1) ?q \<noteq> None then persist_quietly E st2 else Some st2) = Some st3"
    "entries st3 = entries st2" "hf_room E (?S1 - room_cost (16 + pay)) B (hf_heap st3)"
    by (rule finish_room [OF rm(2,3) p2 cost(2)])
  obtain st4 where f4: "hf_free pb st3 = Some st4" "hf_room E (?S1 - room_cost (16 + pay)) (B - {pb}) (hf_heap st4)"
    "entries st4 = entries st3"
    by (rule hf_free_room [OF f3(3) pB])
  let ?rc = "if hana_map (entries st) ?q \<noteq> None then 0 else -1 :: int"
  have u1: "hanafs_unlink E (Some path) st = Some (?rc, st4)"
    using pb(2,5) f3(1) f4(1)
    by (cases "hana_map (entries st) ?q") (simp_all add: hanafs_unlink_def pb(1) rm(1))
  have u2: "spec_unlink path (hana_map (entries st)) = (Status ?rc, hana_map (entries st4))"
    using f4(3) f3(2) rm(4) pb(5) by (simp add: spec_unlink_def fun_upd_idem)
  have u3: "B - {pb} \<subseteq> A" "A - (B - {pb}) \<subseteq> set (concat (map owned (entries st)))"
    using rm(6,7) pb(3,5) by auto
  show ?thesis
    by (rule that [OF u1 u2 f4(2) _ _ u3]) (use ok2 p2 f3(2) f4(3) rm(8) pb(5) in simp_all)
qed

lemma hana_callI:
  assumes "hana_call E c st = Some (fst (fs_spec c (hana_map (entries st))), st')"
    and "hana_map (entries st') = snd (fs_spec c (hana_map (entries st)))"
    and "hf_room E T A (hf_heap st')" "S - call_cost pay c \<le> T" "entries_ok A (entries st')"
    and "payload_len (entries st') \<le> pay + call_bytes c"
  shows "\<exists>st'. hana_call E c st = Some (fst (fs_spec c (hana_map (entries st))), st') \<and>
    hana_map (entries st') = snd (fs_spec c (hana_map (entries st))) \<and>
    hf_inv E (S - call_cost pay c) (pay + call_bytes c) st'"
  using assms hf_invI by blast

lemma unlink_law:
  assumes inv: "hf_inv E S pay st" and c: "c = Unlink path" "call_cost pay c \<le> S"
  shows "\<exists>st'. hana_call E c st = Some (fst (fs_spec c (hana_map (entries st))), st') \<and>
    hana_map (entries st') = snd (fs_spec c (hana_map (entries st))) \<and>
    hf_inv E (S - call_cost pay c) (pay + call_bytes c) st'"
proof -
  obtain A where A: "hf_room E S A (hf_heap st)" "entries_ok A (entries st)" "payload_len (entries st) \<le> pay"
    using inv by (auto simp: hf_inv_def)
  have cost: "room_cost (length path + 3) + room_cost (16 + pay) \<le> S"
    "S - call_cost pay c \<le> S - room_cost (length path + 3) - room_cost (16 + pay)"
    using c by (simp_all add: call_cost_def room_cost_def)
  obtain rc st' B where u: "hanafs_unlink E (Some path) st = Some (rc, st')"
    "spec_unlink path (hana_map (entries st)) = (Status rc, hana_map (entries st'))"
    "hf_room E (S - room_cost (length path + 3) - room_cost (16 + pay)) B (hf_heap st')"
    "entries_ok B (entries st')" "payload_len (entries st') \<le> pay"
    by (rule unlink_room [OF A cost(1)])
  show ?thesis
    by (rule hana_callI [OF _ _ u(3) cost(2) u(4)]) (use u c(1) in simp_all)
qed

lemma has_children_ok:
  "(\<And>e. e \<in> set es \<Longrightarrow> e_path_ptr e \<noteq> 0) \<Longrightarrow>
     has_children q pb d es = Some (\<exists>e\<in>set es. below q (e_path e) \<or> d \<le> 0 \<and> e_path e \<noteq> q \<and> below pb (e_path e))"
proof (induction es)
  case (Cons e es)
  have nb: "\<not> below x x" for x by (simp add: below_def c_at_def slash_def NUL_def)
  have "has_children q pb d (e # es) =
      (if below q (e_path e) \<or> d \<le> 0 \<and> e_path e \<noteq> q \<and> below pb (e_path e) then Some True else has_children q pb d es)"
    using Cons.prems [of e] nb [of q] nb [of pb]
    unfolding has_children.simps below_def [symmetric] by auto
  then show ?case using Cons by (simp del: has_children.simps) blast
qed simp

lemma remove_dir_law:
  assumes inv: "hf_inv E S pay st" and c: "c = RmDir path" "call_cost pay c \<le> S"
  shows "\<exists>st'. hana_call E c st = Some (fst (fs_spec c (hana_map (entries st))), st') \<and>
    hana_map (entries st') = snd (fs_spec c (hana_map (entries st))) \<and>
    hf_inv E (S - call_cost pay c) (pay + call_bytes c) st'"
proof -
  let ?q = "hana_ipath path" and ?p = "hana_pbuf path" and ?S1 = "S - room_cost (length path + 3)"
  define ch where "ch \<longleftrightarrow> (\<exists>e\<in>set (entries st). below ?q (e_path e) \<or>
    hana_drv path \<le> 0 \<and> e_path e \<noteq> ?q \<and> below ?p (e_path e))"
  obtain A where A: "hf_room E S A (hf_heap st)" "entries_ok A (entries st)" "payload_len (entries st) \<le> pay"
    using inv by (auto simp: hf_inv_def)
  have cost: "room_cost (length path + 3) \<le> S" "room_cost (length ?p + 3) + room_cost (16 + pay) \<le> ?S1"
    "S - call_cost pay c \<le> ?S1 - room_cost (length ?p + 3) - room_cost (16 + pay)" "S - call_cost pay c \<le> ?S1"
    using c hana_pbuf_length [of path] by (simp_all add: call_cost_def room_cost_def sizeof_HanaEntry_def)
  obtain pb st1 where pb: "path_copy E path st = Some (pb, st1)" "pb \<noteq> 0" "pb \<notin> A"
    "hf_room E ?S1 (insert pb A) (hf_heap st1)" "entries st1 = entries st"
    by (rule path_copy_room [OF A(1) cost(1)])
  have ch: "has_children ?q ?p (hana_drv path) (entries st1) = Some ch"
    using entries_ok_ptrs(1) [OF A(2)] A(1) by (simp add: pb(5) hf_room_def has_children_ok ch_def)
  have spec: "fs_spec (RmDir path) (hana_map (entries st)) =
      (if ch then (Status (-1), hana_map (entries st)) else spec_unlink ?p (hana_map (entries st)))"
    by (simp add: dom_hana_map ch_def)
  show ?thesis
  proof (cases ch)
    case True
    obtain st2 where fr: "hf_free pb st1 = Some st2" "hf_room E ?S1 (insert pb A - {pb}) (hf_heap st2)"
      "entries st2 = entries st1"
      by (rule hf_free_room [OF pb(4) insertI1])
    have "hanafs_remove_dir E (Some path) st = Some (-1, st2)"
      using True pb(2) fr(1) by (simp add: hanafs_remove_dir_def pb(1) ch)
    with True show ?thesis
      by (intro hana_callI [OF _ _ fr(2) cost(4)]) (use A fr(3) pb(3,5) in \<open>simp_all add: spec c(1) del: fs_spec.simps\<close>)
  next
    case False
    have k1: "entries_ok (insert pb A) (entries st1)" "payload_len (entries st1) \<le> pay"
      using pb(5) A(2,3) by (auto elim: entries_ok_mono)
    obtain rc st2 B where u: "hanafs_unlink E (Some ?p) st1 = Some (rc, st2)"
      "spec_unlink ?p (hana_map (entries st1)) = (Status rc, hana_map (entries st2))"
      "hf_room E (?S1 - room_cost (length ?p + 3) - room_cost (16 + pay)) B (hf_heap st2)"
      "entries_ok B (entries st2)" "payload_len (entries st2) \<le> pay"
      "B \<subseteq> insert pb A" "insert pb A - B \<subseteq> set (concat (map owned (entries st1)))"
      "set (entries st2) \<subseteq> set (entries st1)"
      by (rule unlink_room [OF pb(4) k1 cost(2)])
    have own: "pb \<notin> set (concat (map owned (entries st)))" using A(2) pb(3) by (auto simp: entries_ok_def)
    then have pB: "pb \<in> B" using u(7) pb(5) by auto
    obtain st3 where fr: "hf_free pb st2 = Some st3"
      "hf_room E (?S1 - room_cost (length ?p + 3) - room_cost (16 + pay)) (B - {pb}) (hf_heap st3)"
      "entries st3 = entries st2"
      by (rule hf_free_room [OF u(3) pB])
    have "hanafs_remove_dir E (Some path) st = Some (rc, st3)"
      using False pb(2) fr(1) by (simp add: hanafs_remove_dir_def pb(1) ch u(1))
    moreover have "entries_ok (B - {pb}) (entries st3)"
      using entries_ok_drop [OF u(4,8)] own pb(5) fr(3) by simp
    ultimately show ?thesis
      by (intro hana_callI [OF _ _ fr(2) cost(3)])
        (use False u(2,5) fr(3) pb(5) in \<open>simp_all add: spec c(1) del: fs_spec.simps\<close>)
  qed
qed

lemma record_in_payload: "e \<in> set es \<Longrightarrow> hana_record_len e \<le> payload_len es"
  unfolding payload_len_def by (intro member_le_sum_list) auto

lemma read_law:
  assumes inv: "hf_inv E S pay st" and c: "c = Read path" "call_cost pay c \<le> S"
  shows "\<exists>st'. hana_call E c st = Some (fst (fs_spec c (hana_map (entries st))), st') \<and>
    hana_map (entries st') = snd (fs_spec c (hana_map (entries st))) \<and>
    hf_inv E (S - call_cost pay c) (pay + call_bytes c) st'"
proof -
  let ?q = "hana_ipath path" and ?S1 = "S - room_cost (length path + 3)"
  obtain A where A: "hf_room E S A (hf_heap st)" "entries_ok A (entries st)" "payload_len (entries st) \<le> pay"
    using inv by (auto simp: hf_inv_def)
  have cost: "room_cost (length path + 3) \<le> S" "S - call_cost pay c \<le> ?S1"
    using c by (simp_all add: call_cost_def room_cost_def)
  obtain pb st1 where pb: "path_copy E path st = Some (pb, st1)" "pb \<noteq> 0" "pb \<notin> A"
    "hf_room E ?S1 (insert pb A) (hf_heap st1)" "entries st1 = entries st"
    by (rule path_copy_room [OF A(1) cost(1)])
  have f: "find_entry ?q st1 = Some (find (\<lambda>e. e_path e = ?q) (entries st))"
    using find_entry_room [OF A(1), of st1] A(2) pb(5) by simp
  have k1: "entries_ok (insert pb A) (entries st1)"
    using pb(5) A(2) by (auto elim: entries_ok_mono)
  show ?thesis
  proof (cases "\<exists>e. find (\<lambda>e. e_path e = ?q) (entries st) = Some e \<and> \<not> e_is_dir e")
    case False
    then have "hanafs_get_file_alloc E (Some path) st = Some (None, st1)"
      using pb(2) by (auto simp: hanafs_get_file_alloc_def pb(1) f split: option.splits)
    moreover have "fs_spec c (hana_map (entries st)) = (Data None, hana_map (entries st))"
      using False by (auto simp: c(1) hana_map_find node_of_def split: option.splits)
    ultimately show ?thesis
      by (intro hana_callI [OF _ _ pb(4) cost(2) k1]) (use pb(5) A(3) in \<open>simp_all add: c(1)\<close>)
  next
    case True
    then obtain e where e: "find (\<lambda>e. e_path e = ?q) (entries st) = Some e" "\<not> e_is_dir e" by blast
    then have "e \<in> set (entries st)" by (auto simp: find_Some_iff)
    then have len: "length (e_data e) = e_len e" "e_len e + 7 \<le> pay"
      using A(2,3) record_in_payload [of e "entries st"] e(2)
      by (auto simp: entries_ok_def list_all_iff entry_ok_def hana_record_len_def)
    let ?n = "if e_len e \<noteq> 0 then e_len e else 1"
    have n: "0 < ?n" "room_cost ?n \<le> ?S1" "S - call_cost pay c \<le> ?S1 - room_cost ?n"
      using len(2) c by (auto simp: call_cost_def room_cost_def sizeof_HanaEntry_def)
    obtain p st2 where p: "hf_alloc E ?n st1 = Some (p, st2)" "p \<noteq> 0" "p \<notin> insert pb A"
      "hf_room E (?S1 - room_cost ?n) (insert p (insert pb A)) (hf_heap st2)" "entries st2 = entries st1"
      by (rule hf_alloc_room [OF pb(4) n(1,2)])
    obtain st3 where fr: "hf_free pb st2 = Some st3"
      "hf_room E (?S1 - room_cost ?n) (insert p (insert pb A) - {pb}) (hf_heap st3)" "entries st3 = entries st2"
      by (rule hf_free_room [OF p(4)]) (rule insertI2, rule insertI1)
    have "hanafs_get_file_alloc E (Some path) st = Some (Some (p, e_data e), st3)"
      using pb(2) e len(1) p(1,2) fr(1)
      by (simp add: hanafs_get_file_alloc_def pb(1) f split del: if_split)
    moreover have "fs_spec c (hana_map (entries st)) = (Data (Some (e_data e)), hana_map (entries st))"
      using e by (simp add: c(1) hana_map_find node_of_def)
    moreover have "entries_ok (insert p (insert pb A) - {pb}) (entries st3)"
      using A(2) fr(3) p(5) pb(3,5) by (auto elim!: entries_ok_mono)
    ultimately show ?thesis
      by (intro hana_callI [OF _ _ fr(2) n(3)]) (use fr(3) p(5) pb(5) A(3) in \<open>simp_all add: c(1)\<close>)
  qed
qed

lemma stat_law:
  assumes inv: "hf_inv E S pay st" and c: "c = Stat path" "call_cost pay c \<le> S"
  shows "\<exists>st'. hana_call E c st = Some (fst (fs_spec c (hana_map (entries st))), st') \<and>
    hana_map (entries st') = snd (fs_spec c (hana_map (entries st))) \<and>
    hf_inv E (S - call_cost pay c) (pay + call_bytes c) st'"
proof -
  let ?q = "hana_ipath path" and ?S1 = "S - room_cost (length path + 3)"
  let ?r = "find (\<lambda>e. e_path e = ?q) (entries st)"
  obtain A where A: "hf_room E S A (hf_heap st)" "entries_ok A (entries st)" "payload_len (entries st) \<le> pay"
    using inv by (auto simp: hf_inv_def)
  have cost: "room_cost (length path + 3) \<le> S" "S - call_cost pay c \<le> ?S1"
    using c by (simp_all add: call_cost_def room_cost_def)
  obtain pb st1 where pb: "path_copy E path st = Some (pb, st1)" "pb \<noteq> 0" "pb \<notin> A"
    "hf_room E ?S1 (insert pb A) (hf_heap st1)" "entries st1 = entries st"
    by (rule path_copy_room [OF A(1) cost(1)])
  have f: "find_entry q st1 = Some (find (\<lambda>e. e_path e = q) (entries st))" for q
    using find_entry_room [OF A(1), of st1] A(2) pb(5) by simp
  obtain st2 where fr: "hf_free pb st1 = Some st2" "hf_room E ?S1 (insert pb A - {pb}) (hf_heap st2)"
    "entries st2 = entries st1"
    by (rule hf_free_room [OF pb(4) insertI1])
  have "hana_call E c st = Some (Info (map_option (\<lambda>e. (e_len e, e_is_dir e)) ?r), st2)"
    using pb(2) find_pbuf [OF A(2), of path] fr(1)
    by (cases ?r) (simp_all add: c(1) hanafs_stat_def pb(1) f)
  moreover have "length (e_data e) = e_len e \<and> (e_is_dir e \<longrightarrow> e_len e = 0)" if "?r = Some e" for e
    using that A(2) by (auto simp: find_Some_iff entries_ok_def list_all_iff entry_ok_def)
  then have "fs_spec c (hana_map (entries st)) =
      (Info (map_option (\<lambda>e. (e_len e, e_is_dir e)) ?r), hana_map (entries st))"
    by (cases ?r) (auto simp: c(1) hana_map_find node_of_def)
  ultimately show ?thesis
    by (intro hana_callI [OF _ _ fr(2) cost(2)]) (use fr(3) pb(3,5) A in simp_all)
qed

text \<open>The operations of HanaFS meet the contract.\<close>

lemma hana_call_law:
  assumes inv: "hf_inv E S pay st" and ok: "call_ok c" and S: "call_cost pay c \<le> S"
  shows "\<exists>st'. hana_call E c st = Some (fst (fs_spec c (hana_map (entries st))), st') \<and>
    hana_map (entries st') = snd (fs_spec c (hana_map (entries st))) \<and>
    hf_inv E (S - call_cost pay c) (pay + call_bytes c) st'"
proof (cases c)
  case (Write p bs)
  have "stored_bytes (Some bs) (length bs) = bs" by (simp add: stored_bytes_def)
  with write_file_law [OF inv, of p "length bs" "Some bs" c] Write ok S show ?thesis
    by (auto simp: call_ok_def)
next
  case (Create p)
  have cost: "call_cost pay (Write p []) = call_cost pay c" "call_bytes (Write p []) = call_bytes c"
    by (simp_all add: Create call_cost_def call_bytes_def)
  have "stored_bytes None 0 = []" by (simp add: stored_bytes_def)
  with write_file_law [OF inv, of p 0 None "Write p []"] ok S cost show ?thesis
    by (auto simp: Create call_ok_def hanafs_create_file_def)
qed (use make_dir_law [OF inv _ _ S] unlink_law [OF inv _ S] remove_dir_law [OF inv _ S] read_law [OF inv _ S]
    stat_law [OF inv _ S] ok in \<open>simp_all add: call_ok_def del: hana_call.simps fs_spec.simps\<close>)

interpretation hana: file_store "hana_call E" "\<lambda>st. hana_map (entries st)" "hf_inv E"
  by unfold_locales (rule hana_call_law)

primrec hana_calls :: "'d hw \<Rightarrow> fs_call list \<Rightarrow> 'd hanafs \<Rightarrow> (fs_result list \<times> 'd hanafs) option" where
  "hana_calls E [] st = Some ([], st)"
| "hana_calls E (c # cs) st = do {
     (r, st1) \<leftarrow> hana_call E c st;
     (rs, st2) \<leftarrow> hana_calls E cs st1;
     Some (r # rs, st2)
   }"

lemma hana_calls_eq: "hana.calls E cs st = hana_calls E cs st"
  by (induction cs arbitrary: st) simp_all

section \<open>Initialisation\<close>

lemma make_root_room:
  assumes A: "hf_room E S A (hf_heap st)" and S: "room_cost sizeof_HanaEntry + room_cost 512 \<le> S"
    and e: "entries st = []"
  obtains st' B where "make_root E st = Some (True, st')" "hana_map (entries st') = [''/'' \<mapsto> Dir]"
    "hf_room E (S - room_cost sizeof_HanaEntry - room_cost 512) B (hf_heap st')"
    "entries_ok B (entries st')" "payload_len (entries st') = 8" "hf_disk st' = hf_disk st" "A \<subseteq> B"
proof -
  obtain p pp st1 st2 where nd: "hf_alloc E sizeof_HanaEntry st = Some (p, st1)"
    "strdup_k E ''/'' st1 = Some (pp, st2)" "p \<noteq> 0" "pp \<noteq> 0" "p \<noteq> pp" "p \<notin> A" "pp \<notin> A"
    "hf_room E (S - room_cost sizeof_HanaEntry - room_cost 512) (insert pp (insert p A)) (hf_heap st2)"
    "entries st2 = entries st" "hf_disk st2 = hf_disk st"
    by (rule node_room [OF A S, of "''/''"]) simp
  let ?e = "new_entry p pp ''/'' True" and ?B = "insert pp (insert p A)"
  show ?thesis
  proof (rule that [of "st2\<lparr>entries := [?e]\<rparr>" ?B])
    show "make_root E st = Some (True, st2\<lparr>entries := [?e]\<rparr>)"
      using nd(1-4) by (simp add: make_root_def)
    show "entries_ok ?B (entries (st2\<lparr>entries := [?e]\<rparr>))"
      using nd(5) by (simp add: entries_ok_def entry_ok_def NUL_def)
  qed (use nd in \<open>auto simp: node_of_def hana_record_len_def\<close>)
qed

definition top_dirs :: "fs_call list" where
  "top_dirs = [MkDir ''/bin'', MkDir ''/dev'', MkDir ''/proc'', MkDir ''/home'']"

definition init_cost :: nat where
  "init_cost = room_cost sizeof_HanaEntry + room_cost 512 + calls_cost 8 top_dirs"

lemma hanafs_init_room:
  assumes "hf_inv E S pay st" "entries st = []" "init_cost \<le> S"
  shows "\<exists>st'. hanafs_init E st = Some (0, st') \<and>
    hana_map (entries st') = [''/'' \<mapsto> Dir, ''/bin'' \<mapsto> Dir, ''/dev'' \<mapsto> Dir, ''/proc'' \<mapsto> Dir, ''/home'' \<mapsto> Dir] \<and>
    hf_inv E (S - init_cost) 2080 st'"
proof -
  let ?S1 = "S - room_cost sizeof_HanaEntry - room_cost 512"
  obtain A where A: "hf_room E S A (hf_heap st)" using assms(1) by (auto simp: hf_inv_def)
  have cost: "room_cost sizeof_HanaEntry + room_cost 512 \<le> S" "calls_cost 8 top_dirs \<le> ?S1"
    using assms(3) by (simp_all add: init_cost_def)
  obtain st1 B where r: "make_root E st = Some (True, st1)" "hana_map (entries st1) = [''/'' \<mapsto> Dir]"
    "hf_room E ?S1 B (hf_heap st1)" "entries_ok B (entries st1)" "payload_len (entries st1) = 8"
    by (rule make_root_room [OF A cost(1) assms(2)])
  have "hf_inv E ?S1 8 st1" by (rule hf_invI [OF r(3) order_refl r(4)]) (simp add: r(5))
  moreover have "list_all call_ok top_dirs" by (simp add: top_dirs_def call_ok_def NUL_def)
  ultimately obtain st' where c: "hana_calls E top_dirs st1 = Some (fst (spec_calls top_dirs [''/'' \<mapsto> Dir]), st')"
    "hana_map (entries st') = snd (spec_calls top_dirs [''/'' \<mapsto> Dir])"
    "hf_inv E (?S1 - calls_cost 8 top_dirs) (8 + sum_list (map call_bytes top_dirs)) st'"
    using hana.calls_refine [OF _ _ cost(2), of E st1] by (auto simp: r(2) hana_calls_eq)
  have q: "hana_ipath ''/bin'' = ''/bin''" "hana_ipath ''/dev'' = ''/dev''"
    "hana_ipath ''/proc'' = ''/proc''" "hana_ipath ''/home'' = ''/home''"
    by code_simp+
  have "hanafs_init E st = Some (0, st')"
    using assms(2) c(1)
    by (auto simp: hanafs_init_def r(1) top_dirs_def bind_eq_Some_conv simp del: spec_calls.simps)
  moreover have "hana_map (entries st') = [''/'' \<mapsto> Dir, ''/bin'' \<mapsto> Dir, ''/dev'' \<mapsto> Dir, ''/proc'' \<mapsto> Dir, ''/home'' \<mapsto> Dir]"
    by (simp add: c(2) top_dirs_def q)
  moreover have "8 + sum_list (map call_bytes top_dirs) = 2080"
    by (simp add: top_dirs_def call_bytes_def)
  moreover have "?S1 - calls_cost 8 top_dirs = S - init_cost"
    by (simp add: init_cost_def)
  ultimately show ?thesis using c(3) by auto
qed

section \<open>Listing a directory\<close>

lemma child_name_Some:
  "child_name n p = Some c \<longleftrightarrow>
     slash \<notin> set c \<and> (drop n p = c \<and> c \<noteq> [] \<or> drop n p = slash # c)"
  by (cases "drop n p") (auto simp: child_name_def Let_def)

definition is_child :: "string \<Rightarrow> string \<Rightarrow> string \<Rightarrow> bool" where
  "is_child d q n \<longleftrightarrow> slash \<notin> set n \<and> (q = d @ n \<and> n \<noteq> [] \<or> q = d @ slash # n)"

lemma child_name_prefix:
  "take (length d) q = d \<Longrightarrow> child_name (length d) q = Some c \<longleftrightarrow> is_child d q c"
  by (auto simp: child_name_Some is_child_def) (metis append_take_drop_id)+

lemma list_children_ok:
  assumes "\<And>e. e \<in> set es \<Longrightarrow> e_path_ptr e \<noteq> 0"
    and "\<And>e. e \<in> set es \<Longrightarrow> dr < 0 \<Longrightarrow> take (length pb) (e_path e) = pb \<Longrightarrow> pb = d"
  shows "\<exists>names. list_children d pb dr es = Some names \<and>
    set names = {n. \<exists>e\<in>set es. is_child d (e_path e) n}"
  using assms
proof (induction es)
  case (Cons e es)
  then obtain names where n: "list_children d pb dr es = Some names"
    "set names = {n. \<exists>e\<in>set es. is_child d (e_path e) n}" by auto
  let ?own = "if take (length d) (e_path e) = d
    then (case child_name (length d) (e_path e) of Some c \<Rightarrow> [c] | None \<Rightarrow> []) else []"
  have "list_children d pb dr (e # es) = Some (?own @ names)"
    using n(1) Cons.prems(1) [of e] Cons.prems(2) [of e] by auto
  moreover have "c \<in> set ?own \<longleftrightarrow> is_child d (e_path e) c" for c
  proof (cases "take (length d) (e_path e) = d")
    case True
    then have "c \<in> set ?own \<longleftrightarrow> child_name (length d) (e_path e) = Some c"
      by (simp split: option.split) (rule eq_commute)
    then show ?thesis by (simp only: child_name_prefix [OF True])
  next
    case False
    then show ?thesis by (auto simp: is_child_def)
  qed
  then have "set (?own @ names) = {n. \<exists>e\<in>set (e # es). is_child d (e_path e) n}"
    by (simp only: set_eq_iff mem_Collect_eq set_append Un_iff n(2) list.set bex_simps) blast
  ultimately show ?case by blast
qed simp

lemma pbuf_prefix:
  assumes "entry_ok e" "hana_drv path < 0" "take (length (hana_pbuf path)) (e_path e) = hana_pbuf path"
  shows "hana_pbuf path = hana_ipath path"
proof -
  have "length (hana_pbuf path) \<le> length (e_path e)"
    by (metis assms(3) length_take min.cobounded1)
  with assms(1) hana_ipath_no_drive [OF assms(2)] show ?thesis by (simp add: entry_ok_def)
qed

section \<open>A running system\<close>

definition ide_hw :: "boot_env \<Rightarrow> ata ide hw" where
  "ide_hw env = \<lparr>hw_boot = env, hw_rd = ata_read_sector ata_ports, hw_wr = ata_write_sector ata_ports,
     hw_rdd = ata_read_sector_drive ata_ports,
     hw_count = \<lambda>s. case ata_get_sector_count ata_ports (ide_dev s) of (n, d) \<Rightarrow> (n, s\<lparr>ide_dev := d\<rparr>)\<rparr>"

definition demo_fs :: "ata ide hanafs" where
  "demo_fs = \<lparr>hf_heap = heap_init demo_env 0x100000 heap_boot, entries = [], loaded_from_ata = False,
     persist_enabled = True, hf_disk = demo_disk\<rparr>"

lemma demo_fs_inv: "hf_inv (ide_hw demo_env) 1048576 0 demo_fs"
proof -
  have "boot_ok demo_env 0" using demo_boot_ok by (auto simp: boot_ok_def bump_ok_def Let_def)
  then have "heap_room demo_env 1048576 {} (heap_init demo_env 0x100000 heap_boot)"
    by (rule heap_init_room) simp_all
  then show ?thesis
    by (intro hf_invI [of _ 1048576 "{}"]) (simp_all add: hf_room_def ide_hw_def demo_fs_def entries_ok_def)
qed

section \<open>Properties\<close>

text \<open>C2. HanaFS is a file system: as long as the heap has room, every sequence of writes,
  creations, directory creations and removals, unlinks, reads and status queries returns, with
  exactly the results and the final contents of a finite map from internal paths to files and
  directories.\<close>

theorem hana_calls_refine:
  assumes "hf_inv E S pay st" and "list_all call_ok cs" and "calls_cost pay cs \<le> S"
  shows "\<exists>st'. hana_calls E cs st = Some (fst (spec_calls cs (hana_map (entries st))), st') \<and>
    hana_map (entries st') = snd (spec_calls cs (hana_map (entries st)))"
  using hana.calls_refine [OF assms] by (auto simp: hana_calls_eq)

theorem hana_calls_refine_witness:
  "\<exists>st'. hana_calls (ide_hw demo_env)
      [MkDir ''/d'', Write ''/d/a/'' [1, 2], Read ''d/a'', RmDir ''/d'', Unlink ''/d/a'', RmDir ''/d'', Stat ''/d''] demo_fs =
    Some ([Status 0, Status 0, Data (Some [1, 2]), Status (-1), Status 0, Status 0, Info None], st')"
proof -
  let ?cs = "[MkDir ''/d'', Write ''/d/a/'' [1, 2], Read ''d/a'', RmDir ''/d'', Unlink ''/d/a'', RmDir ''/d'', Stat ''/d'']"
  have ok: "list_all call_ok ?cs" "calls_cost 0 ?cs \<le> 1048576"
    by (simp_all add: call_ok_def NUL_def cost_simps)
  have q: "hana_ipath ''/d'' = ''/d''" "hana_ipath ''/d/a/'' = ''/d/a''" "hana_ipath ''d/a'' = ''/d/a''"
    "hana_ipath ''/d/a'' = ''/d/a''" "hana_pbuf ''/d'' = ''/d''" "hana_drv ''/d'' = -1"
    "below ''/d'' ''/d/a''" "\<not> below ''/d'' ''/d''"
    by code_simp+
  have e: "hana_map (entries demo_fs) = Map.empty" by (simp add: demo_fs_def)
  have r: "fst (spec_calls ?cs Map.empty) =
      [Status 0, Status 0, Data (Some [1, 2]), Status (-1), Status 0, Status 0, Info None]"
    by (simp add: q spec_unlink_def)
  from hana_calls_refine [OF demo_fs_inv ok] show ?thesis unfolding e r by blast
qed

text \<open>Initialisation: on an empty list of entries \<open>hanafs_init\<close> succeeds and leaves the
  root and the four top-level directories, nothing else.\<close>

lemma hanafs_init_spec:
  assumes "hf_inv E S pay st" and "entries st = []" and "init_cost \<le> S"
  shows "\<exists>st'. hanafs_init E st = Some (0, st') \<and>
    hana_map (entries st') = [''/'' \<mapsto> Dir, ''/bin'' \<mapsto> Dir, ''/dev'' \<mapsto> Dir, ''/proc'' \<mapsto> Dir, ''/home'' \<mapsto> Dir] \<and>
    hf_inv E (S - init_cost) 2080 st'"
  using hanafs_init_room [OF assms] .

lemma init_cost_bound: "init_cost \<le> 16384"
  by (simp add: init_cost_def top_dirs_def cost_simps)

lemma hanafs_list_dir_ok:
  assumes inv: "hf_inv E S pay st" and S: "room_cost (length path + 3) \<le> S"
  obtains names st' where "hanafs_list_dir E (Some path) st = Some (0, names, st')" "entries st' = entries st"
    "set names = {n. \<exists>q\<in>dom (hana_map (entries st)). is_child (hana_ipath path) q n}"
    "hf_inv E (S - room_cost (length path + 3)) pay st'"
proof -
  obtain A where A: "hf_room E S A (hf_heap st)" "entries_ok A (entries st)"
    using inv by (auto simp: hf_inv_def)
  obtain pb st1 where pb: "path_copy E path st = Some (pb, st1)" "pb \<noteq> 0"
    "hf_room E (S - room_cost (length path + 3)) (insert pb A) (hf_heap st1)" "entries st1 = entries st" "pb \<notin> A"
    by (rule path_copy_room [OF A(1) S])
  have ok: "e_path_ptr e \<noteq> 0" "entry_ok e" if "e \<in> set (entries st)" for e
    using that entries_ok_ptrs(1) [OF A(2)] A by (auto simp: hf_room_def entries_ok_def list_all_iff)
  obtain names where n: "list_children (hana_ipath path) (hana_pbuf path) (hana_drv path) (entries st) = Some names"
    "set names = {n. \<exists>e\<in>set (entries st). is_child (hana_ipath path) (e_path e) n}"
    using list_children_ok [of "entries st" "hana_drv path" "hana_pbuf path" "hana_ipath path"] ok pbuf_prefix
    by blast
  obtain st2 where fr: "hf_free pb st1 = Some st2" "entries st2 = entries st1"
    "hf_room E (S - room_cost (length path + 3)) (insert pb A - {pb}) (hf_heap st2)"
    by (rule hf_free_room [OF pb(3) insertI1])
  have "hanafs_list_dir E (Some path) st = Some (0, names, st2)"
    using pb(2) n(1) fr(1) by (simp add: hanafs_list_dir_def pb(1,4))
  moreover have "entries st2 = entries st" using fr(2) pb(4) by simp
  moreover have "set names = {n. \<exists>q\<in>dom (hana_map (entries st)). is_child (hana_ipath path) q n}"
    unfolding n(2) dom_hana_map by blast
  moreover have "hf_inv E (S - room_cost (length path + 3)) pay st2"
  proof -
    have "insert pb A - {pb} = A" "entries st2 = entries st" using pb(4,5) fr(2) by auto
    with inv A(2) fr(3) show ?thesis unfolding hf_inv_def by auto
  qed
  ultimately show ?thesis by (rule that)
qed

text \<open>C37. Listing: \<open>hanafs_list_dir\<close> succeeds, changes nothing, and reports exactly the names
  without a slash that follow the directory's internal path, with or without a slash between.
  The second half is what the code does for a directory other than the root as well: a path
  that only extends the text of the directory's path is reported too.\<close>

theorem hanafs_list_dir_spec:
  assumes inv: "hf_inv E S pay st" and S: "room_cost (length path + 3) \<le> S"
  shows "\<exists>names st'. hanafs_list_dir E (Some path) st = Some (0, names, st') \<and> entries st' = entries st \<and>
    set names = {n. \<exists>q\<in>dom (hana_map (entries st)). is_child (hana_ipath path) q n}"
  by (rule hanafs_list_dir_ok [OF assms]) blast

theorem hanafs_list_dir_spec_witness:
  "\<exists>st names st'. hanafs_init (ide_hw demo_env) demo_fs = Some (0, st) \<and>
     hanafs_list_dir (ide_hw demo_env) (Some ''/'') st = Some (0, names, st') \<and>
     ''bin'' \<in> set names \<and> ''tmp'' \<notin> set names"
proof -
  have c: "entries demo_fs = []" "init_cost \<le> 1048576" using init_cost_bound by (simp_all add: demo_fs_def)
  obtain st where i: "hanafs_init (ide_hw demo_env) demo_fs = Some (0, st)"
    "hana_map (entries st) = [''/'' \<mapsto> Dir, ''/bin'' \<mapsto> Dir, ''/dev'' \<mapsto> Dir, ''/proc'' \<mapsto> Dir, ''/home'' \<mapsto> Dir]"
    "hf_inv (ide_hw demo_env) (1048576 - init_cost) 2080 st"
    using hanafs_init_room [OF demo_fs_inv c] by blast
  have "room_cost (length ''/'' + 3) \<le> 1048576 - init_cost"
    using init_cost_bound by (simp add: room_cost_def)
  from hanafs_list_dir_spec [OF i(3) this] obtain names st' where
    l: "hanafs_list_dir (ide_hw demo_env) (Some ''/'') st = Some (0, names, st')"
    "set names = {n. \<exists>q\<in>dom (hana_map (entries st)). is_child (hana_ipath ''/'') q n}"
    by blast
  have "hana_ipath ''/'' = ''/''" by code_simp
  with l(2) i(2) have "''bin'' \<in> set names" "''tmp'' \<notin> set names"
    by (auto simp: is_child_def slash_def)
  with i(1) l(1) show ?thesis by blast
qed

end
