(* ===== verification/HanaDisk.thy ===== *)
theory HanaDisk
  imports HanaSpec
begin

text \<open>
  The disk image of HanaFS: what \<open>hanafs_persist_to_ata\<close> writes, \<open>hanafs_load_from_ata\<close> reads
  back, through the sector driver and an ATA drive. The blob is followed through the contract
  of a block device.
\<close>

section \<open>A blob on a block device\<close>

text \<open>The sectors from \<open>n\<close> on hold the bytes, the last of them as its beginning.\<close>

function blob_at :: "(u32 \<Rightarrow> byte list) \<Rightarrow> u32 \<Rightarrow> byte list \<Rightarrow> bool" where
  "blob_at sec n bs =
     (if bs = [] then True
      else take (length (take 512 bs)) (sec n) = take 512 bs \<and> blob_at sec (n + 1) (drop 512 bs))"
  by pat_completeness auto
termination
  by (relation "measure (\<lambda>(sec, n, bs). length bs)") auto

declare blob_at.simps [simp del]

definition sectors :: "nat \<Rightarrow> nat" where
  "sectors n = (n + 511) div 512"

lemma sectors_step:
  assumes "bs \<noteq> []"
  shows "sectors (length bs) = Suc (sectors (length (drop 512 bs)))"
proof (cases "512 \<le> length bs")
  case True
  then obtain m where "length bs = 512 + m" using le_Suc_ex by blast
  moreover have "(512 + m + 511) div 512 = Suc ((m + 511) div 512)" by simp
  ultimately show ?thesis by (simp add: sectors_def)
next
  case False
  moreover have "0 < length bs" using assms by simp
  ultimately have "(length bs + 511) div 512 = 1" by (intro div_nat_eqI) (simp_all add: Suc_le_eq not_le)
  with False show ?thesis by (simp add: sectors_def)
qed

lemma sectors_pos: "bs \<noteq> [] \<Longrightarrow> 0 < sectors (length bs)"
  by (simp add: sectors_step)

lemma sector_next:
  fixes n :: u32
  assumes "bs \<noteq> []" "unat n + sectors (length bs) < 2 ^ 32"
  shows "unat (n + 1) = unat n + 1" "unat (n + 1) + sectors (length (drop 512 bs)) = unat n + sectors (length bs)"
proof -
  show "unat (n + 1) = unat n + 1"
    using assms(2) sectors_pos [OF assms(1)] by (subst unat_add_nowrap) simp_all
  then show "unat (n + 1) + sectors (length (drop 512 bs)) = unat n + sectors (length bs)"
    using sectors_step [OF assms(1)] by simp
qed

context block_device
begin

lemma write_blob_law:
  assumes "ok s" "\<And>k. unat k < unat n + sectors (length bs) \<Longrightarrow> lba_ok k"
    "unat n + sectors (length bs) < 2 ^ 32"
  shows "\<exists>s'. write_blob wr n bs s = (True, s') \<and> ok s' \<and> blob_at (sector s') n bs \<and>
       (\<forall>k. unat k < unat n \<longrightarrow> sector s' k = sector s k)"
  using assms
proof (induction bs arbitrary: n s rule: length_induct)
  case (1 bs)
  show ?case
  proof (cases "bs = []")
    case True
    then show ?thesis using 1(2) by (subst write_blob.simps, subst blob_at.simps) simp
  next
    case False
    note nx = sector_next [OF False 1(4)]
    let ?c = "take 512 bs" let ?pad = "?c @ replicate (512 - length ?c) 0"
    have "lba_ok n" using 1(3) sectors_pos [OF False] by simp
    then obtain s1 where w: "wr n ?pad s = (0, s1)" "ok s1" "sector s1 = (sector s)(n := ?pad)"
      using wr_law [of s n ?pad] 1(2) by auto
    have len: "length (drop 512 bs) < length bs" using False by simp
    have lba: "unat k < unat (n + 1) + sectors (length (drop 512 bs)) \<Longrightarrow> lba_ok k" for k
      using 1(3) nx(2) by simp
    have top: "unat (n + 1) + sectors (length (drop 512 bs)) < 2 ^ 32" using nx(2) 1(4) by simp
    obtain s' where r: "write_blob wr (n + 1) (drop 512 bs) s1 = (True, s')" "ok s'"
      "blob_at (sector s') (n + 1) (drop 512 bs)" "\<forall>k. unat k < unat (n + 1) \<longrightarrow> sector s' k = sector s1 k"
      using 1(1) [rule_format, OF len w(2) lba top] by blast
    have "sector s' n = ?pad" using r(4) w(3) nx(1) by simp
    then have "take (length ?c) (sector s' n) = ?c" by (metis append_eq_conv_conj)
    then have "blob_at (sector s') n bs"
      using r(3) by (simp add: blob_at.simps [of _ n bs])
    moreover have "\<forall>k. unat k < unat n \<longrightarrow> sector s' k = sector s k"
      using r(4) w(3) nx(1) by auto
    moreover have "write_blob wr n bs s = (True, s')"
      using False w(1) r(1) by (subst write_blob.simps) (simp add: Let_def)
    ultimately show ?thesis using r(2) by blast
  qed
qed

lemma read_blob_law:
  assumes "ok s" "\<And>k. unat k < unat n + sectors (length bs) \<Longrightarrow> lba_ok k"
    "unat n + sectors (length bs) < 2 ^ 32" "blob_at (sector s) n bs"
  shows "\<exists>s'. read_blob rd n (length bs) s = (Some bs, s') \<and> ok s' \<and> sector s' = sector s"
  using assms
proof (induction bs arbitrary: n s rule: length_induct)
  case (1 bs)
  show ?case
  proof (cases "bs = []")
    case True
    then show ?thesis using 1(2) by (subst read_blob.simps) simp
  next
    case False
    note nx = sector_next [OF False 1(4)]
    have "lba_ok n" using 1(3) sectors_pos [OF False] by simp
    then obtain s1 where w: "rd n s = (0, sector s n, s1)" "ok s1" "sector s1 = sector s"
      using rd_law [of s n] 1(2) by auto
    have b: "take (length (take 512 bs)) (sector s n) = take 512 bs" "blob_at (sector s) (n + 1) (drop 512 bs)"
      using 1(5) False by (simp_all add: blob_at.simps [of "sector s" n bs])
    have len: "length (drop 512 bs) < length bs" using False by simp
    have lba: "unat k < unat (n + 1) + sectors (length (drop 512 bs)) \<Longrightarrow> lba_ok k" for k
      using 1(3) nx(2) by simp
    have top: "unat (n + 1) + sectors (length (drop 512 bs)) < 2 ^ 32" using nx(2) 1(4) by simp
    obtain s' where r: "read_blob rd (n + 1) (length (drop 512 bs)) s1 = (Some (drop 512 bs), s')" "ok s'"
      "sector s' = sector s1"
      using 1(1) [rule_format, OF len w(2) lba top b(2) [folded w(3)]] by blast
    have "read_blob rd n (length bs) s = (Some (take (min (length bs) 512) (sector s n) @ drop 512 bs), s')"
      using False w(1) r(1) by (simp add: read_blob.simps [of rd n "length bs" s])
    moreover have "take (min (length bs) 512) (sector s n) = take 512 bs"
      using b(1) by simp
    ultimately show ?thesis using r(2,3) w(3) by simp
  qed
qed

end

section \<open>Reading the records back\<close>

text \<open>What of an entry the image keeps.\<close>

definition view :: "hentry \<Rightarrow> string \<times> hnode" where
  "view e = (e_path e, node_of e)"

lemma hana_map_view: "hana_map es = map_of (map view es)"
  by (simp add: hana_map_def view_def [abs_def])

lemma free_entries_room:
  assumes "hf_room E S A (hf_heap st)" "distinct (concat (map owned es))" "set (concat (map owned es)) \<subseteq> A"
  obtains st' where "free_entries es st = Some st'" "hf_room E S (A - set (concat (map owned es))) (hf_heap st')"
    "entries st' = entries st" "hf_disk st' = hf_disk st"
  using assms
proof (induction es arbitrary: A st thesis)
  case Nil
  show ?case by (rule Nil(1) [of st]) (use Nil in simp_all)
next
  case (Cons e es)
  have o: "set (owned e) \<subseteq> A" "distinct (owned e)" using Cons.prems by auto
  obtain st1 where f: "free_entry e st = Some st1" "hf_room E S (A - set (owned e)) (hf_heap st1)"
    "entries st1 = entries st" "hf_disk st1 = hf_disk st"
    by (rule free_entry_room [OF Cons.prems(2) o])
  have d: "distinct (concat (map owned es))" "set (concat (map owned es)) \<subseteq> A - set (owned e)"
    using Cons.prems(3,4) by auto
  obtain st2 where g: "free_entries es st1 = Some st2"
    "hf_room E S (A - set (owned e) - set (concat (map owned es))) (hf_heap st2)"
    "entries st2 = entries st1" "hf_disk st2 = hf_disk st1"
    by (rule Cons.IH [OF _ f(2) d])
  have A: "A - set (owned e) - set (concat (map owned es)) = A - set (concat (map owned (e # es)))" by auto
  show ?case
    by (rule Cons.prems(1) [of st2]) (use f g A in \<open>simp_all del: concat.simps\<close>)
qed

lemma takeWhile_cstring: "cstring s \<Longrightarrow> takeWhile (\<lambda>c. c \<noteq> NUL) s = s"
  by (auto simp: cstring_def takeWhile_eq_all_conv)

text \<open>A record, taken apart.\<close>

lemma hana_record_fields:
  assumes "entry_ok e" and bs_def: "bs = hana_record e @ rest"
  shows "7 \<le> length bs" "unat (le16 (bs ! 0) (bs ! 1)) = length (e_path e)" "bs ! 2 \<noteq> 0 \<longleftrightarrow> e_is_dir e"
    "unat (le32 (bs ! 3) (bs ! 4) (bs ! 5) (bs ! 6)) = e_len e"
    "drop 7 bs = map byte_of_char (e_path e) @ e_data e @ rest"
proof -
  let ?p = "of_nat (length (e_path e)) :: u16" and ?d = "of_nat (e_len e) :: u32"
  note l = entry_ok_lengths [OF assms(1)]
  have d: "length (e_data e) = e_len e" "e_is_dir e \<longrightarrow> e_len e = 0" using assms(1) by (auto simp: entry_ok_def)
  have bs: "bs = [ucast ?p, ucast (drop_bit 8 ?p), if e_is_dir e then 1 else 0, ucast ?d, ucast (drop_bit 8 ?d),
      ucast (drop_bit 16 ?d), ucast (drop_bit 24 ?d)] @ map byte_of_char (e_path e) @ e_data e @ rest"
    using l d unfolding bs_def hana_record_def bytes16_def bytes32_def Let_def by auto
  show "7 \<le> length bs" by (simp add: bs)
  show "unat (le16 (bs ! 0) (bs ! 1)) = length (e_path e)" by (simp add: bs l)
  show "bs ! 2 \<noteq> 0 \<longleftrightarrow> e_is_dir e" by (simp add: bs)
  show "unat (le32 (bs ! 3) (bs ! 4) (bs ! 5) (bs ! 6)) = e_len e" by (simp add: bs l)
  show "drop 7 bs = map byte_of_char (e_path e) @ e_data e @ rest" by (simp add: bs)
qed

definition record_cost :: "hentry \<Rightarrow> nat" where
  "record_cost e = room_cost 512 + room_cost sizeof_HanaEntry + room_cost (e_len e)"

lemma parse_record:
  assumes room: "hf_room E S A (hf_heap st)" and ok: "entry_ok e" and S: "record_cost e \<le> S"
  obtains e' st' B where
    "parse_entries E (Suc n) (hana_record e @ rest) st = parse_entries E n rest (push_entry e' st')"
    "view e' = view e" "hf_room E (S - record_cost e) B (hf_heap st')" "entries st' = entries st"
    "hf_disk st' = hf_disk st" "A \<subseteq> B"
proof -
  let ?n1 = "length (e_path e) + 1"
  define bs where "bs = hana_record e @ rest"
  note fld = hana_record_fields [OF ok bs_def]
  have d: "length (e_data e) = e_len e" "e_is_dir e \<longrightarrow> e_len e = 0" "?n1 \<le> 512" "cstring (e_path e)"
    using ok by (auto simp: entry_ok_def)
  have c: "0 < ?n1" "room_cost ?n1 \<le> S" "0 < sizeof_HanaEntry" "room_cost sizeof_HanaEntry \<le> S - room_cost ?n1"
    "room_cost (e_len e) \<le> S - room_cost ?n1 - room_cost sizeof_HanaEntry"
    "S - record_cost e \<le> S - room_cost ?n1 - room_cost sizeof_HanaEntry - room_cost (e_len e)"
    using S d(3) by (simp_all add: record_cost_def room_cost_def sizeof_HanaEntry_def)
  obtain pp st1 where a1: "hf_alloc E ?n1 st = Some (pp, st1)" "pp \<noteq> 0"
    "hf_room E (S - room_cost ?n1) (insert pp A) (hf_heap st1)" "entries st1 = entries st" "hf_disk st1 = hf_disk st"
    by (rule hf_alloc_room [OF room c(1,2)])
  obtain p st2 where a2: "hf_alloc E sizeof_HanaEntry st1 = Some (p, st2)" "p \<noteq> 0"
    "hf_room E (S - room_cost ?n1 - room_cost sizeof_HanaEntry) (insert p (insert pp A)) (hf_heap st2)"
    "entries st2 = entries st1" "hf_disk st2 = hf_disk st1"
    by (rule hf_alloc_room [OF a1(3) c(3,4)])
  have path: "takeWhile (\<lambda>c. c \<noteq> NUL) (map char_of_byte (take (length (e_path e)) (drop 7 bs))) = e_path e"
    using d(4) by (simp add: fld(5) takeWhile_cstring comp_def)
  let ?e = "(new_entry p pp (e_path e) (e_is_dir e))\<lparr>e_len := e_len e\<rparr>"
  have step: "parse_entries E (Suc n) bs st =
    (if \<not> e_is_dir e \<and> e_len e > 0 then do {
       (dp, st3) \<leftarrow> hf_alloc E (e_len e) st2;
       if dp = 0 then free_entry ?e st3
       else if length (e_data e @ rest) < e_len e then None
       else parse_entries E n rest (push_entry (?e\<lparr>e_data_ptr := dp, e_data := e_data e\<rparr>) st3)
     } else parse_entries E n rest (push_entry ?e st2))"
  proof -
    have "length bs - 7 = length (e_path e) + length (e_data e) + length rest"
      using arg_cong [OF fld(5), of length] by simp
    moreover have "take (e_len e) (e_data e @ rest) = e_data e" "drop (e_len e) (e_data e @ rest) = rest"
      using d(1) by simp_all
    moreover have "e_data e = []" if "\<not> (\<not> e_is_dir e \<and> e_len e > 0)" using that d(1,2) by auto
    ultimately show ?thesis
      using fld(1-4) a1(1,2) a2(1,2) path d(1)
      by (cases "\<not> e_is_dir e \<and> e_len e > 0") (simp_all add: Let_def fld(5) not_less cong: if_cong)
  qed
  show ?thesis
  proof (cases "\<not> e_is_dir e \<and> e_len e > 0")
    case True
    then have "0 < e_len e" by simp
    from hf_alloc_room [OF a2(3) this c(5)] obtain dp st3 where
      a3: "hf_alloc E (e_len e) st2 = Some (dp, st3)" "dp \<noteq> 0"
      "hf_room E (S - room_cost ?n1 - room_cost sizeof_HanaEntry - room_cost (e_len e))
         (insert dp (insert p (insert pp A))) (hf_heap st3)" "entries st3 = entries st2" "hf_disk st3 = hf_disk st2"
      by metis
    have "parse_entries E (Suc n) bs st =
        parse_entries E n rest (push_entry (?e\<lparr>e_data_ptr := dp, e_data := e_data e\<rparr>) st3)"
      using step True a3(1,2) d(1) by simp
    then show ?thesis
      unfolding bs_def
      by (rule that [OF _ _ hf_room_mono [OF a3(3) c(6)]])
        (use True a1(4,5) a2(4,5) a3(4,5) in \<open>auto simp: view_def node_of_def\<close>)
  next
    case False
    then have q: "parse_entries E (Suc n) bs st = parse_entries E n rest (push_entry ?e st2)" using step by auto
    have r: "hf_room E (S - record_cost e) (insert p (insert pp A)) (hf_heap st2)"
      using a2(3) by (rule hf_room_mono) (use c(6) in simp)
    have "view ?e = view e" using False d(1,2) by (auto simp: view_def node_of_def)
    then show ?thesis
      by (rule that [OF q [unfolded bs_def] _ r]) (use a1(4,5) a2(4,5) in auto)
  qed
qed

lemma parse_records:
  assumes "hf_room E S A (hf_heap st)" "list_all entry_ok es" "sum_list (map record_cost es) \<le> S"
  obtains st' B where "parse_entries E (length es) (concat (map hana_record es)) st = Some st'"
    "map view (entries st') = rev (map view es) @ map view (entries st)"
    "hf_room E (S - sum_list (map record_cost es)) B (hf_heap st')" "hf_disk st' = hf_disk st" "A \<subseteq> B"
  using assms
proof (induction es arbitrary: S A st thesis)
  case Nil
  show ?case by (rule Nil(1) [of st A]) (use Nil in simp_all)
next
  case (Cons e es)
  have c: "entry_ok e" "record_cost e \<le> S" "list_all entry_ok es"
    "sum_list (map record_cost es) \<le> S - record_cost e"
    using Cons.prems(3,4) by simp_all
  obtain e' st1 B where p: "parse_entries E (Suc (length es)) (hana_record e @ concat (map hana_record es)) st =
      parse_entries E (length es) (concat (map hana_record es)) (push_entry e' st1)"
    "view e' = view e" "hf_room E (S - record_cost e) B (hf_heap st1)" "entries st1 = entries st"
    "hf_disk st1 = hf_disk st" "A \<subseteq> B"
    by (rule parse_record [OF Cons.prems(2) c(1,2)])
  have r: "hf_room E (S - record_cost e) B (hf_heap (push_entry e' st1))" using p(3) by simp
  obtain st' C where q: "parse_entries E (length es) (concat (map hana_record es)) (push_entry e' st1) = Some st'"
    "map view (entries st') = rev (map view es) @ map view (entries (push_entry e' st1))"
    "hf_room E (S - record_cost e - sum_list (map record_cost es)) C (hf_heap st')"
    "hf_disk st' = hf_disk (push_entry e' st1)" "B \<subseteq> C"
    by (rule Cons.IH [OF _ r c(3,4)])
  show ?case
    by (rule Cons.prems(1) [of st' C]) (use p q in \<open>auto simp del: parse_entries.simps\<close>)
qed

section \<open>Loading an image\<close>

lemma hana_header_fields:
  assumes "take (min (length (hana_blob es)) 512) sec = take 512 (hana_blob es)"
    "length es < 2 ^ 32" "payload_len es < 2 ^ 32"
  shows "take 4 sec = map byte_of_char ''HANA''"
    "unat (le32 (sec ! 8) (sec ! 9) (sec ! 10) (sec ! 11)) = length es"
    "unat (le32 (sec ! 12) (sec ! 13) (sec ! 14) (sec ! 15)) = payload_len es"
proof -
  have len: "16 \<le> length (hana_blob es)" by (simp add: hana_blob_def hana_header_def)
  have "take 16 sec = take 16 (take (min (length (hana_blob es)) 512) sec)" using len by simp
  also have "\<dots> = take 16 (hana_blob es)" unfolding assms(1) by simp
  also have "\<dots> = hana_header es" by (simp add: hana_blob_def hana_header_def)
  finally have t: "take 16 sec = hana_header es" .
  have n: "sec ! i = hana_header es ! i" if "i < 16" for i using that t by (metis nth_take)
  have h: "hana_header es = map byte_of_char ''HANA'' @ bytes32 1 @ bytes32 (of_nat (length es)) @
      bytes32 (of_nat (payload_len es))" by (simp add: hana_header_def payload_len_def)
  have "take 4 sec = take 4 (take 16 sec)" by simp
  then show "take 4 sec = map byte_of_char ''HANA''" unfolding t h by simp
  show "unat (le32 (sec ! 8) (sec ! 9) (sec ! 10) (sec ! 11)) = length es"
    using assms(2) by (simp add: n h bytes32_def unat_of_nat)
  show "unat (le32 (sec ! 12) (sec ! 13) (sec ! 14) (sec ! 15)) = payload_len es"
    using assms(3) by (simp add: n h bytes32_def unat_of_nat)
qed

definition load_cost :: "hentry list \<Rightarrow> nat" where
  "load_cost es = room_cost (16 + payload_len es) + room_cost sizeof_HanaEntry + room_cost 512 +
     sum_list (map record_cost es)"

lemma load_cost_bound:
  assumes "list_all entry_ok es"
  shows "load_cost es \<le> 1024 + 746 * payload_len es"
proof -
  have "sum_list (map record_cost es) \<le> 745 * payload_len es"
    using assms
    by (induction es)
      (auto simp: record_cost_def hana_record_len_def room_cost_def sizeof_HanaEntry_def entry_ok_def)
  then show ?thesis by (simp add: load_cost_def room_cost_def sizeof_HanaEntry_def)
qed

lemma load_room:
  assumes inv: "hf_inv E S pay st" and es: "list_all entry_ok es" "length es < 2 ^ 32" "payload_len es < 2 ^ 32"
    and rd1: "hw_rd E HANAFS_PERSIST_LBA (hf_disk st) = (0, sec, d1)" "length sec = 512"
    and sec: "take (min (length (hana_blob es)) 512) sec = take 512 (hana_blob es)"
    and rd2: "read_blob (hw_rd E) (HANAFS_PERSIST_LBA + 1) (length (drop 512 (hana_blob es))) d1 =
      (Some (drop 512 (hana_blob es)), d2)"
    and S: "load_cost es \<le> S"
  shows "\<exists>st'. hanafs_load_from_ata E st = Some (0, st') \<and>
    map view (entries st') = rev (map view es) @ [(''/'', Dir)]"
proof -
  let ?n = "16 + payload_len es" and ?st1 = "st\<lparr>hf_disk := d1\<rparr>"
  let ?S1 = "S - room_cost ?n"
  let ?S2 = "?S1 - room_cost sizeof_HanaEntry - room_cost 512"
  have len: "length (hana_blob es) = ?n" by (rule length_hana_blob [OF es(1)])
  note hdr = hana_header_fields [OF sec es(2,3)]
  have cost: "0 < ?n" "room_cost ?n \<le> S" "room_cost sizeof_HanaEntry + room_cost 512 \<le> ?S1"
    "sum_list (map record_cost es) \<le> ?S2"
    using S by (simp_all add: load_cost_def)
  obtain A where A: "hf_room E S A (hf_heap ?st1)" "entries_ok A (entries ?st1)"
    using inv by (auto simp: hf_inv_def)
  obtain b st2 where b: "hf_alloc E ?n ?st1 = Some (b, st2)" "b \<noteq> 0" "b \<notin> A"
    "hf_room E ?S1 (insert b A) (hf_heap st2)" "entries st2 = entries ?st1" "hf_disk st2 = hf_disk ?st1"
    by (rule hf_alloc_room [OF A(1) cost(1,2)])
  let ?o = "set (concat (map owned (entries st)))"
  let ?st3 = "st2\<lparr>hf_disk := d2, entries := []\<rparr>"
  have o: "distinct (concat (map owned (entries st)))" "?o \<subseteq> insert b A" "b \<notin> ?o"
    using A(2) b(3) by (auto simp: entries_ok_def)
  have r3: "hf_room E ?S1 (insert b A) (hf_heap ?st3)" using b(4) by simp
  obtain st4 where f: "free_entries (entries st) ?st3 = Some st4" "hf_room E ?S1 (insert b A - ?o) (hf_heap st4)"
    "entries st4 = entries ?st3"
    by (rule free_entries_room [OF r3 o(1,2)])
  obtain p pp st5 st6 where nd: "hf_alloc E sizeof_HanaEntry st4 = Some (p, st5)"
    "strdup_k E ''/'' st5 = Some (pp, st6)" "p \<noteq> 0"
    "hf_room E ?S2 (insert pp (insert p (insert b A - ?o))) (hf_heap st6)"
    by (rule node_room [OF f(2) cost(3), of "''/''"]) simp
  let ?st6 = "st6\<lparr>entries := [new_entry p pp ''/'' True]\<rparr>"
  have r6: "hf_room E ?S2 (insert pp (insert p (insert b A - ?o))) (hf_heap ?st6)" using nd(4) by simp
  obtain st7 B where ps: "parse_entries E (length es) (concat (map hana_record es)) ?st6 = Some st7"
    "map view (entries st7) = rev (map view es) @ map view (entries ?st6)"
    "hf_room E (?S2 - sum_list (map record_cost es)) B (hf_heap st7)"
    "insert pp (insert p (insert b A - ?o)) \<subseteq> B"
    by (rule parse_records [OF r6 es(1) cost(4)])
  have "b \<in> B" using ps(4) o(3) by auto
  from hf_free_room [OF ps(3) this] obtain st8 where fr: "hf_free b st7 = Some st8" "entries st8 = entries st7"
    by metis
  have buf: "drop 16 (take ?n sec @ drop 512 (hana_blob es)) = concat (map hana_record es)"
  proof -
    have "take ?n sec = take 512 (hana_blob es)"
      using sec rd1(2) by (simp add: len min_def split: if_splits)
    then have "take ?n sec @ drop 512 (hana_blob es) = hana_blob es" by simp
    then show ?thesis by (simp add: hana_blob_def hana_header_def)
  qed
  have need: "?n - 512 = length (drop 512 (hana_blob es))" by (simp add: len)
  have "hanafs_load_from_ata E st = Some (0, st8)"
    using rd1 b(1,2,5,6) hdr rd2 f(1) nd(1-3) ps(1) fr(1) unfolding need [symmetric]
    by (simp add: hanafs_load_from_ata_def Let_def clear_entries_def buf del: drop_append)
  moreover have "map view (entries st8) = rev (map view es) @ [(''/'', Dir)]"
    using ps(2) fr(2) by (simp add: view_def node_of_def)
  ultimately show ?thesis by blast
qed

section \<open>The driver and the drive\<close>

lemma lba28_below: "unat k < 2 ^ 28 \<Longrightarrow> lba28 k"
  unfolding lba28_def by (intro word_unat_eq_iff [THEN iffD2]) (simp add: drop_bit_eq_div unat_div)

lemma length_le_payload: "length es \<le> payload_len es"
  by (induction es) (simp_all add: hana_record_len_def)

lemma hana_blob_lba:
  assumes "list_all entry_ok es" "payload_len es < 2 ^ 32"
  defines "n \<equiv> unat HANAFS_PERSIST_LBA + sectors (length (hana_blob es))"
  shows "n < 2 ^ 32" "\<And>k. unat k < n \<Longrightarrow> lba28 k"
proof -
  have "(length (hana_blob es) + 511) div 512 \<le> (2 ^ 33 + 511) div 512"
    using assms(2) by (intro div_le_mono) (simp add: length_hana_blob [OF assms(1)])
  then have "n < 2 ^ 28" by (simp add: n_def sectors_def HANAFS_PERSIST_LBA_def)
  then show "n < 2 ^ 32" "\<And>k. unat k < n \<Longrightarrow> lba28 k" by (auto intro: lba28_below)
qed

lemma ide_hw_simps [simp]:
  "hw_boot (ide_hw e) = e" "hw_wr (ide_hw e) = ata_write_sector ata_ports" "hw_rd (ide_hw e) = ata_read_sector ata_ports"
  by (simp_all add: ide_hw_def)

lemma persist_ide:
  assumes inv: "hf_inv (ide_hw env) S pay st" "room_cost (16 + pay) \<le> S" "pay < 2 ^ 32"
    and disk: "ide_ok (hf_disk st)"
  obtains s1 where "hanafs_persist_to_ata (ide_hw env) st = Some (0, s1)" "ide_ok (hf_disk s1)"
    "blob_at (ide_sector (hf_disk s1)) HANAFS_PERSIST_LBA (hana_blob (entries st))" "entries s1 = entries st"
proof -
  obtain A where A: "hf_room (ide_hw env) S A (hf_heap st)" "entries_ok A (entries st)" "payload_len (entries st) \<le> pay"
    using inv(1) by (auto simp: hf_inv_def)
  have ok: "list_all entry_ok (entries st)" "payload_len (entries st) < 2 ^ 32"
    using A(2,3) inv(3) by (simp_all add: entries_ok_def)
  obtain d where w: "write_blob (hw_wr (ide_hw env)) HANAFS_PERSIST_LBA (hana_blob (entries st)) (hf_disk st) = (True, d)"
    "ide_ok d" "blob_at (ide_sector d) HANAFS_PERSIST_LBA (hana_blob (entries st))"
    using ide_disk.write_blob_law [OF disk hana_blob_lba(2,1) [OF ok]] by auto
  have S: "room_cost (16 + payload_len (entries st)) \<le> S" using inv(2) A(3) by (simp add: room_cost_def)
  obtain s1 where "hanafs_persist_to_ata (ide_hw env) st = Some (if True then 0 else -1, s1)" "hf_disk s1 = d"
    "entries s1 = entries st"
    by (rule persist_room [OF A(1,2) S w(1)])
  then show ?thesis using w(2,3) by (intro that [of s1]) simp_all
qed

lemma load_ide:
  assumes inv: "hf_inv (ide_hw env) S pay st" "load_cost es \<le> S"
    and es: "list_all entry_ok es" "payload_len es < 2 ^ 32"
    and disk: "ide_ok (hf_disk st)" "blob_at (ide_sector (hf_disk st)) HANAFS_PERSIST_LBA (hana_blob es)"
  shows "\<exists>s2. hanafs_load_from_ata (ide_hw env) st = Some (0, s2) \<and>
    map view (entries s2) = rev (map view es) @ [(''/'', Dir)]"
proof -
  let ?bl = "hana_blob es" and ?d = "hf_disk st"
  note lba = hana_blob_lba [OF es]
  have ne: "?bl \<noteq> []" using length_hana_blob [OF es(1)] by auto
  note nx = sector_next [OF ne lba(1)]
  have b: "take (min (length ?bl) 512) (ide_sector ?d HANAFS_PERSIST_LBA) = take 512 ?bl"
    "blob_at (ide_sector ?d) (HANAFS_PERSIST_LBA + 1) (drop 512 ?bl)"
    using disk(2) ne by (simp_all add: blob_at.simps [of _ HANAFS_PERSIST_LBA])
  have lba0: "lba28 HANAFS_PERSIST_LBA" using lba(2) sectors_pos [OF ne] by simp
  obtain d1 where r1: "hw_rd (ide_hw env) HANAFS_PERSIST_LBA ?d = (0, ide_sector ?d HANAFS_PERSIST_LBA, d1)"
    "ide_ok d1" "ide_sector d1 = ide_sector ?d"
    using ide_disk.rd_law [OF disk(1) lba0] by auto
  obtain d2 where r2: "read_blob (hw_rd (ide_hw env)) (HANAFS_PERSIST_LBA + 1) (length (drop 512 ?bl)) d1 =
      (Some (drop 512 ?bl), d2)"
    using ide_disk.read_blob_law [OF r1(2), of "HANAFS_PERSIST_LBA + 1" "drop 512 ?bl"] lba nx(2) b(2) r1(3)
    by auto
  have cnt: "length es < 2 ^ 32" using length_le_payload [of es] es(2) by simp
  show ?thesis
    by (rule load_room [OF inv(1) es(1) cnt es(2) r1(1) ide_disk.sector_length [OF disk(1)] b(1) r2 inv(2)])
qed

section \<open>Properties\<close>

text \<open>C8. The disk image is a faithful copy: when a file system with room in its heap writes
  its image through the driver to an ATA drive, the write succeeds, and every file system with
  room that loads from that drive gets exactly the files and directories that were written,
  beside the root.\<close>

theorem persist_load_roundtrip:
  assumes inv: "hf_inv (ide_hw env) S pay st" "room_cost (16 + pay) \<le> S" "pay < 2 ^ 32"
    and disk: "ide_ok (hf_disk st)"
    and inv': "hf_inv (ide_hw env') S' pay' st'" "load_cost (entries st) \<le> S'"
  shows "\<exists>s1 s2. hanafs_persist_to_ata (ide_hw env) st = Some (0, s1) \<and>
    hanafs_load_from_ata (ide_hw env') (st'\<lparr>hf_disk := hf_disk s1\<rparr>) = Some (0, s2) \<and>
    hana_map (entries s2) = [''/'' \<mapsto> Dir] ++ hana_map (entries st)"
proof -
  let ?es = "entries st"
  have ok: "list_all entry_ok ?es" "distinct (map e_path ?es)" "payload_len ?es < 2 ^ 32"
    using inv(1,3) by (auto simp: hf_inv_def entries_ok_def)
  obtain s1 where s1: "hanafs_persist_to_ata (ide_hw env) st = Some (0, s1)" "ide_ok (hf_disk s1)"
    "blob_at (ide_sector (hf_disk s1)) HANAFS_PERSIST_LBA (hana_blob ?es)"
    by (rule persist_ide [OF inv disk])
  let ?st = "st'\<lparr>hf_disk := hf_disk s1\<rparr>"
  have "hf_inv (ide_hw env') S' pay' ?st" "ide_ok (hf_disk ?st)"
    "blob_at (ide_sector (hf_disk ?st)) HANAFS_PERSIST_LBA (hana_blob ?es)"
    using inv'(1) s1 by (simp_all add: hf_inv_def)
  from load_ide [OF this(1) inv'(2) ok(1,3) this(2,3)] obtain s2 where
    s2: "hanafs_load_from_ata (ide_hw env') ?st = Some (0, s2)" "map view (entries s2) = rev (map view ?es) @ [(''/'', Dir)]"
    by blast
  have "map_of (rev (map view ?es)) = hana_map ?es"
    using ok(2) unfolding hana_map_view
    by (intro map_of_inject_set [THEN iffD2]) (simp_all add: view_def comp_def rev_map [symmetric])
  then have "hana_map (entries s2) = [''/'' \<mapsto> Dir] ++ hana_map ?es"
    unfolding hana_map_view [of "entries s2"] s2(2) by simp
  with s1(1) s2(1) show ?thesis by blast
qed

theorem persist_load_roundtrip_witness:
  "\<exists>st s1 s2. hana_calls (ide_hw demo_env) [Write ''/a'' [1, 2, 3]] demo_fs = Some ([Status 0], st) \<and>
     hanafs_persist_to_ata (ide_hw demo_env) (st\<lparr>hf_disk := demo_disk\<rparr>) = Some (0, s1) \<and>
     hanafs_load_from_ata (ide_hw demo_env) (demo_fs\<lparr>hf_disk := hf_disk s1\<rparr>) = Some (0, s2) \<and>
     hana_map (entries s2) = [''/'' \<mapsto> Dir, ''/a'' \<mapsto> File [1, 2, 3]]"
proof -
  let ?cs = "[Write ''/a'' [1, 2, 3]]"
  have ok: "list_all call_ok ?cs" "calls_cost 0 ?cs \<le> 1048576"
    by (simp_all add: call_ok_def NUL_def cost_simps)
  have q: "hana_ipath ''/a'' = ''/a''" by code_simp
  have e: "hana_map (entries demo_fs) = Map.empty" by (simp add: demo_fs_def)
  obtain st where st: "hana_calls (ide_hw demo_env) ?cs demo_fs = Some ([Status 0], st)"
    "hana_map (entries st) = [''/a'' \<mapsto> File [1, 2, 3]]"
    "hf_inv (ide_hw demo_env) (1048576 - calls_cost 0 ?cs) (call_bytes (hd ?cs)) st"
    using hana.calls_refine [OF demo_fs_inv ok] unfolding hana_calls_eq e by (auto simp: q)
  let ?st = "st\<lparr>hf_disk := demo_disk\<rparr>"
  have "list_all entry_ok (entries ?st)" "payload_len (entries ?st) \<le> 521"
    using st(3) by (auto simp: hf_inv_def entries_ok_def call_bytes_def)
  then have cost: "load_cost (entries ?st) \<le> 1048576" using load_cost_bound [of "entries ?st"] by simp
  have inv: "hf_inv (ide_hw demo_env) 1000000 521 ?st"
    using hf_inv_mono [OF st(3), of 1000000 521]
    by (simp add: hf_inv_def cost_simps)
  have "room_cost (16 + 521) \<le> 1000000" "(521 :: nat) < 2 ^ 32" "ide_ok (hf_disk ?st)"
    using demo_disk_ok by (simp_all add: room_cost_def)
  from persist_load_roundtrip [OF inv this demo_fs_inv cost] st(1,2) show ?thesis by fastforce
qed

end
