(* ===== verification/HanaIso.thy ===== *)
theory HanaIso
  imports HanaSpec
begin

text \<open>
  The ISO 9660 mount of \<^verbatim>\<open>kernel/filesystem/hanafs.cpp\<close>, which copies the files of a CD image
  into HanaFS. Sectors are read into heap blocks: a write past the end of the block and a read
  outside the bytes that were read are \<open>None\<close>, and so is a directory that leads back to itself.
  The argument \<open>stale\<close> gives what a heap block holds before it is written.
\<close>

section \<open>Reading sectors into a block\<close>

definition block_room :: "u64 \<Rightarrow> heap \<Rightarrow> nat" where
  "block_room p h = unat (blk_size h (p - heap_header)) - unat heap_header"

text \<open>The sectors \<open>i\<close>, \<open>i + 1\<close>, ... below \<open>n\<close> go to their places in the block \<open>p\<close>; the loop
  ends with the first one that cannot be read.\<close>

primrec iso_sectors ::
  "'d hw \<Rightarrow> u32 \<Rightarrow> u32 \<Rightarrow> u64 \<Rightarrow> nat list \<Rightarrow> 'd hanafs \<Rightarrow> (bool \<times> byte list \<times> 'd hanafs) option" where
  "iso_sectors E drive lba p [] st = Some (True, [], st)"
| "iso_sectors E drive lba p (i # is) st =
     (case hw_rdd E drive (lba + of_nat i) (hf_disk st) of
        (rc, sec, d) \<Rightarrow>
          if rc \<noteq> 0 then Some (False, [], st\<lparr>hf_disk := d\<rparr>)
          else if block_room p (hf_heap st) < 512 * i + length sec then None
          else do {
            (done, rest, st') \<leftarrow> iso_sectors E drive lba p is (st\<lparr>hf_disk := d\<rparr>);
            Some (done, sec @ rest, st')
          })"

definition iso_sector_count :: "u32 \<Rightarrow> nat list" where
  "iso_sector_count sz = [0..<unat ((sz + 511) div 512)]"

section \<open>Directory records\<close>

record iso_record =
  r_lba :: u32
  r_size :: u32
  r_flags :: byte
  r_name :: "byte list"

text \<open>The record at the start of \<open>r\<close>: \<open>None\<close> when one of its bytes is outside the buffer.\<close>

definition read_record :: "byte list \<Rightarrow> iso_record option" where
  "read_record r =
     (if length r < 33 \<or> length r < 33 + unat (r ! 32) then None
      else Some \<lparr>r_lba = le32 (r ! 2) (r ! 3) (r ! 4) (r ! 5), r_size = le32 (r ! 10) (r ! 11) (r ! 12) (r ! 13),
        r_flags = r ! 25, r_name = take (unat (r ! 32)) (drop 33 r)\<rparr>)"

definition dot_record :: "iso_record \<Rightarrow> bool" where
  "dot_record r \<longleftrightarrow> length (r_name r) = 1 \<and> r_name r ! 0 \<le> 1"

definition record_name :: "iso_record \<Rightarrow> string" where
  "record_name r = c_text (takeWhile (\<lambda>b. b \<noteq> 0x3B) (r_name r))"

definition make_path_join :: "nat \<Rightarrow> string \<Rightarrow> string \<Rightarrow> string" where
  "make_path_join out_sz base name =
     (let b = take (out_sz - 1) base;
          b' = (if (b = [] \<or> last b \<noteq> slash) \<and> length b + 1 < out_sz then b @ [slash] else b)
      in b' @ take (out_sz - 1 - length b') name)"

section \<open>The mount\<close>

text \<open>A file: the bytes after the last sector that could be read are those the block held.\<close>

definition iso_file ::
  "'d hw \<Rightarrow> (u64 \<Rightarrow> byte list) \<Rightarrow> u32 \<Rightarrow> string \<Rightarrow> iso_record \<Rightarrow> 'd hanafs \<Rightarrow> 'd hanafs option" where
  "iso_file E stale drive path r st = do {
     (fbuf, st1) \<leftarrow> hf_alloc E (if r_size r \<noteq> 0 then unat (r_size r) else 1) st;
     if fbuf = 0 then Some st1
     else do {
       (_, bs, st2) \<leftarrow> iso_sectors E drive (r_lba r) fbuf (iso_sector_count (r_size r)) st1;
       (_, st3) \<leftarrow> hanafs_write_file E (Some path) (Some (bs @ drop (length bs) (stale fbuf))) (unat (r_size r)) st2;
       hf_free fbuf st3
     }
   }"

text \<open>The block of a directory with its bytes; \<open>None\<close> inside when there is no memory or a
  sector cannot be read.\<close>

definition iso_load ::
  "'d hw \<Rightarrow> u32 \<Rightarrow> u32 \<Rightarrow> u32 \<Rightarrow> 'd hanafs \<Rightarrow> ((u64 \<times> byte list) option \<times> 'd hanafs) option" where
  "iso_load E drive lba sz st = do {
     (buf, st1) \<leftarrow> hf_alloc E (unat sz) st;
     if buf = 0 then Some (None, st1)
     else do {
       (done, bs, st2) \<leftarrow> iso_sectors E drive lba buf (iso_sector_count sz) st1;
       if \<not> done then do { st3 \<leftarrow> hf_free buf st2; Some (None, st3) }
       else Some (Some (buf, bs), st2)
     }
   }"

partial_function (option) iso_records ::
  "'d hw \<Rightarrow> (u64 \<Rightarrow> byte list) \<Rightarrow> u32 \<Rightarrow> byte list \<Rightarrow> u32 \<Rightarrow> string \<Rightarrow> u32 \<Rightarrow> 'd hanafs \<Rightarrow> 'd hanafs option" where
  "iso_records E stale drive buf sz prefix off st =
     (if sz \<le> off then Some st
      else if length buf \<le> unat off then None
      else if buf ! unat off = 0 then iso_records E stale drive buf sz prefix ((off div 512 + 1) * 512) st
      else Option.bind (read_record (drop (unat off) buf)) (\<lambda>r.
        if dot_record r then iso_records E stale drive buf sz prefix (off + ucast (buf ! unat off)) st
        else Option.bind
          (if r_flags r AND 2 \<noteq> 0
           then Option.bind (hanafs_make_dir E (Some (make_path_join 512 prefix (record_name r))) st) (\<lambda>(_, st1).
             if r_size r = 0 then Some st1
             else Option.bind (iso_load E drive (r_lba r) (r_size r) st1) (\<lambda>(b, st2).
               case b of
                 None \<Rightarrow> Some st2
               | Some (p, bs) \<Rightarrow>
                   Option.bind (iso_records E stale drive bs (r_size r) (make_path_join 512 prefix (record_name r)) 0 st2)
                     (hf_free p)))
           else iso_file E stale drive (make_path_join 512 prefix (record_name r)) r st)
          (iso_records E stale drive buf sz prefix (off + ucast (buf ! unat off)))))"

definition parse_iso_dir_recursive ::
  "'d hw \<Rightarrow> (u64 \<Rightarrow> byte list) \<Rightarrow> u32 \<Rightarrow> u32 \<Rightarrow> u32 \<Rightarrow> string \<Rightarrow> 'd hanafs \<Rightarrow> 'd hanafs option" where
  "parse_iso_dir_recursive E stale drive lba sz prefix st =
     (if sz = 0 then Some st
      else do {
        (b, st1) \<leftarrow> iso_load E drive lba sz st;
        case b of
          None \<Rightarrow> Some st1
        | Some (p, bs) \<Rightarrow> do { st2 \<leftarrow> iso_records E stale drive bs sz prefix 0 st1; hf_free p st2 }
      })"

definition hanafs_mount_iso_drive ::
  "'d hw \<Rightarrow> (u64 \<Rightarrow> byte list) \<Rightarrow> u32 \<Rightarrow> string option \<Rightarrow> 'd hanafs \<Rightarrow> (int \<times> 'd hanafs) option" where
  "hanafs_mount_iso_drive E stale drive mount_point st =
     (case mount_point of
        None \<Rightarrow> Some (-1, st)
      | Some mp \<Rightarrow>
          case hw_rdd E drive 16 (hf_disk st) of
            (rc, sec, d) \<Rightarrow>
              let st1 = st\<lparr>hf_disk := d\<rparr>
              in if rc \<noteq> 0 then Some (-1, st1)
                 else if take 5 (drop 1 sec) \<noteq> map byte_of_char ''CD001'' then Some (-1, st1)
                 else do {
                   (_, st2) \<leftarrow> hanafs_make_dir E (Some mp) st1;
                   st3 \<leftarrow> parse_iso_dir_recursive E stale drive (le32 (sec ! 158) (sec ! 159) (sec ! 160) (sec ! 161))
                            (le32 (sec ! 166) (sec ! 167) (sec ! 168) (sec ! 169)) mp (st2\<lparr>persist_enabled := False\<rparr>);
                   (_, st4) \<leftarrow> hanafs_persist_to_ata E (st3\<lparr>persist_enabled := persist_enabled st2\<rparr>);
                   Some (0, st4)
                 })"

text \<open>One record of a directory: its subdirectory is read with \<open>parse_iso_dir_recursive\<close>.\<close>

lemma iso_records_dir:
  assumes "off < sz" "unat off < length buf" "buf ! unat off \<noteq> 0" "read_record (drop (unat off) buf) = Some r"
    "\<not> dot_record r" "r_flags r AND 2 \<noteq> 0"
  shows "iso_records E stale drive buf sz prefix off st = do {
     (_, st1) \<leftarrow> hanafs_make_dir E (Some (make_path_join 512 prefix (record_name r))) st;
     st2 \<leftarrow> parse_iso_dir_recursive E stale drive (r_lba r) (r_size r) (make_path_join 512 prefix (record_name r)) st1;
     iso_records E stale drive buf sz prefix (off + ucast (buf ! unat off)) st2
   }"
proof -
  have "\<not> sz \<le> off" using assms(1) by simp
  then show ?thesis
    using assms by (subst iso_records.simps) (simp add: parse_iso_dir_recursive_def split_def)
qed

end
