(* ===== verification/FdTable.thy ===== *)
theory FdTable
  imports Kheap
begin

text \<open>
  The per-task tables of open files of \<^verbatim>\<open>kernel/userland/fdtable.cpp\<close>. A table is a
  block of the kernel heap; its entries are kept beside the heap, under the address of the
  block. Paths and buffers of entries are blocks of their own.
\<close>

datatype fdtype = FD_NONE | FD_FILE | FD_TTY | FD_PIPE_READ | FD_PIPE_WRITE

record fdentry =
  fd_type :: fdtype
  fd_path_ptr :: u64
  fd_path :: string
  fd_buf_ptr :: u64
  fd_buf :: "byte list"
  fd_len :: nat
  fd_pos :: nat
  fd_flags :: u32
  fd_pipe :: u64

record kmem =
  km_heap :: heap
  km_fdt :: "u64 \<Rightarrow> fdentry list"

definition fd_none :: fdentry where
  "fd_none = \<lparr>fd_type = FD_NONE, fd_path_ptr = 0, fd_path = [], fd_buf_ptr = 0, fd_buf = [], fd_len = 0,
     fd_pos = 0, fd_flags = 0, fd_pipe = 0\<rparr>"

definition sizeof_FDEntry :: nat where [cost_simps]:
  "sizeof_FDEntry = 56"

definition km_alloc :: "boot_env \<Rightarrow> nat \<Rightarrow> 'a kmem_scheme \<Rightarrow> (u64 \<times> 'a kmem_scheme) option" where
  "km_alloc env n k = do {
     (p, h) \<leftarrow> kmalloc env (of_nat n) (km_heap k);
     Some (p, k\<lparr>km_heap := h\<rparr>)
   }"

definition km_free :: "u64 \<Rightarrow> 'a kmem_scheme \<Rightarrow> 'a kmem_scheme option" where
  "km_free p k = do { h \<leftarrow> kfree p (km_heap k); Some (k\<lparr>km_heap := h\<rparr>) }"

definition km_free_if :: "u64 \<Rightarrow> 'a kmem_scheme \<Rightarrow> 'a kmem_scheme option" where
  "km_free_if p k = (if p \<noteq> 0 then km_free p k else Some k)"

definition fdt_put :: "u64 \<Rightarrow> fdentry list \<Rightarrow> 'a kmem_scheme \<Rightarrow> 'a kmem_scheme" where
  "fdt_put tbl es k = k\<lparr>km_fdt := (km_fdt k)(tbl := es)\<rparr>"

definition fdtable_create :: "boot_env \<Rightarrow> int \<Rightarrow> 'a kmem_scheme \<Rightarrow> (u64 \<times> 'a kmem_scheme) option" where
  "fdtable_create env count k =
     (if count \<le> 0 then Some (0, k)
      else do {
        (tbl, k1) \<leftarrow> km_alloc env (sizeof_FDEntry * nat count) k;
        if tbl = 0 then Some (0, k1)
        else Some (tbl, fdt_put tbl (replicate (nat count) fd_none) k1)
      })"

text \<open>The loop of \<open>fdtable_destroy\<close>; \<open>None\<close> when it runs behind the end of the table.\<close>

primrec fd_release :: "u64 \<Rightarrow> nat list \<Rightarrow> 'a kmem_scheme \<Rightarrow> 'a kmem_scheme option" where
  "fd_release tbl [] k = Some k"
| "fd_release tbl (i # is) k =
     (if length (km_fdt k tbl) \<le> i then None
      else let e = km_fdt k tbl ! i
           in do {
             k1 \<leftarrow> km_free_if (fd_path_ptr e) k;
             k2 \<leftarrow> km_free_if (fd_buf_ptr e) k1;
             fd_release tbl is (fdt_put tbl ((km_fdt k2 tbl)[i := (km_fdt k2 tbl ! i)\<lparr>fd_type := FD_NONE\<rparr>]) k2)
           })"

definition fdtable_destroy :: "u64 \<Rightarrow> int \<Rightarrow> 'a kmem_scheme \<Rightarrow> 'a kmem_scheme option" where
  "fdtable_destroy tbl count k =
     (if tbl = 0 then Some k
      else do {
        k1 \<leftarrow> fd_release tbl [0..<nat count] k;
        km_free tbl k1
      })"

primrec fd_scan :: "fdentry list \<Rightarrow> nat list \<Rightarrow> int" where
  "fd_scan es [] = -1"
| "fd_scan es (i # is) = (if fd_type (es ! i) = FD_NONE then int i else fd_scan es is)"

definition fdtable_alloc_fd :: "u64 \<Rightarrow> int \<Rightarrow> 'a kmem_scheme \<Rightarrow> int" where
  "fdtable_alloc_fd tbl count k = (if tbl = 0 then -1 else fd_scan (km_fdt k tbl) [3..<nat count])"

text \<open>The index of the entry \<open>fdtable_get\<close> returns the address of.\<close>

definition fdtable_get :: "u64 \<Rightarrow> int \<Rightarrow> int \<Rightarrow> nat option" where
  "fdtable_get tbl count fd =
     (if tbl = 0 then None else if fd < 0 \<or> fd \<ge> count then None else Some (nat fd))"

section \<open>The descriptor that is handed out\<close>

lemma fd_scan_upt:
  "fd_scan es [m..<n] = -1 \<and> (\<forall>i. m \<le> i \<and> i < n \<longrightarrow> fd_type (es ! i) \<noteq> FD_NONE) \<or>
   (\<exists>i. m \<le> i \<and> i < n \<and> fd_scan es [m..<n] = int i \<and> fd_type (es ! i) = FD_NONE \<and>
      (\<forall>j. m \<le> j \<and> j < i \<longrightarrow> fd_type (es ! j) \<noteq> FD_NONE))"
proof (induction "n - m" arbitrary: m)
  case 0
  then show ?case by auto
next
  case (Suc d)
  have mn: "m < n" using Suc(2) by simp
  show ?case
  proof (cases "fd_type (es ! m) = FD_NONE")
    case True
    then show ?thesis using mn by (intro disjI2 exI [of _ m]) (auto simp: upt_conv_Cons)
  next
    case False
    have "d = n - Suc m" using Suc(2) by simp
    note ih = Suc(1) [OF this]
    have "m \<le> j \<longleftrightarrow> j = m \<or> Suc m \<le> j" for j by auto
    then show ?thesis using ih mn False by (auto simp: upt_conv_Cons)
  qed
qed

lemma fdtable_alloc_fd_cases:
  assumes "tbl \<noteq> 0"
  shows "fdtable_alloc_fd tbl count k = -1 \<and> (\<forall>i. 3 \<le> i \<and> i < nat count \<longrightarrow> fd_type (km_fdt k tbl ! i) \<noteq> FD_NONE) \<or>
    (\<exists>i. 3 \<le> i \<and> i < nat count \<and> fdtable_alloc_fd tbl count k = int i \<and> fd_type (km_fdt k tbl ! i) = FD_NONE \<and>
      (\<forall>j. 3 \<le> j \<and> j < i \<longrightarrow> fd_type (km_fdt k tbl ! j) \<noteq> FD_NONE))"
  using fd_scan_upt [of "km_fdt k tbl" 3 "nat count"] assms by (simp add: fdtable_alloc_fd_def)

section \<open>The blocks of a table\<close>

definition fd_blocks :: "fdentry \<Rightarrow> u64 list" where
  "fd_blocks e = (if fd_path_ptr e \<noteq> 0 then [fd_path_ptr e] else []) @
     (if fd_buf_ptr e \<noteq> 0 then [fd_buf_ptr e] else [])"

definition fd_close_at :: "nat \<Rightarrow> fdentry list \<Rightarrow> fdentry list" where
  "fd_close_at i es = es[i := (es ! i)\<lparr>fd_type := FD_NONE\<rparr>]"

lemma length_fd_close_at [simp]: "length (fd_close_at i es) = length es"
  by (simp add: fd_close_at_def)

lemma fd_blocks_close_at [simp]: "j < length es \<Longrightarrow> fd_blocks (fd_close_at i es ! j) = fd_blocks (es ! j)"
  by (cases "i = j") (simp_all add: fd_close_at_def fd_blocks_def)

lemma fdt_put_simps [simp]:
  "km_heap (fdt_put tbl es k) = km_heap k" "km_fdt (fdt_put tbl es k) = (km_fdt k)(tbl := es)"
  "fdt_put tbl es (fdt_put tbl es' k) = fdt_put tbl es k"
  "fdt_put tbl es (k\<lparr>km_heap := h\<rparr>) = (fdt_put tbl es k)\<lparr>km_heap := h\<rparr>"
  by (simp_all add: fdt_put_def)

lemma fdt_put_idem [simp]: "fdt_put tbl (km_fdt k tbl) k = k"
  by (simp add: fdt_put_def)

lemma dealloc_list_append:
  "rm.dealloc_list (ps @ qs) h = Option.bind (rm.dealloc_list ps h) (rm.dealloc_list qs)"
  by (induction ps arbitrary: h) (auto split: bind_splits)

lemma fd_free_dealloc:
  "Option.bind (km_free_if (fd_path_ptr e) k) (km_free_if (fd_buf_ptr e)) =
     map_option (\<lambda>h. k\<lparr>km_heap := h\<rparr>) (rm.dealloc_list (fd_blocks e) (km_heap k))"
  by (auto simp: km_free_if_def km_free_def fd_blocks_def split: bind_splits)

lemma fd_release_dealloc:
  "\<forall>i\<in>set is. i < length (km_fdt k tbl) \<Longrightarrow>
     fd_release tbl is k =
       map_option (\<lambda>h. (fdt_put tbl (fold fd_close_at is (km_fdt k tbl)) k)\<lparr>km_heap := h\<rparr>)
         (rm.dealloc_list (concat (map (\<lambda>i. fd_blocks (km_fdt k tbl ! i)) is)) (km_heap k))"
proof (induction "is" arbitrary: k)
  case (Cons i "is")
  let ?e = "km_fdt k tbl ! i"
  have i: "i < length (km_fdt k tbl)" using Cons.prems by simp
  have m: "map (\<lambda>j. fd_blocks (fd_close_at i (km_fdt k tbl) ! j)) is = map (\<lambda>j. fd_blocks (km_fdt k tbl ! j)) is"
    using Cons.prems by simp
  have "fd_release tbl (i # is) k =
      Option.bind (Option.bind (km_free_if (fd_path_ptr ?e) k) (km_free_if (fd_buf_ptr ?e)))
        (\<lambda>k2. fd_release tbl is (fdt_put tbl (fd_close_at i (km_fdt k2 tbl)) k2))"
    using i by (simp add: Let_def fd_close_at_def)
  also have "\<dots> = Option.bind (rm.dealloc_list (fd_blocks ?e) (km_heap k))
      (\<lambda>h. fd_release tbl is ((fdt_put tbl (fd_close_at i (km_fdt k tbl)) k)\<lparr>km_heap := h\<rparr>))"
    unfolding fd_free_dealloc by (cases "rm.dealloc_list (fd_blocks ?e) (km_heap k)") simp_all
  also have "\<dots> = map_option (\<lambda>h. (fdt_put tbl (fold fd_close_at (i # is) (km_fdt k tbl)) k)\<lparr>km_heap := h\<rparr>)
      (rm.dealloc_list (concat (map (\<lambda>i. fd_blocks (km_fdt k tbl ! i)) (i # is))) (km_heap k))"
    using Cons.prems
    by (cases "rm.dealloc_list (fd_blocks ?e) (km_heap k)")
      (simp_all add: Cons.IH m dealloc_list_append del: fd_release.simps)
  finally show ?case .
qed simp

definition fd_table_blocks :: "u64 \<Rightarrow> fdentry list \<Rightarrow> u64 list" where
  "fd_table_blocks tbl es = concat (map fd_blocks es) @ [tbl]"

lemma fdtable_destroy_dealloc:
  assumes "tbl \<noteq> 0" "nat count = length (km_fdt k tbl)"
  shows "fdtable_destroy tbl count k =
    map_option (\<lambda>h. (fdt_put tbl (fold fd_close_at [0..<nat count] (km_fdt k tbl)) k)\<lparr>km_heap := h\<rparr>)
      (rm.dealloc_list (fd_table_blocks tbl (km_fdt k tbl)) (km_heap k))"
proof -
  let ?es = "km_fdt k tbl"
  have m: "map (\<lambda>i. fd_blocks (?es ! i)) [0..<length ?es] = map fd_blocks ?es"
    by (metis (no_types, lifting) map_map map_nth comp_apply map_cong)
  have r: "fd_release tbl [0..<nat count] k =
      map_option (\<lambda>h. (fdt_put tbl (fold fd_close_at [0..<nat count] ?es) k)\<lparr>km_heap := h\<rparr>)
        (rm.dealloc_list (concat (map fd_blocks ?es)) (km_heap k))"
    using fd_release_dealloc [of "[0..<nat count]" k tbl] assms(2) by (simp add: m)
  show ?thesis
    using assms(1) unfolding fdtable_destroy_def r fd_table_blocks_def dealloc_list_append
    by (cases "rm.dealloc_list (concat (map fd_blocks ?es)) (km_heap k)")
      (auto simp: km_free_def split: bind_splits)
qed

end
