(* ===== verification/Scheduler.thy ===== *)
theory Scheduler
  imports FdTable
begin

text \<open>
  The scheduler of \<^verbatim>\<open>kernel/scheduler/scheduler.cpp\<close>. Tasks live in a store under their
  addresses and are linked into a ring through \<open>t_next\<close>, as in the code; blocks come from
  the kernel heap and a released task keeps its contents in the store, as memory does. The
  switch of stacks itself is assembly: \<open>schedule_next\<close> ends with the choice of the task it
  switches to. Loops that follow pointers are partial functions, \<open>None\<close> for a loop that does
  not end or for the use of a null pointer. Log output is left out.
\<close>

unbundle bit_operations_syntax

datatype tstate = TASK_RUNNING | TASK_READY | TASK_BLOCKED | TASK_DEAD

record task =
  pid :: int
  t_state :: tstate
  t_rsp :: u64
  t_next :: u64
  t_entry :: u64
  t_entry_arg :: u64
  t_fds :: u64
  t_fd_count :: int
  exit_status :: int
  parent_pid :: int
  is_user :: bool
  user_entry :: u64
  user_stack :: u64
  user_stack_size :: nat
  kstack :: u64

record sched = kmem +
  sc_tasks :: "u64 \<Rightarrow> task"
  sc_words :: "u64 \<Rightarrow> u64"
  task_list :: u64
  current_task :: u64
  next_pid :: int

text \<open>Addresses the scheduler knows: the heap's environment, the two trampolines and the
  static storage of the first task.\<close>

record sched_env =
  se_boot :: boot_env
  se_trampoline :: u64
  se_user_trampoline :: u64
  se_main_storage :: u64

definition TASK_STACK_SIZE :: nat where [cost_simps]:
  "TASK_STACK_SIZE = 16384"

definition sizeof_Task :: nat where [cost_simps]:
  "sizeof_Task = 104"

definition task_zero :: task where
  "task_zero = \<lparr>pid = 0, t_state = TASK_RUNNING, t_rsp = 0, t_next = 0, t_entry = 0, t_entry_arg = 0,
     t_fds = 0, t_fd_count = 0, exit_status = 0, parent_pid = 0, is_user = False, user_entry = 0,
     user_stack = 0, user_stack_size = 0, kstack = 0\<rparr>"

definition upd_task :: "u64 \<Rightarrow> (task \<Rightarrow> task) \<Rightarrow> 'a sched_scheme \<Rightarrow> 'a sched_scheme" where
  "upd_task p f st = st\<lparr>sc_tasks := (sc_tasks st)(p := f (sc_tasks st p))\<rparr>"

definition init_scheduler :: "sched_env \<Rightarrow> u64 \<Rightarrow> 'a sched_scheme \<Rightarrow> 'a sched_scheme option" where
  "init_scheduler se rsp_val st = do {
     (p, st1) \<leftarrow> km_alloc (se_boot se) sizeof_Task
       (st\<lparr>km_heap := heap_init (se_boot se) 0x40000 (km_heap st)\<rparr>);
     let main = (if p = 0 then se_main_storage se else p);
     let t = task_zero\<lparr>pid := next_pid st1, t_state := TASK_RUNNING, t_rsp := rsp_val, t_next := main\<rparr>;
     Some ((upd_task main (\<lambda>_. t) st1)\<lparr>next_pid := next_pid st1 + 1, current_task := main, task_list := main\<rparr>)
   }"

section \<open>Creating tasks\<close>

text \<open>A descriptor table whose first three entries are the terminal.\<close>

definition fd_stdio :: "fdentry list \<Rightarrow> fdentry list" where
  "fd_stdio es = map (\<lambda>e. e\<lparr>fd_type := FD_TTY\<rparr>) (take 3 es) @ drop 3 es"

definition make_fds :: "sched_env \<Rightarrow> u64 \<Rightarrow> 'a sched_scheme \<Rightarrow> 'a sched_scheme option" where
  "make_fds se t st = do {
     (tbl, st1) \<leftarrow> fdtable_create (se_boot se) 64 st;
     let st2 = upd_task t (\<lambda>x. x\<lparr>t_fd_count := 64, t_fds := tbl\<rparr>) st1;
     Some (if tbl \<noteq> 0 then fdt_put tbl (fd_stdio (km_fdt st2 tbl)) st2 else st2)
   }"

definition alloc_task_common :: "sched_env \<Rightarrow> 'a sched_scheme \<Rightarrow> (u64 \<times> 'a sched_scheme) option" where
  "alloc_task_common se st = do {
     (t, st1) \<leftarrow> km_alloc (se_boot se) sizeof_Task st;
     if t = 0 then Some (0, st1)
     else do {
       let st2 = (upd_task t (\<lambda>_. task_zero\<lparr>pid := next_pid st1\<rparr>) st1)\<lparr>next_pid := next_pid st1 + 1\<rparr>;
       st3 \<leftarrow> make_fds se t st2;
       let ppid = (if current_task st3 \<noteq> 0 then pid (sc_tasks st3 (current_task st3)) else 0);
       Some (t, upd_task t (\<lambda>x. x\<lparr>exit_status := -1, parent_pid := ppid\<rparr>) st3)
     }
   }"

text \<open>The frame \<open>context_switch\<close> pops when it enters a task for the first time: six registers
  and the trampoline as the return address.\<close>

definition stack_top :: "u64 \<Rightarrow> u64" where
  "stack_top stack = (stack + of_nat TASK_STACK_SIZE) AND NOT 0xF"

definition init_frame :: "sched_env \<Rightarrow> u64 \<Rightarrow> u64 \<Rightarrow> 'a sched_scheme \<Rightarrow> 'a sched_scheme" where
  "init_frame se t stack st =
     (let sp = stack_top stack - 8;
          w = fold (\<lambda>i w. w(sp - 8 * of_nat i := 0)) [1..<7] ((sc_words st)(sp := se_trampoline se))
      in upd_task t (\<lambda>x. x\<lparr>t_rsp := sp - 48, kstack := stack\<rparr>) (st\<lparr>sc_words := w\<rparr>))"

text \<open>The last task of the ring: the loop stops at a null pointer or at the head.\<close>

partial_function (option) ring_last :: "(u64 \<Rightarrow> task) \<Rightarrow> u64 \<Rightarrow> u64 \<Rightarrow> u64 option" where
  "ring_last T first cur =
     (if t_next (T cur) \<noteq> 0 \<and> t_next (T cur) \<noteq> first then ring_last T first (t_next (T cur)) else Some cur)"

definition link_task :: "u64 \<Rightarrow> 'a sched_scheme \<Rightarrow> 'a sched_scheme option" where
  "link_task t st =
     (if task_list st = 0 then Some (upd_task t (\<lambda>x. x\<lparr>t_next := t\<rparr>) (st\<lparr>task_list := t\<rparr>))
      else do {
        cur \<leftarrow> ring_last (sc_tasks st) (task_list st) (task_list st);
        let st1 = upd_task cur (\<lambda>x. x\<lparr>t_next := t\<rparr>) st;
        Some (upd_task t (\<lambda>x. x\<lparr>t_next := task_list st1\<rparr>) st1)
      })"

definition create_task_with_arg ::
  "sched_env \<Rightarrow> u64 \<Rightarrow> u64 \<Rightarrow> 'a sched_scheme \<Rightarrow> (int \<times> 'a sched_scheme) option" where
  "create_task_with_arg se entry arg st =
     (if entry = 0 then Some (0, st)
      else do {
        (t, st1) \<leftarrow> alloc_task_common se st;
        if t = 0 then Some (0, st1)
        else do {
          let st2 = upd_task t (\<lambda>x. x\<lparr>t_state := TASK_READY, t_entry := entry, t_entry_arg := arg\<rparr>) st1;
          (stack, st3) \<leftarrow> km_alloc (se_boot se) TASK_STACK_SIZE st2;
          if stack = 0 then Some (0, st3)
          else do {
            st4 \<leftarrow> link_task t (init_frame se t stack st3);
            Some (pid (sc_tasks st4 t), st4)
          }
        }
      })"

text \<open>\<open>create_task\<close> leaves the argument null.\<close>

definition create_task :: "sched_env \<Rightarrow> u64 \<Rightarrow> 'a sched_scheme \<Rightarrow> (int \<times> 'a sched_scheme) option" where
  "create_task se entry st = create_task_with_arg se entry 0 st"

definition create_user_task ::
  "sched_env \<Rightarrow> u64 \<Rightarrow> nat \<Rightarrow> 'a sched_scheme \<Rightarrow> (int \<times> 'a sched_scheme) option" where
  "create_user_task se uentry usize st =
     (if uentry = 0 \<or> usize = 0 then Some (0, st)
      else do {
        (t, st1) \<leftarrow> km_alloc (se_boot se) sizeof_Task st;
        if t = 0 then Some (0, st1)
        else do {
          let st1 = upd_task t (\<lambda>_. task_zero) st1;
          (ks, st2) \<leftarrow> km_alloc (se_boot se) TASK_STACK_SIZE st1;
          if ks = 0 then do { st3 \<leftarrow> km_free t st2; Some (0, st3) }
          else do {
            (us, st3) \<leftarrow> km_alloc (se_boot se) usize st2;
            if us = 0 then do { st4 \<leftarrow> km_free ks st3; st5 \<leftarrow> km_free t st4; Some (0, st5) }
            else do {
              let st4 = (upd_task t (\<lambda>x. x\<lparr>pid := next_pid st3, t_state := TASK_READY, is_user := True,
                  user_entry := uentry, user_stack := us, user_stack_size := usize,
                  t_entry := se_user_trampoline se, t_entry_arg := 0\<rparr>) st3)\<lparr>next_pid := next_pid st3 + 1\<rparr>;
              st5 \<leftarrow> make_fds se t st4;
              let st6 = init_frame se t ks (upd_task t (\<lambda>x. x\<lparr>exit_status := -1, parent_pid := 0\<rparr>) st5);
              st7 \<leftarrow> link_task t st6;
              let st8 = (if task_list st6 = 0 then st7\<lparr>current_task := t\<rparr> else st7);
              Some (pid (sc_tasks st8 t), st8)
            }
          }
        }
      })"

section \<open>Scheduling\<close>

text \<open>Everything a dead task owns.\<close>

definition free_task :: "u64 \<Rightarrow> 'a sched_scheme \<Rightarrow> 'a sched_scheme option" where
  "free_task t st =
     (let x = sc_tasks st t
      in do {
        st1 \<leftarrow> (if t_fds x \<noteq> 0 then fdtable_destroy (t_fds x) (t_fd_count x) st else Some st);
        st2 \<leftarrow> km_free_if (user_stack x) st1;
        st3 \<leftarrow> km_free_if (kstack x) st2;
        km_free t st3
      })"

text \<open>The search for the last task in \<open>schedule_next\<close>, which has no null check.\<close>

partial_function (option) ring_prev :: "(u64 \<Rightarrow> task) \<Rightarrow> u64 \<Rightarrow> u64 \<Rightarrow> u64 option" where
  "ring_prev T first tmp =
     (if tmp = 0 then None
      else if t_next (T tmp) \<noteq> first then ring_prev T first (t_next (T tmp)) else Some tmp)"

text \<open>One round of the loop that removes dead tasks: whether the current task was removed, the
  task before the cursor, the cursor, and the state.\<close>

definition sweep_step ::
  "u64 \<Rightarrow> bool \<Rightarrow> u64 \<Rightarrow> u64 \<Rightarrow> 'a sched_scheme \<Rightarrow> (bool \<times> u64 \<times> u64 \<times> 'a sched_scheme) option" where
  "sweep_step prev freed iter_prev iter st =
     (if iter = 0 then None
      else if t_state (sc_tasks st iter) = TASK_DEAD then do {
        let st1 = upd_task iter_prev (\<lambda>x. x\<lparr>t_next := t_next (sc_tasks st iter)\<rparr>) st;
        let st2 = (if iter = task_list st1 then st1\<lparr>task_list := t_next (sc_tasks st1 iter)\<rparr> else st1);
        st3 \<leftarrow> free_task iter st2;
        Some (freed \<or> iter = prev, iter_prev, t_next (sc_tasks st3 iter_prev), st3)
      }
      else Some (freed, iter, t_next (sc_tasks st iter), st))"

partial_function (option) sweep ::
  "u64 \<Rightarrow> bool \<Rightarrow> u64 \<Rightarrow> u64 \<Rightarrow> 'a sched_scheme \<Rightarrow> (bool \<times> 'a sched_scheme) option" where
  "sweep prev freed iter_prev iter st =
     Option.bind (sweep_step prev freed iter_prev iter st) (\<lambda>(freed', ip', it', st').
       if it' \<noteq> task_list st' \<and> task_list st' \<noteq> 0 then sweep prev freed' ip' it' st'
       else Some (freed', st'))"

definition runnable :: "task \<Rightarrow> bool" where
  "runnable x \<longleftrightarrow> t_state x = TASK_READY \<or> t_state x = TASK_RUNNING"

partial_function (option) probe :: "(u64 \<Rightarrow> task) \<Rightarrow> u64 \<Rightarrow> u64 \<Rightarrow> u64 \<Rightarrow> u64 option" where
  "probe T prev start nx =
     (if nx = 0 then Some 0
      else if runnable (T nx) then Some nx
      else let n = (if t_next (T nx) \<noteq> 0 then t_next (T nx) else prev)
           in if n \<noteq> 0 \<and> n \<noteq> start then probe T prev start n else Some n)"

text \<open>The state when \<open>context_switch\<close> is called, and whether it is.\<close>

definition schedule_next :: "'a sched_scheme \<Rightarrow> (bool \<times> 'a sched_scheme) option" where
  "schedule_next st =
     (if current_task st = 0 \<or> task_list st = 0 then Some (False, st)
      else do {
        let prev = current_task st;
        lst \<leftarrow> ring_prev (sc_tasks st) (task_list st) (task_list st);
        (freed, st1) \<leftarrow> sweep prev False lst (task_list st) st;
        if task_list st1 = 0 then Some (False, st1)
        else do {
          let start = (if freed then task_list st1
                       else if t_next (sc_tasks st1 prev) \<noteq> 0 then t_next (sc_tasks st1 prev) else prev);
          nx \<leftarrow> probe (sc_tasks st1) prev start start;
          if nx = 0 \<or> \<not> runnable (sc_tasks st1 nx) then Some (False, st1)
          else do {
            let st2 = upd_task prev (\<lambda>x. if t_state x = TASK_RUNNING then x\<lparr>t_state := TASK_READY\<rparr> else x) st1;
            let st3 = upd_task nx (\<lambda>x. x\<lparr>t_state := TASK_RUNNING\<rparr>) st2;
            Some (True, st3\<lparr>current_task := nx\<rparr>)
          }
        }
      })"

definition sched_yield :: "'a sched_scheme \<Rightarrow> (bool \<times> 'a sched_scheme) option" where
  "sched_yield st = schedule_next st"

text \<open>The end of a task: it marks itself dead and gives up the processor.\<close>

definition task_cleanup :: "'a sched_scheme \<Rightarrow> (bool \<times> 'a sched_scheme) option" where
  "task_cleanup st =
     schedule_next (if current_task st \<noteq> 0
       then upd_task (current_task st) (\<lambda>x. x\<lparr>t_state := TASK_DEAD\<rparr>) st else st)"

definition sched_getpid :: "'a sched_scheme \<Rightarrow> int" where
  "sched_getpid st = (if current_task st \<noteq> 0 then pid (sc_tasks st (current_task st)) else 0)"

partial_function (option) find_task_loop :: "(u64 \<Rightarrow> task) \<Rightarrow> int \<Rightarrow> u64 \<Rightarrow> u64 option" where
  "find_task_loop T p cur =
     (if cur = 0 then Some 0
      else if pid (T cur) = p then Some cur else find_task_loop T p (t_next (T cur)))"

definition find_task_by_pid :: "int \<Rightarrow> 'a sched_scheme \<Rightarrow> u64 option" where
  "find_task_by_pid p st = find_task_loop (sc_tasks st) p (task_list st)"

definition kill_task :: "int \<Rightarrow> 'a sched_scheme \<Rightarrow> 'a sched_scheme option" where
  "kill_task p st = do {
     t \<leftarrow> find_task_by_pid p st;
     Some (if t \<noteq> 0 \<and> t_state (sc_tasks st t) \<noteq> TASK_DEAD
           then upd_task t (\<lambda>x. x\<lparr>t_state := TASK_DEAD\<rparr>) st else st)
   }"

text \<open>Waiting for a task: \<open>others\<close> is what the other tasks do until the caller runs again.\<close>

partial_function (option) wait_task ::
  "('a sched_scheme \<Rightarrow> 'a sched_scheme) \<Rightarrow> int \<Rightarrow> 'a sched_scheme \<Rightarrow> 'a sched_scheme option" where
  "wait_task others p st =
     Option.bind (find_task_by_pid p st) (\<lambda>t.
       if t = 0 \<or> t_state (sc_tasks st t) = TASK_DEAD then Some st
       else Option.bind (schedule_next st) (\<lambda>(switched, st1).
              wait_task others p (if switched then others st1 else st1)))"

text \<open>What \<open>task_trampoline\<close> calls before \<open>task_cleanup\<close>.\<close>

datatype entry_call = Enter_user | Call_arg u64 u64 | Call_entry u64 | Call_nothing

definition task_trampoline :: "'a sched_scheme \<Rightarrow> entry_call" where
  "task_trampoline st =
     (let x = sc_tasks st (current_task st)
      in if current_task st = 0 then Call_nothing
         else if is_user x then Enter_user
         else if t_entry x = 0 then Call_nothing
         else if t_entry_arg x \<noteq> 0 then Call_arg (t_entry x) (t_entry_arg x) else Call_entry (t_entry x))"

text \<open>What the trampoline of a user task pushes for \<open>iretq\<close>, in the order of the pushes: stack
  segment, stack pointer, flags with interrupts enabled, code segment and instruction pointer.\<close>

definition user_iret_frame :: "u64 \<Rightarrow> task \<Rightarrow> u64 list" where
  "user_iret_frame flags x =
     [0x23, (user_stack x + of_nat (user_stack_size x)) AND NOT 0xF, flags OR 0x200, 0x1B, user_entry x]"

section \<open>The ring\<close>

fun seg :: "(u64 \<Rightarrow> task) \<Rightarrow> u64 \<Rightarrow> u64 list \<Rightarrow> u64 \<Rightarrow> bool" where
  "seg T p [] q \<longleftrightarrow> p = q"
| "seg T p (x # xs) q \<longleftrightarrow> p = x \<and> x \<noteq> 0 \<and> seg T (t_next (T x)) xs q"

definition ring :: "(u64 \<Rightarrow> task) \<Rightarrow> u64 list \<Rightarrow> bool" where
  "ring T xs \<longleftrightarrow> xs \<noteq> [] \<and> distinct xs \<and> seg T (hd xs) xs (hd xs)"

lemma seg_append: "seg T p (xs @ ys) q \<longleftrightarrow> (\<exists>r. seg T p xs r \<and> seg T r ys q)"
  by (induction xs arbitrary: p) auto

lemma seg_cong: "(\<And>x. x \<in> set xs \<Longrightarrow> t_next (T x) = t_next (T' x)) \<Longrightarrow> seg T p xs q = seg T' p xs q"
  by (induction xs arbitrary: p) auto

lemma seg_nonnull: "seg T p xs q \<Longrightarrow> x \<in> set xs \<Longrightarrow> x \<noteq> 0"
  by (induction xs arbitrary: p) auto

lemma seg_hd: "seg T p xs q \<Longrightarrow> xs \<noteq> [] \<Longrightarrow> p = hd xs"
  by (cases xs) auto

lemma seg_snoc: "seg T p (xs @ [x]) q \<longleftrightarrow> seg T p xs x \<and> x \<noteq> 0 \<and> t_next (T x) = q"
  by (auto simp: seg_append)

text \<open>The ring seen from any of its tasks.\<close>

lemma ring_rotate:
  assumes "ring T (us @ vs)"
  shows "ring T (vs @ us)"
proof (cases "us = [] \<or> vs = []")
  case False
  then obtain r where r: "seg T (hd us) us r" "seg T r vs (hd us)"
    using assms by (auto simp: ring_def seg_append)
  moreover have "r = hd vs" using seg_hd [OF r(2)] False by simp
  ultimately show ?thesis using assms False by (auto simp: ring_def seg_append)
qed (use assms in auto)

lemma ring_next:
  assumes "ring T (us @ c # vs)"
  shows "t_next (T c) = hd (vs @ us @ [c])" "t_next (T c) \<noteq> 0" "seg T (t_next (T c)) (vs @ us @ [c]) (t_next (T c))"
proof -
  have r: "ring T (c # vs @ us)" using ring_rotate [OF assms] by simp
  then have s: "seg T c (c # vs @ us) c" "seg T (t_next (T c)) (vs @ us) c" "c \<noteq> 0" by (auto simp: ring_def)
  show n: "t_next (T c) = hd (vs @ us @ [c])"
  proof (cases "vs @ us")
    case Nil
    then show ?thesis using s(2) by simp
  next
    case (Cons a as)
    then have "hd (vs @ us @ [c]) = a" by (metis append_Cons append_assoc list.sel(1))
    then show ?thesis using s(2) Cons by simp
  qed
  have "t_next (T c) \<in> set (vs @ us @ [c])" unfolding n by (intro hd_in_set) simp
  then show "t_next (T c) \<noteq> 0" using seg_nonnull [OF s(1)] by auto
  show "seg T (t_next (T c)) (vs @ us @ [c]) (t_next (T c))"
    using s(2,3) seg_snoc [of T "t_next (T c)" "vs @ us" c "t_next (T c)"] by simp
qed

lemma ring_last_seg:
  "seg T p ys first \<Longrightarrow> ys \<noteq> [] \<Longrightarrow> first \<notin> set (tl ys) \<Longrightarrow> ring_last T first p = Some (last ys)"
proof (induction ys arbitrary: p)
  case (Cons y ys)
  show ?case
  proof (cases ys)
    case Nil
    then show ?thesis using Cons.prems by (simp add: ring_last.simps [of T first])
  next
    case (Cons z zs)
    then have "t_next (T y) = z" "z \<noteq> 0" "z \<noteq> first" "seg T z ys first" "first \<notin> set (tl ys)"
      using Cons.prems Cons by auto
    with Cons.IH [of z] Cons.prems Cons show ?thesis by (simp add: ring_last.simps [of T first y])
  qed
qed simp

lemma ring_prev_seg:
  "seg T p ys first \<Longrightarrow> ys \<noteq> [] \<Longrightarrow> first \<notin> set (tl ys) \<Longrightarrow> ring_prev T first p = Some (last ys)"
proof (induction ys arbitrary: p)
  case (Cons y ys)
  show ?case
  proof (cases ys)
    case Nil
    then show ?thesis using Cons.prems by (simp add: ring_prev.simps [of T first])
  next
    case (Cons z zs)
    then have "t_next (T y) = z" "z \<noteq> first" "seg T z ys first" "first \<notin> set (tl ys)"
      using Cons.prems Cons by auto
    with Cons.IH [of z] Cons.prems Cons show ?thesis by (simp add: ring_prev.simps [of T first y])
  qed
qed simp

lemma ring_ends:
  assumes "ring T xs"
  shows "ring_last T (hd xs) (hd xs) = Some (last xs)" "ring_prev T (hd xs) (hd xs) = Some (last xs)"
proof -
  have "seg T (hd xs) xs (hd xs)" "xs \<noteq> []" "hd xs \<notin> set (tl xs)"
    using assms by (cases xs; auto simp: ring_def)+
  then show "ring_last T (hd xs) (hd xs) = Some (last xs)" "ring_prev T (hd xs) (hd xs) = Some (last xs)"
    by (rule ring_last_seg, rule ring_prev_seg)
qed

text \<open>The search for a runnable task goes once around the ring.\<close>

lemma probe_seg:
  "seg T p ys start \<Longrightarrow> ys \<noteq> [] \<Longrightarrow> start \<notin> set (tl ys) \<Longrightarrow> start \<noteq> 0 \<Longrightarrow>
     probe T prev start p = Some (case find (\<lambda>x. runnable (T x)) ys of Some x \<Rightarrow> x | None \<Rightarrow> start)"
proof (induction ys arbitrary: p)
  case (Cons y ys)
  have y: "p = y" "y \<noteq> 0" "seg T (t_next (T y)) ys start" using Cons.prems(1) by auto
  show ?case
  proof (cases "runnable (T y)")
    case True
    then show ?thesis using y by (simp add: probe.simps [of T prev start y])
  next
    case False
    show ?thesis
    proof (cases ys)
      case Nil
      then show ?thesis using y False Cons.prems(4) by (simp add: probe.simps [of T prev start y])
    next
      case (Cons z zs)
      then have z: "t_next (T y) = z" "z \<noteq> 0" "z \<noteq> start" "start \<notin> set (tl ys)" "ys \<noteq> []"
        using y(3) Cons.prems(3) by auto
      from Cons.IH [OF y(3) z(5,4) Cons.prems(4)] show ?thesis
        using y(1,2) z(1-3) False by (simp add: probe.simps [of T prev start y])
    qed
  qed
qed simp

section \<open>Finding a task\<close>

lemma find_task_seg:
  "seg T p (us @ x # vs) q \<Longrightarrow> (\<forall>u\<in>set us. pid (T u) \<noteq> n) \<Longrightarrow> pid (T x) = n \<Longrightarrow>
     find_task_loop T n p = Some x"
proof (induction us arbitrary: p)
  case Nil
  then show ?case by (simp add: find_task_loop.simps [of T n x])
next
  case (Cons u us)
  then have "find_task_loop T n (t_next (T u)) = Some x" by simp
  with Cons.prems show ?case by (simp add: find_task_loop.simps [of T n u])
qed

lemma ring_nonnull: "ring T xs \<Longrightarrow> x \<in> set xs \<Longrightarrow> x \<noteq> 0"
  unfolding ring_def using seg_nonnull by blast

lemma ring_hd: "ring T xs \<Longrightarrow> hd xs \<in> set xs"
  by (simp add: ring_def)

lemma ring_closed: "ring T xs \<Longrightarrow> x \<in> set xs \<Longrightarrow> t_next (T x) \<in> set xs"
proof -
  assume r: "ring T xs" and "x \<in> set xs"
  then obtain us vs where xs: "xs = us @ x # vs" by (auto simp: in_set_conv_decomp)
  have "hd (vs @ us @ [x]) \<in> set (vs @ us @ [x])" by (intro hd_in_set) simp
  then show ?thesis using ring_next(1) r unfolding xs by auto
qed

lemma find_task_diverges:
  assumes "find_task_loop T n cur = Some r"
  shows "ring T xs \<longrightarrow> cur \<in> set xs \<longrightarrow> (\<exists>x\<in>set xs. pid (T x) = n)"
proof (rule find_task_loop.raw_induct [OF _ assms])
  fix f T n cur r
  assume ih: "\<And>T n cur r. f T n cur = Some r \<Longrightarrow> ring T xs \<longrightarrow> cur \<in> set xs \<longrightarrow> (\<exists>x\<in>set xs. pid (T x) = n)"
    and b: "(if cur = 0 then Some 0 else if pid (T cur) = n then Some cur else f T n (t_next (T cur))) = Some r"
  show "ring T xs \<longrightarrow> cur \<in> set xs \<longrightarrow> (\<exists>x\<in>set xs. pid (T x) = n)"
  proof (intro impI)
    assume r: "ring T xs" "cur \<in> set xs"
    then have "cur \<noteq> 0" using seg_nonnull [of T "hd xs" xs "hd xs" cur] by (simp add: ring_def)
    then show "\<exists>x\<in>set xs. pid (T x) = n"
      using b ih [of T n "t_next (T cur)" r] r ring_closed [OF r] by (auto split: if_splits)
  qed
qed

lemma find_task_ring:
  assumes "ring (sc_tasks st) xs" "task_list st = hd xs"
  shows "find_task_by_pid n st = find (\<lambda>x. pid (sc_tasks st x) = n) xs"
proof (cases "find (\<lambda>x. pid (sc_tasks st x) = n) xs")
  case None
  have "hd xs \<in> set xs" using assms(1) by (auto simp: ring_def)
  then have "find_task_loop (sc_tasks st) n (hd xs) = None"
    using find_task_diverges [of "sc_tasks st" n "hd xs" _ xs] assms(1) None
    by (cases "find_task_loop (sc_tasks st) n (hd xs)") (auto simp: find_None_iff)
  with None assms(2) show ?thesis by (simp add: find_task_by_pid_def)
next
  case (Some x)
  then obtain us vs where "xs = us @ x # vs" "pid (sc_tasks st x) = n" "\<forall>u\<in>set us. pid (sc_tasks st u) \<noteq> n"
    using find_split [OF Some] by blast
  with assms show ?thesis
    using find_task_seg [of "sc_tasks st" "hd xs" us x vs "hd xs" n] Some by (simp add: find_task_by_pid_def ring_def)
qed

section \<open>What a task owns\<close>

lemma upd_task_simps [simp]:
  "sc_tasks (upd_task p f st) = (sc_tasks st)(p := f (sc_tasks st p))"
  "km_heap (upd_task p f st) = km_heap st" "km_fdt (upd_task p f st) = km_fdt st"
  "task_list (upd_task p f st) = task_list st" "current_task (upd_task p f st) = current_task st"
  "next_pid (upd_task p f st) = next_pid st" "sc_words (upd_task p f st) = sc_words st"
  by (simp_all add: upd_task_def)

lemma fdt_put_sched [simp]:
  "sc_tasks (fdt_put tbl es st) = sc_tasks st" "task_list (fdt_put tbl es st) = task_list st"
  "current_task (fdt_put tbl es st) = current_task st" "next_pid (fdt_put tbl es st) = next_pid st"
  "sc_words (fdt_put tbl es st) = sc_words st"
  by (simp_all add: fdt_put_def)

definition opt_block :: "u64 \<Rightarrow> u64 list" where
  "opt_block p = (if p \<noteq> 0 then [p] else [])"

definition task_blocks :: "'a sched_scheme \<Rightarrow> u64 \<Rightarrow> u64 list" where
  "task_blocks st t =
     (let x = sc_tasks st t
      in (if t_fds x \<noteq> 0 then fd_table_blocks (t_fds x) (km_fdt st (t_fds x)) else []) @
         opt_block (user_stack x) @ opt_block (kstack x) @ [t])"

definition task_ok :: "'a sched_scheme \<Rightarrow> u64 \<Rightarrow> bool" where
  "task_ok st t \<longleftrightarrow> (t_fds (sc_tasks st t) \<noteq> 0 \<longrightarrow>
     nat (t_fd_count (sc_tasks st t)) = length (km_fdt st (t_fds (sc_tasks st t))))"

lemma km_free_if_dealloc:
  "km_free_if p k = map_option (\<lambda>h. k\<lparr>km_heap := h\<rparr>) (rm.dealloc_list (opt_block p) (km_heap k))"
  by (auto simp: km_free_if_def km_free_def opt_block_def split: bind_splits)

lemma free_task_dealloc:
  assumes "task_ok st t"
  obtains f where "free_task t st = map_option (\<lambda>h. f\<lparr>km_heap := h\<rparr>) (rm.dealloc_list (task_blocks st t) (km_heap st))"
    "sc_tasks f = sc_tasks st" "task_list f = task_list st" "current_task f = current_task st"
    "next_pid f = next_pid st" "sc_words f = sc_words st" "km_heap f = km_heap st"
    "\<And>tbl. tbl \<noteq> t_fds (sc_tasks st t) \<Longrightarrow> km_fdt f tbl = km_fdt st tbl"
proof -
  let ?x = "sc_tasks st t"
  let ?f = "if t_fds ?x \<noteq> 0 then fdt_put (t_fds ?x)
    (fold fd_close_at [0..<nat (t_fd_count ?x)] (km_fdt st (t_fds ?x))) st else st"
  let ?b = "if t_fds ?x \<noteq> 0 then fd_table_blocks (t_fds ?x) (km_fdt st (t_fds ?x)) else []"
  have d: "(if t_fds ?x \<noteq> 0 then fdtable_destroy (t_fds ?x) (t_fd_count ?x) st else Some st) =
      map_option (\<lambda>h. ?f\<lparr>km_heap := h\<rparr>) (rm.dealloc_list ?b (km_heap st))"
    using fdtable_destroy_dealloc [of "t_fds ?x" "t_fd_count ?x" st] assms by (simp add: task_ok_def)
  have "free_task t st = map_option (\<lambda>h. ?f\<lparr>km_heap := h\<rparr>) (rm.dealloc_list (task_blocks st t) (km_heap st))"
    unfolding free_task_def Let_def d task_blocks_def dealloc_list_append km_free_if_dealloc
    by (cases "rm.dealloc_list ?b (km_heap st)") (auto simp: km_free_def split: bind_splits)
  then show ?thesis by (rule that) (auto simp: fdt_put_def)
qed

section \<open>The invariant\<close>

definition sc_inv :: "sched_env \<Rightarrow> nat \<Rightarrow> u64 set \<Rightarrow> u64 list \<Rightarrow> 'a sched_scheme \<Rightarrow> bool" where
  "sc_inv se S A xs st \<longleftrightarrow> ring (sc_tasks st) xs \<and> task_list st = hd xs \<and>
     heap_room (se_boot se) S A (km_heap st) \<and> 0 \<notin> A \<and>
     distinct (concat (map (task_blocks st) xs)) \<and> set (concat (map (task_blocks st) xs)) \<subseteq> A \<and>
     (\<forall>t\<in>set xs. task_ok st t)"

definition alive :: "'a sched_scheme \<Rightarrow> u64 \<Rightarrow> bool" where
  "alive st t \<longleftrightarrow> t_state (sc_tasks st t) \<noteq> TASK_DEAD"

text \<open>Two states whose tasks differ in their links at most.\<close>

definition same_tasks :: "'a sched_scheme \<Rightarrow> 'a sched_scheme \<Rightarrow> bool" where
  "same_tasks st st' \<longleftrightarrow> (\<forall>x. (sc_tasks st' x)\<lparr>t_next := 0\<rparr> = (sc_tasks st x)\<lparr>t_next := 0\<rparr>) \<and>
     current_task st' = current_task st \<and> next_pid st' = next_pid st \<and> sc_words st' = sc_words st"

lemma same_tasks_refl [simp]: "same_tasks st st"
  by (simp add: same_tasks_def)

lemma same_tasks_trans: "same_tasks a b \<Longrightarrow> same_tasks b c \<Longrightarrow> same_tasks a c"
  by (simp add: same_tasks_def)

lemma same_task_fields:
  assumes "x\<lparr>t_next := 0\<rparr> = y\<lparr>t_next := 0\<rparr>"
  shows "t_state x = t_state y" "t_fds x = t_fds y" "user_stack x = user_stack y" "kstack x = kstack y"
    "pid x = pid y" "t_fd_count x = t_fd_count y"
  using assms by (cases x; cases y; simp)+

lemma task_blocks_same:
  assumes "(sc_tasks st' t)\<lparr>t_next := 0\<rparr> = (sc_tasks st t)\<lparr>t_next := 0\<rparr>"
    and "t_fds (sc_tasks st t) \<noteq> 0 \<Longrightarrow> km_fdt st' (t_fds (sc_tasks st t)) = km_fdt st (t_fds (sc_tasks st t))"
  shows "task_blocks st' t = task_blocks st t" "task_ok st' t \<longleftrightarrow> task_ok st t"
  using same_task_fields [OF assms(1)] assms(2) by (auto simp: task_blocks_def task_ok_def Let_def)

lemma fds_in_blocks: "t_fds (sc_tasks st t) \<noteq> 0 \<Longrightarrow> t_fds (sc_tasks st t) \<in> set (task_blocks st t)"
  by (simp add: task_blocks_def Let_def fd_table_blocks_def)

lemma self_in_blocks: "t \<in> set (task_blocks st t)"
  by (simp add: task_blocks_def Let_def)

lemma unlink_ring:
  assumes r: "ring T (zs @ y # ys)" and zs: "zs \<noteq> []"
  shows "ring (T(last zs := (T (last zs))\<lparr>t_next := t_next (T y)\<rparr>)) (zs @ ys)"
proof -
  let ?T = "T(last zs := (T (last zs))\<lparr>t_next := t_next (T y)\<rparr>)"
  obtain us l where l: "zs = us @ [l]" using zs by (cases zs rule: rev_cases) auto
  have s: "seg T (hd zs) us l" "l \<noteq> 0" "t_next (T l) = y" "seg T (t_next (T y)) ys (hd zs)" "distinct (zs @ y # ys)"
    using r zs unfolding ring_def l by (auto simp: seg_append hd_append)
  have "seg ?T (hd zs) us l = seg T (hd zs) us l" using s(5) l by (intro seg_cong) auto
  moreover have "seg ?T (t_next (T y)) ys (hd zs) = seg T (t_next (T y)) ys (hd zs)"
    using s(5) l by (intro seg_cong) auto
  ultimately have "seg ?T (hd zs) (zs @ ys) (hd zs)"
    using s(1,2,4) l by (auto simp: seg_append)
  then show ?thesis using s(5) zs by (simp add: ring_def)
qed

lemma dealloc_room_blocks:
  assumes "heap_room env S A h" "0 \<notin> A" "set ps \<subseteq> A" "distinct ps"
  obtains h' where "rm.dealloc_list ps h = Some h'" "heap_room env S (A - set ps) h'"
  using rm.dealloc_list_room [OF assms(1,3,4)] assms(2,3) by blast

lemma remove_step:
  assumes inv: "sc_inv se S A (zs @ y # ys) st" and zs: "zs \<noteq> []"
  defines "st1 \<equiv> upd_task (last zs) (\<lambda>x. x\<lparr>t_next := t_next (sc_tasks st y)\<rparr>) st"
  obtains st3 where "free_task y st1 = Some st3" "sc_inv se S (A - set (task_blocks st y)) (zs @ ys) st3"
    "same_tasks st st3" "t_next (sc_tasks st3 (last zs)) = t_next (sc_tasks st y)"
    "\<forall>t\<in>set (zs @ ys). task_blocks st3 t = task_blocks st t"
proof -
  have I: "ring (sc_tasks st) (zs @ y # ys)" "task_list st = hd zs" "heap_room (se_boot se) S A (km_heap st)" "0 \<notin> A"
    "distinct (concat (map (task_blocks st) (zs @ y # ys)))" "set (concat (map (task_blocks st) (zs @ y # ys))) \<subseteq> A"
    "\<forall>t\<in>set (zs @ y # ys). task_ok st t"
    using inv zs by (auto simp: sc_inv_def)
  have b1: "task_blocks st1 t = task_blocks st t" "task_ok st1 t = task_ok st t" for t
    by (rule task_blocks_same; simp add: st1_def)+
  obtain f where f: "free_task y st1 = map_option (\<lambda>h. f\<lparr>km_heap := h\<rparr>) (rm.dealloc_list (task_blocks st1 y) (km_heap st1))"
    "sc_tasks f = sc_tasks st1" "task_list f = task_list st1" "current_task f = current_task st1"
    "next_pid f = next_pid st1" "sc_words f = sc_words st1"
    "\<And>tbl. tbl \<noteq> t_fds (sc_tasks st1 y) \<Longrightarrow> km_fdt f tbl = km_fdt st1 tbl"
    by (rule free_task_dealloc [of st1 y]) (use I(7) b1(2) in auto)
  have own: "set (task_blocks st y) \<subseteq> A" "distinct (task_blocks st y)" using I(5,6) by auto
  obtain h where h: "rm.dealloc_list (task_blocks st y) (km_heap st) = Some h"
    "heap_room (se_boot se) S (A - set (task_blocks st y)) h"
    by (rule dealloc_room_blocks [OF I(3,4) own])
  let ?st3 = "f\<lparr>km_heap := h\<rparr>"
  have hp: "km_heap st1 = km_heap st" and fy: "t_fds (sc_tasks st1 y) = t_fds (sc_tasks st y)"
    by (simp_all add: st1_def)
  have b3: "task_blocks ?st3 t = task_blocks st t" "task_ok ?st3 t = task_ok st t" if "t \<in> set (zs @ ys)" for t
  proof -
    have "t_fds (sc_tasks st t) \<noteq> t_fds (sc_tasks st y)" if "t_fds (sc_tasks st t) \<noteq> 0"
    proof
      assume "t_fds (sc_tasks st t) = t_fds (sc_tasks st y)"
      with fds_in_blocks [OF that] fds_in_blocks [of st y] that
      have "set (task_blocks st t) \<inter> set (task_blocks st y) \<noteq> {}" by auto
      then show False using I(5) \<open>t \<in> set (zs @ ys)\<close> by fastforce
    qed
    then have "t_fds (sc_tasks st t) \<noteq> 0 \<Longrightarrow> km_fdt ?st3 (t_fds (sc_tasks st t)) = km_fdt st (t_fds (sc_tasks st t))"
      using f(7) fy by (simp add: st1_def)
    then show "task_blocks ?st3 t = task_blocks st t" "task_ok ?st3 t = task_ok st t"
      by (auto intro!: task_blocks_same simp: f(2) st1_def)
  qed
  have m: "map (task_blocks ?st3) (zs @ ys) = map (task_blocks st) (zs @ ys)" using b3(1) by simp
  have "sc_inv se S (A - set (task_blocks st y)) (zs @ ys) ?st3"
    unfolding sc_inv_def m
  proof (intro conjI)
    show "ring (sc_tasks ?st3) (zs @ ys)"
      using unlink_ring [OF I(1) zs] by (simp add: f(2) st1_def)
    show "set (concat (map (task_blocks st) (zs @ ys))) \<subseteq> A - set (task_blocks st y)"
      using I(5,6) by auto
  qed (use I h zs b3(2) f(3) in \<open>auto simp: st1_def\<close>)
  moreover have "same_tasks st ?st3" using f(2,4-6) by (auto simp: same_tasks_def st1_def)
  ultimately show ?thesis
    using f(1,2) h(1) b1(1) hp b3(1) by (intro that [of ?st3]) (simp_all add: st1_def)
qed

section \<open>The sweep\<close>

lemma same_alive: "same_tasks st st' \<Longrightarrow> alive st' t = alive st t"
  unfolding same_tasks_def alive_def by (metis same_task_fields(1))

lemma same_alive_fun: "same_tasks st st' \<Longrightarrow> alive st' = alive st"
  by (rule ext) (rule same_alive)

text \<open>The blocks of the dead tasks of a list.\<close>

definition dead_blocks :: "'a sched_scheme \<Rightarrow> u64 list \<Rightarrow> u64 set" where
  "dead_blocks st ys = (\<Union>y\<in>{y\<in>set ys. \<not> alive st y}. set (task_blocks st y))"

lemma dead_blocks_simps [simp]:
  "dead_blocks st [] = {}"
  "dead_blocks st (y # ys) = (if alive st y then {} else set (task_blocks st y)) \<union> dead_blocks st ys"
  by (auto simp: dead_blocks_def)

lemma next_after:
  assumes "ring T (zs @ y # ys)" "zs \<noteq> []"
  shows "t_next (T y) = (if ys = [] then hd zs else hd ys)"
  using ring_next(1) [OF assms(1)] assms(2) by (cases ys; cases zs) auto

lemma sweep_loop:
  assumes "sc_inv se S A (zs @ ys) st" "zs \<noteq> []" "ys \<noteq> []"
  shows "\<exists>st'. sweep prev fr (last zs) (hd ys) st = Some (fr \<or> (prev \<in> set ys \<and> \<not> alive st prev), st') \<and>
    sc_inv se S (A - dead_blocks st ys) (zs @ filter (alive st) ys) st' \<and> same_tasks st st'"
  using assms
proof (induction ys arbitrary: zs fr st A)
  case (Cons y ys)
  have R: "ring (sc_tasks st) (zs @ y # ys)" "task_list st = hd zs"
    using Cons.prems by (auto simp: sc_inv_def)
  have nn: "y \<noteq> 0" "hd zs \<noteq> 0" and dj: "hd zs \<notin> set ys" "y \<noteq> hd zs"
    using R(1) Cons.prems(2) seg_nonnull [of "sc_tasks st" "hd (zs @ y # ys)" "zs @ y # ys"]
    by (auto simp: ring_def dest: hd_in_set)
  note nx = next_after [OF R(1) Cons.prems(2)]
  show ?case
  proof (cases "alive st y")
    case True
    have step: "sweep_step prev fr (last zs) y st = Some (fr, y, t_next (sc_tasks st y), st)"
      using True nn by (simp add: sweep_step_def alive_def)
    show ?thesis
    proof (cases "ys = []")
      case True': True
      then show ?thesis
        using step nx R(2) True Cons.prems(1) by (auto simp: sweep.simps [of prev fr "last zs" y])
    next
      case False
      have "hd ys \<noteq> task_list st" using dj(1) R(2) hd_in_set [OF False] by metis
      moreover have "sc_inv se S A ((zs @ [y]) @ ys) st" using Cons.prems(1) by simp
      note ih = Cons.IH [OF this _ False, of fr]
      ultimately show ?thesis
        using ih step nx False nn R(2) True by (auto simp: sweep.simps [of prev fr "last zs" y])
    qed
  next
    case dead: False
    let ?st1 = "upd_task (last zs) (\<lambda>x. x\<lparr>t_next := t_next (sc_tasks st y)\<rparr>) st"
    obtain st3 where r: "free_task y ?st1 = Some st3" "sc_inv se S (A - set (task_blocks st y)) (zs @ ys) st3"
      "same_tasks st st3" "t_next (sc_tasks st3 (last zs)) = t_next (sc_tasks st y)"
      "\<forall>t\<in>set (zs @ ys). task_blocks st3 t = task_blocks st t"
      by (rule remove_step [OF Cons.prems(1,2)])
    have tl: "task_list st3 = hd zs" using r(2) Cons.prems(2) by (simp add: sc_inv_def)
    have step: "sweep_step prev fr (last zs) y st =
        Some (fr \<or> y = prev, last zs, t_next (sc_tasks st y), st3)"
      using dead nn dj(2) r(1,4) R(2) by (simp add: sweep_step_def alive_def Let_def)
    show ?thesis
    proof (cases "ys = []")
      case True
      then show ?thesis
        using step nx tl dead r(2,3) by (auto simp: sweep.simps [of prev fr "last zs" y])
    next
      case False
      have "hd ys \<noteq> task_list st3" using dj(1) tl hd_in_set [OF False] by metis
      moreover have a: "alive st3 = alive st" by (rule same_alive_fun [OF r(3)])
      moreover have "dead_blocks st3 ys = dead_blocks st ys" using r(5) a by (auto simp: dead_blocks_def)
      moreover have "y \<notin> set ys" using R(1) by (simp add: ring_def)
      ultimately show ?thesis
        using Cons.IH [OF r(2) Cons.prems(2) False, of "fr \<or> y = prev"] step nx False nn tl dead
          same_tasks_trans [OF r(3)]
        by (auto simp: sweep.simps [of prev fr "last zs" y] Diff_eq Int_assoc)
    qed
  qed
qed simp

text \<open>With a living head the sweep removes exactly the dead tasks and releases exactly their
  blocks.\<close>

lemma sweep_spec:
  assumes inv: "sc_inv se S A xs st" and hd: "alive st (hd xs)"
  shows "\<exists>st'. sweep prev False (last xs) (hd xs) st = Some (prev \<in> set xs \<and> \<not> alive st prev, st') \<and>
    sc_inv se S (A - dead_blocks st xs) (filter (alive st) xs) st' \<and> same_tasks st st'"
proof -
  obtain x ys where xs: "xs = x # ys" using inv by (cases xs) (auto simp: sc_inv_def ring_def)
  have R: "ring (sc_tasks st) (x # ys)" "task_list st = x" using inv by (auto simp: sc_inv_def xs)
  then have x: "x \<noteq> 0" "x \<notin> set ys" by (auto simp: ring_def)
  have nx: "t_next (sc_tasks st x) = (if ys = [] then x else hd ys)"
    using ring_next(1) [of "sc_tasks st" "[]" x ys] R(1) by (cases ys) auto
  have step: "sweep_step prev False (last xs) x st = Some (False, x, t_next (sc_tasks st x), st)"
    using hd x by (simp add: sweep_step_def alive_def xs)
  show ?thesis
  proof (cases "ys = []")
    case True
    then have "sweep prev False (last xs) x st = Some (False, st)"
      using step nx R(2) by (subst sweep.simps) simp
    then show ?thesis using True hd inv by (auto simp: xs)
  next
    case False
    have "hd ys \<noteq> task_list st" using x(2) R(2) hd_in_set [OF False] by metis
    moreover have "sc_inv se S A ([x] @ ys) st" using inv by (simp add: xs)
    note lp = sweep_loop [OF this _ False, of prev False]
    moreover have "sweep prev False (last xs) x st = sweep prev False x (hd ys) st"
      using step nx False x R(2) calculation(1) by (subst sweep.simps) simp
    ultimately show ?thesis using hd by (auto simp: xs)
  qed
qed

section \<open>The choice of the next task\<close>

text \<open>The order in which the tasks of a ring are considered: from the one behind the current
  task around to the current one, or from the head when the current task is gone.\<close>

definition sched_order :: "u64 \<Rightarrow> u64 list \<Rightarrow> u64 list" where
  "sched_order c xs = (if c \<in> set xs then tl (dropWhile (\<lambda>x. x \<noteq> c) xs) @ takeWhile (\<lambda>x. x \<noteq> c) xs @ [c] else xs)"

lemma sched_order_split: "c \<notin> set us \<Longrightarrow> sched_order c (us @ c # vs) = vs @ us @ [c]"
proof -
  assume "c \<notin> set us"
  then have "takeWhile (\<lambda>x. x \<noteq> c) (us @ c # vs) = us" "dropWhile (\<lambda>x. x \<noteq> c) (us @ c # vs) = c # vs"
    by (induction us) auto
  then show ?thesis by (simp add: sched_order_def)
qed

lemma set_sched_order: "set (sched_order c xs) = set xs"
proof (cases "c \<in> set xs")
  case True
  then obtain us vs where "xs = us @ c # vs" "c \<notin> set us" by (meson split_list_first)
  then show ?thesis by (auto simp: sched_order_split)
qed (simp add: sched_order_def)

lemma probe_ring:
  assumes r: "ring T xs" and start: "start = (if c \<in> set xs then t_next (T c) else hd xs)"
  shows "probe T prev start start =
    Some (case find (\<lambda>x. runnable (T x)) (sched_order c xs) of Some x \<Rightarrow> x | None \<Rightarrow> start)" "start \<in> set xs"
proof -
  have "seg T start (sched_order c xs) start \<and> start = hd (sched_order c xs) \<and> distinct (sched_order c xs) \<and> start \<noteq> 0"
  proof (cases "c \<in> set xs")
    case True
    then obtain us vs where u: "xs = us @ c # vs" "c \<notin> set us" by (meson split_list_first)
    have d: "distinct (vs @ us @ [c])" using r by (auto simp: ring_def u(1))
    show ?thesis
      using ring_next [of T us c vs] r True d unfolding start u(1) sched_order_split [OF u(2)] by simp
  next
    case False
    have "hd xs \<noteq> 0" using r seg_nonnull [of T "hd xs" xs "hd xs"] by (auto simp: ring_def)
    with False r show ?thesis by (simp add: start sched_order_def ring_def)
  qed
  moreover have ne: "sched_order c xs \<noteq> []"
    using set_sched_order [of c xs] r by (auto simp: ring_def)
  ultimately have p: "seg T start (sched_order c xs) start" "start \<notin> set (tl (sched_order c xs))" "start \<noteq> 0"
    "start = hd (sched_order c xs)"
    by (auto, metis distinct.simps(2) list.collapse)
  show "probe T prev start start =
      Some (case find (\<lambda>x. runnable (T x)) (sched_order c xs) of Some x \<Rightarrow> x | None \<Rightarrow> start)"
    by (rule probe_seg [OF p(1) ne p(2,3)])
  show "start \<in> set xs" using hd_in_set [OF ne] p(4) set_sched_order [of c xs] by simp
qed

text \<open>Changing the state of a task keeps the invariant.\<close>

lemma sc_inv_cong:
  assumes "\<And>x. t_next (sc_tasks st' x) = t_next (sc_tasks st x) \<and> t_fds (sc_tasks st' x) = t_fds (sc_tasks st x) \<and>
      t_fd_count (sc_tasks st' x) = t_fd_count (sc_tasks st x) \<and>
      user_stack (sc_tasks st' x) = user_stack (sc_tasks st x) \<and> kstack (sc_tasks st' x) = kstack (sc_tasks st x)"
    and "km_heap st' = km_heap st" "km_fdt st' = km_fdt st" "task_list st' = task_list st"
  shows "sc_inv se S A xs st' \<longleftrightarrow> sc_inv se S A xs st"
proof -
  have "task_blocks st' = task_blocks st" "task_ok st' = task_ok st"
    using assms by (auto simp: fun_eq_iff task_blocks_def task_ok_def Let_def)
  moreover have "seg (sc_tasks st') p ys q = seg (sc_tasks st) p ys q" for p ys q
    using assms(1) by (intro seg_cong) simp
  ultimately show ?thesis using assms(2,4) by (simp add: sc_inv_def ring_def)
qed

definition sched_picks :: "'a sched_scheme \<Rightarrow> u64 list \<Rightarrow> u64 option" where
  "sched_picks st xs = find (\<lambda>x. runnable (sc_tasks st x)) (sched_order (current_task st) (filter (alive st) xs))"

definition switch_state :: "u64 \<Rightarrow> u64 \<Rightarrow> u64 \<Rightarrow> tstate \<Rightarrow> tstate" where
  "switch_state c nx t s = (if t = nx then TASK_RUNNING else if t = c \<and> s = TASK_RUNNING then TASK_READY else s)"

lemma schedule_next_ring:
  assumes inv: "sc_inv se S A xs st" and hd: "alive st (hd xs)" and cur: "current_task st \<in> set xs"
  shows "\<exists>st'. schedule_next st = Some (sched_picks st xs \<noteq> None, st') \<and>
    sc_inv se S (A - dead_blocks st xs) (filter (alive st) xs) st' \<and> next_pid st' = next_pid st \<and>
    (\<forall>t. pid (sc_tasks st' t) = pid (sc_tasks st t)) \<and>
    (case sched_picks st xs of
       Some nx \<Rightarrow> current_task st' = nx \<and>
         (\<forall>t. t_state (sc_tasks st' t) = switch_state (current_task st) nx t (t_state (sc_tasks st t)))
     | None \<Rightarrow> same_tasks st st')"
proof -
  let ?c = "current_task st" and ?ys = "filter (alive st) xs" and ?B = "A - dead_blocks st xs"
  have R: "ring (sc_tasks st) xs" "task_list st = hd xs" using inv by (auto simp: sc_inv_def)
  have nz: "?c \<noteq> 0" "hd xs \<noteq> 0"
    using ring_nonnull [OF R(1)] cur ring_hd [OF R(1)] by blast+
  obtain st1 where sw: "sweep ?c False (last xs) (hd xs) st = Some (\<not> alive st ?c, st1)"
    "sc_inv se S ?B ?ys st1" "same_tasks st st1"
    using sweep_spec [OF inv hd, of ?c] cur by auto
  have R1: "ring (sc_tasks st1) ?ys" "task_list st1 = hd ?ys" using sw(2) by (auto simp: sc_inv_def)
  have c1: "?c \<in> set ?ys \<longleftrightarrow> alive st ?c" using cur by simp
  define start where "start = (if ?c \<in> set ?ys then t_next (sc_tasks st1 ?c) else hd ?ys)"
  note pr = probe_ring [OF R1(1) start_def]
  have s1: "t_state (sc_tasks st1 x) = t_state (sc_tasks st x)" "pid (sc_tasks st1 x) = pid (sc_tasks st x)" for x
    using same_task_fields(1,5) [of "sc_tasks st1 x" "sc_tasks st x"] sw(3) by (simp_all add: same_tasks_def)
  have run: "runnable (sc_tasks st1 x) = runnable (sc_tasks st x)" for x by (simp add: runnable_def s1)
  have nx0: "t_next (sc_tasks st1 ?c) \<noteq> 0" if "?c \<in> set ?ys"
    using ring_nonnull [OF R1(1) ring_closed [OF R1(1) that]] .
  have tl1: "task_list st1 \<noteq> 0" unfolding R1(2) using ring_nonnull [OF R1(1) ring_hd [OF R1(1)]] .
  let ?go = "\<lambda>nx. Some (True, (upd_task nx (\<lambda>x. x\<lparr>t_state := TASK_RUNNING\<rparr>)
      (upd_task ?c (\<lambda>x. if t_state x = TASK_RUNNING then x\<lparr>t_state := TASK_READY\<rparr> else x) st1))\<lparr>current_task := nx\<rparr>)"
  have st: "(if \<not> alive st ?c then task_list st1
      else if t_next (sc_tasks st1 ?c) \<noteq> 0 then t_next (sc_tasks st1 ?c) else ?c) = start"
    using c1 nx0 R1(2) by (simp add: start_def)
  have eq: "schedule_next st = do {
      nx \<leftarrow> probe (sc_tasks st1) ?c start start;
      if nx = 0 \<or> \<not> runnable (sc_tasks st1 nx) then Some (False, st1) else ?go nx }"
    using nz R(2) ring_ends(2) [OF R(1)] sw(1) tl1 unfolding schedule_next_def Let_def by (simp add: st)
  show ?thesis
  proof (cases "sched_picks st xs")
    case None
    then have f: "find (\<lambda>x. runnable (sc_tasks st1 x)) (sched_order ?c ?ys) = None"
      by (simp add: sched_picks_def run)
    then have "\<not> runnable (sc_tasks st1 start)"
      using pr(2) set_sched_order [of ?c ?ys] by (auto simp: find_None_iff)
    then have "schedule_next st = Some (False, st1)" using eq pr(1) f by simp
    then show ?thesis using sw(2,3) None s1(2) by (auto simp: same_tasks_def)
  next
    case (Some nx)
    then have f: "find (\<lambda>x. runnable (sc_tasks st1 x)) (sched_order ?c ?ys) = Some nx"
      by (simp add: sched_picks_def run)
    then have p: "runnable (sc_tasks st1 nx)" "nx \<in> set ?ys"
      using find_split [OF f] set_sched_order [of ?c ?ys] by auto
    have "nx \<noteq> 0" by (rule ring_nonnull [OF R1(1) p(2)])
    then have "schedule_next st = ?go nx" using eq pr(1) f p(1) by simp
    moreover have "sc_inv se S ?B ?ys (snd (the (?go nx)))"
      by (rule sc_inv_cong [THEN iffD2, OF _ _ _ _ sw(2)]) auto
    ultimately show ?thesis using Some sw(3) s1 by (auto simp: switch_state_def same_tasks_def)
  qed
qed

section \<open>Creation\<close>

lemma km_alloc_room:
  assumes "heap_room env S A (km_heap st)" "0 \<notin> A" "0 < n" "room_cost n \<le> S"
  obtains p st' where "km_alloc env n st = Some (p, st')" "p \<noteq> 0" "p \<notin> A"
    "heap_room env (S - room_cost n) (insert p A) (km_heap st')" "0 \<notin> insert p A"
    "sc_tasks st' = sc_tasks st" "km_fdt st' = km_fdt st" "task_list st' = task_list st"
    "current_task st' = current_task st" "next_pid st' = next_pid st" "sc_words st' = sc_words st"
proof -
  obtain p h where k: "kmalloc env (of_nat n) (km_heap st) = Some (p, h)" "p \<noteq> 0" "p \<notin> A"
    "heap_room env (S - room_cost n) (insert p A) h"
    using rm.alloc_room [OF assms(1,3,4)] by blast
  show ?thesis
    by (rule that [of p "st\<lparr>km_heap := h\<rparr>"]) (use k assms(2) in \<open>auto simp: km_alloc_def\<close>)
qed

definition stdio_fds :: "fdentry list" where
  "stdio_fds = fd_stdio (replicate 64 fd_none)"

lemma stdio_fds_simps [simp]: "length stdio_fds = 64" "fd_table_blocks tbl stdio_fds = [tbl]"
proof -
  show "length stdio_fds = 64" by (simp add: stdio_fds_def fd_stdio_def)
  have "fd_blocks e = []" if "e \<in> set stdio_fds" for e
    using that by (auto simp: stdio_fds_def fd_stdio_def fd_blocks_def fd_none_def)
  then show "fd_table_blocks tbl stdio_fds = [tbl]" by (auto simp: fd_table_blocks_def)
qed

lemma make_fds_room:
  assumes "heap_room (se_boot se) S A (km_heap st)" "0 \<notin> A" "room_cost (sizeof_FDEntry * 64) \<le> S"
  obtains tbl st' where "make_fds se t st = Some st'" "tbl \<noteq> 0" "tbl \<notin> A"
    "heap_room (se_boot se) (S - room_cost (sizeof_FDEntry * 64)) (insert tbl A) (km_heap st')" "0 \<notin> insert tbl A"
    "sc_tasks st' = (sc_tasks st)(t := (sc_tasks st t)\<lparr>t_fd_count := 64, t_fds := tbl\<rparr>)"
    "km_fdt st' = (km_fdt st)(tbl := stdio_fds)" "task_list st' = task_list st"
    "current_task st' = current_task st" "next_pid st' = next_pid st"
proof -
  have n: "0 < sizeof_FDEntry * 64" by (simp add: sizeof_FDEntry_def)
  obtain tbl st1 where a: "km_alloc (se_boot se) (sizeof_FDEntry * 64) st = Some (tbl, st1)" "tbl \<noteq> 0" "tbl \<notin> A"
    "heap_room (se_boot se) (S - room_cost (sizeof_FDEntry * 64)) (insert tbl A) (km_heap st1)" "0 \<notin> insert tbl A"
    "sc_tasks st1 = sc_tasks st" "km_fdt st1 = km_fdt st" "task_list st1 = task_list st"
    "current_task st1 = current_task st" "next_pid st1 = next_pid st"
    by (rule km_alloc_room [OF assms(1,2) n assms(3)])
  let ?st2 = "upd_task t (\<lambda>x. x\<lparr>t_fd_count := 64, t_fds := tbl\<rparr>) (fdt_put tbl (replicate 64 fd_none) st1)"
  have "make_fds se t st = Some (fdt_put tbl stdio_fds ?st2)"
    using a(1,2) by (simp add: make_fds_def fdtable_create_def stdio_fds_def)
  then show ?thesis by (rule that) (use a in auto)
qed

lemma link_ring:
  assumes r: "ring (sc_tasks st) xs" "task_list st = hd xs" and t: "t \<noteq> 0" "t \<notin> set xs"
  obtains st' where "link_task t st = Some st'" "ring (sc_tasks st') (xs @ [t])"
    "\<forall>x. x \<noteq> t \<longrightarrow> (sc_tasks st' x)\<lparr>t_next := 0\<rparr> = (sc_tasks st x)\<lparr>t_next := 0\<rparr>"
    "(sc_tasks st' t)\<lparr>t_next := 0\<rparr> = (sc_tasks st t)\<lparr>t_next := 0\<rparr>"
    "km_fdt st' = km_fdt st" "km_heap st' = km_heap st" "task_list st' = task_list st"
    "current_task st' = current_task st" "next_pid st' = next_pid st"
proof -
  let ?l = "last xs"
  let ?st' = "upd_task t (\<lambda>x. x\<lparr>t_next := hd xs\<rparr>) (upd_task ?l (\<lambda>x. x\<lparr>t_next := t\<rparr>) st)"
  have ne: "xs \<noteq> []" "distinct xs" using r(1) by (auto simp: ring_def)
  then obtain us where us: "xs = us @ [?l]" by (metis append_butlast_last_id)
  have lk: "link_task t st = Some ?st'"
    using ring_ends(1) [OF r(1)] ring_nonnull [OF r(1) ring_hd [OF r(1)]] r(2) by (simp add: link_task_def)
  have "seg (sc_tasks st) (hd xs) us ?l" "?l \<noteq> 0"
    using r(1) us seg_snoc [of "sc_tasks st" "hd xs" us ?l "hd xs"] by (auto simp: ring_def)
  moreover have "seg (sc_tasks ?st') (hd xs) us ?l = seg (sc_tasks st) (hd xs) us ?l"
  proof (rule seg_cong)
    fix x assume "x \<in> set us"
    then have "x \<noteq> t" "x \<noteq> ?l" using t(2) us ne(2) by (metis in_set_conv_decomp append_Cons append_assoc UnCI set_append,
        metis disjoint_iff distinct_append list.set_intros(1))
    then show "t_next (sc_tasks ?st' x) = t_next (sc_tasks st x)" by simp
  qed
  moreover have "?l \<noteq> t" using t(2) ne(1) last_in_set by metis
  ultimately have "seg (sc_tasks ?st') (hd xs) ((us @ [?l]) @ [t]) (hd xs)"
    using t(1) unfolding seg_snoc by simp
  then have "ring (sc_tasks ?st') (xs @ [t])"
    using ne t(2) us by (simp add: ring_def)
  then show ?thesis by (rule that [OF lk]) auto
qed

text \<open>The heap a new kernel task takes: its record, its descriptor table and its stack.\<close>

definition task_cost :: nat where
  "task_cost = room_cost sizeof_Task + room_cost (sizeof_FDEntry * 64) + room_cost TASK_STACK_SIZE"

lemma init_frame_sched [simp]:
  "sc_tasks (init_frame se t stack st) =
     (sc_tasks st)(t := (sc_tasks st t)\<lparr>t_rsp := stack_top stack - 56, kstack := stack\<rparr>)"
  "km_heap (init_frame se t stack st) = km_heap st" "km_fdt (init_frame se t stack st) = km_fdt st"
  "task_list (init_frame se t stack st) = task_list st" "current_task (init_frame se t stack st) = current_task st"
  "next_pid (init_frame se t stack st) = next_pid st"
  by (simp_all add: init_frame_def Let_def upd_task_def)

lemma alloc_task_room:
  assumes "heap_room (se_boot se) S A (km_heap st)" "0 \<notin> A"
    "room_cost sizeof_Task + room_cost (sizeof_FDEntry * 64) \<le> S"
  obtains t tbl st' where "alloc_task_common se st = Some (t, st')" "t \<noteq> 0" "t \<notin> A" "tbl \<noteq> 0" "tbl \<notin> insert t A"
    "heap_room (se_boot se) (S - room_cost sizeof_Task - room_cost (sizeof_FDEntry * 64)) (insert tbl (insert t A)) (km_heap st')"
    "0 \<notin> insert tbl (insert t A)"
    "sc_tasks st' = (sc_tasks st)(t := task_zero\<lparr>pid := next_pid st, t_fd_count := 64, t_fds := tbl,
       exit_status := -1, parent_pid := (if current_task st = t then next_pid st else sched_getpid st)\<rparr>)"
    "km_fdt st' = (km_fdt st)(tbl := stdio_fds)" "task_list st' = task_list st"
    "current_task st' = current_task st" "next_pid st' = next_pid st + 1"
proof -
  have n: "0 < sizeof_Task" and c: "room_cost sizeof_Task \<le> S"
    "room_cost (sizeof_FDEntry * 64) \<le> S - room_cost sizeof_Task"
    using assms(3) by (simp_all add: sizeof_Task_def)
  obtain t st1 where a: "km_alloc (se_boot se) sizeof_Task st = Some (t, st1)" "t \<noteq> 0" "t \<notin> A"
    "heap_room (se_boot se) (S - room_cost sizeof_Task) (insert t A) (km_heap st1)" "0 \<notin> insert t A"
    "sc_tasks st1 = sc_tasks st" "km_fdt st1 = km_fdt st" "task_list st1 = task_list st"
    "current_task st1 = current_task st" "next_pid st1 = next_pid st"
    by (rule km_alloc_room [OF assms(1,2) n c(1)])
  let ?st2 = "(upd_task t (\<lambda>_. task_zero\<lparr>pid := next_pid st1\<rparr>) st1)\<lparr>next_pid := next_pid st1 + 1\<rparr>"
  have h2: "heap_room (se_boot se) (S - room_cost sizeof_Task) (insert t A) (km_heap ?st2)" using a(4) by simp
  obtain tbl st3 where m: "make_fds se t ?st2 = Some st3" "tbl \<noteq> 0" "tbl \<notin> insert t A"
    "heap_room (se_boot se) (S - room_cost sizeof_Task - room_cost (sizeof_FDEntry * 64)) (insert tbl (insert t A)) (km_heap st3)"
    "0 \<notin> insert tbl (insert t A)"
    "sc_tasks st3 = (sc_tasks ?st2)(t := (sc_tasks ?st2 t)\<lparr>t_fd_count := 64, t_fds := tbl\<rparr>)"
    "km_fdt st3 = (km_fdt ?st2)(tbl := stdio_fds)" "task_list st3 = task_list ?st2"
    "current_task st3 = current_task ?st2" "next_pid st3 = next_pid ?st2"
    by (rule make_fds_room [OF h2 a(5) c(2)])
  let ?ppid = "if current_task st3 \<noteq> 0 then pid (sc_tasks st3 (current_task st3)) else 0"
  have "alloc_task_common se st = Some (t, upd_task t (\<lambda>x. x\<lparr>exit_status := -1, parent_pid := ?ppid\<rparr>) st3)"
    using a(1,2) m(1) by (simp add: alloc_task_common_def)
  then show ?thesis
    by (rule that [OF _ a(2,3) m(2,3)]) (use a m in \<open>auto simp: sched_getpid_def\<close>)
qed

lemma sc_inv_append:
  assumes inv: "sc_inv se S A xs st" and "ring (sc_tasks st') (xs @ [t])" "task_list st' = task_list st"
    and "heap_room (se_boot se) S' (A \<union> set (task_blocks st' t)) (km_heap st')" "0 \<notin> set (task_blocks st' t)"
    and "distinct (task_blocks st' t)" "set (task_blocks st' t) \<inter> A = {}" "task_ok st' t"
    and same: "\<And>x. x \<in> set xs \<Longrightarrow> (sc_tasks st' x)\<lparr>t_next := 0\<rparr> = (sc_tasks st x)\<lparr>t_next := 0\<rparr>"
    and fdt: "\<And>tbl. tbl \<in> A \<Longrightarrow> km_fdt st' tbl = km_fdt st tbl"
  shows "sc_inv se S' (A \<union> set (task_blocks st' t)) (xs @ [t]) st'"
proof -
  have own: "set (task_blocks st x) \<subseteq> A" if "x \<in> set xs" for x using inv that by (auto simp: sc_inv_def)
  have b: "task_blocks st' x = task_blocks st x" "task_ok st' x = task_ok st x" if "x \<in> set xs" for x
    using task_blocks_same [OF same [OF that]] fdt own [OF that] fds_in_blocks [of st x] by blast+
  then have m: "map (task_blocks st') xs = map (task_blocks st) xs" by simp
  have ne: "hd (xs @ [t]) = hd xs" using inv by (auto simp: sc_inv_def ring_def)
  show ?thesis
    unfolding sc_inv_def map_append m ne using assms(2-8) inv b(2) by (auto simp: sc_inv_def)
qed

text \<open>With room on the heap a new task joins the ring behind all others.\<close>

lemma create_task_ring:
  assumes inv: "sc_inv se S A xs st" and entry: "entry \<noteq> 0" and room: "task_cost \<le> S"
    and cur: "current_task st \<in> A \<or> current_task st = 0"
  obtains t st' where "create_task_with_arg se entry arg st = Some (next_pid st, st')" "t \<notin> A"
    "sc_inv se (S - task_cost) (A \<union> set (task_blocks st' t)) (xs @ [t]) st'"
    "next_pid st' = next_pid st + 1" "current_task st' = current_task st"
    "\<forall>x. x \<noteq> t \<longrightarrow> (sc_tasks st' x)\<lparr>t_next := 0\<rparr> = (sc_tasks st x)\<lparr>t_next := 0\<rparr>"
    "pid (sc_tasks st' t) = next_pid st" "t_state (sc_tasks st' t) = TASK_READY" "t_entry (sc_tasks st' t) = entry"
    "t_entry_arg (sc_tasks st' t) = arg" "parent_pid (sc_tasks st' t) = sched_getpid st"
    "km_fdt st' (t_fds (sc_tasks st' t)) = stdio_fds" "t_fds (sc_tasks st' t) \<noteq> 0"
proof -
  have I: "ring (sc_tasks st) xs" "task_list st = hd xs" "heap_room (se_boot se) S A (km_heap st)" "0 \<notin> A"
    "set (concat (map (task_blocks st) xs)) \<subseteq> A"
    using inv by (auto simp: sc_inv_def)
  let ?S = "S - room_cost sizeof_Task - room_cost (sizeof_FDEntry * 64)"
  have r: "room_cost sizeof_Task + room_cost (sizeof_FDEntry * 64) \<le> S" "room_cost TASK_STACK_SIZE \<le> ?S"
    "0 < TASK_STACK_SIZE" "?S - room_cost TASK_STACK_SIZE = S - task_cost"
    using room by (simp_all add: task_cost_def TASK_STACK_SIZE_def)
  obtain t tbl st1 where a: "alloc_task_common se st = Some (t, st1)" "t \<noteq> 0" "t \<notin> A" "tbl \<noteq> 0" "tbl \<notin> insert t A"
    "heap_room (se_boot se) ?S (insert tbl (insert t A)) (km_heap st1)" "0 \<notin> insert tbl (insert t A)"
    "sc_tasks st1 = (sc_tasks st)(t := task_zero\<lparr>pid := next_pid st, t_fd_count := 64, t_fds := tbl,
       exit_status := -1, parent_pid := (if current_task st = t then next_pid st else sched_getpid st)\<rparr>)"
    "km_fdt st1 = (km_fdt st)(tbl := stdio_fds)" "task_list st1 = task_list st"
    "current_task st1 = current_task st" "next_pid st1 = next_pid st + 1"
    by (rule alloc_task_room [OF I(3,4) r(1)])
  let ?st2 = "upd_task t (\<lambda>x. x\<lparr>t_state := TASK_READY, t_entry := entry, t_entry_arg := arg\<rparr>) st1"
  have h2: "heap_room (se_boot se) ?S (insert tbl (insert t A)) (km_heap ?st2)" using a(6) by simp
  obtain stack st3 where k: "km_alloc (se_boot se) TASK_STACK_SIZE ?st2 = Some (stack, st3)" "stack \<noteq> 0"
    "stack \<notin> insert tbl (insert t A)"
    "heap_room (se_boot se) (?S - room_cost TASK_STACK_SIZE) (insert stack (insert tbl (insert t A))) (km_heap st3)"
    "sc_tasks st3 = sc_tasks ?st2" "km_fdt st3 = km_fdt ?st2" "task_list st3 = task_list ?st2"
    "current_task st3 = current_task ?st2" "next_pid st3 = next_pid ?st2"
    by (rule km_alloc_room [OF h2 a(7) r(3,2)])
  let ?st4 = "init_frame se t stack st3"
  have fresh: "t \<notin> set xs" using a(3) I(5) self_in_blocks [of t st] by auto
  have T4: "x \<noteq> t \<Longrightarrow> sc_tasks ?st4 x = sc_tasks st x" for x using a(8) k(5) by simp
  have "seg (sc_tasks ?st4) (hd xs) xs (hd xs) = seg (sc_tasks st) (hd xs) xs (hd xs)"
    by (rule seg_cong) (use fresh T4 in metis)
  then have r4: "ring (sc_tasks ?st4) xs" "task_list ?st4 = hd xs"
    using I(1,2) a(10) k(7) by (simp_all add: ring_def)
  obtain st' where l: "link_task t ?st4 = Some st'" "ring (sc_tasks st') (xs @ [t])"
    "\<forall>x. x \<noteq> t \<longrightarrow> (sc_tasks st' x)\<lparr>t_next := 0\<rparr> = (sc_tasks ?st4 x)\<lparr>t_next := 0\<rparr>"
    "(sc_tasks st' t)\<lparr>t_next := 0\<rparr> = (sc_tasks ?st4 t)\<lparr>t_next := 0\<rparr>"
    "km_fdt st' = km_fdt ?st4" "km_heap st' = km_heap ?st4" "task_list st' = task_list ?st4"
    "current_task st' = current_task ?st4" "next_pid st' = next_pid ?st4"
    by (rule link_ring [OF r4 a(2) fresh])
  have nt: "current_task st \<noteq> t" using cur a(2,3) by auto
  have new: "(sc_tasks st' t)\<lparr>t_next := 0\<rparr> = task_zero\<lparr>pid := next_pid st, t_state := TASK_READY,
      t_rsp := stack_top stack - 56, t_entry := entry, t_entry_arg := arg, t_fds := tbl, t_fd_count := 64,
      exit_status := -1, parent_pid := sched_getpid st, kstack := stack\<rparr>"
    unfolding l(4) using nt by (simp add: a(8) k(5) task_zero_def)
  have flds: "pid (sc_tasks st' t) = next_pid st" "t_state (sc_tasks st' t) = TASK_READY" "t_entry (sc_tasks st' t) = entry"
    "t_entry_arg (sc_tasks st' t) = arg" "parent_pid (sc_tasks st' t) = sched_getpid st" "t_fds (sc_tasks st' t) = tbl"
    "t_fd_count (sc_tasks st' t) = 64" "kstack (sc_tasks st' t) = stack" "user_stack (sc_tasks st' t) = 0"
    using new by (cases "sc_tasks st' t"; simp add: task_zero_def)+
  have f5: "km_fdt st' = (km_fdt st)(tbl := stdio_fds)" using l(5) k(6) a(9) by simp
  then have bl: "task_blocks st' t = [tbl, stack, t]" "task_ok st' t"
    using flds a(4) k(2) by (simp_all add: task_blocks_def task_ok_def opt_block_def)
  have same: "x \<noteq> t \<Longrightarrow> (sc_tasks st' x)\<lparr>t_next := 0\<rparr> = (sc_tasks st x)\<lparr>t_next := 0\<rparr>" for x
    using l(3) T4 by metis
  have inv': "sc_inv se (S - task_cost) (A \<union> set (task_blocks st' t)) (xs @ [t]) st'"
  proof (rule sc_inv_append [OF inv l(2)])
    show "heap_room (se_boot se) (S - task_cost) (A \<union> set (task_blocks st' t)) (km_heap st')"
      using k(4) unfolding bl r(4) by (simp add: l(6) insert_commute)
    show "(sc_tasks st' x)\<lparr>t_next := 0\<rparr> = (sc_tasks st x)\<lparr>t_next := 0\<rparr>" if "x \<in> set xs" for x
      using that fresh by (intro same) auto
  qed (use bl a(2-5,10) k(2,3,7) l(7) f5 in auto)
  have "create_task_with_arg se entry arg st = Some (next_pid st, st')"
    using entry a(1,2) k(1,2) l(1) flds(1) by (simp add: create_task_with_arg_def)
  then show ?thesis
    by (rule that [OF _ a(3) inv']) (use flds a(4,11,12) k(8,9) l(8,9) f5 same in simp_all)
qed

end
