(* ===== verification/SchedRun.thy ===== *)
theory SchedRun
  imports Scheduler
begin

text \<open>
  Runs of the scheduler: the states that creating, yielding, killing and ending tasks can lead
  to, the invariant of these states, and what a task can rely on in them: that a yield
  switches, that every runnable task has its turn, and that the memory of dead tasks, and no
  other, is released.
\<close>

section \<open>What holds between calls\<close>

lemma init_scheduler_ring:
  assumes room: "heap_room (se_boot se) S A (km_heap st)" "0 \<notin> A" "heap_start (km_heap st) \<noteq> 0"
    "room_cost sizeof_Task \<le> S"
  obtains m st' where "init_scheduler se rsp_val st = Some st'"
    "sc_inv se (S - room_cost sizeof_Task) (insert m A) [m] st'"
    "current_task st' = m" "next_pid st' = next_pid st + 1" "pid (sc_tasks st' m) = next_pid st"
    "t_state (sc_tasks st' m) = TASK_RUNNING" "t_rsp (sc_tasks st' m) = rsp_val"
proof -
  have n: "0 < sizeof_Task" by (simp add: sizeof_Task_def)
  have i: "st\<lparr>km_heap := heap_init (se_boot se) 0x40000 (km_heap st)\<rparr> = st"
    using room(3) by (simp add: heap_init_def)
  obtain m st1 where a: "km_alloc (se_boot se) sizeof_Task st = Some (m, st1)" "m \<noteq> 0" "m \<notin> A"
    "heap_room (se_boot se) (S - room_cost sizeof_Task) (insert m A) (km_heap st1)" "0 \<notin> insert m A"
    "sc_tasks st1 = sc_tasks st" "km_fdt st1 = km_fdt st" "task_list st1 = task_list st"
    "current_task st1 = current_task st" "next_pid st1 = next_pid st"
    by (rule km_alloc_room [OF room(1,2) n room(4)])
  let ?t = "task_zero\<lparr>pid := next_pid st1, t_state := TASK_RUNNING, t_rsp := rsp_val, t_next := m\<rparr>"
  let ?st' = "(upd_task m (\<lambda>_. ?t) st1)\<lparr>next_pid := next_pid st1 + 1, current_task := m, task_list := m\<rparr>"
  have "init_scheduler se rsp_val st = Some ?st'" using a(1,2) unfolding init_scheduler_def i by simp
  moreover have "sc_inv se (S - room_cost sizeof_Task) (insert m A) [m] ?st'"
    using a(2,4,5) by (simp add: sc_inv_def ring_def task_blocks_def task_ok_def opt_block_def task_zero_def)
  ultimately show ?thesis by (rule that) (use a in \<open>simp_all add: task_zero_def\<close>)
qed

text \<open>What holds between calls when the first task, process 1, is neither killed nor blocked.\<close>

definition sys_inv :: "sched_env \<Rightarrow> nat \<Rightarrow> u64 set \<Rightarrow> u64 list \<Rightarrow> 'a sched_scheme \<Rightarrow> bool" where
  "sys_inv se S A xs st \<longleftrightarrow> sc_inv se S A xs st \<and> current_task st \<in> set xs \<and>
     runnable (sc_tasks st (hd xs)) \<and> pid (sc_tasks st (hd xs)) = 1 \<and>
     distinct (map (\<lambda>t. pid (sc_tasks st t)) xs) \<and>
     (\<forall>t\<in>set xs. 1 \<le> pid (sc_tasks st t) \<and> pid (sc_tasks st t) < next_pid st) \<and>
     (\<forall>t\<in>set xs. t_state (sc_tasks st t) = TASK_RUNNING \<longrightarrow> t = current_task st)"

lemma set_exit_status_sys:
  assumes "sys_inv se S A xs st"
  shows "sys_inv se S A xs (upd_task t (\<lambda>x. x\<lparr>exit_status := c\<rparr>) st)" (is "sys_inv se S A xs ?st")
proof -
  have f: "pid (sc_tasks ?st x) = pid (sc_tasks st x)" "t_state (sc_tasks ?st x) = t_state (sc_tasks st x)"
    "runnable (sc_tasks ?st x) = runnable (sc_tasks st x)" for x
    by (simp_all add: runnable_def)
  have "sc_inv se S A xs ?st \<longleftrightarrow> sc_inv se S A xs st" by (rule sc_inv_cong) auto
  with assms show ?thesis unfolding sys_inv_def f by simp
qed

lemma runnable_alive: "runnable (sc_tasks st t) \<Longrightarrow> alive st t"
  by (auto simp: runnable_def alive_def)

lemma filter_hd: "P (hd xs) \<Longrightarrow> xs \<noteq> [] \<Longrightarrow> hd (filter P xs) = hd xs"
  by (cases xs) auto

text \<open>A yield always switches: to the first runnable task in the order of the ring.\<close>

lemma yield_sys:
  assumes inv: "sys_inv se S A xs st"
  obtains nx st' where "sched_yield st = Some (True, st')" "sched_picks st xs = Some nx" "current_task st' = nx"
    "sys_inv se S (A - dead_blocks st xs) (filter (alive st) xs) st'" "t_state (sc_tasks st' nx) = TASK_RUNNING"
    "\<forall>t. t_state (sc_tasks st' t) = switch_state (current_task st) nx t (t_state (sc_tasks st t))"
    "\<forall>t. pid (sc_tasks st' t) = pid (sc_tasks st t)" "next_pid st' = next_pid st"
proof -
  have I: "sc_inv se S A xs st" "current_task st \<in> set xs" "runnable (sc_tasks st (hd xs))" "xs \<noteq> []"
    using inv by (auto simp: sys_inv_def sc_inv_def ring_def)
  have al: "alive st (hd xs)" by (rule runnable_alive [OF I(3)])
  have "hd xs \<in> set (sched_order (current_task st) (filter (alive st) xs))"
    using al I(4) by (simp add: set_sched_order)
  then obtain nx where nx: "sched_picks st xs = Some nx"
    using I(3) unfolding sched_picks_def by (metis (no_types, lifting) find_None_iff not_None_eq)
  then have nx': "nx \<in> set (filter (alive st) xs)"
    unfolding sched_picks_def using find_split [of _ _ nx] set_sched_order [of "current_task st" "filter (alive st) xs"] by fastforce
  obtain st' where s: "schedule_next st = Some (True, st')" "next_pid st' = next_pid st"
    "sc_inv se S (A - dead_blocks st xs) (filter (alive st) xs) st'" "\<forall>t. pid (sc_tasks st' t) = pid (sc_tasks st t)"
    "current_task st' = nx" "\<forall>t. t_state (sc_tasks st' t) = switch_state (current_task st) nx t (t_state (sc_tasks st t))"
    using schedule_next_ring [OF I(1) al I(2)] nx by auto
  have hd': "hd (filter (alive st) xs) = hd xs" using al I(4) by (rule filter_hd)
  have "runnable (sc_tasks st' (hd xs))" using I(3) s(6) by (auto simp: runnable_def switch_state_def)
  moreover have "distinct (map (\<lambda>t. pid (sc_tasks st t)) (filter (alive st) xs))"
    using inv by (auto simp: sys_inv_def distinct_map inj_on_def)
  ultimately have "sys_inv se S (A - dead_blocks st xs) (filter (alive st) xs) st'"
    using inv s nx' unfolding sys_inv_def hd' by (auto simp: switch_state_def split: if_splits)
  with s nx show ?thesis by (intro that [of st' nx]) (simp_all add: sched_yield_def switch_state_def)
qed

lemma mark_dead_sys:
  assumes inv: "sys_inv se S A xs st" and t: "t \<in> set xs" "pid (sc_tasks st t) \<noteq> 1"
  shows "sys_inv se S A xs (upd_task t (\<lambda>x. x\<lparr>t_state := TASK_DEAD\<rparr>) st)" (is "sys_inv se S A xs ?st")
proof -
  have "sc_inv se S A xs ?st"
    by (rule sc_inv_cong [THEN iffD2, of _ st]) (use inv in \<open>auto simp: sys_inv_def\<close>)
  moreover have "t \<noteq> hd xs" using inv t by (auto simp: sys_inv_def)
  moreover have m: "map (\<lambda>x. pid (sc_tasks ?st x)) xs = map (\<lambda>x. pid (sc_tasks st x)) xs" by auto
  ultimately show ?thesis using inv unfolding sys_inv_def m by simp
qed

lemma kill_sys:
  assumes inv: "sys_inv se S A xs st" and k: "kill_task p st = Some st'" and p: "p \<noteq> 1"
  shows "sys_inv se S A xs st'"
proof -
  have r: "ring (sc_tasks st) xs" "task_list st = hd xs" using inv by (auto simp: sys_inv_def sc_inv_def)
  obtain t where t: "find (\<lambda>x. pid (sc_tasks st x) = p) xs = Some t"
    "st' = (if t \<noteq> 0 \<and> t_state (sc_tasks st t) \<noteq> TASK_DEAD then upd_task t (\<lambda>x. x\<lparr>t_state := TASK_DEAD\<rparr>) st else st)"
    using k unfolding kill_task_def find_task_ring [OF r] by (auto split: bind_splits)
  then have "t \<in> set xs" "pid (sc_tasks st t) = p" using find_split [OF t(1)] by auto
  with mark_dead_sys [OF inv] p inv t(2) show ?thesis by auto
qed

lemma cleanup_sys:
  assumes inv: "sys_inv se S A xs st" and p: "sched_getpid st \<noteq> 1"
  obtains A' ys st' where "task_cleanup st = Some (True, st')" "sys_inv se S A' ys st'" "ys = filter (\<lambda>t. alive st t \<and> t \<noteq> current_task st) xs"
proof -
  let ?c = "current_task st"
  let ?st = "upd_task ?c (\<lambda>x. x\<lparr>t_state := TASK_DEAD\<rparr>) st"
  have c: "?c \<in> set xs" "?c \<noteq> 0"
    using inv ring_nonnull [of "sc_tasks st" xs ?c] by (auto simp: sys_inv_def sc_inv_def)
  then have "sys_inv se S A xs ?st" using p by (intro mark_dead_sys [OF inv]) (auto simp: sched_getpid_def)
  then obtain st' where "sched_yield ?st = Some (True, st')"
    "sys_inv se S (A - dead_blocks ?st xs) (filter (alive ?st) xs) st'"
    by (rule yield_sys)
  moreover have "filter (alive ?st) xs = filter (\<lambda>t. alive st t \<and> t \<noteq> ?c) xs"
    by (rule filter_cong) (auto simp: alive_def)
  ultimately show ?thesis using c(2) that [of st'] by (simp add: task_cleanup_def sched_yield_def)
qed

lemma create_sys:
  assumes inv: "sys_inv se S A xs st" and entry: "entry \<noteq> 0" and room: "task_cost \<le> S"
  obtains t st' where "create_task_with_arg se entry arg st = Some (next_pid st, st')" "t \<notin> A"
    "sys_inv se (S - task_cost) (A \<union> set (task_blocks st' t)) (xs @ [t]) st'" "t_state (sc_tasks st' t) = TASK_READY"
    "t_entry (sc_tasks st' t) = entry" "t_entry_arg (sc_tasks st' t) = arg" "pid (sc_tasks st' t) = next_pid st"
    "parent_pid (sc_tasks st' t) = sched_getpid st" "km_fdt st' (t_fds (sc_tasks st' t)) = stdio_fds"
    "\<forall>x. x \<noteq> t \<longrightarrow> (sc_tasks st' x)\<lparr>t_next := 0\<rparr> = (sc_tasks st x)\<lparr>t_next := 0\<rparr>" "next_pid st' = next_pid st + 1"
proof -
  have I: "sc_inv se S A xs st" "current_task st \<in> set xs" "xs \<noteq> []"
    using inv by (auto simp: sys_inv_def sc_inv_def ring_def)
  have sub: "set xs \<subseteq> A" using I(1) self_in_blocks [of _ st] by (fastforce simp: sc_inv_def)
  obtain t st' where c: "create_task_with_arg se entry arg st = Some (next_pid st, st')" "t \<notin> A"
    "sc_inv se (S - task_cost) (A \<union> set (task_blocks st' t)) (xs @ [t]) st'"
    "next_pid st' = next_pid st + 1" "current_task st' = current_task st"
    "\<forall>x. x \<noteq> t \<longrightarrow> (sc_tasks st' x)\<lparr>t_next := 0\<rparr> = (sc_tasks st x)\<lparr>t_next := 0\<rparr>"
    "pid (sc_tasks st' t) = next_pid st" "t_state (sc_tasks st' t) = TASK_READY" "t_entry (sc_tasks st' t) = entry"
    "t_entry_arg (sc_tasks st' t) = arg" "parent_pid (sc_tasks st' t) = sched_getpid st"
    "km_fdt st' (t_fds (sc_tasks st' t)) = stdio_fds"
    by (rule create_task_ring [OF I(1) entry room]) (use I(2) sub in auto)
  have same: "t_state (sc_tasks st' x) = t_state (sc_tasks st x)" "pid (sc_tasks st' x) = pid (sc_tasks st x)"
    if "x \<in> set xs" for x
  proof -
    have "x \<noteq> t" using c(2) that sub by auto
    then have "(sc_tasks st' x)\<lparr>t_next := 0\<rparr> = (sc_tasks st x)\<lparr>t_next := 0\<rparr>" using c(6) by simp
    from same_task_fields(1,5) [OF this]
    show "t_state (sc_tasks st' x) = t_state (sc_tasks st x)" "pid (sc_tasks st' x) = pid (sc_tasks st x)" by auto
  qed
  have "hd xs \<in> set xs" "hd (xs @ [t]) = hd xs" using I(3) by simp_all
  moreover have m: "map (\<lambda>x. pid (sc_tasks st' x)) xs = map (\<lambda>x. pid (sc_tasks st x)) xs" using same(2) by simp
  then have "distinct (map (\<lambda>x. pid (sc_tasks st' x)) (xs @ [t]))"
    using inv c(7) unfolding map_append m by (auto simp: sys_inv_def)
  moreover have "\<forall>x\<in>set (xs @ [t]). 1 \<le> pid (sc_tasks st' x) \<and> pid (sc_tasks st' x) < next_pid st'"
  proof -
    have r: "\<forall>x\<in>set xs. 1 \<le> pid (sc_tasks st x) \<and> pid (sc_tasks st x) < next_pid st" using inv by (simp add: sys_inv_def)
    then have "1 \<le> next_pid st" using \<open>hd xs \<in> set xs\<close> by fastforce
    with r show ?thesis using c(4,7) same(2) by auto
  qed
  ultimately have "sys_inv se (S - task_cost) (A \<union> set (task_blocks st' t)) (xs @ [t]) st'"
    using inv c(3,5,8) same unfolding sys_inv_def runnable_def by simp
  then show ?thesis by (rule that [OF c(1,2) _ c(8,9,10,7,11,12,6,4)])
qed

text \<open>The states the scheduler can be brought into after the heap has been set up, with the
  number of tasks created so far: creating tasks, yielding, killing a process other than the
  first, and a task other than the first coming to its end.\<close>

inductive sched_reach :: "sched_env \<Rightarrow> 'a sched_scheme \<Rightarrow> nat \<Rightarrow> 'a sched_scheme \<Rightarrow> bool" for se st0 where
  reach_init_sched: "init_scheduler se rsp_val st0 = Some st \<Longrightarrow> sched_reach se st0 0 st"
| reach_create: "sched_reach se st0 n st \<Longrightarrow> entry \<noteq> 0 \<Longrightarrow> create_task_with_arg se entry arg st = Some (p, st') \<Longrightarrow>
    sched_reach se st0 (Suc n) st'"
| reach_yield: "sched_reach se st0 n st \<Longrightarrow> sched_yield st = Some (b, st') \<Longrightarrow> sched_reach se st0 n st'"
| reach_kill: "sched_reach se st0 n st \<Longrightarrow> p \<noteq> 1 \<Longrightarrow> kill_task p st = Some st' \<Longrightarrow> sched_reach se st0 n st'"
| reach_cleanup: "sched_reach se st0 n st \<Longrightarrow> sched_getpid st \<noteq> 1 \<Longrightarrow> task_cleanup st = Some (b, st') \<Longrightarrow>
    sched_reach se st0 n st'"

definition sched_ready :: "sched_env \<Rightarrow> nat \<Rightarrow> 'a sched_scheme \<Rightarrow> bool" where
  "sched_ready se n st \<longleftrightarrow> next_pid st = 1 \<and> heap_start (km_heap st) \<noteq> 0 \<and>
     heap_room (se_boot se) (room_cost sizeof_Task + n * task_cost) {} (km_heap st)"

lemma sched_reach_sys:
  assumes "sched_reach se st0 k st" "sched_ready se n st0" "k \<le> n"
  shows "\<exists>A xs. sys_inv se ((n - k) * task_cost) A xs st"
  using assms
proof (induction)
  case (reach_init_sched rsp_val st)
  have r: "heap_room (se_boot se) (room_cost sizeof_Task + n * task_cost) {} (km_heap st0)" "0 \<notin> ({} :: u64 set)"
    "heap_start (km_heap st0) \<noteq> 0" "room_cost sizeof_Task \<le> room_cost sizeof_Task + n * task_cost" "next_pid st0 = 1"
    using reach_init_sched.prems by (auto simp: sched_ready_def)
  obtain m st' where "init_scheduler se rsp_val st0 = Some st'"
    "sc_inv se (room_cost sizeof_Task + n * task_cost - room_cost sizeof_Task) {m} [m] st'"
    "current_task st' = m" "next_pid st' = next_pid st0 + 1" "pid (sc_tasks st' m) = next_pid st0"
    "t_state (sc_tasks st' m) = TASK_RUNNING"
    by (rule init_scheduler_ring [OF r(1-4)])
  with reach_init_sched.hyps r(5) show ?case
    by (intro exI [of _ "{m}"] exI [of _ "[m]"]) (simp add: sys_inv_def runnable_def)
next
  case (reach_create k st entry arg p st')
  then obtain A xs where inv: "sys_inv se ((n - k) * task_cost) A xs st" by auto
  have m: "n - k = Suc (n - Suc k)" using reach_create.prems by simp
  then have room: "task_cost \<le> (n - k) * task_cost" "(n - k) * task_cost - task_cost = (n - Suc k) * task_cost" by simp_all
  obtain t st2 where "create_task_with_arg se entry arg st = Some (next_pid st, st2)"
    "sys_inv se ((n - k) * task_cost - task_cost) (A \<union> set (task_blocks st2 t)) (xs @ [t]) st2"
    by (rule create_sys [OF inv reach_create.hyps(2) room(1)])
  with reach_create.hyps(3) room(2) show ?case by auto
next
  case (reach_yield k st b st')
  then obtain A xs where inv: "sys_inv se ((n - k) * task_cost) A xs st" by auto
  show ?case by (rule yield_sys [OF inv]) (use reach_yield.hyps in auto)
next
  case (reach_kill k st p st')
  then show ?case using kill_sys by blast
next
  case (reach_cleanup k st b st')
  then obtain A xs where inv: "sys_inv se ((n - k) * task_cost) A xs st" by auto
  show ?case by (rule cleanup_sys [OF inv reach_cleanup.hyps(2)]) (use reach_cleanup.hyps in auto)
qed

section \<open>Every runnable task has its turn\<close>

fun yields :: "nat \<Rightarrow> 'a sched_scheme \<Rightarrow> 'a sched_scheme option" where
  "yields 0 st = Some st"
| "yields (Suc k) st = do { (_, st1) \<leftarrow> sched_yield st; yields k st1 }"

lemma length_sched_order: "length (sched_order c xs) = length xs"
proof (cases "c \<in> set xs")
  case True
  then obtain us vs where "xs = us @ c # vs" "c \<notin> set us" by (meson split_list_first)
  then show ?thesis by (simp add: sched_order_split)
qed (simp add: sched_order_def)

lemma sched_order_rotate:
  assumes "distinct (us @ vs)" "x \<in> set (us @ vs)"
  shows "sched_order x (vs @ us) = sched_order x (us @ vs)"
proof (cases "x \<in> set us")
  case True
  then obtain a b where u: "us = a @ x # b" by (auto simp: in_set_conv_decomp)
  then have "x \<notin> set (vs @ a)" "x \<notin> set a" using assms(1) by auto
  then show ?thesis
    using sched_order_split [of x "vs @ a" b] sched_order_split [of x a "b @ vs"] by (simp add: u)
next
  case False
  then obtain a b where v: "vs = a @ x # b" using assms(2) by (auto simp: in_set_conv_decomp)
  then have "x \<notin> set (us @ a)" "x \<notin> set a" using assms(1) by auto
  then show ?thesis
    using sched_order_split [of x "us @ a" b] sched_order_split [of x a "b @ us"] by (simp add: v)
qed

lemma sched_order_next:
  assumes "distinct ys" "sched_order c ys = us @ x # vs"
  shows "sched_order x ys = vs @ us @ [x]"
proof (cases "c \<in> set ys")
  case True
  then obtain a b where y: "ys = a @ c # b" "c \<notin> set a" by (meson split_list_first)
  then have o: "b @ a @ [c] = us @ x # vs" using assms(2) by (simp add: sched_order_split)
  have x: "x \<in> set ys" using set_sched_order [of c ys] assms(2) by (metis in_set_conv_decomp)
  have "sched_order x (b @ (a @ [c])) = sched_order x ((a @ [c]) @ b)"
    by (rule sched_order_rotate) (use assms(1) x y in auto)
  moreover have "x \<notin> set us" using arg_cong [OF o, of distinct] assms(1) y(1) by auto
  ultimately show ?thesis using o y sched_order_split [of x us vs] by simp
next
  case False
  then have "ys = us @ x # vs" "x \<notin> set us" using assms by (auto simp: sched_order_def)
  then show ?thesis by (simp add: sched_order_split)
qed

lemma switch_runnable:
  assumes "\<forall>t. t_state (sc_tasks st' t) = switch_state c nx t (t_state (sc_tasks st t))" "runnable (sc_tasks st nx)"
  shows "runnable (sc_tasks st' t) = runnable (sc_tasks st t)" "alive st' t = alive st t"
  using assms by (auto simp: runnable_def alive_def switch_state_def)

lemma yields_reach:
  assumes "sys_inv se S A xs st" "runnable (sc_tasks st t)"
    "t \<in> set (take k (sched_order (current_task st) (filter (alive st) xs)))"
  shows "\<exists>j st'. 0 < j \<and> j \<le> k \<and> yields j st = Some st' \<and> current_task st' = t \<and> t_state (sc_tasks st' t) = TASK_RUNNING"
  using assms
proof (induction k arbitrary: A xs st)
  case (Suc k)
  let ?ys = "filter (alive st) xs"
  obtain x st1 where y: "sched_yield st = Some (True, st1)" "sched_picks st xs = Some x" "current_task st1 = x"
    "sys_inv se S (A - dead_blocks st xs) ?ys st1" "t_state (sc_tasks st1 x) = TASK_RUNNING"
    "\<forall>t. t_state (sc_tasks st1 t) = switch_state (current_task st) x t (t_state (sc_tasks st t))"
    by (rule yield_sys [OF Suc.prems(1)])
  obtain us vs where o: "sched_order (current_task st) ?ys = us @ x # vs" "runnable (sc_tasks st x)"
    "\<forall>u\<in>set us. \<not> runnable (sc_tasks st u)"
    using find_split [OF y(2) [unfolded sched_picks_def]] by blast
  show ?case
  proof (cases "t = x")
    case True
    then show ?thesis using y(1,3,5) by (intro exI [of _ "Suc 0"] exI [of _ st1]) simp
  next
    case False
    note sr = switch_runnable [OF y(6) o(2)]
    have "t \<notin> set us" using o(3) Suc.prems(2) by auto
    then have "t \<in> set (take (Suc k - length us) (x # vs))"
      using Suc.prems(3) unfolding o(1) take_append set_append by (blast dest: in_set_takeD)
    then have tv: "t \<in> set (take (k - length us) vs)"
      using False by (cases "length us \<le> k") (simp_all add: Suc_diff_le)
    have f: "filter (alive st1) ?ys = ?ys" by (simp add: sr(2))
    have "distinct ?ys" using Suc.prems(1) by (auto simp: sys_inv_def sc_inv_def ring_def)
    then have "sched_order x ?ys = vs @ us @ [x]" using o(1) by (rule sched_order_next)
    moreover have "set (take (k - length us) vs) \<subseteq> set (take k vs)" by (rule set_take_subset_set_take) simp
    ultimately have "t \<in> set (take k (sched_order (current_task st1) (filter (alive st1) ?ys)))"
      unfolding f y(3) take_append using tv by auto
    from Suc.IH [OF y(4) _ this] sr(1) Suc.prems(2)
    obtain j st' where "0 < j" "j \<le> k" "yields j st1 = Some st'" "current_task st' = t" "t_state (sc_tasks st' t) = TASK_RUNNING"
      by auto
    then show ?thesis using y(1) by (intro exI [of _ "Suc j"] exI [of _ st']) simp
  qed
qed simp

section \<open>A concrete kernel\<close>

definition demo_se :: sched_env where
  "demo_se = \<lparr>se_boot = demo_env, se_trampoline = 0x1000, se_user_trampoline = 0x2000, se_main_storage = 0x3000\<rparr>"

definition demo_sched :: sched where
  "demo_sched = \<lparr>km_heap = heap_init demo_env 0x100000 heap_boot, km_fdt = \<lambda>_. [], sc_tasks = \<lambda>_. task_zero,
     sc_words = \<lambda>_. 0, task_list = 0, current_task = 0, next_pid = 1\<rparr>"

lemma demo_ready: "sched_ready demo_se 3 demo_sched"
proof -
  have b: "boot_ok demo_env 0" using demo_boot_ok by (auto simp: boot_ok_def bump_ok_def Let_def)
  then have "heap_room demo_env 1048576 {} (heap_init demo_env 0x100000 heap_boot)" by (rule heap_init_room) simp_all
  moreover have "heap_start (heap_init demo_env 0x100000 heap_boot) \<noteq> 0"
    by (simp add: heap_init_def heap_boot_def Let_def set_next_def set_size_def demo_env_def)
  ultimately show ?thesis
    by (auto simp: sched_ready_def demo_sched_def demo_se_def task_cost_def cost_simps elim!: heap_room_mono)
qed

text \<open>The kernel with its first task and two more.\<close>

lemma demo_run_from:
  assumes "sched_ready demo_se 3 st0"
  obtains st A xs where "sched_reach demo_se st0 2 st" "sys_inv demo_se task_cost A xs st" "length xs = 3"
    "\<forall>t\<in>set xs. runnable (sc_tasks st t)" "current_task st = hd xs" "next_pid st = 4"
proof -
  obtain S where S: "S = room_cost sizeof_Task + 3 * task_cost" by blast
  have r: "heap_room (se_boot demo_se) S {} (km_heap st0)" "0 \<notin> ({} :: u64 set)"
    "heap_start (km_heap st0) \<noteq> 0" "room_cost sizeof_Task \<le> S" "next_pid st0 = 1"
    using assms unfolding sched_ready_def S by auto
  obtain m s0 where i: "init_scheduler demo_se 0 st0 = Some s0"
    "sc_inv demo_se (S - room_cost sizeof_Task) {m} [m] s0" "current_task s0 = m" "next_pid s0 = next_pid st0 + 1"
    "pid (sc_tasks s0 m) = next_pid st0" "t_state (sc_tasks s0 m) = TASK_RUNNING"
    by (rule init_scheduler_ring [OF r(1-4)])
  have s0: "sys_inv demo_se (3 * task_cost) {m} [m] s0" using i r(5) by (simp add: sys_inv_def runnable_def S)
  obtain t1 s1 where c1: "create_task_with_arg demo_se 0x5000 0 s0 = Some (next_pid s0, s1)" "t1 \<notin> {m}"
    "sys_inv demo_se (3 * task_cost - task_cost) ({m} \<union> set (task_blocks s1 t1)) ([m] @ [t1]) s1"
    "t_state (sc_tasks s1 t1) = TASK_READY" "pid (sc_tasks s1 t1) = next_pid s0"
    "\<forall>x. x \<noteq> t1 \<longrightarrow> (sc_tasks s1 x)\<lparr>t_next := 0\<rparr> = (sc_tasks s0 x)\<lparr>t_next := 0\<rparr>" "next_pid s1 = next_pid s0 + 1"
    by (rule create_sys [OF s0]) auto
  have e: "(0x5000 :: u64) \<noteq> 0" by simp
  have r1: "sched_reach demo_se st0 1 s1"
    using reach_create [OF reach_init_sched [OF i(1)] _ c1(1)] by simp
  obtain t2 s2 where c2: "create_task_with_arg demo_se 0x5000 1 s1 = Some (next_pid s1, s2)" "t2 \<notin> {m} \<union> set (task_blocks s1 t1)"
    "sys_inv demo_se (3 * task_cost - task_cost - task_cost) ({m} \<union> set (task_blocks s1 t1) \<union> set (task_blocks s2 t2)) (([m] @ [t1]) @ [t2]) s2"
    "t_state (sc_tasks s2 t2) = TASK_READY"
    "\<forall>x. x \<noteq> t2 \<longrightarrow> (sc_tasks s2 x)\<lparr>t_next := 0\<rparr> = (sc_tasks s1 x)\<lparr>t_next := 0\<rparr>" "next_pid s2 = next_pid s1 + 1"
    by (rule create_sys [OF c1(3)]) auto
  have r2: "sched_reach demo_se st0 2 s2"
    using reach_create [OF r1 e c2(1)] unfolding One_nat_def numeral_2_eq_2 .
  have "t1 \<noteq> t2" using c2(2) self_in_blocks [of t1 s1] by auto
  then have "t_state (sc_tasks s2 t1) = TASK_READY"
    using same_task_fields(1) [of "sc_tasks s2 t1" "sc_tasks s1 t1"] c1(4) c2(5) by simp
  moreover have "runnable (sc_tasks s2 m)" using c2(3) by (simp add: sys_inv_def)
  moreover have "t_state (sc_tasks s1 m) = TASK_RUNNING"
    using same_task_fields(1) [of "sc_tasks s1 m" "sc_tasks s0 m"] i(6) c1(2,6) by simp
  then have "t_state (sc_tasks s2 m) = TASK_RUNNING"
    using same_task_fields(1) [of "sc_tasks s2 m" "sc_tasks s1 m"] c2(2,5) by auto
  then have "current_task s2 = m" using c2(3) by (simp add: sys_inv_def)
  moreover have "next_pid s2 = 4" using i(4) r(5) c1(7) c2(6) by simp
  ultimately show ?thesis
    using r2 c2(3,4) by (intro that [of s2 "{m} \<union> set (task_blocks s1 t1) \<union> set (task_blocks s2 t2)" "[m, t1, t2]"])
      (auto simp: runnable_def)
qed

lemmas demo_run = demo_run_from [OF demo_ready]

section \<open>Properties\<close>





text \<open>C12. No runnable task starves: while tasks only yield, every runnable task of the ring is the
  running one after at most as many yields as there are tasks in the ring.\<close>

theorem yields_fair:
  assumes inv: "sys_inv se S A xs st" and t: "t \<in> set xs" "runnable (sc_tasks st t)"
  shows "\<exists>j st'. 0 < j \<and> j \<le> length xs \<and> yields j st = Some st' \<and> current_task st' = t \<and>
    t_state (sc_tasks st' t) = TASK_RUNNING"
proof (rule yields_reach [OF inv t(2)])
  let ?o = "sched_order (current_task st) (filter (alive st) xs)"
  have "length ?o \<le> length xs" by (simp add: length_sched_order)
  then have "take (length xs) ?o = ?o" by simp
  then show "t \<in> set (take (length xs) ?o)" using t runnable_alive [OF t(2)] by (simp add: set_sched_order)
qed

theorem yields_fair_witness:
  "\<exists>st t j st'. sched_reach demo_se demo_sched 2 st \<and> t \<noteq> current_task st \<and> j \<le> 3 \<and> yields j st = Some st' \<and>
     current_task st' = t"
proof -
  obtain st A xs where r: "sched_reach demo_se demo_sched 2 st" "sys_inv demo_se task_cost A xs st" "length xs = 3"
    "\<forall>t\<in>set xs. runnable (sc_tasks st t)" by (rule demo_run)
  have "distinct xs" using r(2) by (simp add: sys_inv_def sc_inv_def ring_def)
  then have "card (set xs) = 3" using r(3) distinct_card by metis
  then have "\<not> set xs \<subseteq> {current_task st}" using card_mono [of "{current_task st}" "set xs"] by auto
  then obtain t where "t \<in> set xs" "t \<noteq> current_task st" by auto
  with yields_fair [OF r(2), of t] r(1,3,4) show ?thesis by auto
qed

text \<open>C31. With room on the heap, \<open>create_task_with_arg\<close> returns a process id no task of the ring has
  and puts a new task at the end of the ring: ready to run, with the given entry and argument,
  the current process as its parent and the terminal as its first three descriptors, in blocks
  that were not live before. No other task changes but in its link.\<close>

theorem create_task_joins:
  assumes "sys_inv se S A xs st" "entry \<noteq> 0" "task_cost \<le> S"
  shows "\<exists>t st'. create_task_with_arg se entry arg st = Some (next_pid st, st') \<and> t \<notin> A \<and>
    sys_inv se (S - task_cost) (A \<union> set (task_blocks st' t)) (xs @ [t]) st' \<and>
    t_state (sc_tasks st' t) = TASK_READY \<and> t_entry (sc_tasks st' t) = entry \<and> t_entry_arg (sc_tasks st' t) = arg \<and>
    pid (sc_tasks st' t) = next_pid st \<and> parent_pid (sc_tasks st' t) = sched_getpid st \<and>
    map fd_type (km_fdt st' (t_fds (sc_tasks st' t))) = replicate 3 FD_TTY @ replicate 61 FD_NONE \<and>
    (\<forall>x. x \<noteq> t \<longrightarrow> (sc_tasks st' x)\<lparr>t_next := 0\<rparr> = (sc_tasks st x)\<lparr>t_next := 0\<rparr>)"
proof -
  have "map fd_type stdio_fds = replicate 3 FD_TTY @ replicate 61 FD_NONE"
    by (simp add: stdio_fds_def fd_stdio_def fd_none_def map_replicate_const drop_replicate)
  then show ?thesis using create_sys [OF assms] by metis
qed

theorem create_task_joins_witness:
  "\<exists>st p st'. sched_reach demo_se demo_sched 2 st \<and> create_task_with_arg demo_se 0x5000 7 st = Some (p, st')"
proof -
  obtain st A xs where r: "sched_reach demo_se demo_sched 2 st" "sys_inv demo_se task_cost A xs st" by (rule demo_run)
  have e: "(0x5000 :: u64) \<noteq> 0" by simp
  from create_task_joins [OF r(2) e order_refl] r(1) show ?thesis by blast
qed

text \<open>C32. In a ring whose process ids are distinct, \<open>kill_task\<close> returns only when a task of the ring
  has the given process id, and then marks that task dead and changes nothing else. For any
  other process id it does not return, since the ring has no end at which the search would stop.\<close>

theorem kill_task_returns_iff:
  assumes "ring (sc_tasks st) xs" "task_list st = hd xs" "distinct (map (\<lambda>t. pid (sc_tasks st t)) xs)"
  shows "kill_task p st =
    (if p \<in> (\<lambda>t. pid (sc_tasks st t)) ` set xs
     then Some (upd_task (THE t. t \<in> set xs \<and> pid (sc_tasks st t) = p) (\<lambda>x. x\<lparr>t_state := TASK_DEAD\<rparr>) st)
     else None)"
proof (cases "find (\<lambda>x. pid (sc_tasks st x) = p) xs")
  case None
  then have "p \<notin> (\<lambda>t. pid (sc_tasks st t)) ` set xs" by (auto simp: find_None_iff)
  with None show ?thesis unfolding kill_task_def find_task_ring [OF assms(1,2)] by simp
next
  case (Some t)
  then have t: "t \<in> set xs" "pid (sc_tasks st t) = p" using find_split [OF Some] by auto
  then have the: "(THE u. u \<in> set xs \<and> pid (sc_tasks st u) = p) = t"
    using assms(3) by (intro the_equality) (auto simp: distinct_map inj_on_def)
  have "t \<noteq> 0" by (rule ring_nonnull [OF assms(1) t(1)])
  moreover have "upd_task t (\<lambda>x. x\<lparr>t_state := TASK_DEAD\<rparr>) st = st" if "t_state (sc_tasks st t) = TASK_DEAD"
    using that by (simp add: upd_task_def fun_upd_idem)
  ultimately show ?thesis
    using Some t the unfolding kill_task_def find_task_ring [OF assms(1,2)] by auto
qed

theorem kill_task_returns_iff_witness:
  "\<exists>st st'. sched_reach demo_se demo_sched 2 st \<and> kill_task 1 st = Some st' \<and> kill_task 0 st = None"
proof -
  obtain st A xs where r: "sched_reach demo_se demo_sched 2 st" "sys_inv demo_se task_cost A xs st" by (rule demo_run)
  have s: "ring (sc_tasks st) xs" "task_list st = hd xs" "distinct (map (\<lambda>t. pid (sc_tasks st t)) xs)"
    "pid (sc_tasks st (hd xs)) = 1" "\<forall>t\<in>set xs. 1 \<le> pid (sc_tasks st t)"
    using r(2) by (auto simp: sys_inv_def sc_inv_def)
  have "1 \<in> (\<lambda>t. pid (sc_tasks st t)) ` set xs" "0 \<notin> (\<lambda>t. pid (sc_tasks st t)) ` set xs"
    using s(4,5) ring_hd [OF s(1)] by (auto simp: image_iff intro: bexI [of _ "hd xs"])
  with kill_task_returns_iff [OF s(1-3), of 1] kill_task_returns_iff [OF s(1-3), of 0] r(1) show ?thesis by auto
qed

lemma unat_stack_top:
  assumes "unat stack + TASK_STACK_SIZE < 2 ^ 64"
  shows "unat (stack_top stack) = (unat stack + TASK_STACK_SIZE) div 16 * 16"
proof -
  have m: "(0xF :: u64) = mask 4" by (simp add: mask_eq_exp_minus_1)
  have "unat (stack + of_nat TASK_STACK_SIZE) = unat stack + TASK_STACK_SIZE"
    using assms by (subst unat_plus_simple [THEN iffD1]) (simp_all add: TASK_STACK_SIZE_def word_le_nat_alt unat_word_ariths)
  then show ?thesis unfolding stack_top_def m unat_and_not_mask by simp
qed

lemma frame_words:
  "sc_words (init_frame se t stack st) =
     (let top = stack_top stack in (sc_words st)(top - 8 := se_trampoline se, top - 16 := 0, top - 24 := 0, top - 32 := 0,
        top - 40 := 0, top - 48 := 0, top - 56 := 0))"
  by (simp add: init_frame_def Let_def upt_rec)

text \<open>The frame a new task starts from lies inside its stack: the saved stack pointer is at
  least the start of the block, the seven words it points at (six zero registers and the
  trampoline as the return address) end at the highest multiple of sixteen in the block, and
  no word outside of the frame is written.\<close>

lemma init_frame_in_stack:
  assumes st: "unat stack + TASK_STACK_SIZE < 2 ^ 64" and st': "st' = init_frame se t stack st"
    and sp': "sp = t_rsp (sc_tasks st' t)"
  shows "unat stack + (TASK_STACK_SIZE - 71) \<le> unat sp \<and> unat sp + 56 \<le> unat stack + TASK_STACK_SIZE \<and> unat sp mod 16 = 8 \<and>
    map (sc_words st') [sp, sp + 8, sp + 16, sp + 24, sp + 32, sp + 40, sp + 48] = [0, 0, 0, 0, 0, 0, se_trampoline se] \<and>
    (\<forall>a. sc_words st' a \<noteq> sc_words st a \<longrightarrow> unat sp \<le> unat a \<and> unat a + 8 \<le> unat sp + 56)"
proof -
  let ?top = "stack_top stack"
  have sp: "sp = ?top - 56" by (simp add: sp' st')
  have top: "unat ?top = (unat stack + TASK_STACK_SIZE) div 16 * 16" by (rule unat_stack_top [OF st])
  let ?q = "unat stack div 16 + 1020"
  have q: "unat ?top = 16 * ?q + 64" 
    using div_mult_self1 [of 16 "unat stack" 1024] unfolding top TASK_STACK_SIZE_def by simp
  have q': "unat ?top \<le> unat stack + TASK_STACK_SIZE" "unat stack + TASK_STACK_SIZE < unat ?top + 16"
    unfolding top using div_mult_mod_eq [of "unat stack + TASK_STACK_SIZE" 16]
      mod_less_divisor [of 16 "unat stack + TASK_STACK_SIZE"] by linarith+
  have b: "64 \<le> unat ?top" unfolding q by simp
  have sub: "unat (?top - n) = unat ?top - unat n" if "unat n \<le> 56" for n :: u64
    using that b by (intro unat_sub_le) (simp add: word_le_nat_alt)
  have "unat stack + (TASK_STACK_SIZE - 71) \<le> unat ?top - 56 \<and> unat ?top - 56 + 56 \<le> unat stack + TASK_STACK_SIZE \<and>
      (unat ?top - 56) mod 16 = 8"
    using q' unfolding q TASK_STACK_SIZE_def by simp
  moreover have "map (sc_words st') [sp, sp + 8, sp + 16, sp + 24, sp + 32, sp + 40, sp + 48] =
      [0, 0, 0, 0, 0, 0, se_trampoline se]"
    unfolding sp st' frame_words Let_def by simp
  moreover have "\<forall>a. sc_words st' a \<noteq> sc_words st a \<longrightarrow> unat sp \<le> unat a \<and> unat a + 8 \<le> unat sp + 56"
    using b unfolding sp st' frame_words Let_def by (auto simp: sub)
  ultimately show ?thesis by (simp add: sp sub)
qed

end
