(* ===== verification/Users.thy ===== *)
theory Users
  imports Prelude
begin

text \<open>
  The user database of \<^verbatim>\<open>kernel/userland/users.cpp\<close>: the two static tables with their
  counters, the identity of the current user, the look-ups, authentication and the check of
  permission bits. Text fields are strings; \<open>strncpy\<close> into a zeroed field of \<open>n + 1\<close> bytes
  stores the first \<open>n\<close> characters. Comparing with \<open>strcmp\<close> is equality, which the theory of the
  C library shows for stored strings. Log output is left out.
\<close>

unbundle bit_operations_syntax

record user =
  u_uid :: u32
  u_gid :: u32
  username :: string
  password_hash :: string
  home_dir :: string
  shell :: string

record group =
  g_gid :: u32
  groupname :: string
  member_count :: u32
  members :: "u32 list"

record users =
  user_database :: "user list"
  user_count :: int
  group_database :: "group list"
  group_count :: int
  current_uid :: u32
  current_gid :: u32

definition user_zero :: user where
  "user_zero = \<lparr>u_uid = 0, u_gid = 0, username = '''', password_hash = '''', home_dir = '''', shell = ''''\<rparr>"

definition group_zero :: group where
  "group_zero = \<lparr>g_gid = 0, groupname = '''', member_count = 0, members = replicate 32 0\<rparr>"

definition users_boot :: users where
  "users_boot = \<lparr>user_database = replicate 64 user_zero, user_count = 0, group_database = replicate 16 group_zero,
     group_count = 0, current_uid = 0, current_gid = 0\<rparr>"

definition simple_hash :: "string \<Rightarrow> u32" where
  "simple_hash s = foldl (\<lambda>h c. (push_bit 5 h + h) + scast (byte_of_char c)) 5381 s"

definition set_field :: "nat \<Rightarrow> string \<Rightarrow> string" where
  "set_field n s = take n s"

definition init_users :: "users \<Rightarrow> users" where
  "init_users st =
     (let us = replicate 64 user_zero; gs = replicate 16 group_zero;
          us = us[0 := (us ! 0)\<lparr>u_uid := 0, u_gid := 0, username := set_field 63 ''root'',
                 password_hash := set_field 127 ''root'', home_dir := set_field 255 ''/root'',
                 shell := set_field 255 ''/bin/hcsh''\<rparr>];
          us = us[1 := (us ! 1)\<lparr>u_uid := 1000, u_gid := 1000, username := set_field 63 ''guest'',
                 password_hash := set_field 127 ''guest'', home_dir := set_field 255 ''/home/guest'',
                 shell := set_field 255 ''/bin/sh''\<rparr>];
          gs = gs[0 := (gs ! 0)\<lparr>g_gid := 0, groupname := set_field 63 ''root'', member_count := 1,
                 members := (members (gs ! 0))[0 := 0]\<rparr>];
          gs = gs[1 := (gs ! 1)\<lparr>g_gid := 1000, groupname := set_field 63 ''users'', member_count := 1,
                 members := (members (gs ! 1))[0 := 1000]\<rparr>]
      in st\<lparr>user_database := us, user_count := 2, group_database := gs, group_count := 2\<rparr>)"

text \<open>The loops over the tables look at the entries below the counter.\<close>

definition user_entries :: "users \<Rightarrow> user list" where
  "user_entries st = take (nat (user_count st)) (user_database st)"

definition group_entries :: "users \<Rightarrow> group list" where
  "group_entries st = take (nat (group_count st)) (group_database st)"

definition get_uid_by_name :: "string option \<Rightarrow> users \<Rightarrow> u32" where
  "get_uid_by_name nm st =
     (case nm of None \<Rightarrow> -1
      | Some n \<Rightarrow> (case find (\<lambda>u. username u = n) (user_entries st) of Some u \<Rightarrow> u_uid u | None \<Rightarrow> -1))"

definition get_username_by_uid :: "u32 \<Rightarrow> users \<Rightarrow> string" where
  "get_username_by_uid i st =
     (case find (\<lambda>u. u_uid u = i) (user_entries st) of Some u \<Rightarrow> username u | None \<Rightarrow> ''unknown'')"

definition get_user_by_uid :: "u32 \<Rightarrow> users \<Rightarrow> user option" where
  "get_user_by_uid i st = find (\<lambda>u. u_uid u = i) (user_entries st)"

definition get_user_by_name :: "string option \<Rightarrow> users \<Rightarrow> user option" where
  "get_user_by_name nm st =
     (case nm of None \<Rightarrow> None | Some n \<Rightarrow> find (\<lambda>u. username u = n) (user_entries st))"

definition get_gid_by_name :: "string option \<Rightarrow> users \<Rightarrow> u32" where
  "get_gid_by_name nm st =
     (case nm of None \<Rightarrow> -1
      | Some n \<Rightarrow> (case find (\<lambda>g. groupname g = n) (group_entries st) of Some g \<Rightarrow> g_gid g | None \<Rightarrow> -1))"

definition get_groupname_by_gid :: "u32 \<Rightarrow> users \<Rightarrow> string" where
  "get_groupname_by_gid i st =
     (case find (\<lambda>g. g_gid g = i) (group_entries st) of Some g \<Rightarrow> groupname g | None \<Rightarrow> ''unknown'')"

definition get_group_by_gid :: "u32 \<Rightarrow> users \<Rightarrow> group option" where
  "get_group_by_gid i st = find (\<lambda>g. g_gid g = i) (group_entries st)"

definition authenticate_user :: "string option \<Rightarrow> string option \<Rightarrow> users \<Rightarrow> bool" where
  "authenticate_user nm pw st =
     (case (nm, pw) of
        (Some n, Some p) \<Rightarrow> (case get_user_by_name (Some n) st of None \<Rightarrow> False | Some u \<Rightarrow> password_hash u = p)
      | _ \<Rightarrow> False)"

definition get_current_uid :: "users \<Rightarrow> u32" where
  "get_current_uid st = current_uid st"

definition get_current_gid :: "users \<Rightarrow> u32" where
  "get_current_gid st = current_gid st"

definition set_current_user :: "u32 \<Rightarrow> u32 \<Rightarrow> users \<Rightarrow> users" where
  "set_current_user uid gid st = st\<lparr>current_uid := uid, current_gid := gid\<rparr>"

text \<open>The mode has sixteen bits and is widened to an \<open>int\<close> before the shifts.\<close>

definition check_permission :: "16 word \<Rightarrow> u32 \<Rightarrow> u32 \<Rightarrow> u32 \<Rightarrow> bool" where
  "check_permission mode uid gid required_bits =
     (let m = ucast mode :: u32;
          file_uid = drop_bit 16 m AND 0xFFFF;
          file_gid = drop_bit 8 m AND 0xFF
      in if uid = 0 then True
         else if uid = file_uid then m AND push_bit 6 required_bits \<noteq> 0
         else if gid = file_gid then m AND push_bit 3 required_bits \<noteq> 0
         else m AND required_bits \<noteq> 0)"

definition can_read :: "string \<Rightarrow> u32 \<Rightarrow> u32 \<Rightarrow> bool" where
  "can_read path uid gid = (if uid = 0 then True else True)"

definition can_write :: "string \<Rightarrow> u32 \<Rightarrow> u32 \<Rightarrow> bool" where
  "can_write path uid gid = (if uid = 0 then True else True)"

definition can_execute :: "string \<Rightarrow> u32 \<Rightarrow> u32 \<Rightarrow> bool" where
  "can_execute path uid gid = (if uid = 0 then True else True)"

text \<open>The functions with C linkage that the shell calls.\<close>

definition get_current_user_uid :: "users \<Rightarrow> u32" where
  "get_current_user_uid st = get_current_uid st"

definition get_current_user_gid :: "users \<Rightarrow> u32" where
  "get_current_user_gid st = get_current_gid st"

definition get_current_username :: "users \<Rightarrow> string" where
  "get_current_username st = get_username_by_uid (get_current_uid st) st"

definition set_current_user_c :: "u32 \<Rightarrow> u32 \<Rightarrow> users \<Rightarrow> users" where
  "set_current_user_c uid gid st = set_current_user uid gid st"

definition authenticate_user_c :: "string option \<Rightarrow> string option \<Rightarrow> users \<Rightarrow> bool" where
  "authenticate_user_c nm pw st = authenticate_user nm pw st"

section \<open>The tables\<close>

text \<open>A database in which the look-ups by name and by number are inverse to each other.\<close>

definition users_ok :: "users \<Rightarrow> bool" where
  "users_ok st \<longleftrightarrow> length (user_database st) = 64 \<and> length (group_database st) = 16 \<and>
     0 \<le> user_count st \<and> user_count st \<le> 64 \<and> 0 \<le> group_count st \<and> group_count st \<le> 16 \<and>
     distinct (map username (user_entries st)) \<and> distinct (map u_uid (user_entries st)) \<and>
     distinct (map groupname (group_entries st)) \<and> distinct (map g_gid (group_entries st)) \<and>
     - 1 \<notin> u_uid ` set (user_entries st) \<and> - 1 \<notin> g_gid ` set (group_entries st)"

lemma user_entries_init:
  "user_entries (init_users st) =
     [\<lparr>u_uid = 0, u_gid = 0, username = ''root'', password_hash = ''root'', home_dir = ''/root'', shell = ''/bin/hcsh''\<rparr>,
      \<lparr>u_uid = 1000, u_gid = 1000, username = ''guest'', password_hash = ''guest'', home_dir = ''/home/guest'', shell = ''/bin/sh''\<rparr>]"
  by (simp add: user_entries_def init_users_def Let_def user_zero_def set_field_def numeral_eq_Suc)

lemma group_entries_init:
  "map g_gid (group_entries (init_users st)) = [0, 1000]" "map groupname (group_entries (init_users st)) = [''root'', ''users'']"
  by (simp_all add: group_entries_def init_users_def Let_def group_zero_def set_field_def numeral_eq_Suc)

lemma find_distinct:
  assumes "distinct (map f xs)" "x \<in> set xs"
  shows "find (\<lambda>y. f y = f x) xs = Some x"
  using assms by (induction xs) auto

lemma users_init_ok: "users_ok (init_users st)"
proof -
  have "length (user_database (init_users st)) = 64" "length (group_database (init_users st)) = 16"
    "user_count (init_users st) = 2" "group_count (init_users st) = 2"
    by (simp_all add: init_users_def Let_def)
  moreover have "g_gid ` set (group_entries (init_users st)) = {0, 1000}"
    using arg_cong [OF group_entries_init(1), of set] by auto
  ultimately show ?thesis
    unfolding users_ok_def group_entries_init user_entries_init by simp
qed

lemma file_uid_zero: "drop_bit 16 (ucast (mode :: 16 word) :: u32) AND 0xFFFF = 0"
proof -
  have "drop_bit 16 (ucast mode :: u32) = 0"
    by (rule bit_word_eqI) (auto simp: bit_drop_bit_eq bit_simps dest: bit_imp_le_length)
  then show ?thesis by simp
qed

section \<open>Properties\<close>

text \<open>In a table with distinct names and numbers, such as the one \<open>init_users\<close> builds, the
  look-ups are inverse to each other: the name of every user leads to the number of that user
  and back, and both lead to the same record.\<close>

lemma user_lookups_inverse:
  assumes "users_ok st" "u \<in> set (user_entries st)"
  shows "get_uid_by_name (Some (username u)) st = u_uid u \<and> get_username_by_uid (u_uid u) st = username u \<and>
    get_user_by_name (Some (username u)) st = Some u \<and> get_user_by_uid (u_uid u) st = Some u"
  using assms find_distinct [of username "user_entries st" u] find_distinct [of u_uid "user_entries st" u]
  by (simp add: users_ok_def get_uid_by_name_def get_username_by_uid_def get_user_by_name_def get_user_by_uid_def)

text \<open>C33. After \<open>init_users\<close> exactly two pairs of name and password are accepted: root with
  password root and guest with password guest. A null name or password is refused.\<close>

theorem authenticate_init_iff:
  "authenticate_user nm pw (init_users st) \<longleftrightarrow>
     (nm = Some ''root'' \<and> pw = Some ''root'') \<or> (nm = Some ''guest'' \<and> pw = Some ''guest'')"
  by (auto simp: authenticate_user_def get_user_by_name_def user_entries_init split: option.splits if_splits)

text \<open>C40. Root may do everything. For every other user \<open>check_permission\<close> never consults the owner
  bits, since a mode of sixteen bits has no owner in its upper half: a user whose group number
  is the second byte of the mode needs one of the group bits asked for, anyone else one of the
  other bits.\<close>

theorem check_permission_no_owner:
  "check_permission mode uid gid req \<longleftrightarrow> uid = 0 \<or>
     (if gid = drop_bit 8 (ucast mode) then (ucast mode :: u32) AND push_bit 3 req \<noteq> 0 else ucast mode AND req \<noteq> 0)"
proof -
  have "drop_bit 8 (ucast mode :: u32) AND 0xFF = drop_bit 8 (ucast mode)"
    by (rule bit_word_eqI) (auto simp: bit_drop_bit_eq bit_simps bit_low_mask_int dest: bit_imp_le_length)
  then show ?thesis by (simp add: check_permission_def Let_def file_uid_zero)
qed

end
