(* ===== verification/ElfLoader.thy ===== *)
theory ElfLoader
  imports Bump Libc
begin

text \<open>
  The loader for ELF64 images of \<^verbatim>\<open>kernel/userland/elf_loader.cpp\<close>. The file is what the data
  pointer leads to: a function from offsets to bytes, of which the first \<open>size\<close> belong to the
  file. It is only read; the image is written to memory from the bump allocator, which is a
  function from addresses to bytes. All header fields keep their width and all sums wrap, as
  in the code.
\<close>

type_synonym blob = "u64 \<Rightarrow> byte"

definition rd16 :: "blob \<Rightarrow> u64 \<Rightarrow> u16" where
  "rd16 f a = le16 (f a) (f (a + 1))"

definition rd32 :: "blob \<Rightarrow> u64 \<Rightarrow> u32" where
  "rd32 f a = le32 (f a) (f (a + 1)) (f (a + 2)) (f (a + 3))"

definition rd64 :: "blob \<Rightarrow> u64 \<Rightarrow> u64" where
  "rd64 f a = ucast (rd32 f a) OR push_bit 32 (ucast (rd32 f (a + 4)))"

record ehdr =
  e_ident :: "byte list"
  e_type :: u16
  e_machine :: u16
  e_version :: u32
  e_entry :: u64
  e_phoff :: u64
  e_shoff :: u64
  e_flags :: u32
  e_ehsize :: u16
  e_phentsize :: u16
  e_phnum :: u16
  e_shentsize :: u16
  e_shnum :: u16
  e_shstrndx :: u16

record phdr =
  p_type :: u32
  p_flags :: u32
  p_offset :: u64
  p_vaddr :: u64
  p_paddr :: u64
  p_filesz :: u64
  p_memsz :: u64
  p_align :: u64

definition sizeof_Ehdr :: u64 where
  "sizeof_Ehdr = 64"

definition read_ehdr :: "blob \<Rightarrow> ehdr" where
  "read_ehdr f = \<lparr>e_ident = map (\<lambda>i. f (of_nat i)) [0..<16], e_type = rd16 f 16, e_machine = rd16 f 18,
     e_version = rd32 f 20, e_entry = rd64 f 24, e_phoff = rd64 f 32, e_shoff = rd64 f 40, e_flags = rd32 f 48,
     e_ehsize = rd16 f 52, e_phentsize = rd16 f 54, e_phnum = rd16 f 56, e_shentsize = rd16 f 58,
     e_shnum = rd16 f 60, e_shstrndx = rd16 f 62\<rparr>"

definition read_phdr :: "blob \<Rightarrow> u64 \<Rightarrow> phdr" where
  "read_phdr f a = \<lparr>p_type = rd32 f a, p_flags = rd32 f (a + 4), p_offset = rd64 f (a + 8), p_vaddr = rd64 f (a + 16),
     p_paddr = rd64 f (a + 24), p_filesz = rd64 f (a + 32), p_memsz = rd64 f (a + 40), p_align = rd64 f (a + 48)\<rparr>"

definition PT_LOAD :: u32 where
  "PT_LOAD = 1"

definition MAX_USER_IMAGE :: u64 where
  "MAX_USER_IMAGE = 64 * 1024 * 1024"

definition is_valid_elf64 :: "ehdr \<Rightarrow> bool" where
  "is_valid_elf64 eh \<longleftrightarrow> e_ident eh ! 0 = 0x7F \<and> e_ident eh ! 1 = 0x45 \<and> e_ident eh ! 2 = 0x4C \<and> e_ident eh ! 3 = 0x46"

text \<open>The program headers both loops go through.\<close>

definition elf_phdrs :: "blob \<Rightarrow> ehdr \<Rightarrow> phdr list" where
  "elf_phdrs f eh = map (\<lambda>i. read_phdr f (e_phoff eh + of_nat (i * unat (e_phentsize eh)))) [0..<unat (e_phnum eh)]"

definition span_step :: "u64 \<times> u64 \<Rightarrow> phdr \<Rightarrow> u64 \<times> u64" where
  "span_step = (\<lambda>(min_vaddr, max_vaddr) ph.
     if p_type ph \<noteq> PT_LOAD then (min_vaddr, max_vaddr)
     else (if p_vaddr ph < min_vaddr then p_vaddr ph else min_vaddr,
           if max_vaddr < p_vaddr ph + p_memsz ph then p_vaddr ph + p_memsz ph else max_vaddr))"

definition elf_span :: "phdr list \<Rightarrow> u64 \<times> u64" where
  "elf_span phs = foldl span_step (- 1, 0) phs"

definition copy_in :: "mem \<Rightarrow> u64 \<Rightarrow> blob \<Rightarrow> u64 \<Rightarrow> u64 \<Rightarrow> mem" where
  "copy_in m dst f off n = fold (\<lambda>i m. m(dst + of_nat i := f (off + of_nat i))) [0..<unat n] m"

text \<open>The loop that loads the segments, with whether it ran to its end.\<close>

primrec elf_load_segments :: "blob \<Rightarrow> u64 \<Rightarrow> u64 \<Rightarrow> u64 \<Rightarrow> u64 \<Rightarrow> phdr list \<Rightarrow> mem \<Rightarrow> bool \<times> mem" where
  "elf_load_segments f sz img tot min_vaddr [] m = (True, m)"
| "elf_load_segments f sz img tot min_vaddr (ph # phs) m =
     (if p_type ph \<noteq> PT_LOAD then elf_load_segments f sz img tot min_vaddr phs m
      else if sz < p_offset ph + p_filesz ph then (False, m)
      else let dest = img + (p_vaddr ph - min_vaddr)
           in if img + tot < dest + p_filesz ph then (False, m)
              else elf_load_segments f sz img tot min_vaddr phs (copy_in m dest f (p_offset ph) (p_filesz ph)))"

text \<open>The result is the entry point, null for a failure, with the bump pointer and memory.\<close>

definition elf64_load_from_memory :: "boot_env \<Rightarrow> blob option \<Rightarrow> u64 \<Rightarrow> u64 \<Rightarrow> mem \<Rightarrow> u64 \<times> u64 \<times> mem" where
  "elf64_load_from_memory env data sz bp m =
     (case data of
        None \<Rightarrow> (0, bp, m)
      | Some f \<Rightarrow>
          let eh = read_ehdr f in
          if sz < sizeof_Ehdr \<or> \<not> is_valid_elf64 eh \<or> e_phoff eh = 0 \<or> e_phnum eh = 0 \<or>
             sz < e_phoff eh + ucast (e_phnum eh) * ucast (e_phentsize eh)
          then (0, bp, m)
          else
            let phs = elf_phdrs f eh; (min_vaddr, max_vaddr) = elf_span phs; tot = max_vaddr - min_vaddr
            in if min_vaddr = - 1 \<or> max_vaddr \<le> min_vaddr \<or> tot = 0 \<or> MAX_USER_IMAGE < tot then (0, bp, m)
               else
                 let (img, bp') = bump_alloc_alloc env tot 0x1000 bp
                 in if img = 0 then (0, bp', m)
                    else
                      let (ok, m') = elf_load_segments f sz img tot min_vaddr phs (memset m img 0 tot);
                          entry = img + (e_entry eh - min_vaddr)
                      in if \<not> ok \<or> e_entry eh < min_vaddr \<or> max_vaddr \<le> e_entry eh \<or> entry < img \<or> img + tot \<le> entry
                         then (0, bp', m') else (entry, bp', m'))"

section \<open>The span of the image\<close>

lemma span_step_mono:
  assumes "span_step (lo, hi) ph = (lo', hi')"
  shows "lo' \<le> lo" "hi \<le> hi'" "p_type ph = PT_LOAD \<Longrightarrow> lo' \<le> p_vaddr ph \<and> p_vaddr ph + p_memsz ph \<le> hi'"
  using assms by (auto simp: span_step_def split: if_splits)

lemma span_fold:
  assumes "foldl span_step (lo, hi) phs = (lo', hi')"
  shows "lo' \<le> lo \<and> hi \<le> hi' \<and> (\<forall>ph\<in>set phs. p_type ph = PT_LOAD \<longrightarrow> lo' \<le> p_vaddr ph \<and> p_vaddr ph + p_memsz ph \<le> hi')"
  using assms
proof (induction phs arbitrary: lo hi)
  case (Cons ph phs)
  obtain lo1 hi1 where s: "span_step (lo, hi) ph = (lo1, hi1)" by fastforce
  have "lo' \<le> lo1 \<and> hi1 \<le> hi' \<and> (\<forall>ph\<in>set phs. p_type ph = PT_LOAD \<longrightarrow> lo' \<le> p_vaddr ph \<and> p_vaddr ph + p_memsz ph \<le> hi')"
    using Cons.IH [of lo1 hi1] Cons.prems s by simp
  with span_step_mono [OF s] show ?case by (auto intro: order_trans)
qed simp

lemma span_bounds:
  assumes "elf_span phs = (lo, hi)" "ph \<in> set phs" "p_type ph = PT_LOAD"
  shows "lo \<le> p_vaddr ph" "p_vaddr ph + p_memsz ph \<le> hi"
  using span_fold [of "- 1" 0 phs lo hi] assms by (auto simp: elf_span_def)

section \<open>What is written\<close>

lemma write_run:
  fixes dst :: u64
  assumes "n \<le> 2 ^ 64"
  shows "fold (\<lambda>i m. m(dst + of_nat i := g i)) [0..<n] m a = (if unat (a - dst) < n then g (unat (a - dst)) else m a)"
  using assms
proof (induction n)
  case (Suc n)
  have n: "unat (of_nat n :: u64) = n" using Suc.prems by (simp add: unat_of_nat)
  have "unat (a - dst) = unat (of_nat n :: u64) \<longleftrightarrow> a - dst = of_nat n" by (simp add: word_unat_eq_iff)
  then have "unat (a - dst) = n \<longleftrightarrow> a = dst + of_nat n" unfolding n by (auto simp: algebra_simps)
  with Suc show ?case by (auto simp: n less_Suc_eq)
qed simp

lemma copy_in_at:
  "copy_in m dst f off n a = (if unat (a - dst) < unat n then f (off + (a - dst)) else m a)"
  unfolding copy_in_def using write_run [of "unat n" dst "\<lambda>i. f (off + of_nat i)" m a] unat_lt_u64 [of n]
  by (auto simp: less_imp_le)

lemma memset_at:
  "memset m dst c n a = (if unat (a - dst) < unat n then of_int c else m a)"
  unfolding memset_def using write_run [of "unat n" dst "\<lambda>_. of_int c" m a] unat_lt_u64 [of n] by (auto simp: less_imp_le)

text \<open>The image a file describes: the byte at an offset comes from the last segment whose file
  part covers it, and is zero when there is none.\<close>

definition seg_covers :: "u64 \<Rightarrow> u64 \<Rightarrow> phdr \<Rightarrow> bool" where
  "seg_covers lo d ph \<longleftrightarrow> p_type ph = PT_LOAD \<and> unat (d - (p_vaddr ph - lo)) < unat (p_filesz ph)"

definition image_byte :: "blob \<Rightarrow> u64 \<Rightarrow> phdr list \<Rightarrow> u64 \<Rightarrow> byte" where
  "image_byte f lo phs d =
     (case find (seg_covers lo d) (rev phs) of Some ph \<Rightarrow> f (p_offset ph + (d - (p_vaddr ph - lo))) | None \<Rightarrow> 0)"

lemma load_segments_at:
  assumes "elf_load_segments f sz img tot lo phs m = (True, m')"
  shows "m' a = (case find (seg_covers lo (a - img)) (rev phs) of
      Some ph \<Rightarrow> f (p_offset ph + (a - img - (p_vaddr ph - lo))) | None \<Rightarrow> m a)"
  using assms
proof (induction phs arbitrary: m)
  case (Cons ph phs)
  have off: "a - (img + (p_vaddr ph - lo)) = a - img - (p_vaddr ph - lo)" by simp
  have fa: "find P (xs @ ys) = (case find P xs of Some x \<Rightarrow> Some x | None \<Rightarrow> find P ys)" for P xs and ys :: "phdr list"
    by (induction xs) auto
  show ?case
  proof (cases "p_type ph = PT_LOAD")
    case True
    then have "elf_load_segments f sz img tot lo phs (copy_in m (img + (p_vaddr ph - lo)) f (p_offset ph) (p_filesz ph)) = (True, m')"
      using Cons.prems by (auto simp: Let_def split: if_splits)
    from Cons.IH [OF this] True show ?thesis
      unfolding rev.simps fa copy_in_at off by (simp add: seg_covers_def [of lo "a - img" ph] split: option.splits)
  next
    case False
    with Cons show ?thesis unfolding rev.simps fa by (simp add: seg_covers_def [of lo "a - img" ph] split: option.splits)
  qed
qed simp

text \<open>Headers whose sums do not wrap.\<close>

definition phdr_sane :: "phdr \<Rightarrow> bool" where
  "phdr_sane ph \<longleftrightarrow> unat (p_vaddr ph) + unat (p_memsz ph) < 2 ^ 64 \<and> unat (p_offset ph) + unat (p_filesz ph) < 2 ^ 64"

lemma segment_fits:
  assumes sp: "elf_span phs = (lo, hi)" and ph: "ph \<in> set phs" "p_type ph = PT_LOAD" "phdr_sane ph"
    and chk: "\<not> sz < p_offset ph + p_filesz ph" "\<not> img + (hi - lo) < img + (p_vaddr ph - lo) + p_filesz ph"
    and room: "unat img + unat (hi - lo) + unat sz < 2 ^ 64"
  shows "unat (p_vaddr ph - lo) + unat (p_filesz ph) \<le> unat (hi - lo)"
proof -
  note b = span_bounds [OF sp ph(1,2)]
  have n: "unat (p_vaddr ph + p_memsz ph) = unat (p_vaddr ph) + unat (p_memsz ph)"
    "unat (p_offset ph + p_filesz ph) = unat (p_offset ph) + unat (p_filesz ph)"
    using ph(3) by (auto simp: phdr_sane_def intro: unat_add_nowrap)
  then have fs: "unat (p_filesz ph) \<le> unat sz" using chk(1) by (simp add: word_less_nat_alt)
  have v: "p_vaddr ph \<le> hi" using b(2) n(1) by (simp add: word_le_nat_alt)
  then have s: "unat (p_vaddr ph - lo) = unat (p_vaddr ph) - unat lo" "unat (hi - lo) = unat hi - unat lo"
    using b(1) by (auto intro: unat_sub_le)
  then have le: "unat (p_vaddr ph - lo) \<le> unat (hi - lo)" using v by (simp add: word_le_nat_alt)
  have "unat (img + (hi - lo)) = unat img + unat (hi - lo)" using room by (intro unat_add_nowrap) simp
  moreover have "unat (img + (p_vaddr ph - lo)) = unat img + unat (p_vaddr ph - lo)"
    using room le by (intro unat_add_nowrap) simp
  moreover from this have "unat (img + (p_vaddr ph - lo) + p_filesz ph) = unat img + unat (p_vaddr ph - lo) + unat (p_filesz ph)"
    using room le fs by (subst unat_add_nowrap) simp_all
  ultimately show ?thesis using chk(2) by (simp add: word_less_nat_alt)
qed

lemma load_segments_inside:
  assumes "elf_load_segments f sz img (hi - lo) lo phs m = (ok, m')"
    and "\<forall>ph\<in>set phs. p_type ph = PT_LOAD \<longrightarrow> ph \<in> set all \<and> phdr_sane ph"
    and sp: "elf_span all = (lo, hi)" and room: "unat img + unat (hi - lo) + unat sz < 2 ^ 64"
    and a: "\<not> unat (a - img) < unat (hi - lo)"
  shows "m' a = m a"
  using assms(1,2)
proof (induction phs arbitrary: m)
  case (Cons ph phs)
  let ?off = "p_vaddr ph - lo"
  let ?m = "copy_in m (img + ?off) f (p_offset ph) (p_filesz ph)"
  consider "p_type ph \<noteq> PT_LOAD" | "p_type ph = PT_LOAD" "m' = m" |
    (copy) "p_type ph = PT_LOAD" "\<not> sz < p_offset ph + p_filesz ph"
      "\<not> img + (hi - lo) < img + ?off + p_filesz ph" "elf_load_segments f sz img (hi - lo) lo phs ?m = (ok, m')"
    using Cons.prems(1) by (auto simp: Let_def split: if_splits)
  then show ?case
  proof cases
    case copy
    have fit: "unat ?off + unat (p_filesz ph) \<le> unat (hi - lo)"
      by (rule segment_fits [OF sp _ copy(1) _ copy(2,3) room]) (use Cons.prems(2) copy(1) in auto)
    have "\<not> unat (a - (img + ?off)) < unat (p_filesz ph)"
    proof
      assume lt: "unat (a - (img + ?off)) < unat (p_filesz ph)"
      have "a - img = (a - (img + ?off)) + ?off" by simp
      moreover have "unat ((a - (img + ?off)) + ?off) = unat (a - (img + ?off)) + unat ?off"
        using lt fit unat_lt_u64 [of "hi - lo"] by (intro unat_add_nowrap) simp
      ultimately show False using a lt fit by simp
    qed
    then have "?m a = m a" by (simp add: copy_in_at)
    with Cons.IH [OF copy(4)] Cons.prems(2) show ?thesis by simp
  qed (use Cons in auto)
qed simp

section \<open>A small file\<close>

text \<open>One segment of eight bytes at \<open>0x400000\<close>, four of which are in the file, and the entry at
  its second byte.\<close>

definition demo_elf :: blob where
  "demo_elf a =
     (let bs = [0x7F, 0x45, 0x4C, 0x46] @ replicate 20 0 @ [1, 0, 0x40, 0, 0, 0, 0, 0] @ [64, 0, 0, 0, 0, 0, 0, 0] @
            replicate 14 0 @ [56, 0] @ [1, 0] @ replicate 6 0 @
            [1, 0, 0, 0] @ replicate 4 0 @ [120, 0, 0, 0, 0, 0, 0, 0] @ [0, 0, 0x40, 0, 0, 0, 0, 0] @ replicate 8 0 @
            [4, 0, 0, 0, 0, 0, 0, 0] @ [8, 0, 0, 0, 0, 0, 0, 0] @ replicate 8 0 @ [0x90, 0x90, 0xC3, 0x90]
      in if unat a < length bs then bs ! unat a else 0)"

lemma demo_elf_headers:
  "elf_phdrs demo_elf (read_ehdr demo_elf) =
     [\<lparr>p_type = 1, p_flags = 0, p_offset = 120, p_vaddr = 0x400000, p_paddr = 0, p_filesz = 4, p_memsz = 8, p_align = 0\<rparr>]"
  "e_entry (read_ehdr demo_elf) = 0x400001"
  by code_simp+

definition demo_boot :: boot_env where
  "demo_boot = \<lparr>kernel_end = 0x200000, hhdm_offset = None, static_heap = 0\<rparr>"

lemma demo_elf_block: "bump_alloc_alloc demo_boot (0x400008 - 0x400000) 0x1000 0 = (0x200000, 0x201000)"
  by code_simp

lemma demo_elf_span: "elf_span (elf_phdrs demo_elf (read_ehdr demo_elf)) = (0x400000, 0x400008)"
  unfolding demo_elf_headers by code_simp

lemma demo_elf_entry: "fst (elf64_load_from_memory demo_boot (Some demo_elf) 124 0 (\<lambda>_. 0xAA)) = 0x200001"
  by code_simp

section \<open>Properties\<close>

text \<open>C29. Loading a file whose segment headers do not wrap around, into memory that ends below the
  top of the address space, changes no byte outside of the block that was allocated for the
  image, whether it succeeds or fails, and a non-null entry point lies in that block.\<close>

theorem elf_load_inside:
  assumes load: "elf64_load_from_memory env (Some f) sz bp m = (entry, bp', m')"
    and sp: "elf_span (elf_phdrs f (read_ehdr f)) = (lo, hi)"
    and sane: "\<forall>ph\<in>set (elf_phdrs f (read_ehdr f)). p_type ph = PT_LOAD \<longrightarrow> phdr_sane ph"
    and img: "img = fst (bump_alloc_alloc env (hi - lo) 0x1000 bp)"
    and room: "unat img + unat (hi - lo) + unat sz < 2 ^ 64"
  shows "(\<forall>a. m' a \<noteq> m a \<longrightarrow> unat (a - img) < unat (hi - lo)) \<and> (entry \<noteq> 0 \<longrightarrow> unat (entry - img) < unat (hi - lo))"
proof -
  let ?phs = "elf_phdrs f (read_ehdr f)"
  consider "entry = 0" "m' = m" |
    (run) ok where "elf_load_segments f sz img (hi - lo) lo ?phs (memset m img 0 (hi - lo)) = (ok, m')"
      "entry \<noteq> 0 \<longrightarrow> lo \<le> e_entry (read_ehdr f) \<and> e_entry (read_ehdr f) < hi \<and> entry = img + (e_entry (read_ehdr f) - lo)"
    using load unfolding elf64_load_from_memory_def option.case Let_def sp img
    by (auto split: if_splits prod.splits simp: not_less not_le)
  then show ?thesis
  proof cases
    case run
    have "m' a = memset m img 0 (hi - lo) a" if "\<not> unat (a - img) < unat (hi - lo)" for a
      by (rule load_segments_inside [OF run(1) _ sp room that]) (use sane in simp)
    then have "\<forall>a. m' a \<noteq> m a \<longrightarrow> unat (a - img) < unat (hi - lo)" by (auto simp: memset_at)
    moreover have "unat (entry - img) < unat (hi - lo)" if "entry \<noteq> 0"
    proof -
      let ?e = "e_entry (read_ehdr f)"
      have e: "lo \<le> ?e" "?e < hi" "entry - img = ?e - lo" using run(2) that by auto
      then have "unat (?e - lo) = unat ?e - unat lo" "unat (hi - lo) = unat hi - unat lo"
        by (auto intro: unat_sub_le)
      with e show ?thesis by (simp add: word_less_nat_alt word_le_nat_alt)
    qed
    ultimately show ?thesis by simp
  qed simp
qed

theorem elf_load_inside_witness:
  "\<exists>entry bp' m'. elf64_load_from_memory demo_boot (Some demo_elf) 124 0 (\<lambda>_. 0xAA) = (entry, bp', m') \<and>
     (\<forall>a. m' a \<noteq> 0xAA \<longrightarrow> unat (a - 0x200000) < 8)"
proof -
  obtain entry bp' m' where l: "elf64_load_from_memory demo_boot (Some demo_elf) 124 0 (\<lambda>_. 0xAA) = (entry, bp', m')"
    by (metis prod_cases3)
  have i: "0x200000 = fst (bump_alloc_alloc demo_boot (0x400008 - 0x400000) 0x1000 0)" unfolding demo_elf_block by simp
  have s: "\<forall>ph\<in>set (elf_phdrs demo_elf (read_ehdr demo_elf)). p_type ph = PT_LOAD \<longrightarrow> phdr_sane ph"
    unfolding demo_elf_headers by (simp add: phdr_sane_def)
  from elf_load_inside [OF l demo_elf_span s i] l show ?thesis by auto
qed

text \<open>C13. When the loader returns an entry point, the block holds the image the file describes:
  every byte is taken from the last loadable segment whose file part covers it and is zero
  where none does, and the entry point is the entry address of the file, relocated by the
  distance between the block and the lowest segment address.\<close>

theorem elf_load_image:
  assumes load: "elf64_load_from_memory env (Some f) sz bp m = (entry, bp', m')" "entry \<noteq> 0"
    and sp: "elf_span (elf_phdrs f (read_ehdr f)) = (lo, hi)"
    and img: "img = fst (bump_alloc_alloc env (hi - lo) 0x1000 bp)"
  shows "entry = img + (e_entry (read_ehdr f) - lo) \<and> lo \<le> e_entry (read_ehdr f) \<and> e_entry (read_ehdr f) < hi \<and>
    (\<forall>d. unat d < unat (hi - lo) \<longrightarrow> m' (img + d) = image_byte f lo (elf_phdrs f (read_ehdr f)) d)"
proof -
  let ?phs = "elf_phdrs f (read_ehdr f)"
  have run: "elf_load_segments f sz img (hi - lo) lo ?phs (memset m img 0 (hi - lo)) = (True, m')"
      "lo \<le> e_entry (read_ehdr f)" "e_entry (read_ehdr f) < hi" "entry = img + (e_entry (read_ehdr f) - lo)"
    using load unfolding elf64_load_from_memory_def option.case Let_def sp img
    by (auto split: if_splits prod.splits simp: not_less not_le)
  have "m' (img + d) = image_byte f lo ?phs d" if "unat d < unat (hi - lo)" for d
    using load_segments_at [OF run(1), of "img + d"] that by (simp add: image_byte_def memset_at split: option.splits)
  with run show ?thesis by simp
qed

theorem elf_load_image_witness:
  "\<exists>bp' m'. elf64_load_from_memory demo_boot (Some demo_elf) 124 0 (\<lambda>_. 0xAA) = (0x200001, bp', m') \<and>
     m' 0x200002 = 0xC3 \<and> m' 0x200007 = 0"
proof -
  obtain bp' m' where l: "elf64_load_from_memory demo_boot (Some demo_elf) 124 0 (\<lambda>_. 0xAA) = (0x200001, bp', m')"
    using demo_elf_entry by (metis prod.collapse fst_conv)
  have i: "0x200000 = fst (bump_alloc_alloc demo_boot (0x400008 - 0x400000) 0x1000 0)" unfolding demo_elf_block by simp
  have b: "image_byte demo_elf 0x400000 (elf_phdrs demo_elf (read_ehdr demo_elf)) 2 = 0xC3"
    "image_byte demo_elf 0x400000 (elf_phdrs demo_elf (read_ehdr demo_elf)) 7 = 0"
    unfolding demo_elf_headers by code_simp+
  have "\<forall>d. unat d < unat (0x400008 - 0x400000 :: u64) \<longrightarrow>
      m' (0x200000 + d) = image_byte demo_elf 0x400000 (elf_phdrs demo_elf (read_ehdr demo_elf)) d"
    using elf_load_image [OF l _ demo_elf_span i] by simp
  from this [rule_format, of 2] this [rule_format, of 7] b l show ?thesis by simp
qed

end
