(* ===== verification/Initrd.thy ===== *)
theory Initrd
  imports HanaSpec
begin

text \<open>
  The unpacking of the boot archive, \<^verbatim>\<open>kernel/filesystem/initrd.cpp\<close>: a tar file in memory whose
  entries become files and directories of HanaFS. The archive is a list of bytes; character
  buffers are strings cut at the size of the buffer. Offsets are natural numbers, which is the
  code's arithmetic as long as the archive ends below the top of the address space, since the
  size field of an entry has at most twelve octal digits. Log output is left out.
\<close>

fun parse_octal :: "string \<Rightarrow> u64 \<Rightarrow> u64" where
  "parse_octal [] v = v"
| "parse_octal (c # cs) v =
     (if c = NUL \<or> of_char c < (48 :: nat) \<or> (55 :: nat) < of_char c then v
      else parse_octal cs (push_bit 3 v + of_nat (of_char c - 48)))"

definition tar_field :: "nat \<Rightarrow> nat \<Rightarrow> byte list \<Rightarrow> string" where
  "tar_field a n h = map char_of_byte (take n (drop a h))"

definition copy_field_nul :: "string \<Rightarrow> nat \<Rightarrow> string" where
  "copy_field_nul src out_n = takeWhile (\<lambda>c. c \<noteq> NUL) (take (out_n - 1) src)"

text \<open>The directories above a path: everything before a slash other than a leading one.\<close>

primrec make_dirs :: "'d hw \<Rightarrow> string \<Rightarrow> nat list \<Rightarrow> 'd hanafs \<Rightarrow> 'd hanafs option" where
  "make_dirs E path [] st = Some st"
| "make_dirs E path (i # is) st =
     (if path ! i = slash then do { (r, st1) \<leftarrow> hanafs_make_dir E (Some (take i path)) st; make_dirs E path is st1 }
      else make_dirs E path is st)"

definition ensure_parent_dirs :: "'d hw \<Rightarrow> string \<Rightarrow> 'd hanafs \<Rightarrow> 'd hanafs option" where
  "ensure_parent_dirs E path st =
     (if 512 \<le> length path then Some st
      else make_dirs E path [(if c_at path 0 = slash then 1 else 0)..<length path] st)"

definition tar_fullname :: "byte list \<Rightarrow> string" where
  "tar_fullname h =
     (let name_field = copy_field_nul (tar_field 0 100 h) 256; prefix_field = copy_field_nul (tar_field 345 155 h) 256
      in if prefix_field \<noteq> '''' then take 511 (prefix_field @ ''/'' @ name_field) else take 511 name_field)"

definition strip_dot :: "string \<Rightarrow> string" where
  "strip_dot s = (if c_at s 0 = CHR ''.'' \<and> c_at s 1 = slash then drop 2 s else s)"

definition tar_path :: "string \<Rightarrow> string" where
  "tar_path fn = take 511 (if c_at fn 0 = slash then fn else slash # fn)"

definition tar_kind :: "byte list \<Rightarrow> string \<Rightarrow> bool \<times> string" where
  "tar_kind h p =
     (let is_dir = (tar_field 156 1 h = ''5'')
      in if \<not> is_dir \<and> p \<noteq> [] \<and> last p = slash then (True, butlast p) else (is_dir, p))"

definition tar_size :: "byte list \<Rightarrow> nat" where
  "tar_size h = unat (parse_octal (tar_field 124 12 h) 0)"

function unpack :: "'d hw \<Rightarrow> byte list \<Rightarrow> nat \<Rightarrow> 'd hanafs \<Rightarrow> (int \<times> 'd hanafs) option" where
  "unpack E data off st =
     (if length data < off + 512 then Some (0, st)
      else let h = take 512 (drop off data)
           in if hd h = 0 then Some (0, st)
              else let fn = strip_dot (tar_fullname h)
                   in if fn = '''' \<or> fn = ''.'' then unpack E data (off + 512) st
                      else let (is_dir, path) = tar_kind h (tar_path fn); fsize = tar_size h;
                               next_off = off + 512 + (fsize + 511) div 512 * 512
                           in if is_dir
                              then do { (r, st1) \<leftarrow> hanafs_make_dir E (Some path) st; unpack E data next_off st1 }
                              else if 0 < fsize
                              then if length data < off + 512 + fsize then Some (-1, st)
                                   else do {
                                     st1 \<leftarrow> ensure_parent_dirs E path st;
                                     (r, st2) \<leftarrow> hanafs_write_file E (Some path) (Some (drop (off + 512) data)) fsize st1;
                                     if r \<noteq> 0 then Some (-1, st2) else unpack E data next_off st2
                                   }
                              else do {
                                st1 \<leftarrow> ensure_parent_dirs E path st;
                                (r, st2) \<leftarrow> hanafs_create_file E (Some path) st1;
                                unpack E data next_off st2
                              })"
  by pat_completeness auto
termination by (relation "measure (\<lambda>(E, data, off, st). length data - off)") auto

definition init_from_memory :: "'d hw \<Rightarrow> byte list option \<Rightarrow> 'd hanafs \<Rightarrow> (int \<times> 'd hanafs) option" where
  "init_from_memory E data st =
     (case data of None \<Rightarrow> Some (-1, st) | Some bs \<Rightarrow> if bs = [] then Some (-1, st) else unpack E bs 0 st)"

text \<open>The modules the boot loader passes: a path, null for none, and the contents. A name longer
  than a module's path makes the code read in front of the path.\<close>

primrec find_module :: "string \<Rightarrow> (string option \<times> byte list option) list \<Rightarrow> byte list option option option" where
  "find_module name [] = Some None"
| "find_module name (md # mds) =
     (case fst md of
        None \<Rightarrow> find_module name mds
      | Some path \<Rightarrow>
          if path = name then Some (Some (snd md))
          else if length path < length name then None
          else if drop (length path - length name) path = name then Some (Some (snd md)) else find_module name mds)"

definition init_from_module ::
  "'d hw \<Rightarrow> (string option \<times> byte list option) list option \<Rightarrow> string option \<Rightarrow> 'd hanafs \<Rightarrow> (int \<times> 'd hanafs) option" where
  "init_from_module E modules module_name st =
     (case (modules, module_name) of
        (Some mds, Some name) \<Rightarrow> do {
          m \<leftarrow> find_module name mds;
          (case m of None \<Rightarrow> Some (-1, st) | Some data \<Rightarrow> init_from_memory E data st)
        }
      | _ \<Rightarrow> Some (-1, st))"

section \<open>Archives\<close>

text \<open>The archives a tar program writes for directories and files with short relative names.\<close>

datatype titem = TDir string | TFile string "byte list"

primrec octal :: "nat \<Rightarrow> nat \<Rightarrow> nat list" where
  "octal 0 n = []"
| "octal (Suc k) n = octal k (n div 8) @ [n mod 8]"

definition tar_header :: "string \<Rightarrow> byte \<Rightarrow> nat \<Rightarrow> byte list" where
  "tar_header name flag n =
     (map byte_of_char name @ replicate (100 - length name) 0) @ replicate 24 0 @
     (map (\<lambda>d. of_nat (48 + d)) (octal 11 n) @ [0]) @ replicate 20 0 @ [flag] @ replicate 188 0 @ replicate 155 0 @ replicate 12 0"

definition tar_pad :: "nat \<Rightarrow> byte list" where
  "tar_pad n = replicate ((n + 511) div 512 * 512 - n) 0"

primrec tar_item :: "titem \<Rightarrow> byte list" where
  "tar_item (TDir s) = tar_header s 0x35 0"
| "tar_item (TFile s bs) = tar_header s 0x30 (length bs) @ bs @ tar_pad (length bs)"

definition archive :: "titem list \<Rightarrow> byte list" where
  "archive its = concat (map tar_item its) @ replicate 1024 0"

definition name_ok :: "string \<Rightarrow> bool" where
  "name_ok s \<longleftrightarrow> cstring s \<and> s \<noteq> [] \<and> length s \<le> 100 \<and> hd s \<noteq> CHR ''.'' \<and> hd s \<noteq> slash \<and> last s \<noteq> slash"

primrec item_ok :: "titem \<Rightarrow> bool" where
  "item_ok (TDir s) \<longleftrightarrow> name_ok s"
| "item_ok (TFile s bs) \<longleftrightarrow> name_ok s \<and> length bs < 2 ^ 32"

text \<open>What unpacking an entry means: the missing directories above it, then the entry itself.\<close>

definition parent_calls :: "string \<Rightarrow> fs_call list" where
  "parent_calls p = map (\<lambda>i. MkDir (take i p)) (filter (\<lambda>i. p ! i = slash) [1..<length p])"

primrec item_calls :: "titem \<Rightarrow> fs_call list" where
  "item_calls (TDir s) = [MkDir (slash # s)]"
| "item_calls (TFile s bs) = parent_calls (slash # s) @ [if bs = [] then Create (slash # s) else Write (slash # s) bs]"

lemma length_octal [simp]: "length (octal k n) = k"
  by (induction k arbitrary: n) auto

lemma octal_digits: "d \<in> set (octal k n) \<Longrightarrow> d < 8"
  by (induction k arbitrary: n) auto

lemma octal_value: "n < 8 ^ k \<Longrightarrow> foldl (\<lambda>v d. 8 * v + d) 0 (octal k n) = n"
proof (induction k arbitrary: n)
  case (Suc k)
  then have "n div 8 < 8 ^ k" by (simp add: less_mult_imp_div_less mult.commute)
  then show ?case using Suc.IH by simp
qed simp

lemma parse_octal_digits:
  assumes "\<forall>d\<in>set ds. d < 8"
  shows "parse_octal (map char_of_byte (map (\<lambda>d. of_nat (48 + d)) ds @ [0])) (of_nat v) = of_nat (foldl (\<lambda>v d. 8 * v + d) v ds)"
  using assms
proof (induction ds arbitrary: v)
  case Nil
  have "char_of_byte 0 = NUL" by code_simp
  then show ?case by simp
next
  case (Cons d ds)
  have u: "unat (of_nat (48 + d) :: byte) = 48 + d" using Cons.prems by (simp add: unat_of_nat del: of_nat_add)
  then have d: "of_char (char_of_byte (of_nat (48 + d))) = 48 + d"
    using Cons.prems by (simp add: char_of_byte_def del: of_nat_add)
  moreover have "char_of_byte (of_nat (48 + d)) \<noteq> NUL"
  proof
    assume "char_of_byte (of_nat (48 + d)) = NUL"
    then have "48 + d = of_char NUL" using d by simp
    then show False by (simp add: NUL_def)
  qed
  moreover have "push_bit 3 (of_nat v :: u64) + of_nat d = of_nat (8 * v + d)" by (simp add: push_bit_eq_mult mult.commute)
  ultimately show ?case using Cons.IH [of "8 * v + d"] Cons.prems by (simp del: of_nat_add)
qed

text \<open>Reading a header back.\<close>

lemma length_tar_header [simp]: "length s \<le> 100 \<Longrightarrow> length (tar_header s flag n) = 512"
  by (simp add: tar_header_def)

lemma char_zero [simp]: "char_of_byte 0 = NUL"
  by code_simp

lemma field_parts:
  assumes "length a = n"
  shows "tar_field (k + n) j (a @ b) = tar_field k j b" "tar_field 0 n (a @ b) = map char_of_byte a"
  using assms by (simp_all add: tar_field_def)

lemma takeWhile_nul: "cstring s \<Longrightarrow> takeWhile (\<lambda>c. c \<noteq> NUL) (s @ replicate k NUL) = s"
  by (induction s) (auto simp: cstring_def intro: takeWhile_eq_Nil_iff [THEN iffD2])

lemma header_fields:
  assumes "name_ok s"
  shows "tar_fullname (tar_header s flag n) = s" "tar_field 156 1 (tar_header s flag n) = [char_of_byte flag]"
    "n < 8 ^ 11 \<Longrightarrow> tar_size (tar_header s flag n) = n" "hd (tar_header s flag n) \<noteq> 0"
proof -
  let ?nm = "map byte_of_char s @ replicate (100 - length s) 0" and ?sz = "map (\<lambda>d. of_nat (48 + d) :: byte) (octal 11 n) @ [0]"
  have s: "cstring s" "length s \<le> 100" "s \<noteq> []" using assms by (auto simp: name_ok_def)
  have len: "length ?nm = 100" "length (replicate 24 (0 :: byte)) = 24" "length ?sz = 12" "length (replicate 20 (0 :: byte)) = 20"
    "length [flag] = 1" "length (replicate 188 (0 :: byte)) = 188" "length (replicate 155 (0 :: byte)) = 155"
    using s(2) by simp_all
  have off: "345 = (((((0 + 188) + 1) + 20) + 12) + 24) + (100 :: nat)" "156 = (((0 + 20) + 12) + 24) + (100 :: nat)"
    "124 = (0 + 24) + (100 :: nat)" by simp_all
  have "tar_field 0 100 (tar_header s flag n) = s @ replicate (100 - length s) NUL"
    unfolding tar_header_def field_parts(2) [OF len(1)] by (simp add: comp_def)
  then have nm: "copy_field_nul (tar_field 0 100 (tar_header s flag n)) 256 = s"
    using s takeWhile_nul [OF s(1)] by (simp add: copy_field_nul_def)
  have "tar_field 345 155 (tar_header s flag n) = replicate 155 NUL"
    unfolding tar_header_def off(1) field_parts(1) [OF len(1)] field_parts(1) [OF len(2)] field_parts(1) [OF len(3)]
      field_parts(1) [OF len(4)] field_parts(1) [OF len(5)] field_parts(1) [OF len(6)] field_parts(2) [OF len(7)] by simp
  then have pf: "copy_field_nul (tar_field 345 155 (tar_header s flag n)) 256 = []"
    by (simp add: copy_field_nul_def)
  show "tar_fullname (tar_header s flag n) = s" unfolding tar_fullname_def nm pf using s(2) by simp
  show "tar_field 156 1 (tar_header s flag n) = [char_of_byte flag]"
    unfolding tar_header_def off(2) field_parts(1) [OF len(1)] field_parts(1) [OF len(2)] field_parts(1) [OF len(3)]
      field_parts(1) [OF len(4)] field_parts(2) [OF len(5)] by simp
  have "tar_field 124 12 (tar_header s flag n) = map char_of_byte ?sz"
    unfolding tar_header_def off(3) field_parts(1) [OF len(1)] field_parts(1) [OF len(2)] field_parts(2) [OF len(3)] by (rule refl)
  moreover have "parse_octal (map char_of_byte ?sz) 0 = of_nat n" if "n < 8 ^ 11"
    using parse_octal_digits [of "octal 11 n" 0] octal_value [OF that] octal_digits [of _ 11 n] by (simp del: of_nat_add)
  ultimately show "tar_size (tar_header s flag n) = n" if "n < 8 ^ 11"
    using that unfolding tar_size_def by (simp add: unat_of_nat)
  show "hd (tar_header s flag n) \<noteq> 0" using s by (cases s) (auto simp: tar_header_def cstring_def)
qed

section \<open>Unpacking an archive\<close>

lemma hana_calls_append:
  "hana_calls E (cs @ ds) st = do { (rs, st1) \<leftarrow> hana_calls E cs st; (rs', st2) \<leftarrow> hana_calls E ds st1; Some (rs @ rs', st2) }"
proof (induction cs arbitrary: st)
  case Nil
  show ?case by (cases "hana_calls E ds st") auto
next
  case (Cons c cs)
  show ?case by (cases "hana_call E c st") (auto simp: Cons.IH case_prod_beta split: bind_splits)
qed

lemma make_dirs_calls:
  "make_dirs E path is st =
     map_option snd (hana_calls E (map (\<lambda>i. MkDir (take i path)) (filter (\<lambda>i. path ! i = slash) is)) st)"
proof (induction "is" arbitrary: st)
  case (Cons i "is")
  then show ?case
    by (cases "hanafs_make_dir E (Some (take i path)) st") (auto simp: case_prod_beta map_option_case split: option.splits bind_splits)
qed simp

lemma ensure_parent_calls:
  "length s \<le> 100 \<Longrightarrow> ensure_parent_dirs E (slash # s) st = map_option snd (hana_calls E (parent_calls (slash # s)) st)"
  by (simp add: ensure_parent_dirs_def make_dirs_calls parent_calls_def c_at_def)

lemma name_paths:
  assumes "name_ok s"
  shows "strip_dot s = s" "s \<noteq> ''.''" "tar_path s = slash # s" "last (slash # s) \<noteq> slash"
  using assms by (auto simp: name_ok_def strip_dot_def tar_path_def c_at_def hd_conv_nth)

text \<open>One round of the loop on an entry.\<close>

lemma unpack_step:
  assumes data: "data = pre @ tar_header s flag n @ post" and ok: "name_ok s" "n < 8 ^ 11" and flag: "flag = 0x35 \<or> flag = 0x30"
  shows "unpack E data (length pre) st =
    (let next_off = length pre + 512 + (n + 511) div 512 * 512; path = slash # s
     in if flag = 0x35 then do { (r, st1) \<leftarrow> hanafs_make_dir E (Some path) st; unpack E data next_off st1 }
        else if 0 < n
        then if length post < n then Some (-1, st)
             else do { st1 \<leftarrow> ensure_parent_dirs E path st;
                       (r, st2) \<leftarrow> hanafs_write_file E (Some path) (Some post) n st1;
                       if r \<noteq> 0 then Some (-1, st2) else unpack E data next_off st2 }
        else do { st1 \<leftarrow> ensure_parent_dirs E path st; (r, st2) \<leftarrow> hanafs_create_file E (Some path) st1;
                  unpack E data next_off st2 })"
proof -
  let ?h = "tar_header s flag n"
  have l: "length ?h = 512" using ok(1) by (simp add: name_ok_def)
  have h: "take 512 (drop (length pre) data) = ?h" "drop (length pre + 512) data = post" "\<not> length data < length pre + 512"
    "length data < length pre + 512 + n \<longleftrightarrow> length post < n"
    using l by (simp_all add: data)
  note f = header_fields [OF ok(1), where flag = flag and n = n] and p = name_paths [OF ok(1)]
  have c: "char_of_byte 0x35 = CHR ''5''" "char_of_byte 0x30 = CHR ''0''" by code_simp+
  have k: "tar_kind ?h (slash # s) = (flag = 0x35, slash # s)"
    using flag p(4) unfolding tar_kind_def f(2) by (auto simp: c Let_def)
  have ne: "s \<noteq> []" using ok(1) by (simp add: name_ok_def)
  show ?thesis
    using ne p(2) by (subst unpack.simps) (simp add: h f(1,4) f(3) [OF ok(2)] p(1,3) k Let_def del: unpack.simps)
qed

lemma write_file_prefix:
  assumes "n \<le> length bs"
  shows "hanafs_write_file E p (Some bs) n st = hanafs_write_file E p (Some (take n bs)) n st"
proof -
  have t: "(length bs < n) = False" "(length (take n bs) < n) = False" "take n (take n bs) = take n bs" using assms by auto
  have "store_data E e (Some bs) n = store_data E e (Some (take n bs)) n" for e
    by (rule ext) (simp only: store_data_def option.case t)
  then show ?thesis by (simp only: hanafs_write_file_def)
qed

lemma round_512: "n \<le> (n + 511) div 512 * (512 :: nat)"
proof -
  have "(n + 511) mod 512 < 512" by (rule mod_less_divisor) simp
  then show ?thesis using div_mult_mod_eq [of "n + 511" 512] by linarith
qed

lemma length_tar_file: "length s \<le> 100 \<Longrightarrow> length (tar_item (TFile s bs)) = 512 + (length bs + 511) div 512 * 512"
  using round_512 [of "length bs"] by (simp add: tar_pad_def)

lemma unpack_dir:
  assumes "name_ok s" "hana_calls E (item_calls (TDir s)) st = Some (rs, st1)"
  shows "unpack E (pre @ tar_item (TDir s) @ post) (length pre) st =
    unpack E (pre @ tar_item (TDir s) @ post) (length (pre @ tar_item (TDir s))) st1"
proof -
  let ?d = "pre @ tar_item (TDir s) @ post"
  obtain r where m: "hanafs_make_dir E (Some (slash # s)) st = Some (r, st1)"
    using assms(2) by (auto split: bind_splits)
  have l: "length (pre @ tar_item (TDir s)) = length pre + 512" using assms(1) by (simp add: name_ok_def)
  show ?thesis
    unfolding l using unpack_step [of ?d pre s "0x35" 0 post E st] assms(1) m by (simp add: Let_def del: unpack.simps)
qed

lemma unpack_file:
  assumes ok: "item_ok (TFile s bs)" and c: "hana_calls E (item_calls (TFile s bs)) st = Some (rs, st1)" "last rs = Status 0"
  shows "unpack E (pre @ tar_item (TFile s bs) @ post) (length pre) st =
    unpack E (pre @ tar_item (TFile s bs) @ post) (length (pre @ tar_item (TFile s bs))) st1"
proof -
  let ?d = "pre @ tar_item (TFile s bs) @ post" and ?n = "length bs" and ?p = "slash # s"
  have s: "name_ok s" "length s \<le> 100" "?n < 8 ^ 11" using ok by (auto simp: name_ok_def)
  obtain rs1 sa r where a: "hana_calls E (parent_calls ?p) st = Some (rs1, sa)" "rs = rs1 @ [r]"
    "hana_call E (if bs = [] then Create ?p else Write ?p bs) sa = Some (r, st1)"
    using c(1) by (auto simp: hana_calls_append split: bind_splits)
  have r: "r = Status 0" using c(2) a(2) by simp
  have par: "ensure_parent_dirs E ?p st = Some sa" using ensure_parent_calls [OF s(2), of E st] a(1) by simp
  have l: "length (pre @ tar_item (TFile s bs)) = length pre + 512 + (?n + 511) div 512 * 512"
    using length_tar_file [OF s(2), of bs] by simp
  have step: "unpack E ?d (length pre) st =
    (if 0 < ?n
     then do { (r, st2) \<leftarrow> hanafs_write_file E (Some ?p) (Some (bs @ tar_pad ?n @ post)) ?n sa;
               if r \<noteq> 0 then Some (-1, st2) else unpack E ?d (length (pre @ tar_item (TFile s bs))) st2 }
     else do { (r, st2) \<leftarrow> hanafs_create_file E (Some ?p) sa; unpack E ?d (length (pre @ tar_item (TFile s bs))) st2 })"
    unfolding l using unpack_step [of ?d pre s "0x30" ?n "bs @ tar_pad ?n @ post" E st] s par
    by (simp add: Let_def del: unpack.simps)
  have w: "hanafs_write_file E (Some ?p) (Some (bs @ tar_pad ?n @ post)) ?n sa = hanafs_write_file E (Some ?p) (Some bs) ?n sa"
    using write_file_prefix [of ?n "bs @ tar_pad ?n @ post" E "Some ?p" sa] by simp
  show ?thesis
    using a(3) r unfolding step w by (cases "bs = []") (auto simp del: unpack.simps)
qed

lemma spec_calls_append:
  "spec_calls (cs @ ds) m = (fst (spec_calls cs m) @ fst (spec_calls ds (snd (spec_calls cs m))), snd (spec_calls ds (snd (spec_calls cs m))))"
  by (induction cs arbitrary: m) (simp_all add: case_prod_beta)

lemma calls_cost_append:
  "calls_cost pay (cs @ ds) = calls_cost pay cs + calls_cost (pay + sum_list (map call_bytes cs)) ds"
  by (induction cs arbitrary: pay) (simp_all add: add.assoc)

lemma item_calls_ok: "item_ok it \<Longrightarrow> list_all call_ok (item_calls it)"
proof -
  assume ok: "item_ok it"
  have sl: "slash \<noteq> NUL" by (simp add: slash_def NUL_def)
  have tk: "cstring s \<Longrightarrow> cstring (take i (slash # s))" for s i
    using sl set_take_subset [of i "slash # s"] by (auto simp: cstring_def)
  show ?thesis
    using ok sl tk by (cases it) (auto simp: list_all_iff call_ok_def parent_calls_def name_ok_def)
qed

lemma unpack_item:
  assumes ok: "item_ok it" and c: "hana_calls E (item_calls it) st = Some (fst (spec_calls (item_calls it) m), st1)"
  shows "unpack E (pre @ tar_item it @ post) (length pre) st = unpack E (pre @ tar_item it @ post) (length (pre @ tar_item it)) st1"
proof (cases it)
  case (TDir s)
  with unpack_dir [of s E st _ st1 pre post] assms show ?thesis by (simp del: unpack.simps tar_item.simps item_calls.simps)
next
  case (TFile s bs)
  have "last (fst (spec_calls (item_calls it) m)) = Status 0"
    by (auto simp: TFile spec_calls_append)
  with unpack_file [of s bs E st _ st1 pre post] assms TFile show ?thesis
    by (simp del: unpack.simps tar_item.simps item_calls.simps)
qed

lemma unpack_items:
  assumes "hf_inv E S pay st" "\<forall>it\<in>set its. item_ok it" "calls_cost pay (concat (map item_calls its)) \<le> S"
  shows "\<exists>st'. unpack E (pre @ concat (map tar_item its) @ replicate 1024 0) (length pre) st = Some (0, st') \<and>
    hana_map (entries st') = snd (spec_calls (concat (map item_calls its)) (hana_map (entries st))) \<and>
    hf_inv E (S - calls_cost pay (concat (map item_calls its))) (pay + sum_list (map call_bytes (concat (map item_calls its)))) st'"
  using assms
proof (induction its arbitrary: pre S pay st)
  case Nil
  have "hd (take 512 (drop (length pre) (pre @ replicate 1024 (0 :: byte)))) = 0" by simp
  then show ?case using Nil by (subst unpack.simps) (simp add: Let_def del: unpack.simps)
next
  case (Cons it its)
  let ?cs = "item_calls it" and ?m = "hana_map (entries st)" and ?post = "concat (map tar_item its) @ replicate 1024 0"
  have cost: "calls_cost pay ?cs \<le> S" "calls_cost (pay + sum_list (map call_bytes ?cs)) (concat (map item_calls its)) \<le> S - calls_cost pay ?cs"
    using Cons.prems(3) by (simp_all add: calls_cost_append)
  obtain st1 where c: "hana_calls E ?cs st = Some (fst (spec_calls ?cs ?m), st1)" "hana_map (entries st1) = snd (spec_calls ?cs ?m)"
    "hf_inv E (S - calls_cost pay ?cs) (pay + sum_list (map call_bytes ?cs)) st1"
    using hana.calls_refine [OF Cons.prems(1) item_calls_ok cost(1)] Cons.prems(2) by (auto simp: hana_calls_eq)
  have "unpack E (pre @ tar_item it @ ?post) (length pre) st = unpack E (pre @ tar_item it @ ?post) (length (pre @ tar_item it)) st1"
    using Cons.prems(2) by (intro unpack_item [OF _ c(1)]) simp
  moreover obtain st' where "unpack E ((pre @ tar_item it) @ ?post) (length (pre @ tar_item it)) st1 = Some (0, st')"
    "hana_map (entries st') = snd (spec_calls (concat (map item_calls its)) (hana_map (entries st1)))"
    "hf_inv E (S - calls_cost pay ?cs - calls_cost (pay + sum_list (map call_bytes ?cs)) (concat (map item_calls its)))
       (pay + sum_list (map call_bytes ?cs) + sum_list (map call_bytes (concat (map item_calls its)))) st'"
    using Cons.IH [OF c(3) _ cost(2), of "pre @ tar_item it"] Cons.prems(2) by auto
  ultimately show ?case
    by (intro exI [of _ st']) (simp add: spec_calls_append calls_cost_append c(2) add.assoc del: unpack.simps)
qed

lemma init_from_memory_ok:
  assumes "hf_inv E S pay st" "\<forall>it\<in>set its. item_ok it" "calls_cost pay (concat (map item_calls its)) \<le> S"
  obtains st' where "init_from_memory E (Some (archive its)) st = Some (0, st')"
    "hana_map (entries st') = snd (spec_calls (concat (map item_calls its)) (hana_map (entries st)))"
    "hf_inv E (S - calls_cost pay (concat (map item_calls its))) (pay + sum_list (map call_bytes (concat (map item_calls its)))) st'"
proof -
  have "archive its \<noteq> []" by (simp add: archive_def)
  with unpack_items [OF assms, of "[]"] that show ?thesis
    by (auto simp: init_from_memory_def archive_def simp del: unpack.simps)
qed

section \<open>Properties\<close>



end
