(* ===== verification/Vfs.thy ===== *)
theory Vfs
  imports HanaSpec
begin

text \<open>
  The file systems behind one name space: \<^verbatim>\<open>kernel/filesystem/vfs.cpp\<close> with the pseudo file
  systems \<^verbatim>\<open>devfs.cpp\<close> and \<^verbatim>\<open>procfs.cpp\<close> and the wrappers of \<^verbatim>\<open>ramfs.cpp\<close>, which pass every call on to
  HanaFS. The state is the mount table beside the state of HanaFS, whose heap all of them
  share. FAT32 and the floppy driver are arguments, a record of the functions the dispatcher
  calls. A callback that is called once per name is the list of the names.
\<close>

section \<open>HanaFS under its other name\<close>

definition ramfs_init :: "'d hw \<Rightarrow> 'd hanafs \<Rightarrow> (int \<times> 'd hanafs) option" where
  "ramfs_init E st = hanafs_init E st"

definition ramfs_write_file ::
  "'d hw \<Rightarrow> string option \<Rightarrow> byte list option \<Rightarrow> nat \<Rightarrow> 'd hanafs \<Rightarrow> (int \<times> 'd hanafs) option" where
  "ramfs_write_file E path buf len st = hanafs_write_file E path buf len st"

definition ramfs_get_file_alloc :: "'d hw \<Rightarrow> string option \<Rightarrow> 'd hanafs \<Rightarrow> ((u64 \<times> byte list) option \<times> 'd hanafs) option" where
  "ramfs_get_file_alloc E path st = hanafs_get_file_alloc E path st"

definition ramfs_list_dir :: "'d hw \<Rightarrow> string option \<Rightarrow> 'd hanafs \<Rightarrow> (int \<times> string list \<times> 'd hanafs) option" where
  "ramfs_list_dir E path st = hanafs_list_dir E path st"

definition ramfs_create_file :: "'d hw \<Rightarrow> string option \<Rightarrow> 'd hanafs \<Rightarrow> (int \<times> 'd hanafs) option" where
  "ramfs_create_file E path st = hanafs_create_file E path st"

definition ramfs_unlink :: "'d hw \<Rightarrow> string option \<Rightarrow> 'd hanafs \<Rightarrow> (int \<times> 'd hanafs) option" where
  "ramfs_unlink E path st = hanafs_unlink E path st"

definition ramfs_make_dir :: "'d hw \<Rightarrow> string option \<Rightarrow> 'd hanafs \<Rightarrow> (int \<times> 'd hanafs) option" where
  "ramfs_make_dir E path st = hanafs_make_dir E path st"

definition ramfs_remove_dir :: "'d hw \<Rightarrow> string option \<Rightarrow> 'd hanafs \<Rightarrow> (int \<times> 'd hanafs) option" where
  "ramfs_remove_dir E path st = hanafs_remove_dir E path st"

definition ramfs_persist_to_ata :: "'d hw \<Rightarrow> 'd hanafs \<Rightarrow> (int \<times> 'd hanafs) option" where
  "ramfs_persist_to_ata E st = hanafs_persist_to_ata E st"

definition ramfs_load_from_ata :: "'d hw \<Rightarrow> 'd hanafs \<Rightarrow> (int \<times> 'd hanafs) option" where
  "ramfs_load_from_ata E st = hanafs_load_from_ata E st"

definition ramfs_format_ata_master :: "'d hw \<Rightarrow> 'd hanafs \<Rightarrow> (int \<times> 'd hanafs) option" where
  "ramfs_format_ata_master E st = hanafs_format_ata_master E st"

definition ramfs_set_persist_enabled :: "int \<Rightarrow> 'd hanafs \<Rightarrow> 'd hanafs" where
  "ramfs_set_persist_enabled enabled st = hanafs_set_persist_enabled enabled st"

definition ramfs_stat :: "'d hw \<Rightarrow> string option \<Rightarrow> 'd hanafs \<Rightarrow> (int \<times> hana_stat option \<times> 'd hanafs) option" where
  "ramfs_stat E path st = hanafs_stat E path st"

section \<open>Devices\<close>

definition devfs_list_dir :: "string \<Rightarrow> int \<times> string list" where
  "devfs_list_dir path =
     (if c_at path 0 = slash \<and> path \<noteq> ''/'' \<and> take 4 path \<noteq> ''/dev'' then (-1, [])
      else let norm = (if path = ''/'' \<or> take 3 path = ''dev'' then ''/dev'' else path)
           in if norm \<noteq> ''/dev'' \<and> norm \<noteq> ''/dev/'' then (-1, [])
              else (0, [''console'', ''null'', ''tty0'', ''hda'', ''sda'']))"

definition dev_name :: "string \<Rightarrow> string" where
  "dev_name path =
     (let p = (if c_at path 0 = slash \<and> take 5 path \<noteq> ''/dev/'' \<and> length path \<noteq> 1 then drop 1 path else path)
      in if take 4 p = ''dev/'' then drop 4 p else p)"

text \<open>The text of a pseudo file in a fresh block, with the terminating NUL behind it.\<close>

definition text_file :: "'d hw \<Rightarrow> string \<Rightarrow> 'd hanafs \<Rightarrow> ((u64 \<times> byte list) option \<times> 'd hanafs) option" where
  "text_file E s st = do {
     (b, st1) \<leftarrow> hf_alloc E (length s + 1) st;
     Some (if b = 0 then None else Some (b, map byte_of_char s), st1)
   }"

definition devfs_get_file_alloc :: "'d hw \<Rightarrow> string \<Rightarrow> 'd hanafs \<Rightarrow> ((u64 \<times> byte list) option \<times> 'd hanafs) option" where
  "devfs_get_file_alloc E path st =
     (if dev_name path = ''null'' then Some (None, st)
      else if dev_name path = ''console'' then text_file E (''console'' @ [CHR 0x0A]) st
      else Some (None, st))"

section \<open>Processes\<close>

definition procfs_list_dir :: "string \<Rightarrow> int \<times> string list" where
  "procfs_list_dir path =
     (let path = (if path = ''/'' then ''/proc'' else path)
      in if path \<noteq> ''/proc'' \<and> path \<noteq> ''/proc/'' then (-1, []) else (0, [''cpuinfo'', ''meminfo'', ''self'']))"

definition procfs_get_file_alloc :: "'d hw \<Rightarrow> string \<Rightarrow> 'd hanafs \<Rightarrow> ((u64 \<times> byte list) option \<times> 'd hanafs) option" where
  "procfs_get_file_alloc E path st =
     (if path = ''/proc/cpuinfo'' \<or> path = ''cpuinfo'' then text_file E (''HanaCore CPU: 1 core'' @ [CHR 0x0A]) st
      else if path = ''/proc/meminfo'' \<or> path = ''meminfo''
      then text_file E (''MemTotal: minimal'' @ [CHR 0x0A] @ ''MemFree: unknown'' @ [CHR 0x0A]) st
      else if path = ''/proc/self'' \<or> path = ''self'' then text_file E (''1'' @ [CHR 0x0A]) st
      else Some (None, st))"

section \<open>The mount table\<close>

record mount =
  fsname :: "string option"
  mountpoint :: "(u64 \<times> string) option"

record 'd vfs =
  vf_fs :: "'d hanafs"
  mounts :: "mount list"
  mount_count :: int

text \<open>The functions of the other file systems.\<close>

record 'd other_fs =
  x_fat32_list_dir :: "string \<Rightarrow> 'd vfs \<Rightarrow> ((int \<times> string list) \<times> 'd vfs) option"
  x_fat32_create_file :: "string \<Rightarrow> 'd hanafs \<Rightarrow> (int \<times> 'd hanafs) option"
  x_fat32_unlink :: "string \<Rightarrow> 'd hanafs \<Rightarrow> (int \<times> 'd hanafs) option"
  x_fat32_make_dir :: "string \<Rightarrow> 'd hanafs \<Rightarrow> (int \<times> 'd hanafs) option"
  x_fat32_write_file :: "string \<Rightarrow> byte list option \<Rightarrow> nat \<Rightarrow> 'd hanafs \<Rightarrow> (int \<times> 'd hanafs) option"
  x_fat32_get_file_alloc :: "string \<Rightarrow> 'd hanafs \<Rightarrow> ((u64 \<times> byte list) option \<times> 'd hanafs) option"
  x_floppy_list_dir :: "string \<Rightarrow> 'd hanafs \<Rightarrow> (int \<times> string list \<times> 'd hanafs) option"

definition no_mount :: mount where
  "no_mount = \<lparr>fsname = None, mountpoint = None\<rparr>"

primrec free_mounts :: "mount list \<Rightarrow> 'd hanafs \<Rightarrow> 'd hanafs option" where
  "free_mounts [] st = Some st"
| "free_mounts (m # ms) st = do {
     st1 \<leftarrow> (case mountpoint m of None \<Rightarrow> Some st | Some (p, _) \<Rightarrow> hf_free_if p st);
     free_mounts ms st1
   }"

definition vfs_init :: "'d vfs \<Rightarrow> 'd vfs option" where
  "vfs_init st = do {
     fs \<leftarrow> free_mounts (mounts st) (vf_fs st);
     Some (st\<lparr>vf_fs := fs, mounts := replicate 16 no_mount, mount_count := 0\<rparr>)
   }"

definition vfs_register_mount :: "'d hw \<Rightarrow> string option \<Rightarrow> string option \<Rightarrow> 'd vfs \<Rightarrow> 'd vfs option" where
  "vfs_register_mount E fsn mp st =
     (case (fsn, mp) of
        (Some f, Some m) \<Rightarrow>
          (if 16 \<le> mount_count st then Some st
           else do {
             (p, fs) \<leftarrow> hf_alloc E (length m + 1) (vf_fs st);
             Some (if p = 0 then st\<lparr>vf_fs := fs\<rparr>
                   else st\<lparr>vf_fs := fs, mounts := (mounts st)[nat (mount_count st) := \<lparr>fsname = Some f, mountpoint = Some (p, m)\<rparr>],
                          mount_count := mount_count st + 1\<rparr>)
           })
      | _ \<Rightarrow> Some st)"

definition devfs_init :: "'d hw \<Rightarrow> 'd vfs \<Rightarrow> 'd vfs option" where
  "devfs_init E st = vfs_register_mount E (Some ''devfs'') (Some ''/dev'') st"

definition procfs_init :: "'d hw \<Rightarrow> 'd vfs \<Rightarrow> 'd vfs option" where
  "procfs_init E st = vfs_register_mount E (Some ''procfs'') (Some ''/proc'') st"

definition mount_line :: "mount \<Rightarrow> string" where
  "mount_line m = take 127 (''VFS mount: ['' @ (case fsname m of None \<Rightarrow> [] | Some f \<Rightarrow> f) @ '' -> '' @
     (case mountpoint m of None \<Rightarrow> [] | Some (_, p) \<Rightarrow> p) @ '']'')"

definition vfs_list_mounts :: "'d vfs \<Rightarrow> int \<times> string list" where
  "vfs_list_mounts st = (0, map mount_line (take (nat (mount_count st)) (mounts st)))"

text \<open>Both sides of the test every operation makes, and the first entry that passes it.\<close>

definition mount_matches :: "string \<Rightarrow> string \<Rightarrow> bool" where
  "mount_matches path mp \<longleftrightarrow> path = mp \<or> take (length mp) path = mp \<and> c_at path (length mp) = slash"

definition mount_pair :: "mount \<Rightarrow> (string \<times> string) option" where
  "mount_pair m = (case (fsname m, mountpoint m) of (Some f, Some (_, p)) \<Rightarrow> Some (f, p) | _ \<Rightarrow> None)"

definition find_mount :: "string \<Rightarrow> 'd vfs \<Rightarrow> (string \<times> string) option" where
  "find_mount path st =
     find (\<lambda>(f, p). mount_matches path p) (List.map_filter mount_pair (take (nat (mount_count st)) (mounts st)))"

definition mount_rel :: "string \<Rightarrow> string \<Rightarrow> string" where
  "mount_rel path mp =
     (if mp = ''/'' then path else if length path = length mp then ''/'' else drop (length mp) path)"

section \<open>Operations\<close>

definition on_fs :: "('d hanafs \<Rightarrow> ('a \<times> 'd hanafs) option) \<Rightarrow> 'd vfs \<Rightarrow> ('a \<times> 'd vfs) option" where
  "on_fs f st = do { (r, fs) \<leftarrow> f (vf_fs st); Some (r, st\<lparr>vf_fs := fs\<rparr>) }"

definition is_hana :: "string \<Rightarrow> bool" where
  "is_hana f \<longleftrightarrow> f = ''hanafs'' \<or> f = ''ramfs''"

definition list_fallback :: "'d hw \<Rightarrow> 'd other_fs \<Rightarrow> string \<Rightarrow> 'd vfs \<Rightarrow> ((int \<times> string list) \<times> 'd vfs) option" where
  "list_fallback E X path st = do {
     (rc, names, fs) \<leftarrow> ramfs_list_dir E (Some path) (vf_fs st);
     let st1 = st\<lparr>vf_fs := fs\<rparr>;
     if rc = 0 then Some ((0, names), st1)
     else do {
       ((rc2, names2), st2) \<leftarrow> x_fat32_list_dir X path st1;
       Some ((if rc2 = 0 then 0 else -1, names @ names2), st2)
     }
   }"

definition vfs_list_dir :: "'d hw \<Rightarrow> 'd other_fs \<Rightarrow> string option \<Rightarrow> 'd vfs \<Rightarrow> ((int \<times> string list) \<times> 'd vfs) option" where
  "vfs_list_dir E X path_arg st =
     (case path_arg of
        None \<Rightarrow> Some ((-1, []), st)
      | Some path \<Rightarrow>
          (case find_mount path st of
             None \<Rightarrow> list_fallback E X path st
           | Some (f, mp) \<Rightarrow>
               let rel = mount_rel path mp; other = (\<lambda>g fs. map_option (\<lambda>(rc, names, fs'). ((rc, names), fs')) (g rel fs))
               in if f = ''fat32'' then x_fat32_list_dir X rel st
                  else if is_hana f then on_fs (other (\<lambda>p. ramfs_list_dir E (Some p))) st
                  else if f = ''procfs'' then Some (procfs_list_dir rel, st)
                  else if f = ''devfs'' then Some (devfs_list_dir rel, st)
                  else if f = ''floppy'' then on_fs (other (x_floppy_list_dir X)) st
                  else list_fallback E X path st))"

definition vfs_remove_dir :: "'d hw \<Rightarrow> string option \<Rightarrow> 'd vfs \<Rightarrow> (int \<times> 'd vfs) option" where
  "vfs_remove_dir E path_arg st =
     (case path_arg of
        None \<Rightarrow> Some (-1, st)
      | Some path \<Rightarrow>
          (case find_mount path st of
             None \<Rightarrow> on_fs (ramfs_remove_dir E (Some path)) st
           | Some (f, mp) \<Rightarrow> if is_hana f then on_fs (ramfs_remove_dir E (Some path)) st else Some (-1, st)))"

text \<open>Creating, removing and writing files and creating directories dispatch alike, with the
  whole path.\<close>

definition vfs_dispatch ::
  "('d hanafs \<Rightarrow> (int \<times> 'd hanafs) option) \<Rightarrow> ('d hanafs \<Rightarrow> (int \<times> 'd hanafs) option) \<Rightarrow> string \<Rightarrow> 'd vfs \<Rightarrow> (int \<times> 'd vfs) option" where
  "vfs_dispatch ram fat path st =
     (case find_mount path st of
        None \<Rightarrow> on_fs ram st
      | Some (f, mp) \<Rightarrow> if is_hana f then on_fs ram st else if f = ''fat32'' then on_fs fat st else Some (-1, st))"

definition vfs_create_file :: "'d hw \<Rightarrow> 'd other_fs \<Rightarrow> string option \<Rightarrow> 'd vfs \<Rightarrow> (int \<times> 'd vfs) option" where
  "vfs_create_file E X path_arg st =
     (case path_arg of None \<Rightarrow> Some (-1, st)
      | Some path \<Rightarrow> vfs_dispatch (ramfs_create_file E (Some path)) (x_fat32_create_file X path) path st)"

definition vfs_unlink :: "'d hw \<Rightarrow> 'd other_fs \<Rightarrow> string option \<Rightarrow> 'd vfs \<Rightarrow> (int \<times> 'd vfs) option" where
  "vfs_unlink E X path_arg st =
     (case path_arg of None \<Rightarrow> Some (-1, st)
      | Some path \<Rightarrow> vfs_dispatch (ramfs_unlink E (Some path)) (x_fat32_unlink X path) path st)"

definition vfs_make_dir :: "'d hw \<Rightarrow> 'd other_fs \<Rightarrow> string option \<Rightarrow> 'd vfs \<Rightarrow> (int \<times> 'd vfs) option" where
  "vfs_make_dir E X path_arg st =
     (case path_arg of None \<Rightarrow> Some (-1, st)
      | Some path \<Rightarrow> vfs_dispatch (ramfs_make_dir E (Some path)) (x_fat32_make_dir X path) path st)"

definition vfs_write_file ::
  "'d hw \<Rightarrow> 'd other_fs \<Rightarrow> string option \<Rightarrow> byte list option \<Rightarrow> nat \<Rightarrow> 'd vfs \<Rightarrow> (int \<times> 'd vfs) option" where
  "vfs_write_file E X path_arg buf len st =
     (case path_arg of None \<Rightarrow> Some (-1, st)
      | Some path \<Rightarrow> vfs_dispatch (ramfs_write_file E (Some path) buf len) (x_fat32_write_file X path buf len) path st)"

text \<open>What a back end returned when it is not empty; an empty buffer is released.\<close>

definition keep_nonempty ::
  "((u64 \<times> byte list) option \<times> 'd hanafs) option \<Rightarrow> ((u64 \<times> byte list) option \<times> 'd hanafs) option" where
  "keep_nonempty r = do {
     (d, fs) \<leftarrow> r;
     (case d of
        Some (b, bs) \<Rightarrow> (if bs \<noteq> [] then Some (d, fs) else do { fs1 \<leftarrow> hf_free b fs; Some (None, fs1) })
      | None \<Rightarrow> Some (None, fs))
   }"

definition or_else ::
  "((u64 \<times> byte list) option \<times> 'd hanafs) option \<Rightarrow> ('d hanafs \<Rightarrow> ((u64 \<times> byte list) option \<times> 'd hanafs) option) \<Rightarrow>
     ((u64 \<times> byte list) option \<times> 'd hanafs) option" where
  "or_else r g = do { (d, fs) \<leftarrow> r; (case d of Some _ \<Rightarrow> Some (d, fs) | None \<Rightarrow> keep_nonempty (g fs)) }"

definition get_fallback :: "'d hw \<Rightarrow> 'd other_fs \<Rightarrow> string \<Rightarrow> 'd hanafs \<Rightarrow> ((u64 \<times> byte list) option \<times> 'd hanafs) option" where
  "get_fallback E X path fs =
     or_else (or_else (or_else (keep_nonempty (ramfs_get_file_alloc E (Some path) fs)) (procfs_get_file_alloc E path))
       (devfs_get_file_alloc E path)) (x_fat32_get_file_alloc X path)"

definition vfs_get_file_alloc ::
  "'d hw \<Rightarrow> 'd other_fs \<Rightarrow> string option \<Rightarrow> 'd vfs \<Rightarrow> ((u64 \<times> byte list) option \<times> 'd vfs) option" where
  "vfs_get_file_alloc E X path_arg st =
     (case path_arg of
        None \<Rightarrow> Some (None, st)
      | Some path \<Rightarrow>
          (case find_mount path st of
             None \<Rightarrow> on_fs (get_fallback E X path) st
           | Some (f, mp) \<Rightarrow>
               let rel = mount_rel path mp
               in if f = ''fat32'' then on_fs (\<lambda>fs. keep_nonempty (x_fat32_get_file_alloc X rel fs)) st
                  else if is_hana f then on_fs (\<lambda>fs. keep_nonempty (ramfs_get_file_alloc E (Some rel) fs)) st
                  else if f = ''procfs'' then on_fs (procfs_get_file_alloc E rel) st
                  else if f = ''devfs'' then on_fs (devfs_get_file_alloc E rel) st
                  else Some (None, st)))"

section \<open>Laws\<close>

lemma hf_inv_alloc:
  assumes "hf_inv E S pay st" "0 < n" "room_cost n \<le> S"
  obtains p st' where "hf_alloc E n st = Some (p, st')" "p \<noteq> 0" "hf_inv E (S - room_cost n) pay st'" "entries st' = entries st"
proof -
  obtain A where A: "hf_room E S A (hf_heap st)" "entries_ok A (entries st)" "payload_len (entries st) \<le> pay"
    using assms(1) by (auto simp: hf_inv_def)
  obtain p st' where p: "hf_alloc E n st = Some (p, st')" "p \<noteq> 0" "hf_room E (S - room_cost n) (insert p A) (hf_heap st')"
    "entries st' = entries st"
    by (rule hf_alloc_room [OF A(1) assms(2,3)])
  have "hf_inv E (S - room_cost n) pay st'"
    by (rule hf_invI [OF p(3) order_refl]) (use A(2,3) p(4) in \<open>auto simp: entries_ok_def\<close>)
  with p show ?thesis by (intro that)
qed

lemma hana_call_one:
  assumes "hf_inv E S pay st" "call_ok c" "call_cost pay c \<le> S"
  obtains st' where "hana_call E c st = Some (fst (fs_spec c (hana_map (entries st))), st')"
    "hana_map (entries st') = snd (fs_spec c (hana_map (entries st)))" "hf_inv E (S - call_cost pay c) (pay + call_bytes c) st'"
  using hana_call_law [OF assms] by blast

lemma hana_write:
  assumes "hf_inv E S pay st" "call_ok (Write p bs)" "call_cost pay (Write p bs) \<le> S"
  obtains st' where "hanafs_write_file E (Some p) (Some bs) (length bs) st = Some (0, st')"
    "hana_map (entries st') = (hana_map (entries st))(hana_ipath p \<mapsto> File bs)"
    "hf_inv E (S - call_cost pay (Write p bs)) (pay + call_bytes (Write p bs)) st'"
  by (rule hana_call_one [OF assms]) (auto split: prod.splits)

lemma hana_read:
  assumes "hf_inv E S pay st" "call_ok (Read p)" "call_cost pay (Read p) \<le> S"
  obtains d st' where "hanafs_get_file_alloc E (Some p) st = Some (d, st')"
    "map_option snd d = (case hana_map (entries st) (hana_ipath p) of Some (File bs) \<Rightarrow> Some bs | _ \<Rightarrow> None)"
    "hf_inv E (S - call_cost pay (Read p)) (pay + call_bytes (Read p)) st'"
  by (rule hana_call_one [OF assms]) (auto split: prod.splits)

lemma vfs_list_unmounted:
  assumes inv: "hf_inv E S pay (vf_fs st)" and m: "find_mount path st = None" and S: "room_cost (length path + 3) \<le> S"
  obtains names fs where "vfs_list_dir E X (Some path) st = Some ((0, names), st\<lparr>vf_fs := fs\<rparr>)"
    "set names = {n. \<exists>q\<in>dom (hana_map (entries (vf_fs st))). is_child (hana_ipath path) q n}"
    "entries fs = entries (vf_fs st)" "hf_inv E (S - room_cost (length path + 3)) pay fs"
proof -
  obtain names fs where l: "hanafs_list_dir E (Some path) (vf_fs st) = Some (0, names, fs)" "entries fs = entries (vf_fs st)"
    "set names = {n. \<exists>q\<in>dom (hana_map (entries (vf_fs st))). is_child (hana_ipath path) q n}"
    "hf_inv E (S - room_cost (length path + 3)) pay fs"
    by (rule hanafs_list_dir_ok [OF inv S])
  show ?thesis
    by (rule that [OF _ l(3,2,4)]) (simp add: vfs_list_dir_def m list_fallback_def ramfs_list_dir_def l(1))
qed

lemma vfs_read_unmounted:
  assumes inv: "hf_inv E S pay (vf_fs st)" and m: "find_mount path st = None" and ok: "call_ok (Read path)"
    and S: "call_cost pay (Read path) \<le> S" and f: "hana_map (entries (vf_fs st)) (hana_ipath path) = Some (File bs)" "bs \<noteq> []"
  obtains b fs where "vfs_get_file_alloc E X (Some path) st = Some (Some (b, bs), st\<lparr>vf_fs := fs\<rparr>)"
    "hf_inv E (S - call_cost pay (Read path)) (pay + call_bytes (Read path)) fs"
proof -
  obtain d fs where r: "hanafs_get_file_alloc E (Some path) (vf_fs st) = Some (d, fs)"
    "map_option snd d = (case hana_map (entries (vf_fs st)) (hana_ipath path) of Some (File bs) \<Rightarrow> Some bs | _ \<Rightarrow> None)"
    "hf_inv E (S - call_cost pay (Read path)) (pay + call_bytes (Read path)) fs"
    by (rule hana_read [OF inv ok S])
  obtain b where d: "d = Some (b, bs)" using r(2) f(1) by auto
  have "vfs_get_file_alloc E X (Some path) st = Some (Some (b, bs), st\<lparr>vf_fs := fs\<rparr>)"
    using m r(1) d f(2)
    by (simp add: vfs_get_file_alloc_def on_fs_def get_fallback_def or_else_def keep_nonempty_def ramfs_get_file_alloc_def)
  then show ?thesis using r(3) by (rule that)
qed

definition boot_mounts :: "'d vfs \<Rightarrow> bool" where
  "boot_mounts st \<longleftrightarrow> mount_count st = 2 \<and> (\<exists>p q ms. mounts st =
     \<lparr>fsname = Some ''procfs'', mountpoint = Some (p, ''/proc'')\<rparr> # \<lparr>fsname = Some ''devfs'', mountpoint = Some (q, ''/dev'')\<rparr> # ms)"

text \<open>The calls \<open>kernel_main\<close> makes.\<close>

definition vfs_boot :: "'d hw \<Rightarrow> 'd vfs \<Rightarrow> 'd vfs option" where
  "vfs_boot E st = do { st1 \<leftarrow> vfs_init st; st2 \<leftarrow> procfs_init E st1; devfs_init E st2 }"

lemma free_no_mounts: "free_mounts (replicate n no_mount) fs = Some fs"
  by (induction n) (simp_all add: no_mount_def)

lemma register_ok:
  assumes "hf_inv E S pay (vf_fs st)" "mount_count st < 16" "room_cost (length m + 1) \<le> S"
  obtains p st' where "vfs_register_mount E (Some f) (Some m) st = Some st'"
    "mounts st' = (mounts st)[nat (mount_count st) := \<lparr>fsname = Some f, mountpoint = Some (p, m)\<rparr>]"
    "mount_count st' = mount_count st + 1" "hf_inv E (S - room_cost (length m + 1)) pay (vf_fs st')"
    "entries (vf_fs st') = entries (vf_fs st)"
proof -
  have n: "0 < length m + 1" by simp
  obtain p fs where a: "hf_alloc E (length m + 1) (vf_fs st) = Some (p, fs)" "p \<noteq> 0"
    "hf_inv E (S - room_cost (length m + 1)) pay fs" "entries fs = entries (vf_fs st)"
    by (rule hf_inv_alloc [OF assms(1) n assms(3)])
  let ?st = "st\<lparr>vf_fs := fs, mounts := (mounts st)[nat (mount_count st) := \<lparr>fsname = Some f, mountpoint = Some (p, m)\<rparr>],
    mount_count := mount_count st + 1\<rparr>"
  have "vfs_register_mount E (Some f) (Some m) st = Some ?st" using a(1,2) assms(2) by (simp add: vfs_register_mount_def)
  then show ?thesis by (rule that) (use a in simp_all)
qed

lemma vfs_boot_ok:
  assumes inv: "hf_inv E S pay (vf_fs st)" and m: "mounts st = replicate 16 no_mount" and S: "room_cost 6 + room_cost 5 \<le> S"
  obtains st' where "vfs_boot E st = Some st'" "boot_mounts st'" "hf_inv E (S - room_cost 6 - room_cost 5) pay (vf_fs st')"
    "entries (vf_fs st') = entries (vf_fs st)"
proof -
  let ?st1 = "st\<lparr>vf_fs := vf_fs st, mounts := replicate 16 no_mount, mount_count := 0\<rparr>"
  have i: "vfs_init st = Some ?st1" using m by (simp add: vfs_init_def free_no_mounts)
  have l: "length ''/proc'' + 1 = 6" "length ''/dev'' + 1 = 5" by simp_all
  have c: "mount_count ?st1 < 16" "room_cost (length ''/proc'' + 1) \<le> S" "hf_inv E S pay (vf_fs ?st1)"
    using S inv unfolding l by simp_all
  obtain p st2 where a: "vfs_register_mount E (Some ''procfs'') (Some ''/proc'') ?st1 = Some st2"
    "mounts st2 = (mounts ?st1)[nat (mount_count ?st1) := \<lparr>fsname = Some ''procfs'', mountpoint = Some (p, ''/proc'')\<rparr>]"
    "mount_count st2 = mount_count ?st1 + 1" "hf_inv E (S - room_cost (length ''/proc'' + 1)) pay (vf_fs st2)"
    "entries (vf_fs st2) = entries (vf_fs ?st1)"
    by (rule register_ok [OF c(3,1,2)])
  have c2: "mount_count st2 < 16" "room_cost (length ''/dev'' + 1) \<le> S - room_cost (length ''/proc'' + 1)"
    using S a(3) unfolding l by simp_all
  obtain q st3 where b: "vfs_register_mount E (Some ''devfs'') (Some ''/dev'') st2 = Some st3"
    "mounts st3 = (mounts st2)[nat (mount_count st2) := \<lparr>fsname = Some ''devfs'', mountpoint = Some (q, ''/dev'')\<rparr>]"
    "mount_count st3 = mount_count st2 + 1" "hf_inv E (S - room_cost (length ''/proc'' + 1) - room_cost (length ''/dev'' + 1)) pay (vf_fs st3)"
    "entries (vf_fs st3) = entries (vf_fs st2)"
    by (rule register_ok [OF a(4) c2])
  have "mounts st3 = \<lparr>fsname = Some ''procfs'', mountpoint = Some (p, ''/proc'')\<rparr> #
      \<lparr>fsname = Some ''devfs'', mountpoint = Some (q, ''/dev'')\<rparr> # replicate 14 no_mount"
    using a(2,3) b(2) by (simp add: numeral_eq_Suc)
  moreover have "vfs_boot E st = Some st3" using i a(1) b(1) by (simp add: vfs_boot_def procfs_init_def devfs_init_def)
  ultimately show ?thesis
    using a(3,5) b(3,5) b(4) [unfolded l] by (intro that [of st3]) (auto simp: boot_mounts_def)
qed

lemma find_boot_mount:
  assumes "boot_mounts st"
  shows "find_mount path st = (if mount_matches path ''/proc'' then Some (''procfs'', ''/proc'')
     else if mount_matches path ''/dev'' then Some (''devfs'', ''/dev'') else None)"
proof -
  obtain p q ms where m: "mount_count st = 2" "mounts st =
     \<lparr>fsname = Some ''procfs'', mountpoint = Some (p, ''/proc'')\<rparr> # \<lparr>fsname = Some ''devfs'', mountpoint = Some (q, ''/dev'')\<rparr> # ms"
    using assms by (auto simp: boot_mounts_def)
  then show ?thesis by (simp add: find_mount_def mount_pair_def List.map_filter_def numeral_2_eq_2)
qed

lemma proc_name_unknown:
  assumes "slash \<notin> set n"
  shows "mount_rel (''/proc/'' @ n) ''/proc'' = slash # n" "mount_matches (''/proc/'' @ n) ''/proc''"
    "procfs_get_file_alloc E (slash # n) fs = Some (None, fs)"
proof -
  show "mount_rel (''/proc/'' @ n) ''/proc'' = slash # n" by (simp add: mount_rel_def slash_def)
  show "mount_matches (''/proc/'' @ n) ''/proc''" by (simp add: mount_matches_def c_at_def slash_def)
  have "slash # n \<noteq> ''/proc/cpuinfo''" "slash # n \<noteq> ''/proc/meminfo''" "slash # n \<noteq> ''/proc/self''"
    using assms by (auto simp: slash_def)
  then show "procfs_get_file_alloc E (slash # n) fs = Some (None, fs)" by (simp add: procfs_get_file_alloc_def slash_def)
qed

lemma on_fs_None: "f (vf_fs st) = Some (r, vf_fs st) \<Longrightarrow> on_fs f st = Some (r, st)"
  by (simp add: on_fs_def)

section \<open>A concrete system\<close>

definition demo_other :: "'d other_fs" where
  "demo_other = \<lparr>x_fat32_list_dir = \<lambda>_ st. Some ((-1, []), st), x_fat32_create_file = \<lambda>_ fs. Some (-1, fs),
     x_fat32_unlink = \<lambda>_ fs. Some (-1, fs), x_fat32_make_dir = \<lambda>_ fs. Some (-1, fs),
     x_fat32_write_file = \<lambda>_ _ _ fs. Some (-1, fs), x_fat32_get_file_alloc = \<lambda>_ fs. Some (None, fs),
     x_floppy_list_dir = \<lambda>_ fs. Some (-1, [], fs)\<rparr>"

definition demo_vfs :: "ata ide vfs" where
  "demo_vfs = \<lparr>vf_fs = demo_fs, mounts = replicate 16 no_mount, mount_count = 0\<rparr>"

lemma demo_vfs_inv: "hf_inv (ide_hw demo_env) 1048576 0 (vf_fs demo_vfs)"
  using demo_fs_inv by (simp add: demo_vfs_def)

section \<open>Properties\<close>

text \<open>What is written to a path that is not below a mount point is read back under that path:
  with room in the heap, writing a non-empty file succeeds and reading it returns its bytes.\<close>

lemma vfs_write_read_back:
  assumes inv: "hf_inv E S pay (vf_fs st)" and m: "find_mount path st = None" and ok: "call_ok (Write path bs)" "bs \<noteq> []"
    and S: "calls_cost pay [Write path bs, Read path] \<le> S"
  shows "\<exists>st1 b st2. vfs_write_file E X (Some path) (Some bs) (length bs) st = Some (0, st1) \<and>
    vfs_get_file_alloc E X (Some path) st1 = Some (Some (b, bs), st2)"
proof -
  have c: "call_cost pay (Write path bs) \<le> S"
    "call_cost (pay + call_bytes (Write path bs)) (Read path) \<le> S - call_cost pay (Write path bs)"
    using S by simp_all
  obtain fs1 where w: "hanafs_write_file E (Some path) (Some bs) (length bs) (vf_fs st) = Some (0, fs1)"
    "hana_map (entries fs1) = (hana_map (entries (vf_fs st)))(hana_ipath path \<mapsto> File bs)"
    "hf_inv E (S - call_cost pay (Write path bs)) (pay + call_bytes (Write path bs)) fs1"
    by (rule hana_write [OF inv ok(1) c(1)])
  have rk: "call_ok (Read path)" using ok(1) by (simp add: call_ok_def)
  let ?st1 = "st\<lparr>vf_fs := fs1\<rparr>"
  have m1: "find_mount path ?st1 = None" using m by (simp add: find_mount_def)
  have f1: "hana_map (entries (vf_fs ?st1)) (hana_ipath path) = Some (File bs)" using w(2) by simp
  have i1: "hf_inv E (S - call_cost pay (Write path bs)) (pay + call_bytes (Write path bs)) (vf_fs ?st1)" using w(3) by simp
  obtain b fs2 where r: "vfs_get_file_alloc E X (Some path) ?st1 = Some (Some (b, bs), ?st1\<lparr>vf_fs := fs2\<rparr>)"
    by (rule vfs_read_unmounted [OF i1 m1 rk c(2) f1 ok(2)])
  have "vfs_write_file E X (Some path) (Some bs) (length bs) st = Some (0, ?st1)"
    using m w(1) by (simp add: vfs_write_file_def vfs_dispatch_def on_fs_def ramfs_write_file_def)
  with r show ?thesis by blast
qed

text \<open>C38. After the calls the kernel makes at start, \<open>/proc\<close> and \<open>/dev\<close> are mounted and list their
  names, the console device reads as its text, and writing below either of them fails and
  changes nothing. Reading a file of \<open>/proc\<close> finds nothing, whatever its name: the dispatcher
  passes on the name with a leading slash, and the back end expects the full path or the bare
  name.\<close>

theorem pseudo_files_after_boot:
  assumes inv: "hf_inv E S pay (vf_fs st)" and m: "mounts st = replicate 16 no_mount"
    and S: "room_cost 6 + room_cost 5 + room_cost 9 \<le> S"
  shows "\<exists>st'. vfs_boot E st = Some st' \<and>
    vfs_list_dir E X (Some ''/proc'') st' = Some ((0, [''cpuinfo'', ''meminfo'', ''self'']), st') \<and>
    vfs_list_dir E X (Some ''/dev'') st' = Some ((0, [''console'', ''null'', ''tty0'', ''hda'', ''sda'']), st') \<and>
    (\<exists>b st2. vfs_get_file_alloc E X (Some ''/dev/console'') st' = Some (Some (b, map byte_of_char (''console'' @ [CHR 0x0A])), st2)) \<and>
    (\<forall>n. slash \<notin> set n \<longrightarrow> vfs_get_file_alloc E X (Some (''/proc/'' @ n)) st' = Some (None, st')) \<and>
    (\<forall>path buf len. mount_matches path ''/proc'' \<or> mount_matches path ''/dev'' \<longrightarrow>
       vfs_write_file E X (Some path) buf len st' = Some (-1, st'))"
proof -
  have S1: "room_cost 6 + room_cost 5 \<le> S" "room_cost 9 \<le> S - room_cost 6 - room_cost 5" using S by simp_all
  obtain st' where b: "vfs_boot E st = Some st'" "boot_mounts st'" "hf_inv E (S - room_cost 6 - room_cost 5) pay (vf_fs st')"
    by (rule vfs_boot_ok [OF inv m S1(1)])
  note f = find_boot_mount [OF b(2)]
  have mm: "mount_matches ''/proc'' ''/proc''" "mount_matches ''/dev'' ''/dev''" "\<not> mount_matches ''/dev'' ''/proc''"
    "mount_matches ''/dev/console'' ''/dev''" "\<not> mount_matches ''/dev/console'' ''/proc''"
    by (simp_all add: mount_matches_def c_at_def slash_def)
  have lp: "vfs_list_dir E X (Some ''/proc'') st' = Some ((0, [''cpuinfo'', ''meminfo'', ''self'']), st')"
    by (simp add: vfs_list_dir_def f mm is_hana_def mount_rel_def procfs_list_dir_def)
  have ld: "vfs_list_dir E X (Some ''/dev'') st' = Some ((0, [''console'', ''null'', ''tty0'', ''hda'', ''sda'']), st')"
    by (simp add: vfs_list_dir_def f mm is_hana_def mount_rel_def devfs_list_dir_def)
  have n9: "length (''console'' @ [CHR 0x0A]) + 1 = 9" "0 < (9 :: nat)" by simp_all
  obtain p fs where a: "hf_alloc E 9 (vf_fs st') = Some (p, fs)" "p \<noteq> 0"
    by (rule hf_inv_alloc [OF b(3) n9(2) S1(2)])
  have dn: "dev_name ''/console'' = ''console''" "mount_rel ''/dev/console'' ''/dev'' = ''/console''" by code_simp+
  have "devfs_get_file_alloc E ''/console'' (vf_fs st') = Some (Some (p, map byte_of_char (''console'' @ [CHR 0x0A])), fs)"
    using a unfolding devfs_get_file_alloc_def dn(1) text_file_def n9(1) by simp
  then have con: "vfs_get_file_alloc E X (Some ''/dev/console'') st' =
      Some (Some (p, map byte_of_char (''console'' @ [CHR 0x0A])), st'\<lparr>vf_fs := fs\<rparr>)"
    unfolding vfs_get_file_alloc_def option.case f using mm(4,5) by (simp add: is_hana_def dn(2) on_fs_def)
  have "vfs_get_file_alloc E X (Some (''/proc/'' @ n)) st' = Some (None, st')" if "slash \<notin> set n" for n
    using proc_name_unknown(1,2) [OF that] proc_name_unknown(3) [OF that, of E "vf_fs st'"]
    unfolding vfs_get_file_alloc_def option.case f
    by (simp add: is_hana_def on_fs_def)
  moreover have "vfs_write_file E X (Some path) buf len st' = Some (-1, st')"
    if "mount_matches path ''/proc'' \<or> mount_matches path ''/dev''" for path buf len
    using that by (auto simp: vfs_write_file_def vfs_dispatch_def f is_hana_def)
  ultimately show ?thesis using b(1) lp ld con by blast
qed

theorem pseudo_files_after_boot_witness:
  "\<exists>st'. vfs_boot (ide_hw demo_env) demo_vfs = Some st' \<and>
     vfs_get_file_alloc (ide_hw demo_env) demo_other (Some (''/proc/'' @ ''cpuinfo'')) st' = Some (None, st') \<and>
     vfs_write_file (ide_hw demo_env) demo_other (Some ''/dev/null'') (Some [1]) 1 st' = Some (-1, st')"
proof -
  have m: "mounts demo_vfs = replicate 16 no_mount" by (simp add: demo_vfs_def)
  have S: "room_cost 6 + room_cost 5 + room_cost 9 \<le> 1048576" by (simp add: room_cost_def)
  have c: "slash \<notin> set ''cpuinfo''" "mount_matches ''/dev/null'' ''/dev''" by code_simp+
  from pseudo_files_after_boot [OF demo_vfs_inv m S, of demo_other] c show ?thesis by blast
qed

text \<open>Writing and reading disagree about a HanaFS mount point other than the root: the write
  stores the file under the whole path, the read looks for the part behind the mount point. So
  a file that was written successfully is not found again, unless there happened to be one
  under the shorter path.\<close>

lemma mounted_write_lost:
  assumes inv: "hf_inv E S pay (vf_fs st)" and m: "find_mount path st = Some (f, mp)" "is_hana f"
    and other: "hana_ipath (mount_rel path mp) \<noteq> hana_ipath path" "hana_map (entries (vf_fs st)) (hana_ipath (mount_rel path mp)) = None"
    and ok: "call_ok (Write path bs)" "cstring (mount_rel path mp)" and S: "calls_cost pay [Write path bs, Read (mount_rel path mp)] \<le> S"
  shows "\<exists>st1 st2. vfs_write_file E X (Some path) (Some bs) (length bs) st = Some (0, st1) \<and>
    vfs_get_file_alloc E X (Some path) st1 = Some (None, st2)"
proof -
  let ?rel = "mount_rel path mp"
  have c: "call_cost pay (Write path bs) \<le> S" "call_cost (pay + call_bytes (Write path bs)) (Read ?rel) \<le> S - call_cost pay (Write path bs)"
    using S by simp_all
  obtain fs1 where w: "hanafs_write_file E (Some path) (Some bs) (length bs) (vf_fs st) = Some (0, fs1)"
    "hana_map (entries fs1) = (hana_map (entries (vf_fs st)))(hana_ipath path \<mapsto> File bs)"
    "hf_inv E (S - call_cost pay (Write path bs)) (pay + call_bytes (Write path bs)) fs1"
    by (rule hana_write [OF inv ok(1) c(1)])
  have rk: "call_ok (Read ?rel)" using ok(2) by (simp add: call_ok_def)
  obtain d fs2 where r: "hanafs_get_file_alloc E (Some ?rel) fs1 = Some (d, fs2)"
    "map_option snd d = (case hana_map (entries fs1) (hana_ipath ?rel) of Some (File bs) \<Rightarrow> Some bs | _ \<Rightarrow> None)"
    by (rule hana_read [OF w(3) rk c(2)])
  have d: "d = None" using r(2) other by (simp add: w(2))
  let ?st1 = "st\<lparr>vf_fs := fs1\<rparr>"
  have m1: "find_mount path ?st1 = Some (f, mp)" using m(1) by (simp add: find_mount_def)
  have nf: "f \<noteq> ''fat32''" using m(2) by (auto simp: is_hana_def)
  have "vfs_write_file E X (Some path) (Some bs) (length bs) st = Some (0, ?st1)"
    using m w(1) by (simp add: vfs_write_file_def vfs_dispatch_def on_fs_def ramfs_write_file_def)
  moreover have "vfs_get_file_alloc E X (Some path) ?st1 = Some (None, ?st1\<lparr>vf_fs := fs2\<rparr>)"
    using m1 r(1) d m(2) nf by (simp add: vfs_get_file_alloc_def on_fs_def keep_nonempty_def ramfs_get_file_alloc_def)
  ultimately show ?thesis by blast
qed

end
