(* ===== verification/Pipes.thy ===== *)
theory Pipes
  imports Pty Libc
begin

text \<open>
  The pipe objects of \<^verbatim>\<open>kernel/userland/syscalls.cpp\<close>: a ring of bytes with a read and a write
  position, one slot of which stays free. The loops of the write and read calls are shown to
  be a bounded queue of 4095 bytes, the contract \<open>byte_channel\<close> the pseudo-terminals meet as
  well.
\<close>

record pipe =
  pi_buf_ptr :: u64
  pi_buf :: "byte list"
  pi_cap :: nat
  pi_rpos :: nat
  pi_wpos :: nat
  pi_refs :: int

definition bytes_in :: "mem \<Rightarrow> u64 \<Rightarrow> nat \<Rightarrow> byte list" where
  "bytes_in m a n = map (\<lambda>i. m (a + of_nat i)) [0..<n]"

primrec pipe_write :: "mem \<Rightarrow> u64 \<Rightarrow> nat \<Rightarrow> pipe \<Rightarrow> nat \<times> pipe" where
  "pipe_write m a 0 p = (0, p)"
| "pipe_write m a (Suc n) p =
     (let nx = (pi_wpos p + 1) mod pi_cap p
      in if nx = pi_rpos p then (0, p)
         else let (w, p') = pipe_write m (a + 1) n (p\<lparr>pi_buf := (pi_buf p)[pi_wpos p := m a], pi_wpos := nx\<rparr>)
              in (Suc w, p'))"

definition pipe_avail :: "pipe \<Rightarrow> nat" where
  "pipe_avail p = (pi_wpos p + pi_cap p - pi_rpos p) mod pi_cap p"

definition pipe_read :: "nat \<Rightarrow> pipe \<Rightarrow> byte list \<times> pipe" where
  "pipe_read count p =
     (let toread = min (pipe_avail p) count
      in (map (\<lambda>i. pi_buf p ! ((pi_rpos p + i) mod pi_cap p)) [0..<toread],
          p\<lparr>pi_rpos := (pi_rpos p + toread) mod pi_cap p\<rparr>))"

section \<open>Pipes are queues\<close>

primrec pipe_put :: "byte list \<Rightarrow> pipe \<Rightarrow> nat \<times> pipe" where
  "pipe_put [] p = (0, p)"
| "pipe_put (b # bs) p =
     (let nx = (pi_wpos p + 1) mod pi_cap p
      in if nx = pi_rpos p then (0, p)
         else let (w, p') = pipe_put bs (p\<lparr>pi_buf := (pi_buf p)[pi_wpos p := b], pi_wpos := nx\<rparr>) in (Suc w, p'))"

lemma bytes_in_Suc: "bytes_in m a (Suc n) = m a # bytes_in m (a + 1) n"
  by (simp add: bytes_in_def upt_conv_Cons map_Suc_upt [symmetric] del: upt_Suc) (simp add: ac_simps)

lemma pipe_write_put: "pipe_write m a n p = pipe_put (bytes_in m a n) p"
proof (induction n arbitrary: a p)
  case 0
  show ?case by (simp add: bytes_in_def)
next
  case (Suc n)
  then show ?case unfolding bytes_in_Suc by (simp add: Let_def)
qed

definition pipe_ok :: "pipe \<Rightarrow> bool" where
  "pipe_ok p \<longleftrightarrow> pi_cap p = 4096 \<and> length (pi_buf p) = 4096 \<and> pi_rpos p < 4096 \<and> pi_wpos p < 4096"

text \<open>How many bytes are stored, and which.\<close>

definition dist :: "nat \<Rightarrow> nat \<Rightarrow> nat" where
  "dist r w = (w + 4096 - r) mod 4096"

definition pipe_content :: "pipe \<Rightarrow> byte list" where
  "pipe_content p = map (\<lambda>i. pi_buf p ! ((pi_rpos p + i) mod 4096)) [0..<dist (pi_rpos p) (pi_wpos p)]"

lemma wrap: "a < 4096 \<Longrightarrow> b < 4096 \<Longrightarrow> (a + b) mod 4096 = (if a + b < 4096 then a + b else a + b - (4096 :: nat))"
  by (simp add: mod_if)

lemma dist_eq: "r < 4096 \<Longrightarrow> w < 4096 \<Longrightarrow> dist r w = (if r \<le> w then w - r else w + 4096 - r)"
  by (auto simp: dist_def mod_if)

lemma dist_less: "dist r w < 4096"
  by (simp add: dist_def)

lemma slot_neq: "r < 4096 \<Longrightarrow> w < 4096 \<Longrightarrow> i < dist r w \<Longrightarrow> (r + i) mod 4096 \<noteq> w"
  using wrap [of r i] dist_less [of r w] by (auto simp: dist_eq split: if_splits)

lemma slot_end: "r < 4096 \<Longrightarrow> w < 4096 \<Longrightarrow> (r + dist r w) mod 4096 = w"
  using wrap [of r "dist r w"] dist_less [of r w] by (auto simp: dist_eq split: if_splits)

lemma dist_step:
  assumes "r < 4096" "w < 4096" "(w + 1) mod 4096 \<noteq> r"
  shows "dist r ((w + 1) mod 4096) = Suc (dist r w)" "dist r w < 4095"
  using assms wrap [of w 1] by (auto simp: dist_eq split: if_splits)

lemma dist_full: "r < 4096 \<Longrightarrow> w < 4096 \<Longrightarrow> (w + 1) mod 4096 = r \<Longrightarrow> dist r w = 4095"
  using wrap [of w 1] by (auto simp: dist_eq split: if_splits)

lemma dist_drop:
  assumes "r < 4096" "w < 4096" "t \<le> dist r w"
  shows "dist ((r + t) mod 4096) w = dist r w - t"
  using assms wrap [of r t] dist_less [of r w] dist_eq [of "(r + t) mod 4096" w] by (auto simp: dist_eq split: if_splits)

lemma pipe_content_put:
  assumes ok: "pipe_ok p" and room: "(pi_wpos p + 1) mod 4096 \<noteq> pi_rpos p"
    and p': "p' = p\<lparr>pi_buf := (pi_buf p)[pi_wpos p := b], pi_wpos := (pi_wpos p + 1) mod 4096\<rparr>"
  shows "pipe_content p' = pipe_content p @ [b]" "pipe_ok p'" "length (pipe_content p) < 4095"
proof -
  let ?w = "pi_wpos p" and ?r = "pi_rpos p"
  have b: "?r < 4096" "?w < 4096" "length (pi_buf p) = 4096" using ok by (auto simp: pipe_ok_def)
  note st = dist_step [OF b(1,2) room]
  have f: "pi_buf p' = (pi_buf p)[?w := b]" "pi_rpos p' = ?r" "pi_wpos p' = (?w + 1) mod 4096" by (simp_all add: p')
  have old: "(pi_buf p)[?w := b] ! ((?r + i) mod 4096) = pi_buf p ! ((?r + i) mod 4096)" if "i < dist ?r ?w" for i
    using slot_neq [OF b(1,2) that] by (metis nth_list_update_neq)
  show "pipe_content p' = pipe_content p @ [b]"
    unfolding pipe_content_def f st(1) using old slot_end [OF b(1,2)] b by simp
  show "pipe_ok p'" using ok by (simp add: pipe_ok_def p')
  show "length (pipe_content p) < 4095" using st(2) by (simp add: pipe_content_def)
qed

lemma pipe_put_law:
  assumes "pipe_ok p" "pipe_put bs p = (w, p')"
  shows "w = min (length bs) (4095 - length (pipe_content p)) \<and> pipe_content p' = pipe_content p @ take w bs \<and> pipe_ok p'"
  using assms
proof (induction bs arbitrary: p w)
  case (Cons b bs)
  have cap: "pi_cap p = 4096" "pi_rpos p < 4096" "pi_wpos p < 4096" using Cons.prems(1) by (simp_all add: pipe_ok_def)
  let ?p = "p\<lparr>pi_buf := (pi_buf p)[pi_wpos p := b], pi_wpos := (pi_wpos p + 1) mod 4096\<rparr>"
  show ?case
  proof (cases "(pi_wpos p + 1) mod 4096 = pi_rpos p")
    case True
    then have "pipe_put (b # bs) p = (0, p)" by (simp add: cap(1))
    then show ?thesis using Cons.prems dist_full [OF cap(2,3) True] by (simp add: pipe_content_def)
  next
    case False
    note c = pipe_content_put [OF Cons.prems(1) False, of ?p b, OF refl]
    have "pipe_put (b # bs) p = (let (w, p') = pipe_put bs ?p in (Suc w, p'))" using False by (simp add: cap(1) Let_def)
    then obtain w1 where w: "pipe_put bs ?p = (w1, p')" "w = Suc w1"
      using Cons.prems(2) by (auto split: prod.splits)
    from Cons.IH [OF c(2) w(1)] c(1,3) w(2) show ?thesis by (simp only: c(1)) auto
  qed
qed simp

lemma pipe_read_law:
  assumes ok: "pipe_ok p" and r: "pipe_read n p = (bs, p')"
  shows "bs = take n (pipe_content p) \<and> pipe_content p' = drop n (pipe_content p) \<and> pipe_ok p'"
proof -
  let ?N = "dist (pi_rpos p) (pi_wpos p)" and ?t = "min (dist (pi_rpos p) (pi_wpos p)) n"
  have b: "pi_rpos p < 4096" "pi_wpos p < 4096" "pi_cap p = 4096" using ok by (auto simp: pipe_ok_def)
  have e: "bs = map (\<lambda>i. pi_buf p ! ((pi_rpos p + i) mod 4096)) [0..<?t]" "p' = p\<lparr>pi_rpos := (pi_rpos p + ?t) mod 4096\<rparr>"
    using r by (simp_all add: pipe_read_def pipe_avail_def dist_def b(3) Let_def)
  have f: "pi_buf p' = pi_buf p" "pi_rpos p' = (pi_rpos p + ?t) mod 4096" "pi_wpos p' = pi_wpos p" by (simp_all add: e(2))
  have d: "dist ((pi_rpos p + ?t) mod 4096) (pi_wpos p) = ?N - ?t" by (rule dist_drop [OF b(1,2)]) simp
  have t: "t \<le> ?N \<Longrightarrow> map (\<lambda>i. pi_buf p ! (((pi_rpos p + t) mod 4096 + i) mod 4096)) [0..<?N - t] = drop t (pipe_content p)" for t
  proof -
    assume le: "t \<le> ?N"
    have "[0..<?N] ! (t + i) = t + i" if "i < ?N - t" for i using that le by (subst nth_upt) simp_all
    then show ?thesis
      unfolding pipe_content_def by (intro nth_equalityI) (simp_all add: mod_add_left_eq add.assoc)
  qed
  have "bs = take n (pipe_content p)" unfolding e(1) pipe_content_def take_map by (simp add: take_upt min_def)
  moreover have "pipe_content p' = drop ?t (pipe_content p)"
    using t [of ?t] unfolding pipe_content_def [of p'] f d by simp
  moreover have "drop ?t (pipe_content p) = drop n (pipe_content p)"
    by (cases "n \<le> ?N") (simp_all add: pipe_content_def)
  ultimately show ?thesis using ok by (simp add: pipe_ok_def e(2))
qed

interpretation pq: byte_channel "\<lambda>p bs. prod.swap (pipe_put bs p)" pipe_read pipe_content 4095 "\<lambda>k. pipe_ok"
proof unfold_locales
  fix cs k p p' w
  assume "pipe_ok p" "prod.swap (pipe_put cs p) = (p', w)"
  then show "w = min (length cs) (4095 - length (pipe_content p)) \<and> pipe_content p' = pipe_content p @ take w cs \<and> pipe_ok p'"
    using pipe_put_law [of p cs w p'] by (metis prod.swap_def swap_swap fst_conv snd_conv)
next
  fix k n p cs p'
  assume "pipe_ok p" "pipe_read n p = (cs, p')"
  then show "cs = take n (pipe_content p) \<and> pipe_content p' = drop n (pipe_content p) \<and> pipe_ok p'" by (rule pipe_read_law)
next
  fix k p
  show "length (pipe_content p) \<le> 4095" using dist_less [of "pi_rpos p" "pi_wpos p"] by (simp add: pipe_content_def)
qed

section \<open>Properties\<close>

text \<open>C24. A pipe is a first-in first-out queue of 4095 bytes: the loop of the write call stores the
  bytes of its buffer one after the other until the pipe is full, and for every interleaving
  of writes and reads the bytes delivered followed by those still stored are the bytes stored
  before followed by those accepted.\<close>

theorem pipe_fifo:
  assumes "pipe_ok p" "pq.run ops p = (acc, out, p')"
  shows "(\<forall>m a n q. pipe_write m a n q = pipe_put (bytes_in m a n) q) \<and>
    out @ pipe_content p' = pipe_content p @ acc \<and> length (pipe_content p') \<le> 4095 \<and> pipe_ok p'"
  using pq.run_fifo [of p ops acc out p'] pq.content_bound [of p'] assms pipe_write_put by blast

theorem pipe_fifo_witness:
  "\<exists>acc out p'. pq.run [Put [1, 2, 3], Get 2, Put [4], Get 9]
      \<lparr>pi_buf_ptr = 1, pi_buf = replicate 4096 0, pi_cap = 4096, pi_rpos = 4094, pi_wpos = 4094, pi_refs = 2\<rparr> = (acc, out, p') \<and>
     out @ pipe_content p' = acc"
proof -
  let ?p = "\<lparr>pi_buf_ptr = 1, pi_buf = replicate 4096 0, pi_cap = 4096, pi_rpos = 4094, pi_wpos = 4094, pi_refs = 2\<rparr>"
  have ok: "pipe_ok ?p" by (simp add: pipe_ok_def)
  have e: "pipe_content ?p = []" by (simp add: pipe_content_def dist_def)
  obtain acc out p' where r: "pq.run [Put [1, 2, 3], Get 2, Put [4], Get 9] ?p = (acc, out, p')" by (metis prod_cases3)
  from pipe_fifo [OF ok r] r e show ?thesis by auto
qed

end
