(* ===== verification/Syscalls.thy ===== *)
theory Syscalls
  imports Vfs ElfLoader SchedRun Tty Pipes
begin

text \<open>
  The system calls of \<^verbatim>\<open>kernel/userland/syscalls.cpp\<close>, over the scheduler with its heap and
  descriptor tables, the file systems, the terminals and the memory the arguments point into.
  Arguments are 64-bit words; a pointer argument is an address in that memory. The file
  systems and the scheduler use one heap: a call into the file systems runs on the heap of the
  kernel state. \<open>None\<close> is a call that does not return or that writes through a null pointer or
  behind a buffer. Log output is left out.
\<close>

unbundle bit_operations_syntax

section \<open>The state\<close>

record 'd kernel = sched +
  k_vfs :: "'d vfs"
  k_tty :: tty_state
  k_pipes :: "u64 \<Rightarrow> pipe"
  k_mem :: mem
  k_stats :: "u64 \<Rightarrow> hana_stat"

text \<open>The file system on the heap of the kernel.\<close>

definition kernel_fs :: "'d kernel \<Rightarrow> 'd hanafs" where
  "kernel_fs k = (vf_fs (k_vfs k))\<lparr>hf_heap := km_heap k\<rparr>"

definition with_fs :: "('d vfs \<Rightarrow> ('b \<times> 'd vfs) option) \<Rightarrow> 'd kernel \<Rightarrow> ('b \<times> 'd kernel) option" where
  "with_fs f k = do {
     (r, v) \<leftarrow> f ((k_vfs k)\<lparr>vf_fs := kernel_fs k\<rparr>);
     Some (r, k\<lparr>k_vfs := v, km_heap := hf_heap (vf_fs v)\<rparr>)
   }"

partial_function (option) cstr_at :: "mem \<Rightarrow> u64 \<Rightarrow> string option" where
  "cstr_at m p = (if m p = 0 then Some [] else do { s \<leftarrow> cstr_at m (p + 1); Some (char_of_byte (m p) # s) })"

definition poke :: "u64 \<Rightarrow> byte list \<Rightarrow> mem \<Rightarrow> mem" where
  "poke a bs m = fold (\<lambda>i m. m(a + of_nat i := bs ! i)) [0..<length bs] m"

definition put_ent :: "u64 \<Rightarrow> nat \<Rightarrow> fdentry \<Rightarrow> 'a kmem_scheme \<Rightarrow> 'a kmem_scheme" where
  "put_ent tbl i e k = fdt_put tbl ((km_fdt k tbl)[i := e]) k"

definition int_arg :: "u64 \<Rightarrow> int" where
  "int_arg a = sint (ucast a :: u32)"

definition O_CREAT :: u32 where "O_CREAT = 0x40"
definition O_TRUNC :: u32 where "O_TRUNC = 0x200"
definition O_APPEND :: u32 where "O_APPEND = 0x400"

section \<open>Writing and reading\<close>

text \<open>The growth of a file buffer, with whether there was memory.\<close>

definition grow_buf :: "boot_env \<Rightarrow> nat \<Rightarrow> fdentry \<Rightarrow> 'a kmem_scheme \<Rightarrow> (bool \<times> fdentry \<times> 'a kmem_scheme) option" where
  "grow_buf env needed e k =
     (if fd_len e < needed then do {
        (nb, k1) \<leftarrow> km_alloc env needed k;
        if nb = 0 then Some (False, e, k1)
        else do {
          k2 \<leftarrow> km_free_if (fd_buf_ptr e) k1;
          Some (True, e\<lparr>fd_buf_ptr := nb, fd_buf := take (fd_len e) (fd_buf e) @ replicate (needed - fd_len e) 0,
                        fd_len := needed\<rparr>, k2)
        }
      }
      else Some (True, e, k))"

definition write_file_fd :: "boot_env \<Rightarrow> u64 \<Rightarrow> nat \<Rightarrow> u64 \<Rightarrow> u64 \<Rightarrow> 'd kernel \<Rightarrow> (u64 \<times> 'd kernel) option" where
  "write_file_fd env tbl i buf count k =
     (let e = km_fdt k tbl ! i; needed = unat (of_nat (fd_pos e) + count)
      in do {
        (ok, e1, k1) \<leftarrow> grow_buf env needed e k;
        if \<not> ok then Some (-1, k1)
        else if length (fd_buf e1) < fd_pos e1 + unat count then None
        else let bs = bytes_in (k_mem k1) buf (unat count)
             in Some (count, put_ent tbl i
                  (e1\<lparr>fd_buf := take (fd_pos e1) (fd_buf e1) @ bs @ drop (fd_pos e1 + unat count) (fd_buf e1),
                      fd_pos := unat (of_nat (fd_pos e1) + count)\<rparr>) k1)
      })"

definition sys_write :: "boot_env \<Rightarrow> u64 \<Rightarrow> int \<Rightarrow> u64 \<Rightarrow> u64 \<Rightarrow> u64 \<Rightarrow> 'd kernel \<Rightarrow> (u64 \<times> 'd kernel) option" where
  "sys_write env tbl cnt a buf count k =
     (case fdtable_get tbl cnt (int_arg a) of
        None \<Rightarrow> Some (-1, k)
      | Some i \<Rightarrow>
          let e = km_fdt k tbl ! i
          in (case fd_type e of
                FD_TTY \<Rightarrow>
                  (if buf \<noteq> 0 then do { s \<leftarrow> cstr_at (k_mem k) buf; Some (count, k\<lparr>k_tty := tty_write s (k_tty k)\<rparr>) }
                   else Some (count, k))
              | FD_PIPE_WRITE \<Rightarrow>
                  (if fd_pipe e = 0 then Some (-1, k)
                   else let (w, p) = pipe_write (k_mem k) buf (unat count) (k_pipes k (fd_pipe e))
                        in if pi_buf_ptr p = 0 \<and> 0 < w then None
                           else Some (of_nat w, k\<lparr>k_pipes := (k_pipes k)(fd_pipe e := p)\<rparr>))
              | FD_FILE \<Rightarrow> write_file_fd env tbl i buf count k
              | _ \<Rightarrow> Some (-1, k)))"

definition read_file_fd :: "u64 \<Rightarrow> nat \<Rightarrow> u64 \<Rightarrow> u64 \<Rightarrow> 'd kernel \<Rightarrow> (u64 \<times> 'd kernel) option" where
  "read_file_fd tbl i buf count k =
     (let e = km_fdt k tbl ! i; avail = (if fd_pos e < fd_len e then fd_len e - fd_pos e else 0); tocopy = min avail (unat count)
      in if length (fd_buf e) < fd_pos e + tocopy \<and> 0 < tocopy then None
         else let k1 = (if 0 < tocopy \<and> buf \<noteq> 0
                        then k\<lparr>k_mem := poke buf (take tocopy (drop (fd_pos e) (fd_buf e))) (k_mem k)\<rparr> else k)
              in Some (of_nat tocopy, put_ent tbl i (e\<lparr>fd_pos := fd_pos e + tocopy\<rparr>) k1))"

definition sys_read :: "u64 \<Rightarrow> int \<Rightarrow> u64 \<Rightarrow> u64 \<Rightarrow> u64 \<Rightarrow> 'd kernel \<Rightarrow> (u64 \<times> 'd kernel) option" where
  "sys_read tbl cnt a buf count k =
     (case fdtable_get tbl cnt (int_arg a) of
        None \<Rightarrow> Some (-1, k)
      | Some i \<Rightarrow>
          let e = km_fdt k tbl ! i
          in (case fd_type e of
                FD_FILE \<Rightarrow> read_file_fd tbl i buf count k
              | FD_PIPE_READ \<Rightarrow>
                  (if fd_pipe e = 0 then Some (-1, k)
                   else let (bs, p) = pipe_read (unat count) (k_pipes k (fd_pipe e))
                        in if (buf = 0 \<or> pi_buf_ptr p = 0) \<and> bs \<noteq> [] then None
                           else Some (of_nat (length bs), k\<lparr>k_mem := poke buf bs (k_mem k), k_pipes := (k_pipes k)(fd_pipe e := p)\<rparr>))
              | _ \<Rightarrow> Some (-1, k)))"

section \<open>Opening and closing\<close>

definition path_arg :: "u64 \<Rightarrow> 'd kernel \<Rightarrow> string option option" where
  "path_arg a k = (if a = 0 then Some None else map_option Some (cstr_at (k_mem k) a))"

definition no_buf :: "fdentry \<Rightarrow> fdentry" where
  "no_buf e = e\<lparr>fd_buf_ptr := 0, fd_buf := [], fd_len := 0\<rparr>"

text \<open>The contents and the effect of \<open>O_TRUNC\<close> for a new entry.\<close>

definition open_data :: "(u64 \<times> byte list) option \<Rightarrow> fdentry \<Rightarrow> 'd kernel \<Rightarrow> (fdentry \<times> 'd kernel) option" where
  "open_data d e k =
     (case d of
        None \<Rightarrow> Some (no_buf e, k)
      | Some (p, bs) \<Rightarrow>
          (if bs \<noteq> [] then Some (e\<lparr>fd_buf_ptr := p, fd_buf := bs, fd_len := length bs\<rparr>, k)
           else do { k1 \<leftarrow> km_free p k; Some (no_buf e, k1) }))"

definition open_trunc :: "u32 \<Rightarrow> fdentry \<Rightarrow> 'd kernel \<Rightarrow> (fdentry \<times> 'd kernel) option" where
  "open_trunc flags e k =
     (if fd_buf_ptr e \<noteq> 0 \<and> flags AND O_TRUNC \<noteq> 0
      then do { k1 \<leftarrow> km_free (fd_buf_ptr e) k; Some (no_buf e, k1) } else Some (e, k))"

definition open_entry ::
  "boot_env \<Rightarrow> u64 \<Rightarrow> nat \<Rightarrow> string \<Rightarrow> u32 \<Rightarrow> (u64 \<times> byte list) option \<Rightarrow> 'd kernel \<Rightarrow> 'd kernel option" where
  "open_entry env tbl i path flags d k = do {
     (pp, k1) \<leftarrow> km_alloc env (length path + 1) k;
     (e1, k2) \<leftarrow> open_data d
       ((km_fdt k1 tbl ! i)\<lparr>fd_type := FD_FILE, fd_path_ptr := pp, fd_path := (if pp \<noteq> 0 then path else [])\<rparr>) k1;
     (e2, k3) \<leftarrow> open_trunc flags e1 k2;
     Some (put_ent tbl i (e2\<lparr>fd_pos := (if flags AND O_APPEND \<noteq> 0 then fd_len e2 else 0), fd_flags := flags\<rparr>) k3)
   }"

definition sys_open ::
  "'d hw \<Rightarrow> 'd other_fs \<Rightarrow> u64 \<Rightarrow> int \<Rightarrow> u64 \<Rightarrow> u64 \<Rightarrow> 'd kernel \<Rightarrow> (u64 \<times> 'd kernel) option" where
  "sys_open E X tbl cnt a b k = do {
     pa \<leftarrow> path_arg a k;
     (case pa of
        None \<Rightarrow> Some (-1, k)
      | Some path \<Rightarrow> do {
          let flags = ucast b;
          (d, k1) \<leftarrow> with_fs (vfs_get_file_alloc E X (Some path)) k;
          k2 \<leftarrow> (if d = None \<and> flags AND O_CREAT \<noteq> 0
                 then map_option snd (with_fs (on_fs (ramfs_create_file E (Some path))) k1) else Some k1);
          let fd = fdtable_alloc_fd tbl cnt k2;
          if fd < 0
          then do { k3 \<leftarrow> (case d of Some (p, _) \<Rightarrow> km_free p k2 | None \<Rightarrow> Some k2); Some (-1, k3) }
          else do { k3 \<leftarrow> open_entry (hw_boot E) tbl (nat fd) path flags d k2; Some (of_int fd, k3) }
        })
   }"

definition close_entry :: "fdentry \<Rightarrow> fdentry" where
  "close_entry e = e\<lparr>fd_type := FD_NONE, fd_path_ptr := 0, fd_path := [], fd_buf_ptr := 0, fd_buf := [], fd_len := 0, fd_pos := 0\<rparr>"

definition sys_close :: "'d hw \<Rightarrow> u64 \<Rightarrow> int \<Rightarrow> u64 \<Rightarrow> 'd kernel \<Rightarrow> (u64 \<times> 'd kernel) option" where
  "sys_close E tbl cnt a k =
     (case fdtable_get tbl cnt (int_arg a) of
        None \<Rightarrow> Some (-1, k)
      | Some i \<Rightarrow>
          let e = km_fdt k tbl ! i
          in do {
            k1 \<leftarrow> (if fd_type e = FD_FILE \<and> fd_path_ptr e \<noteq> 0
                   then map_option snd (with_fs (on_fs (hanafs_write_file E (Some (fd_path e))
                          (if fd_buf_ptr e \<noteq> 0 then Some (fd_buf e) else None) (fd_len e))) k)
                   else Some k);
            k2 \<leftarrow> km_free_if (fd_path_ptr e) k1;
            k3 \<leftarrow> km_free_if (fd_buf_ptr e) k2;
            Some (0, put_ent tbl i (close_entry e) k3)
          })"

definition sys_lseek :: "u64 \<Rightarrow> int \<Rightarrow> u64 \<Rightarrow> u64 \<Rightarrow> u64 \<Rightarrow> 'd kernel \<Rightarrow> (u64 \<times> 'd kernel) option" where
  "sys_lseek tbl cnt a offset c k =
     (case fdtable_get tbl cnt (int_arg a) of
        None \<Rightarrow> Some (-1, k)
      | Some i \<Rightarrow>
          let e = km_fdt k tbl ! i; whence = int_arg c
          in if fd_type e \<noteq> FD_FILE then Some (-1, k)
             else let newpos = (if whence = 0 then sint offset
                                else if whence = 1 then sint (of_nat (fd_pos e) + offset)
                                else if whence = 2 then sint (of_nat (fd_len e) + offset) else 0)
                  in if newpos < 0 then Some (-1, k)
                     else let pos = min (nat newpos) (fd_len e)
                          in Some (of_nat pos, put_ent tbl i (e\<lparr>fd_pos := pos\<rparr>) k))"

text \<open>The copy of an open file \<open>dup2\<close> makes into the entry \<open>n\<close>; the pipe is not copied.\<close>

definition dup_entry :: "boot_env \<Rightarrow> fdentry \<Rightarrow> fdentry \<Rightarrow> 'd kernel \<Rightarrow> (fdentry \<times> 'd kernel) option" where
  "dup_entry env o_ent n k = do {
     (n1, k1) \<leftarrow> (if fd_path_ptr o_ent \<noteq> 0 then do {
           (pp, k1) \<leftarrow> km_alloc env (length (fd_path o_ent) + 1) k;
           if pp = 0 then None else Some (n\<lparr>fd_path_ptr := pp, fd_path := fd_path o_ent\<rparr>, k1)
         } else Some (n, k));
     (n2, k2) \<leftarrow> (if fd_buf_ptr o_ent \<noteq> 0 \<and> 0 < fd_len o_ent then do {
           (bp, k2) \<leftarrow> km_alloc env (fd_len o_ent) k1;
           if bp = 0 then None
           else Some (n1\<lparr>fd_buf_ptr := bp, fd_buf := take (fd_len o_ent) (fd_buf o_ent), fd_len := fd_len o_ent\<rparr>, k2)
         } else Some (n1, k1));
     Some (n2\<lparr>fd_pos := fd_pos o_ent, fd_flags := fd_flags o_ent, fd_type := fd_type o_ent\<rparr>, k2)
   }"

definition sys_dup2 :: "boot_env \<Rightarrow> u64 \<Rightarrow> int \<Rightarrow> u64 \<Rightarrow> u64 \<Rightarrow> 'd kernel \<Rightarrow> (u64 \<times> 'd kernel) option" where
  "sys_dup2 env tbl cnt a b k =
     (let oldfd = int_arg a; newfd = int_arg b
      in if oldfd = newfd then Some (of_int newfd, k)
         else (case fdtable_get tbl cnt oldfd of
                 None \<Rightarrow> Some (-1, k)
               | Some i \<Rightarrow>
                   let o_ent = km_fdt k tbl ! i
                   in if fd_type o_ent = FD_NONE then Some (-1, k)
                      else (case fdtable_get tbl cnt newfd of
                              None \<Rightarrow> None
                            | Some j \<Rightarrow>
                                let n = km_fdt k tbl ! j
                                in do {
                                  k1 \<leftarrow> (if fd_type n \<noteq> FD_NONE
                                         then do { k0 \<leftarrow> km_free_if (fd_path_ptr n) k; km_free_if (fd_buf_ptr n) k0 } else Some k);
                                  (n', k2) \<leftarrow> dup_entry env o_ent (if fd_type n \<noteq> FD_NONE then close_entry n else n) k1;
                                  Some (of_int newfd, put_ent tbl j n' k2)
                                })))"

definition sizeof_PipeObj :: nat where
  "sizeof_PipeObj = 40"

definition sys_pipe :: "boot_env \<Rightarrow> u64 \<Rightarrow> int \<Rightarrow> u64 \<Rightarrow> 'd kernel \<Rightarrow> (u64 \<times> 'd kernel) option" where
  "sys_pipe env tbl cnt a k =
     (if a = 0 then Some (-1, k)
      else let rd = fdtable_alloc_fd tbl cnt k; wr = fdtable_alloc_fd tbl cnt k
           in if rd < 0 \<or> wr < 0 then Some (-1, k)
              else do {
                (p, k1) \<leftarrow> km_alloc env sizeof_PipeObj k;
                if p = 0 then None
                else do {
                  (bp, k2) \<leftarrow> km_alloc env 4096 k1;
                  let k3 = k2\<lparr>k_pipes := (k_pipes k2)(p := \<lparr>pi_buf_ptr = bp, pi_buf = replicate 4096 0, pi_cap = 4096,
                             pi_rpos = 0, pi_wpos = 0, pi_refs = 2\<rparr>)\<rparr>;
                  let k4 = put_ent tbl (nat rd) ((km_fdt k3 tbl ! nat rd)\<lparr>fd_type := FD_PIPE_READ, fd_pipe := p\<rparr>) k3;
                  let k5 = put_ent tbl (nat wr) ((km_fdt k4 tbl ! nat wr)\<lparr>fd_type := FD_PIPE_WRITE, fd_pipe := p\<rparr>) k4;
                  Some (0, k5\<lparr>k_mem := poke a (bytes32 (of_int rd) @ bytes32 (of_int wr)) (k_mem k5)\<rparr>)
                }
              })"

section \<open>Processes\<close>

definition kill_current :: "'d kernel \<Rightarrow> 'd kernel" where
  "kill_current k =
     (if current_task k \<noteq> 0 then upd_task (current_task k) (\<lambda>x. x\<lparr>t_state := TASK_DEAD\<rparr>) k else k)"

definition sys_execve :: "'d hw \<Rightarrow> 'd other_fs \<Rightarrow> sched_env \<Rightarrow> u64 \<Rightarrow> 'd kernel \<Rightarrow> (u64 \<times> 'd kernel) option" where
  "sys_execve E X se a k = do {
     pa \<leftarrow> path_arg a k;
     (case pa of
        None \<Rightarrow> Some (-1, k)
      | Some path \<Rightarrow> do {
          (d, k1) \<leftarrow> with_fs (vfs_get_file_alloc E X (Some path)) k;
          (case d of
             None \<Rightarrow> Some (-1, k1)
           | Some (p, bs) \<Rightarrow>
               (if bs = [] then do { k2 \<leftarrow> km_free p k1; Some (-1, k2) }
                else do {
                  let f = (\<lambda>o'. if unat o' < length bs then bs ! unat o' else k_mem k1 (p + o'));
                  let (entry, bp, m) = elf64_load_from_memory (hw_boot E) (Some f) (of_nat (length bs))
                        (bump_ptr (km_heap k1)) (k_mem k1);
                  k2 \<leftarrow> km_free p (k1\<lparr>k_mem := m, km_heap := (km_heap k1)\<lparr>bump_ptr := bp\<rparr>\<rparr>);
                  if entry = 0 then Some (-1, k2)
                  else do {
                    (pid, k3) \<leftarrow> create_user_task se entry 65536 k2;
                    if pid = 0 then Some (-1, k3)
                    else do { (_, k4) \<leftarrow> schedule_next (kill_current k3); Some (-1, k4) }
                  }
                }))
        })
   }"

definition sys_stat :: "'d hw \<Rightarrow> u64 \<Rightarrow> u64 \<Rightarrow> 'd kernel \<Rightarrow> (u64 \<times> 'd kernel) option" where
  "sys_stat E a b k = do {
     pa \<leftarrow> path_arg a k;
     (case pa of
        None \<Rightarrow> Some (-1, k)
      | Some path \<Rightarrow>
          (if b = 0 then Some (-1, k)
           else do {
             ((r, s), k1) \<leftarrow> with_fs (on_fs (\<lambda>fs. map_option (\<lambda>(r, s, fs'). ((r, s), fs')) (hanafs_stat E (Some path) fs))) k;
             Some (if r = 0 then 0 else -1, case s of None \<Rightarrow> k1 | Some x \<Rightarrow> k1\<lparr>k_stats := (k_stats k1)(b := x)\<rparr>)
           }))
   }"

definition sys_fstat :: "'d hw \<Rightarrow> u64 \<Rightarrow> int \<Rightarrow> u64 \<Rightarrow> u64 \<Rightarrow> 'd kernel \<Rightarrow> (u64 \<times> 'd kernel) option" where
  "sys_fstat E tbl cnt a b k =
     (case fdtable_get tbl cnt (int_arg a) of
        None \<Rightarrow> Some (-1, k)
      | Some i \<Rightarrow>
          let e = km_fdt k tbl ! i
          in if b = 0 then Some (-1, k)
             else if fd_type e = FD_FILE \<and> fd_path_ptr e \<noteq> 0
             then do {
               ((r, s), k1) \<leftarrow> with_fs (on_fs (\<lambda>fs. map_option (\<lambda>(r, s, fs'). ((r, s), fs')) (hanafs_stat E (Some (fd_path e)) fs))) k;
               Some (if r = 0 then 0 else -1, case s of None \<Rightarrow> k1 | Some x \<Rightarrow> k1\<lparr>k_stats := (k_stats k1)(b := x)\<rparr>)
             }
             else Some (0, k\<lparr>k_stats := (k_stats k)(b :=
                    \<lparr>st_size = fd_len e, st_nlink = 0, st_mode = (if fd_type e = FD_TTY then 0x2000 else 0)\<rparr>)\<rparr>))"

definition sys_exit :: "u64 \<Rightarrow> 'd kernel \<Rightarrow> (u64 \<times> 'd kernel) option" where
  "sys_exit a k = do {
     (_, k1) \<leftarrow> schedule_next (kill_current
       (if current_task k \<noteq> 0 then upd_task (current_task k) (\<lambda>x. x\<lparr>exit_status := int_arg a\<rparr>) k else k));
     Some (0, k1)
   }"

text \<open>\<open>others\<close> is what the other tasks do until the caller runs again.\<close>

partial_function (option) wait_dead :: "('d kernel \<Rightarrow> 'd kernel) \<Rightarrow> u64 \<Rightarrow> 'd kernel \<Rightarrow> 'd kernel option" where
  "wait_dead others t k =
     (if t_state (sc_tasks k t) = TASK_DEAD then Some k
      else Option.bind (sched_yield k) (\<lambda>(switched, k1). wait_dead others t (if switched then others k1 else k1)))"

definition sys_waitpid :: "('d kernel \<Rightarrow> 'd kernel) \<Rightarrow> u64 \<Rightarrow> 'd kernel \<Rightarrow> (u64 \<times> 'd kernel) option" where
  "sys_waitpid others a k = do {
     t \<leftarrow> find_task_by_pid (int_arg a) k;
     if t = 0 then Some (-1, k) else do { k1 \<leftarrow> wait_dead others t k; Some (of_int (int_arg a), k1) }
   }"

definition sys_path_op ::
  "(string \<Rightarrow> 'd hanafs \<Rightarrow> (int \<times> 'd hanafs) option) \<Rightarrow> u64 \<Rightarrow> 'd kernel \<Rightarrow> (u64 \<times> 'd kernel) option" where
  "sys_path_op f a k = do {
     pa \<leftarrow> path_arg a k;
     (case pa of
        None \<Rightarrow> Some (-1, k)
      | Some path \<Rightarrow> do { (r, k1) \<leftarrow> with_fs (on_fs (f path)) k; Some (if r = 0 then 0 else -1, k1) })
   }"

section \<open>The dispatcher\<close>

definition syscall_dispatch ::
  "'d hw \<Rightarrow> 'd other_fs \<Rightarrow> sched_env \<Rightarrow> ('d kernel \<Rightarrow> 'd kernel) \<Rightarrow> u64 \<Rightarrow> u64 \<Rightarrow> u64 \<Rightarrow> u64 \<Rightarrow> 'd kernel \<Rightarrow> (u64 \<times> 'd kernel) option" where
  "syscall_dispatch E X se others num a b c k =
     (let cur = current_task k; tbl = t_fds (sc_tasks k cur); cnt = t_fd_count (sc_tasks k cur)
      in if cur = 0 \<or> tbl = 0 then Some (-1, k)
         else if num = 1 then sys_write (hw_boot E) tbl cnt a b c k
         else if num = 0 then sys_read tbl cnt a b c k
         else if num = 2 then sys_open E X tbl cnt a b k
         else if num = 59 then sys_execve E X se a k
         else if num = 3 then sys_close E tbl cnt a k
         else if num = 8 then sys_lseek tbl cnt a b c k
         else if num = 33 then sys_dup2 (hw_boot E) tbl cnt a b k
         else if num = 22 then sys_pipe (hw_boot E) tbl cnt a k
         else if num = 4 then sys_stat E a b k
         else if num = 5 then sys_fstat E tbl cnt a b k
         else if num = 60 then sys_exit a k
         else if num = 61 \<or> num = 20 then sys_waitpid others a k
         else if num = 83 then sys_path_op (\<lambda>p. hanafs_make_dir E (Some p)) a k
         else if num = 84 then sys_path_op (\<lambda>p. hanafs_remove_dir E (Some p)) a k
         else if num = 87 then sys_path_op (\<lambda>p. hanafs_unlink E (Some p)) a k
         else Some (-1, k))"

section \<open>Open files\<close>

lemma put_ent_simps [simp]:
  "km_fdt (put_ent tbl i e k) = (km_fdt k)(tbl := (km_fdt k tbl)[i := e])" "km_heap (put_ent tbl i e k) = km_heap k"
  by (simp_all add: put_ent_def)

lemma put_ent_kernel [simp]:
  "k_mem (put_ent tbl i e k) = k_mem k" "k_pipes (put_ent tbl i e k) = k_pipes k"
  by (simp_all add: put_ent_def fdt_put_def)

lemma length_bytes_in [simp]: "length (bytes_in m a n) = n"
  by (simp add: bytes_in_def)

lemma poke_at: "length bs \<le> 2 ^ 64 \<Longrightarrow> poke a bs m x = (if unat (x - a) < length bs then bs ! unat (x - a) else m x)"
  unfolding poke_def by (rule write_run)

lemma bytes_in_poke: "length bs < 2 ^ 64 \<Longrightarrow> bytes_in (poke a bs m) a (length bs) = bs"
  by (rule nth_equalityI) (simp_all add: bytes_in_def poke_at unat_of_nat)

text \<open>The entry of an open file, seen as its contents and a position.\<close>

definition file_ok :: "u64 set \<Rightarrow> fdentry \<Rightarrow> bool" where
  "file_ok A e \<longleftrightarrow> fd_type e = FD_FILE \<and> fd_len e = length (fd_buf e) \<and> fd_pos e \<le> fd_len e \<and>
     (fd_buf_ptr e = 0 \<and> fd_buf e = [] \<or> fd_buf_ptr e \<in> A)"

definition overwrite :: "nat \<Rightarrow> byte list \<Rightarrow> byte list \<Rightarrow> byte list" where
  "overwrite pos bs old = take pos old @ bs @ drop (pos + length bs) old"

lemma grow_buf_room:
  assumes room: "heap_room env S A (km_heap k)" "0 \<notin> A" "room_cost n \<le> S" and e: "file_ok A e"
  obtains e1 h1 A1 where "grow_buf env n e k = Some (True, e1, k\<lparr>km_heap := h1\<rparr>)" "file_ok A1 e1" "fd_pos e1 = fd_pos e"
    "fd_buf e1 = fd_buf e @ replicate (n - length (fd_buf e)) 0" "heap_room env (S - room_cost n) A1 h1" "0 \<notin> A1"
proof (cases "fd_len e < n")
  case True
  then have n: "0 < n" by simp
  obtain p h where p: "kmalloc env (of_nat n) (km_heap k) = Some (p, h)" "p \<noteq> 0" "p \<notin> A"
    "heap_room env (S - room_cost n) (insert p A) h"
    using rm.alloc_room [OF room(1) n room(3)] by blast
  have al: "km_alloc env n k = Some (p, k\<lparr>km_heap := h\<rparr>)" using p(1) by (simp add: km_alloc_def)
  let ?e = "e\<lparr>fd_buf_ptr := p, fd_buf := take (fd_len e) (fd_buf e) @ replicate (n - fd_len e) 0, fd_len := n\<rparr>"
  have len: "fd_len e = length (fd_buf e)" "fd_pos e \<le> fd_len e" "fd_type e = FD_FILE" using e by (auto simp: file_ok_def)
  show ?thesis
  proof (cases "fd_buf_ptr e = 0")
    case z: True
    have "grow_buf env n e k = Some (True, ?e, k\<lparr>km_heap := h\<rparr>)" using True al p(2) z by (simp add: grow_buf_def km_free_if_def)
    then show ?thesis
      by (rule that [of _ _ "insert p A"]) (use p(2,4) room(2) len True in \<open>auto simp: file_ok_def\<close>)
  next
    case nz: False
    then have "fd_buf_ptr e \<in> insert p A" using e by (auto simp: file_ok_def)
    then obtain h2 where f: "kfree (fd_buf_ptr e) h = Some h2" "heap_room env (S - room_cost n) (insert p A - {fd_buf_ptr e}) h2"
      using rm.dealloc_room [OF p(4)] nz by blast
    have ne: "p \<noteq> fd_buf_ptr e" using p(3) e nz by (auto simp: file_ok_def)
    have "grow_buf env n e k = Some (True, ?e, k\<lparr>km_heap := h2\<rparr>)"
      using True al p(2) nz f(1) by (simp add: grow_buf_def km_free_if_def km_free_def)
    then show ?thesis
      by (rule that [of _ _ "insert p A - {fd_buf_ptr e}"]) (use p(2) f(2) room(2) len True ne in \<open>auto simp: file_ok_def\<close>)
  qed
next
  case False
  have "heap_room env (S - room_cost n) A (km_heap k)" by (rule heap_room_mono [OF room(1)]) simp
  with False e room(2) show ?thesis
    by (intro that [of e "km_heap k" A]) (auto simp: grow_buf_def file_ok_def)
qed

lemma overwrite_grown:
  assumes "pos \<le> length old"
  shows "take pos (old @ replicate (pos + length bs - length old) z) @ bs @
      drop (pos + length bs) (old @ replicate (pos + length bs - length old) z) = overwrite pos bs old"
  using assms by (simp add: overwrite_def)

lemma overwrite_length: "pos \<le> length old \<Longrightarrow> length (overwrite pos bs old) = max (length old) (pos + length bs)"
  by (simp add: overwrite_def)

lemma overwrite_read: "pos \<le> length old \<Longrightarrow> take (length bs) (drop pos (overwrite pos bs old)) = bs"
  by (simp add: overwrite_def)

lemma write_fd_room:
  assumes e: "e = km_fdt k tbl ! i" "file_ok A e" and i: "i < length (km_fdt k tbl)"
    and room: "heap_room env S A (km_heap k)" "0 \<notin> A" "room_cost (fd_pos e + unat count) \<le> S"
  obtains e' k' A' where "write_file_fd env tbl i buf count k = Some (count, k')" "km_fdt k' = (km_fdt k)(tbl := (km_fdt k tbl)[i := e'])"
    "file_ok A' e'" "fd_buf e' = overwrite (fd_pos e) (bytes_in (k_mem k) buf (unat count)) (fd_buf e)"
    "fd_pos e' = fd_pos e + unat count" "heap_room env (S - room_cost (fd_pos e + unat count)) A' (km_heap k')" "0 \<notin> A'"
    "k_mem k' = k_mem k"
proof -
  let ?n = "fd_pos e + unat count" and ?bs = "bytes_in (k_mem k) buf (unat count)"
  have "?n < 2 ^ 64" using room(3) heap_room_bound [OF room(1)] by (simp add: room_cost_def)
  then have u: "unat (of_nat (fd_pos e) + count) = ?n" by (subst unat_add_nowrap) (simp_all add: unat_of_nat)
  obtain e1 h A1 where g: "grow_buf env ?n e k = Some (True, e1, k\<lparr>km_heap := h\<rparr>)" "file_ok A1 e1" "fd_pos e1 = fd_pos e"
    "fd_buf e1 = fd_buf e @ replicate (?n - length (fd_buf e)) 0" "heap_room env (S - room_cost ?n) A1 h" "0 \<notin> A1"
    by (rule grow_buf_room [OF room e(2)])
  let ?e' = "e1\<lparr>fd_buf := overwrite (fd_pos e) ?bs (fd_buf e), fd_pos := ?n\<rparr>"
  have pos: "fd_pos e \<le> length (fd_buf e)" using e(2) by (simp add: file_ok_def)
  have "\<not> length (fd_buf e1) < ?n" using g(4) by simp
  moreover have "take (fd_pos e) (fd_buf e1) @ ?bs @ drop ?n (fd_buf e1) = overwrite (fd_pos e) ?bs (fd_buf e)"
    using overwrite_grown [OF pos, of ?bs 0] g(4) by simp
  ultimately have w: "write_file_fd env tbl i buf count k = Some (count, put_ent tbl i ?e' (k\<lparr>km_heap := h\<rparr>))"
    using g(1,3) u unfolding write_file_fd_def Let_def e(1) [symmetric] by simp
  have ok': "file_ok A1 ?e'"
    using g(2,4) pos overwrite_length [OF pos, of ?bs] by (auto simp: file_ok_def max_def)
  show ?thesis by (rule that [OF w _ ok' _ _ _ g(6)]) (use g(5) in simp_all)
qed

lemma int_arg_of_nat: "j < 2 ^ 31 \<Longrightarrow> int_arg (of_nat j) = int j"
  by (simp add: int_arg_def unsigned_of_nat signed_of_nat take_bit_nat_eq_self signed_take_bit_int_eq_self)

lemma fdtable_get_ok: "tbl \<noteq> 0 \<Longrightarrow> int_arg a = int i \<Longrightarrow> int i < cnt \<Longrightarrow> fdtable_get tbl cnt (int_arg a) = Some i"
  by (simp add: fdtable_get_def)

lemma lseek_file:
  assumes fd: "fdtable_get tbl cnt (int_arg a) = Some i" and e: "e = km_fdt k tbl ! i" "file_ok A e"
    and q: "q \<le> length (fd_buf e)" "q < 2 ^ 63"
  shows "sys_lseek tbl cnt a (of_nat q) 0 k = Some (of_nat q, put_ent tbl i (e\<lparr>fd_pos := q\<rparr>) k)"
proof -
  have "sint (of_nat q :: u64) = int q" using q(2) by (simp add: sint_uint uint_nat unat_of_nat signed_take_bit_int_eq_self)
  moreover have "int_arg 0 = 0" by (simp add: int_arg_def)
  moreover have "min q (fd_len e) = q" using e(2) q(1) by (simp add: file_ok_def)
  ultimately show ?thesis
    using e(2) unfolding sys_lseek_def fd option.case Let_def e(1) [symmetric] by (simp add: file_ok_def)
qed

lemma read_file:
  assumes e: "e = km_fdt k tbl ! i" "file_ok A e" and n: "fd_pos e + unat count \<le> length (fd_buf e)" and buf: "buf \<noteq> 0"
  shows "\<exists>k'. read_file_fd tbl i buf count k = Some (count, k') \<and> km_fdt k' = (km_fdt k)(tbl := (km_fdt k tbl)[i := e\<lparr>fd_pos := fd_pos e + unat count\<rparr>]) \<and>
    bytes_in (k_mem k') buf (unat count) = take (unat count) (drop (fd_pos e) (fd_buf e))"
proof -
  let ?n = "unat count" and ?bs = "take (unat count) (drop (fd_pos e) (fd_buf e))"
  have len: "fd_len e = length (fd_buf e)" using e(2) by (simp add: file_ok_def)
  have t: "min (if fd_pos e < fd_len e then fd_len e - fd_pos e else 0) ?n = ?n" using n len by auto
  have l: "length ?bs = ?n" using n by simp
  let ?k1 = "if 0 < ?n \<and> buf \<noteq> 0 then k\<lparr>k_mem := poke buf ?bs (k_mem k)\<rparr> else k"
  have "read_file_fd tbl i buf count k = Some (count, put_ent tbl i (e\<lparr>fd_pos := fd_pos e + ?n\<rparr>) ?k1)"
    using n unfolding read_file_fd_def Let_def e(1) [symmetric] t by simp
  moreover have "bytes_in (k_mem ?k1) buf ?n = ?bs"
    using bytes_in_poke [of ?bs buf "k_mem k", unfolded l] buf unat_lt_u64 [of count] by (cases "?n = 0") (simp_all add: bytes_in_def)
  ultimately show ?thesis by auto
qed

lemma kernel_fs_simps [simp]:
  "hf_heap (kernel_fs k) = km_heap k" "entries (kernel_fs k) = entries (vf_fs (k_vfs k))"
  "kernel_fs (put_ent tbl i e k) = kernel_fs k" "kernel_fs (k\<lparr>km_heap := h\<rparr>) = (kernel_fs k)\<lparr>hf_heap := h\<rparr>"
  by (simp_all add: kernel_fs_def put_ent_def fdt_put_def)

lemma close_file:
  assumes e: "e = km_fdt k tbl ! i" "fd_type e = FD_FILE" "fd_len e = length (fd_buf e)" "fd_buf_ptr e \<noteq> 0"
      "fd_path_ptr e \<notin> {0, fd_buf_ptr e}" "call_ok (fs_call.Write (fd_path e) (fd_buf e))"
    and fd: "fdtable_get tbl cnt (int_arg a) = Some i"
    and inv: "hf_frame E S pay {fd_path_ptr e, fd_buf_ptr e} (kernel_fs k)" "call_cost pay (fs_call.Write (fd_path e) (fd_buf e)) \<le> S"
  obtains k1 where "sys_close E tbl cnt a k = Some (0, k1)" "km_fdt k1 = (km_fdt k)(tbl := (km_fdt k tbl)[i := close_entry e])"
    "hana_map (entries (kernel_fs k1)) = (hana_map (entries (kernel_fs k)))(hana_ipath (fd_path e) \<mapsto> File (fd_buf e))"
    "hf_inv E (S - call_cost pay (fs_call.Write (fd_path e) (fd_buf e))) (pay + call_bytes (fs_call.Write (fd_path e) (fd_buf e))) (kernel_fs k1)"
    "\<And>x. path_arg x k1 = path_arg x k" "\<And>x. find_mount x (k_vfs k1) = find_mount x (k_vfs k)"
proof -
  let ?c = "fs_call.Write (fd_path e) (fd_buf e)"
  have sb: "stored_bytes (Some (fd_buf e)) (length (fd_buf e)) = fd_buf e" by (simp add: stored_bytes_def)
  have ok: "cstring (fd_path e)" "call_data ?c < 2 ^ 32" using e(6) by (simp_all add: call_ok_def)
  obtain fs where w: "hanafs_write_file E (Some (fd_path e)) (Some (fd_buf e)) (fd_len e) (kernel_fs k) = Some (0, fs)"
    "hana_map (entries fs) = (hana_map (entries (kernel_fs k)))(hana_ipath (fd_path e) \<mapsto> File (fd_buf e))"
    "hf_frame E (S - call_cost pay ?c) (pay + call_bytes ?c) {fd_path_ptr e, fd_buf_ptr e} fs"
    using write_file_frame [OF inv(1) ok(1), where buf = "Some (fd_buf e)" and len = "fd_len e" and c = ?c] ok(2) inv(2) e(3) by (auto simp: sb)
  let ?v = "(k_vfs k)\<lparr>vf_fs := fs\<rparr>"
  have wf: "with_fs (on_fs (hanafs_write_file E (Some (fd_path e)) (Some (fd_buf e)) (fd_len e))) k =
      Some (0, k\<lparr>k_vfs := ?v, km_heap := hf_heap fs\<rparr>)"
    by (simp add: with_fs_def on_fs_def w(1))
  obtain h1 where h1: "kfree (fd_path_ptr e) (hf_heap fs) = Some h1"
    "hf_frame E (S - call_cost pay ?c) (pay + call_bytes ?c) ({fd_path_ptr e, fd_buf_ptr e} - {fd_path_ptr e}) (fs\<lparr>hf_heap := h1\<rparr>)"
    by (rule hf_frame_free [OF w(3) insertI1])
  have "fd_buf_ptr e \<in> {fd_path_ptr e, fd_buf_ptr e} - {fd_path_ptr e}" using e(5) by auto
  then obtain h2 where h2: "kfree (fd_buf_ptr e) h1 = Some h2"
    "hf_frame E (S - call_cost pay ?c) (pay + call_bytes ?c) {} (fs\<lparr>hf_heap := h2\<rparr>)"
    by (rule hf_frame_free [OF h1(2)]) (use e(5) in \<open>auto simp: insert_Diff_if\<close>)
  let ?k1 = "put_ent tbl i (close_entry e) (k\<lparr>k_vfs := ?v, km_heap := h2\<rparr>)"
  have c: "sys_close E tbl cnt a k = Some (0, ?k1)"
    using e(2,4,5) h1(1) h2(1) unfolding sys_close_def fd option.case Let_def e(1) [symmetric]
    by (simp add: wf km_free_if_def km_free_def)
  have fs: "kernel_fs ?k1 = fs\<lparr>hf_heap := h2\<rparr>" by (simp add: kernel_fs_def put_ent_def fdt_put_def)
  show ?thesis
    by (rule that [OF c]) (use h2(2) w(2) in \<open>simp_all only: fs hf_frame_empty, simp_all add: put_ent_def fdt_put_def path_arg_def find_mount_def\<close>)
qed

lemma open_file:
  assumes a: "path_arg a k = Some (Some path)" and m: "find_mount path (k_vfs k) = None" and path: "cstring path"
    and inv: "hf_inv E S pay (kernel_fs k)" "call_cost pay (Read path) + room_cost (length path + 1) \<le> S"
    and f: "hana_map (entries (kernel_fs k)) (hana_ipath path) = Some (File bs)" "bs \<noteq> []"
    and fd: "fdtable_alloc_fd tbl cnt k = int j" "j < length (km_fdt k tbl)" and fl: "(ucast b :: u32) AND O_TRUNC = 0"
  shows "\<exists>k2 e. sys_open E X tbl cnt a b k = Some (of_nat j, k2) \<and> km_fdt k2 = (km_fdt k)(tbl := (km_fdt k tbl)[j := e]) \<and>
    fd_type e = FD_FILE \<and> fd_path e = path \<and> fd_buf e = bs \<and> fd_len e = length bs \<and>
    fd_pos e = (if (ucast b :: u32) AND O_APPEND \<noteq> 0 then length bs else 0)"
proof -
  let ?v = "(k_vfs k)\<lparr>vf_fs := kernel_fs k\<rparr>" and ?S = "S - call_cost pay (Read path)"
  have S: "call_cost pay (Read path) \<le> S" "room_cost (length path + 1) \<le> ?S" using inv(2) by simp_all
  have v: "hf_inv E S pay (vf_fs ?v)" "find_mount path ?v = None" "call_ok (Read path)"
    "hana_map (entries (vf_fs ?v)) (hana_ipath path) = Some (File bs)"
    using inv(1) m path f(1) by (simp_all add: find_mount_def call_ok_def)
  obtain q fs where r: "vfs_get_file_alloc E X (Some path) ?v = Some (Some (q, bs), ?v\<lparr>vf_fs := fs\<rparr>)"
    "hf_inv E ?S (pay + call_bytes (Read path)) fs"
    by (rule vfs_read_unmounted [OF v(1-3) S(1) v(4) f(2)])
  let ?k1 = "k\<lparr>k_vfs := (k_vfs k)\<lparr>vf_fs := fs\<rparr>, km_heap := hf_heap fs\<rparr>"
  have w: "with_fs (vfs_get_file_alloc E X (Some path)) k = Some (Some (q, bs), ?k1)"
    by (simp add: with_fs_def r(1))
  obtain A where A: "heap_room (hw_boot E) ?S A (hf_heap fs)" using r(2) by (auto simp: hf_inv_def hf_room_def)
  obtain pp h where p: "kmalloc (hw_boot E) (of_nat (length path + 1)) (hf_heap fs) = Some (pp, h)" "pp \<noteq> 0"
    using rm.alloc_room [OF A _ S(2)] by (metis add_gr_0 zero_less_one)
  have al: "km_alloc (hw_boot E) (length path + 1) ?k1 = Some (pp, ?k1\<lparr>km_heap := h\<rparr>)"
    using p(1) by (simp add: km_alloc_def)
  have fd1: "fdtable_alloc_fd tbl cnt ?k1 = int j" using fd(1) by (auto simp: fdtable_alloc_fd_def split: if_splits)
  let ?e = "(km_fdt k tbl ! j)\<lparr>fd_type := FD_FILE, fd_path_ptr := pp, fd_path := path, fd_buf_ptr := q, fd_buf := bs, fd_len := length bs,
    fd_pos := (if (ucast b :: u32) AND O_APPEND \<noteq> 0 then length bs else 0), fd_flags := ucast b\<rparr>"
  have o: "open_entry (hw_boot E) tbl j path (ucast b) (Some (q, bs)) ?k1 = Some (put_ent tbl j ?e (?k1\<lparr>km_heap := h\<rparr>))"
    unfolding open_entry_def open_data_def open_trunc_def al by (simp add: p(2) f(2) fl)
  have "sys_open E X tbl cnt a b k = Some (of_nat j, put_ent tbl j ?e (?k1\<lparr>km_heap := h\<rparr>))"
    unfolding sys_open_def a Let_def by (simp add: w fd1 o)
  then show ?thesis by (intro exI conjI) (assumption | simp)+
qed

section \<open>A kernel for the examples\<close>

definition demo_kernel :: "ata ide kernel" where
  "demo_kernel = \<lparr>km_heap = heap_init demo_env 0x100000 heap_boot, km_fdt = \<lambda>_. stdio_fds[3 := fd_none\<lparr>fd_type := FD_FILE\<rparr>],
     sc_tasks = \<lambda>_. task_zero, sc_words = \<lambda>_. 0, task_list = 0, current_task = 0, next_pid = 1, k_vfs = demo_vfs,
     k_tty = tty_boot, k_pipes = \<lambda>_. \<lparr>pi_buf_ptr = 0, pi_buf = [], pi_cap = 0, pi_rpos = 0, pi_wpos = 0, pi_refs = 0\<rparr>,
     k_mem = \<lambda>a. ucast a, k_stats = \<lambda>_. \<lparr>st_size = 0, st_nlink = 0, st_mode = 0\<rparr>\<rparr>"

lemma demo_kernel_room: "heap_room demo_env 1048576 {} (km_heap demo_kernel)"
proof -
  have "boot_ok demo_env 0" using demo_boot_ok by (auto simp: boot_ok_def bump_ok_def Let_def)
  then show ?thesis unfolding demo_kernel_def by (simp add: heap_init_room)
qed

section \<open>Properties\<close>

text \<open>C9. What is written to an open file is read back: with room in the heap, writing \<open>count\<close> bytes
  at the position of the descriptor (inside of the file or at its end), seeking back and
  reading \<open>count\<close> bytes into another buffer returns \<open>count\<close> twice and leaves in the buffer the
  bytes written; the file holds them in place of what was there, and is extended when they go
  past its end.\<close>

theorem file_write_seek_read:
  assumes tbl: "tbl \<noteq> 0" and fd: "int_arg a = int i" "int i < cnt" "i < length (km_fdt k tbl)"
    and e: "e = km_fdt k tbl ! i" "file_ok A e" and room: "heap_room env S A (km_heap k)" "0 \<notin> A" "room_cost (fd_pos e + unat count) \<le> S"
    and buf: "buf2 \<noteq> 0" and pos: "fd_pos e < 2 ^ 63"
  shows "\<exists>k1 k2 k3 e'. sys_write env tbl cnt a buf count k = Some (count, k1) \<and>
    sys_lseek tbl cnt a (of_nat (fd_pos e)) 0 k1 = Some (of_nat (fd_pos e), k2) \<and>
    sys_read tbl cnt a buf2 count k2 = Some (count, k3) \<and>
    bytes_in (k_mem k3) buf2 (unat count) = bytes_in (k_mem k) buf (unat count) \<and>
    km_fdt k3 = (km_fdt k)(tbl := (km_fdt k tbl)[i := e']) \<and>
    fd_buf e' = overwrite (fd_pos e) (bytes_in (k_mem k) buf (unat count)) (fd_buf e) \<and> fd_pos e' = fd_pos e + unat count"
proof -
  let ?bs = "bytes_in (k_mem k) buf (unat count)"
  have g: "fdtable_get tbl cnt (int_arg a) = Some i" by (rule fdtable_get_ok [OF tbl fd(1,2)])
  have ft: "fd_type e = FD_FILE" "fd_pos e \<le> length (fd_buf e)" using e(2) by (auto simp: file_ok_def)
  obtain e1 k1 A1 where w: "write_file_fd env tbl i buf count k = Some (count, k1)" "km_fdt k1 = (km_fdt k)(tbl := (km_fdt k tbl)[i := e1])"
    "file_ok A1 e1" "fd_buf e1 = overwrite (fd_pos e) ?bs (fd_buf e)" "fd_pos e1 = fd_pos e + unat count"
    by (rule write_fd_room [OF e fd(3) room])
  have sw: "sys_write env tbl cnt a buf count k = Some (count, k1)"
    using w(1) ft(1) unfolding sys_write_def g option.case Let_def e(1) [symmetric] by simp
  have e1: "km_fdt k1 tbl ! i = e1" using w(2) fd(3) by simp
  have len: "length (fd_buf e1) = max (length (fd_buf e)) (fd_pos e + unat count)"
    using overwrite_length [OF ft(2), of ?bs] w(4) by simp
  have sl: "sys_lseek tbl cnt a (of_nat (fd_pos e)) 0 k1 = Some (of_nat (fd_pos e), put_ent tbl i (e1\<lparr>fd_pos := fd_pos e\<rparr>) k1)"
    by (rule lseek_file [OF g e1 [symmetric] w(3) _ pos]) (use len in simp)
  let ?k2 = "put_ent tbl i (e1\<lparr>fd_pos := fd_pos e\<rparr>) k1" and ?e2 = "e1\<lparr>fd_pos := fd_pos e\<rparr>"
  have e2: "?e2 = km_fdt ?k2 tbl ! i" "file_ok A1 ?e2" "fd_pos ?e2 + unat count \<le> length (fd_buf ?e2)"
    using w(2,3) fd(3) len by (auto simp: file_ok_def)
  obtain k3 where r: "read_file_fd tbl i buf2 count ?k2 = Some (count, k3)"
    "km_fdt k3 = (km_fdt ?k2)(tbl := (km_fdt ?k2 tbl)[i := ?e2\<lparr>fd_pos := fd_pos ?e2 + unat count\<rparr>])"
    "bytes_in (k_mem k3) buf2 (unat count) = take (unat count) (drop (fd_pos ?e2) (fd_buf ?e2))"
    using read_file [OF e2 buf] by blast
  have sr: "sys_read tbl cnt a buf2 count ?k2 = Some (count, k3)"
    using r(1) e2(2) unfolding sys_read_def g option.case Let_def e2(1) [symmetric] by (simp add: file_ok_def)
  have "bytes_in (k_mem k3) buf2 (unat count) = ?bs"
    using r(3) overwrite_read [OF ft(2), of ?bs] w(4) by simp
  moreover have "km_fdt k3 = (km_fdt k)(tbl := (km_fdt k tbl)[i := ?e2\<lparr>fd_pos := fd_pos e + unat count\<rparr>])"
    using r(2) w(2) by simp
  ultimately show ?thesis using sw sl sr w(4) by (intro exI conjI) (assumption | simp)+
qed

theorem file_write_seek_read_witness:
  "\<exists>k1 k2 k3. sys_write demo_env 1 64 3 5 3 demo_kernel = Some (3, k1) \<and> sys_lseek 1 64 3 0 0 k1 = Some (0, k2) \<and>
     sys_read 1 64 3 100 3 k2 = Some (3, k3) \<and> bytes_in (k_mem k3) 100 3 = [5, 6, 7]"
proof -
  let ?e = "km_fdt demo_kernel 1 ! 3"
  have k: "int_arg 3 = int 3" "int 3 < 64" "3 < length (km_fdt demo_kernel 1)"
    by (simp_all add: int_arg_def demo_kernel_def stdio_fds_def fd_stdio_def)
  have e: "file_ok {} ?e" "fd_pos ?e = 0" by (simp_all add: demo_kernel_def stdio_fds_def fd_stdio_def file_ok_def fd_none_def)
  have s: "room_cost (fd_pos ?e + unat (3 :: u64)) \<le> 1048576" "fd_pos ?e < 2 ^ 63" using e(2) by (simp_all add: room_cost_def)
  have b: "bytes_in (k_mem demo_kernel) 5 3 = [5, 6, 7]" by (simp add: bytes_in_def demo_kernel_def upt_rec)
  show ?thesis
    using file_write_seek_read [OF _ k refl e(1) demo_kernel_room _ s(1), of 100 5] s(2) b e(2) by fastforce
qed


definition demo_open :: "ata ide kernel" where
  "demo_open = (let h = km_heap demo_kernel in
     case kmalloc demo_env 3 h of Some (p, h1) \<Rightarrow>
       (case kmalloc demo_env 2 h1 of Some (q, h2) \<Rightarrow>
          demo_kernel\<lparr>km_heap := h2, k_mem := poke 0x1000 [0x2F, 0x61, 0] (\<lambda>_. 0),
            km_fdt := \<lambda>_. stdio_fds[3 := fd_none\<lparr>fd_type := FD_FILE, fd_path_ptr := p, fd_path := ''/a'', fd_buf_ptr := q,
              fd_buf := [1, 2], fd_len := 2\<rparr>]\<rparr>
        | None \<Rightarrow> demo_kernel)
     | None \<Rightarrow> demo_kernel)"

lemma demo_open_frame:
  obtains p q where "km_fdt demo_open 1 ! 3 = fd_none\<lparr>fd_type := FD_FILE, fd_path_ptr := p, fd_path := ''/a'', fd_buf_ptr := q, fd_buf := [1, 2], fd_len := 2\<rparr>"
    "length (km_fdt demo_open 1) = 64" "p \<noteq> 0" "q \<noteq> 0" "p \<noteq> q" "hf_frame (ide_hw demo_env) 1048000 0 {p, q} (kernel_fs demo_open)"
    "k_mem demo_open = poke 0x1000 [0x2F, 0x61, 0] (\<lambda>_. 0)" "k_vfs demo_open = demo_vfs"
proof -
  obtain p h1 where p: "kmalloc demo_env 3 (km_heap demo_kernel) = Some (p, h1)" "p \<noteq> 0" "heap_room demo_env (1048576 - room_cost 3) {p} h1"
    using rm.alloc_room [OF demo_kernel_room, of 3] by (auto simp: room_cost_def)
  obtain q h2 where q: "kmalloc demo_env 2 h1 = Some (q, h2)" "q \<noteq> 0" "q \<noteq> p"
    "heap_room demo_env (1048576 - room_cost 3 - room_cost 2) {q, p} h2"
    using rm.alloc_room [OF p(3), of 2] by (auto simp: room_cost_def)
  have d: "demo_open = demo_kernel\<lparr>km_heap := h2, k_mem := poke 0x1000 [0x2F, 0x61, 0] (\<lambda>_. 0),
      km_fdt := \<lambda>_. stdio_fds[3 := fd_none\<lparr>fd_type := FD_FILE, fd_path_ptr := p, fd_path := ''/a'', fd_buf_ptr := q,
        fd_buf := [1, 2], fd_len := 2\<rparr>]\<rparr>"
    unfolding demo_open_def Let_def p(1) option.case prod.case q(1) by (rule refl)
  have "hf_frame (ide_hw demo_env) 1048000 0 {p, q} (kernel_fs demo_open)"
    by (rule hf_frameI [of _ "1048576 - room_cost 3 - room_cost 2" "{q, p}"])
      (use p(2) q(2,4) in \<open>simp_all add: d hf_room_def ide_hw_def demo_kernel_def demo_vfs_def demo_fs_def entries_ok_def room_cost_def\<close>)
  then show ?thesis
    by (rule that [rotated 5]) (use p(2) q(2,3) in \<open>simp_all add: d demo_kernel_def stdio_fds_def fd_stdio_def\<close>)
qed





lemma demo_kernel_task:
  obtains k A xs where "sched_reach demo_se demo_kernel 2 k" "sys_inv demo_se task_cost A xs k" "sched_getpid k \<noteq> 1"
    "sched_getpid k \<in> {0..<4}"
proof -
  have "sched_ready demo_se 3 demo_kernel"
    using demo_ready by (simp add: sched_ready_def demo_kernel_def demo_sched_def)
  then obtain k0 A xs where k0: "sched_reach demo_se demo_kernel 2 k0" "sys_inv demo_se task_cost A xs k0" "length xs = 3"
    "\<forall>t\<in>set xs. runnable (sc_tasks k0 t)" "current_task k0 = hd xs" "next_pid k0 = 4"
    by (rule demo_run_from)
  have d: "distinct xs" "\<forall>t\<in>set xs. alive k0 t" "pid (sc_tasks k0 (hd xs)) = 1" "inj_on (\<lambda>t. pid (sc_tasks k0 t)) (set xs)"
    using k0(2,4) runnable_alive by (auto simp: sys_inv_def sc_inv_def ring_def distinct_map)
  obtain m t u where xs: "xs = [m, t, u]" using k0(3) by (auto simp: numeral_eq_Suc length_Suc_conv)
  obtain nx k where y: "sched_yield k0 = Some (True, k)" "sched_picks k0 xs = Some nx" "current_task k = nx"
    "sys_inv demo_se task_cost (A - dead_blocks k0 xs) (filter (alive k0) xs) k"
    "\<forall>t. pid (sc_tasks k t) = pid (sc_tasks k0 t)" "next_pid k = next_pid k0"
    by (rule yield_sys [OF k0(2)])
  have "sched_order m xs = [t, u, m]" using sched_order_split [of m "[]" "[t, u]"] by (simp add: xs)
  then have "nx = t" using y(2) d(2) k0(4,5) by (simp add: sched_picks_def xs)
  then have "pid (sc_tasks k (current_task k)) \<noteq> 1" "current_task k \<in> set xs"
    using y(3,5) d inj_onD [OF d(4), of t m] by (auto simp: xs)
  moreover have "t \<noteq> 0" using ring_nonnull [of "sc_tasks k0" xs t] k0(2) by (simp add: sys_inv_def sc_inv_def xs)
  ultimately have "sched_getpid k \<noteq> 1" "sched_getpid k \<in> {0..<4}"
    using y(3,5) k0(2,6) \<open>nx = t\<close> by (auto simp: sched_getpid_def sys_inv_def xs)
  then show ?thesis using reach_yield [OF k0(1) y(1)] y(4) by (intro that)
qed


end
