(* ===== verification/Fat32.thy ===== *)
theory Fat32
  imports Vfs Libc
begin

text \<open>
  The FAT32 driver, \<^verbatim>\<open>kernel/filesystem/fat32.cpp\<close>, and the floppy image of
  \<^verbatim>\<open>kernel/filesystem/floppy.cpp\<close>. Their static variables are a record that stands beside the
  disk, in the place the disk has in the state of HanaFS, so that the driver can be put under the
  dispatcher of the VFS. The boot loader's modules are a list of paths and contents, as reached
  through the direct map. A sector buffer is what has been read into it: \<open>None\<close> is a call that
  does not return, a division by zero, or one that depends on bytes of a buffer nothing has been
  read into or runs past its end. A callback that is called once per line is the list of the lines.
  Log output and the progress callback are left out.
\<close>

unbundle bit_operations_syntax

section \<open>Structures and state\<close>

record bpb_fat32 =
  jmpBoot :: "byte list"
  OEMName :: "byte list"
  BytsPerSec :: u16
  SecPerClus :: u8
  RsvdSecCnt :: u16
  NumFATs :: u8
  RootEntCnt :: u16
  TotSec16 :: u16
  Media :: u8
  FATSz16 :: u16
  SecPerTrk :: u16
  NumHeads :: u16
  HiddSec :: u32
  TotSec32 :: u32
  FATSz32 :: u32
  ExtFlags :: u16
  FSVer :: u16
  RootClus :: u32
  FSInfo :: u16
  BkBootSec :: u16
  Reserved :: "byte list"
  DrvNum :: u8
  Reserved1 :: u8
  BootSig :: u8
  VolID :: u32
  VolLab :: "byte list"
  FilSysType :: "byte list"

record 'd fat =
  fat32_ready :: bool
  bpb :: bpb_fat32
  fat_begin_lba :: u32
  cluster_begin_lba :: u32
  sectors_per_cluster :: u32
  bytes_per_sector :: u32
  root_dir_cluster :: u32
  mounted_drive :: int
  mounted_module_name :: string
  module_image :: "byte list option"
  floppy_data :: "byte list option"
  fat_disk :: 'd

text \<open>A path, null for none, and the contents of a module; no list when there was no response.\<close>

type_synonym boot_modules = "(string option \<times> byte list option) list option"

definition at_disk :: "('d \<Rightarrow> 'r \<times> 'd) \<Rightarrow> 'd fat \<Rightarrow> 'r \<times> 'd fat" where
  "at_disk f s = (case f (fat_disk s) of (r, d) \<Rightarrow> (r, s\<lparr>fat_disk := d\<rparr>))"

text \<open>The hardware as the other file systems see it when the driver's variables stand beside the
  disk.\<close>

definition fat_hw :: "'d hw \<Rightarrow> 'd fat hw" where
  "fat_hw E = \<lparr>hw_boot = hw_boot E,
     hw_rd = \<lambda>n s. case hw_rd E n (fat_disk s) of (rc, bs, d) \<Rightarrow> (rc, bs, s\<lparr>fat_disk := d\<rparr>),
     hw_wr = \<lambda>n bs. at_disk (hw_wr E n bs),
     hw_rdd = \<lambda>drv n s. case hw_rdd E drv n (fat_disk s) of (rc, bs, d) \<Rightarrow> (rc, bs, s\<lparr>fat_disk := d\<rparr>),
     hw_count = at_disk (hw_count E)\<rparr>"

section \<open>Sectors\<close>

definition reads_module :: "'d fat \<Rightarrow> bool" where
  "reads_module s \<longleftrightarrow> mounted_drive s = 1 \<and> (case module_image s of None \<Rightarrow> False | Some img \<Rightarrow> img \<noteq> []) \<and> bytes_per_sector s \<noteq> 0"

definition fat32_read_sector :: "'d hw \<Rightarrow> u32 \<Rightarrow> 'd fat \<Rightarrow> int \<times> byte list \<times> 'd fat" where
  "fat32_read_sector E lba s =
     (if reads_module s
      then let off = unat lba * unat (bytes_per_sector s); img = the (module_image s)
           in if off + unat (bytes_per_sector s) \<le> length img
              then (0, take (unat (bytes_per_sector s)) (drop off img), s) else (-1, [], s)
      else hw_rd (fat_hw E) lba s)"

text \<open>A read into a buffer of \<open>cap\<close> bytes: the copy from a module is as long as a sector.\<close>

definition read_buf :: "'d hw \<Rightarrow> u32 \<Rightarrow> u32 \<Rightarrow> 'd fat \<Rightarrow> (int \<times> byte list \<times> 'd fat) option" where
  "read_buf E cap lba s = (if reads_module s \<and> cap < bytes_per_sector s then None else Some (fat32_read_sector E lba s))"

text \<open>The driver of the disk always writes 512 bytes, from the beginning of the buffer.\<close>

definition write_buf :: "'d hw \<Rightarrow> u32 \<Rightarrow> byte list \<Rightarrow> 'd fat \<Rightarrow> (int \<times> 'd fat) option" where
  "write_buf E lba buf s = (if length buf < 512 then None else Some (hw_wr (fat_hw E) lba (take 512 buf) s))"

definition patch :: "nat \<Rightarrow> byte list \<Rightarrow> byte list \<Rightarrow> byte list" where
  "patch off bs buf = take off buf @ bs @ drop (off + length bs) buf"

section \<open>Helpers\<close>

text \<open>The digits at the beginning of a string; no function of the driver calls it.\<close>

definition parse_uint32 :: "string option \<Rightarrow> u32" where
  "parse_uint32 s =
     (case s of None \<Rightarrow> 0
      | Some t \<Rightarrow> foldl (\<lambda>v c. v * 10 + (of_nat (of_char c) - 48)) 0
          (takeWhile (\<lambda>c. 48 \<le> (of_char c :: nat) \<and> (of_char c :: nat) \<le> 57) t))"

definition ends_with :: "string \<Rightarrow> string \<Rightarrow> bool" where
  "ends_with s suffix = (length suffix \<le> length s \<and> drop (length s - length suffix) s = suffix)"

definition occurs :: "string \<Rightarrow> string \<Rightarrow> bool" where
  "occurs pat s = list_ex (\<lambda>i. take (length pat) (drop i s) = pat) [0..<length s + 1]"

definition cluster_to_lba :: "'d fat \<Rightarrow> u32 \<Rightarrow> u32" where
  "cluster_to_lba s cluster = cluster_begin_lba s + (cluster - 2) * sectors_per_cluster s"

definition cluster_lbas :: "'d fat \<Rightarrow> u32 \<Rightarrow> u32 list" where
  "cluster_lbas s cluster = map (\<lambda>i. cluster_to_lba s cluster + of_nat i) [0..<unat (sectors_per_cluster s)]"

definition read_fat_entry :: "'d hw \<Rightarrow> u32 \<Rightarrow> 'd fat \<Rightarrow> (u32 \<times> 'd fat) option" where
  "read_fat_entry E cluster s =
     (let fat_offset = cluster * 4; bps = bytes_per_sector s
      in if bps = 0 then None
         else let fat_sector = fat_begin_lba s + fat_offset div bps; ent = unat (fat_offset mod bps)
              in if 512 < bps then Some (0x0FFFFFF7, s)
                 else do {
                   (rc, sec, s1) \<leftarrow> read_buf E 512 fat_sector s;
                   if rc \<noteq> 0 then Some (0x0FFFFFF7, s1)
                   else if length sec < ent + 4 then None
                   else Some (le32 (sec ! ent) (sec ! (ent + 1)) (sec ! (ent + 2)) (sec ! (ent + 3)) AND 0x0FFFFFFF, s1)
                 })"

primrec write_fat_copies :: "'d hw \<Rightarrow> u32 \<Rightarrow> nat \<Rightarrow> u32 \<Rightarrow> nat list \<Rightarrow> 'd fat \<Rightarrow> (int \<times> 'd fat) option" where
  "write_fat_copies E idx ent val [] s = Some (0, s)"
| "write_fat_copies E idx ent val (i # is) s =
     (let fat_sector = fat_begin_lba s + of_nat i * FATSz32 (bpb s) + idx
      in do {
        (rc, sec, s1) \<leftarrow> read_buf E 4096 fat_sector s;
        if rc \<noteq> 0 then Some (-1, s1)
        else if length sec < ent + 4 then None
        else do {
          (rc2, s2) \<leftarrow> write_buf E fat_sector (patch ent (bytes32 (val AND 0x0FFFFFFF)) sec) s1;
          if rc2 \<noteq> 0 then Some (-1, s2) else write_fat_copies E idx ent val is s2
        }
      })"

definition write_fat_entry :: "'d hw \<Rightarrow> u32 \<Rightarrow> u32 \<Rightarrow> 'd fat \<Rightarrow> (int \<times> 'd fat) option" where
  "write_fat_entry E cluster val s =
     (let fat_offset = cluster * 4; bps = bytes_per_sector s
      in if bps = 0 then Some (-1, s)
         else if FATSz32 (bpb s) = 0 then Some (-1, s)
         else if 4096 < bps then Some (-1, s)
         else write_fat_copies E (fat_offset div bps) (unat (fat_offset mod bps)) val [0..<unat (NumFATs (bpb s))] s)"

primrec free_search :: "'d hw \<Rightarrow> nat list \<Rightarrow> 'd fat \<Rightarrow> (u32 \<times> 'd fat) option" where
  "free_search E [] s = Some (0, s)"
| "free_search E (c # cs) s = do {
     (v, s1) \<leftarrow> read_fat_entry E (of_nat c) s;
     if v = 0 then Some (of_nat c, s1) else free_search E cs s1
   }"

definition find_free_cluster :: "'d hw \<Rightarrow> 'd fat \<Rightarrow> (u32 \<times> 'd fat) option" where
  "find_free_cluster E s =
     (if FATSz32 (bpb s) = 0 \<or> bytes_per_sector s = 0 then Some (0, s)
      else let entries = of_nat (unat (FATSz32 (bpb s)) * unat (bytes_per_sector s) div 4) :: u32
           in free_search E [2..<unat entries] s)"

definition alloc_cluster :: "'d hw \<Rightarrow> 'd fat \<Rightarrow> (u32 \<times> 'd fat) option" where
  "alloc_cluster E s = do {
     (c, s1) \<leftarrow> find_free_cluster E s;
     if c = 0 then Some (0, s1)
     else do { (rc, s2) \<leftarrow> write_fat_entry E c 0x0FFFFFFF s1; Some (if rc \<noteq> 0 then 0 else c, s2) }
   }"

partial_function (option) free_chain_loop :: "'d hw \<Rightarrow> u32 \<Rightarrow> 'd fat \<Rightarrow> 'd fat option" where
  "free_chain_loop E cur s =
     (if 2 \<le> cur \<and> cur < 0x0FFFFFF8
      then Option.bind (read_fat_entry E cur s) (\<lambda>(nx, s1).
             Option.bind (write_fat_entry E cur 0 s1) (\<lambda>(rc, s2).
               if nx = 0 \<or> 0x0FFFFFF8 \<le> nx \<or> nx = cur then Some s2 else free_chain_loop E nx s2))
      else Some s)"

definition free_cluster_chain :: "'d hw \<Rightarrow> u32 \<Rightarrow> 'd fat \<Rightarrow> 'd fat option" where
  "free_cluster_chain E start s = (if start < 2 then Some s else free_chain_loop E start s)"

section \<open>Names\<close>

definition fat_toupper :: "char \<Rightarrow> char" where
  "fat_toupper c = (if 97 \<le> (of_char c :: nat) \<and> (of_char c :: nat) \<le> 122 then char_of (of_char c - 32 :: nat) else c)"

text \<open>The comparison with an entry's eleven bytes of name, which no function of the driver calls.\<close>

definition fat_shortname_cmp :: "byte list \<Rightarrow> string \<Rightarrow> bool" where
  "fat_shortname_cmp entry_name component =
     (let norm_entry = map (fat_toupper \<circ> char_of_byte) (takeWhile (\<lambda>c. c \<noteq> 0 \<and> c \<noteq> 0x20) (take 11 entry_name));
          norm_comp = take 15 (map fat_toupper (filter (\<lambda>c. c \<noteq> CHR ''.'') component))
      in norm_entry = norm_comp)"

definition fat_reconstruct_lfn :: "byte list \<Rightarrow> string option" where
  "fat_reconstruct_lfn dir_entry_raw = None"

definition fat_dir_entry_matches_component :: "byte list \<Rightarrow> string \<Rightarrow> bool \<Rightarrow> bool" where
  "fat_dir_entry_matches_component e component has_lfn =
     (has_lfn \<and> (case fat_reconstruct_lfn e of None \<Rightarrow> False | Some lfn \<Rightarrow> map fat_toupper lfn = map fat_toupper component) \<or>
      fat_shortname_cmp e component)"

text \<open>The eleven bytes of an 8.3 name: the part before the last dot and the part behind it.\<close>

definition format_short_name :: "string \<Rightarrow> byte list option" where
  "format_short_name nm =
     (if nm = [] then None
      else let ext = (if CHR ''.'' \<in> set nm then rev (takeWhile (\<lambda>c. c \<noteq> CHR ''.'') (rev nm)) else []);
               base = (if CHR ''.'' \<in> set nm then take (length nm - length ext - 1) nm else nm);
               b = map fat_toupper (take 8 base); x = map fat_toupper (take 3 ext)
           in if CHR '' '' \<in> set b \<or> CHR '' '' \<in> set x then None
              else Some (map byte_of_char (b @ replicate (8 - length b) (CHR '' '') @ x @ replicate (3 - length x) (CHR '' ''))))"

section \<open>Directory entries\<close>

definition is_lfn :: "byte list \<Rightarrow> bool" where
  "is_lfn e \<longleftrightarrow> e ! 11 AND 0x0F = 0x0F"

definition is_volume :: "byte list \<Rightarrow> bool" where
  "is_volume e \<longleftrightarrow> e ! 11 AND 0x08 \<noteq> 0"

definition is_subdir :: "byte list \<Rightarrow> bool" where
  "is_subdir e \<longleftrightarrow> e ! 11 AND 0x10 \<noteq> 0"

definition entry_cluster :: "byte list \<Rightarrow> u32" where
  "entry_cluster e = le32 (e ! 26) (e ! 27) (e ! 20) (e ! 21)"

definition entry_size :: "byte list \<Rightarrow> u32" where
  "entry_size e = le32 (e ! 28) (e ! 29) (e ! 30) (e ! 31)"

text \<open>The name built from an entry: the eight bytes without trailing spaces, and a dot and three
  bytes when the first byte of the extension is not a space, up to the first NUL.\<close>

definition rstrip :: "byte list \<Rightarrow> byte list" where
  "rstrip bs = rev (dropWhile (\<lambda>b. b = 0x20) (rev bs))"

definition entry_ext :: "byte list \<Rightarrow> byte list" where
  "entry_ext e = (if e ! 8 \<noteq> 0x20 then 0x2E # take 3 (drop 8 e) else [])"

definition entry_name :: "byte list \<Rightarrow> string" where
  "entry_name e = c_text (takeWhile (\<lambda>b. b \<noteq> 0) (rstrip (take 8 e)) @ entry_ext e)"

text \<open>The name as \<open>fat32_get_file_alloc\<close> builds it, where every space of the eight bytes is replaced.\<close>

definition entry_name_cut :: "byte list \<Rightarrow> string" where
  "entry_name_cut e = c_text (takeWhile (\<lambda>b. b \<noteq> 0 \<and> b \<noteq> 0x20) (take 8 e) @ entry_ext e)"

definition before_dot :: "string \<Rightarrow> string" where
  "before_dot nm = takeWhile (\<lambda>c. c \<noteq> CHR ''.'') nm"

section \<open>Searching a directory\<close>

datatype verdict = Skip | Last | Hit

datatype found = NotThere | ReadError | At u32 "byte list" nat

definition slots :: "'d fat \<Rightarrow> nat list" where
  "slots s = map (\<lambda>i. 32 * i) [0..<(unat (bytes_per_sector s) + 31) div 32]"

definition slot :: "byte list \<Rightarrow> nat \<Rightarrow> byte list" where
  "slot sec off = take 32 (drop off sec)"

primrec scan_slots :: "(byte list \<Rightarrow> verdict) \<Rightarrow> byte list \<Rightarrow> nat list \<Rightarrow> (verdict \<times> nat) option" where
  "scan_slots v sec [] = Some (Skip, 0)"
| "scan_slots v sec (off # offs) =
     (if length sec < off + 32 then None
      else (case v (slot sec off) of Skip \<Rightarrow> scan_slots v sec offs | r \<Rightarrow> Some (r, off)))"

text \<open>The sectors of a cluster: how the search ended, or nothing when it goes on.\<close>

primrec scan_sectors :: "'d hw \<Rightarrow> (byte list \<Rightarrow> verdict) \<Rightarrow> u32 list \<Rightarrow> 'd fat \<Rightarrow> (found option \<times> 'd fat) option" where
  "scan_sectors E v [] s = Some (None, s)"
| "scan_sectors E v (lba # lbas) s = do {
     (rc, sec, s1) \<leftarrow> read_buf E 4096 lba s;
     if rc \<noteq> 0 then Some (Some ReadError, s1)
     else do {
       (r, off) \<leftarrow> scan_slots v sec (slots s1);
       (case r of
          Skip \<Rightarrow> scan_sectors E v lbas s1
        | Last \<Rightarrow> Some (Some NotThere, s1)
        | Hit \<Rightarrow> Some (Some (At lba sec off), s1))
     }
   }"

definition chain_end :: "u32 \<Rightarrow> bool" where
  "chain_end c \<longleftrightarrow> c = 0 \<or> c = 0x0FFFFFF7 \<or> 0x0FFFFFF8 \<le> c"

partial_function (option) scan_dir :: "'d hw \<Rightarrow> (byte list \<Rightarrow> verdict) \<Rightarrow> u32 \<Rightarrow> 'd fat \<Rightarrow> (found \<times> 'd fat) option" where
  "scan_dir E v cluster s =
     (if chain_end cluster then Some (NotThere, s)
      else Option.bind (scan_sectors E v (cluster_lbas s cluster) s) (\<lambda>(r, s1).
             case r of
               Some f \<Rightarrow> Some (f, s1)
             | None \<Rightarrow> Option.bind (read_fat_entry E cluster s1) (\<lambda>(nx, s2).
                 if chain_end nx then Some (NotThere, s2) else scan_dir E v nx s2)))"

text \<open>The next component of a path, at most 63 characters, and the rest behind one slash.\<close>

definition next_comp :: "string \<Rightarrow> string \<times> string" where
  "next_comp p =
     (let cname = take 63 (takeWhile (\<lambda>c. c \<noteq> slash) p); rest = drop (length cname) p
      in (cname, if c_at rest 0 = slash then drop 1 rest else rest))"

definition skip_slash :: "string \<Rightarrow> string" where
  "skip_slash path = (if c_at path 0 = slash then drop 1 path else path)"

lemma next_comp_shorter: "p \<noteq> [] \<Longrightarrow> length (snd (next_comp p)) < length p"
  by (cases p) (auto simp: next_comp_def Let_def c_at_def)

section \<open>Changing a directory\<close>

definition free_slot :: "byte list \<Rightarrow> verdict" where
  "free_slot e = (if e ! 0 = 0 \<or> e ! 0 = 0xE5 then Hit else Skip)"

text \<open>The entry that is written over the old one, whose bytes 22 to 25 stay.\<close>

definition dir_record :: "byte list \<Rightarrow> byte \<Rightarrow> u32 \<Rightarrow> u32 \<Rightarrow> byte list \<Rightarrow> byte list" where
  "dir_record name11 attr first_cluster filesize old =
     name11 @ [attr] @ replicate 8 0 @ [ucast (drop_bit 16 first_cluster), ucast (drop_bit 24 first_cluster)] @
     take 4 (drop 22 old) @ [ucast first_cluster, ucast (drop_bit 8 first_cluster)] @ bytes32 filesize"

definition write_dir_entry :: "'d hw \<Rightarrow> u32 \<Rightarrow> byte list \<Rightarrow> byte \<Rightarrow> u32 \<Rightarrow> u32 \<Rightarrow> 'd fat \<Rightarrow> (int \<times> 'd fat) option" where
  "write_dir_entry E parent_cluster name11 attr first_cluster filesize s = do {
     (f, s1) \<leftarrow> scan_dir E free_slot (if parent_cluster < 2 then root_dir_cluster s else parent_cluster) s;
     (case f of
        At lba sec off \<Rightarrow> do {
          (rc, s2) \<leftarrow> write_buf E lba (patch off (dir_record name11 attr first_cluster filesize (slot sec off)) sec) s1;
          Some (if rc \<noteq> 0 then -1 else 0, s2)
        }
      | _ \<Rightarrow> Some (-1, s1))
   }"

text \<open>The comparison of the two functions that follow: a component matches every name it is the
  beginning of.\<close>

definition path_entry :: "string \<Rightarrow> byte list \<Rightarrow> verdict" where
  "path_entry cname e =
     (if e ! 0 = 0 then Last
      else if e ! 0 = 0xE5 then Skip
      else if is_lfn e then Skip
      else if take (length cname) (entry_name e) = map fat_toupper cname then Hit else Skip)"

text \<open>From directory to directory up to the last component: the directory and that component.
  Only one of the two callers wants every component on the way to be a directory.\<close>

function walk_parent :: "'d hw \<Rightarrow> bool \<Rightarrow> string \<Rightarrow> u32 \<Rightarrow> 'd fat \<Rightarrow> ((u32 \<times> string) option \<times> 'd fat) option" where
  "walk_parent E dirs p current s =
     (if p = [] then Some (None, s)
      else case next_comp p of (cname, rest) \<Rightarrow>
        if rest = [] then Some (Some (current, cname), s)
        else Option.bind (scan_dir E (path_entry cname) current s) (\<lambda>(f, s1).
          case f of
            At lba sec off \<Rightarrow>
              (if dirs \<and> \<not> is_subdir (slot sec off) then Some (None, s1)
               else walk_parent E dirs rest (entry_cluster (slot sec off)) s1)
          | _ \<Rightarrow> Some (None, s1)))"
  by pat_completeness auto
termination
  by (relation "measure (\<lambda>(E, dirs, p, current, s). length p)") (auto dest: next_comp_shorter simp: prod_eq_iff)

declare walk_parent.simps [simp del]

text \<open>For the path \<open>/\<close> the final component has never been stored when it is compared.\<close>

definition remove_dir_entry_by_path :: "'d hw \<Rightarrow> string \<Rightarrow> bool \<Rightarrow> 'd fat \<Rightarrow> (int \<times> 'd fat) option" where
  "remove_dir_entry_by_path E path remove_clusters s =
     (if path = [] then Some (-1, s)
      else if skip_slash path = [] then None
      else do {
        (w, s1) \<leftarrow> walk_parent E False (skip_slash path) (root_dir_cluster s) s;
        (case w of
           None \<Rightarrow> Some (-1, s1)
         | Some (parent, cname) \<Rightarrow> do {
             (f, s2) \<leftarrow> scan_dir E (path_entry cname) parent s1;
             (case f of
                At lba sec off \<Rightarrow> do {
                  let start = entry_cluster (slot sec off);
                  s3 \<leftarrow> (if remove_clusters \<and> 2 \<le> start then free_cluster_chain E start s2 else Some s2);
                  (rc, s4) \<leftarrow> write_buf E lba (patch off [0xE5] sec) s3;
                  Some (if rc \<noteq> 0 then -1 else 0, s4)
                }
              | _ \<Rightarrow> Some (-1, s2))
           })
      })"

definition get_parent_cluster_and_name :: "'d hw \<Rightarrow> string \<Rightarrow> 'd fat \<Rightarrow> ((u32 \<times> string) option \<times> 'd fat) option" where
  "get_parent_cluster_and_name E path s = walk_parent E True (skip_slash path) (root_dir_cluster s) s"

section \<open>Writing\<close>

definition fat32_create_file :: "'d hw \<Rightarrow> string \<Rightarrow> 'd fat \<Rightarrow> (int \<times> 'd fat) option" where
  "fat32_create_file E path s =
     (if \<not> fat32_ready s then Some (-1, s)
      else do {
        (w, s1) \<leftarrow> get_parent_cluster_and_name E path s;
        (case w of
           None \<Rightarrow> Some (-1, s1)
         | Some (parent, nm) \<Rightarrow>
             (case format_short_name nm of
                None \<Rightarrow> Some (-1, s1)
              | Some name11 \<Rightarrow> write_dir_entry E parent name11 0x20 0 0 s1))
      })"

definition fat32_unlink :: "'d hw \<Rightarrow> string \<Rightarrow> 'd fat \<Rightarrow> (int \<times> 'd fat) option" where
  "fat32_unlink E path s = (if \<not> fat32_ready s then Some (-1, s) else remove_dir_entry_by_path E path True s)"

primrec write_all :: "'d hw \<Rightarrow> byte list \<Rightarrow> u32 list \<Rightarrow> 'd fat \<Rightarrow> (int \<times> 'd fat) option" where
  "write_all E bs [] s = Some (0, s)"
| "write_all E bs (lba # lbas) s = do {
     (rc, s1) \<leftarrow> write_buf E lba bs s;
     if rc \<noteq> 0 then Some (-1, s1) else write_all E bs lbas s1
   }"

text \<open>The first sector of a new directory, with the entries for itself and its parent.\<close>

definition dot_entries :: "u32 \<Rightarrow> u32 \<Rightarrow> byte list \<Rightarrow> byte list" where
  "dot_entries newc pcl sec =
     (let put = (\<lambda>off nm c sec. patch (off + 26) [ucast c, ucast (drop_bit 8 c)]
            (patch (off + 20) [ucast (drop_bit 16 c), ucast (drop_bit 24 c)] (patch off (nm @ [0x10]) sec)))
      in put 32 ([0x2E, 0x2E] @ replicate 9 0x20) pcl (put 0 ([0x2E] @ replicate 10 0x20) newc sec))"

definition fat32_make_dir :: "'d hw \<Rightarrow> string \<Rightarrow> 'd fat \<Rightarrow> (int \<times> 'd fat) option" where
  "fat32_make_dir E path s =
     (if \<not> fat32_ready s then Some (-1, s)
      else do {
        (w, s1) \<leftarrow> get_parent_cluster_and_name E path s;
        (case w of
           None \<Rightarrow> Some (-1, s1)
         | Some (parent, nm) \<Rightarrow>
             (case format_short_name nm of
                None \<Rightarrow> Some (-1, s1)
              | Some name11 \<Rightarrow> do {
                  (newc, s2) \<leftarrow> alloc_cluster E s1;
                  if newc = 0 then Some (-1, s2)
                  else do {
                    (rc, s3) \<leftarrow> write_dir_entry E parent name11 0x10 newc 0 s2;
                    if rc \<noteq> 0 then do { s4 \<leftarrow> free_cluster_chain E newc s3; Some (-1, s4) }
                    else if 4096 < bytes_per_sector s3 then None
                    else do {
                      (rc2, s4) \<leftarrow> write_all E (replicate (unat (bytes_per_sector s3)) 0) (cluster_lbas s3 newc) s3;
                      if rc2 \<noteq> 0 then Some (-1, s4)
                      else do {
                        (rc3, sec, s5) \<leftarrow> read_buf E 4096 (cluster_to_lba s4 newc) s4;
                        if rc3 \<noteq> 0 then Some (-1, s5)
                        else if length sec < 64 then None
                        else do {
                          (rc4, s6) \<leftarrow> write_buf E (cluster_to_lba s5 newc)
                             (dot_entries newc (if parent < 2 then 0 else parent) sec) s5;
                          Some (if rc4 \<noteq> 0 then -1 else 0, s6)
                        }
                      }
                    }
                  }
                }))
      })"

definition fat32_remove_dir :: "'d hw \<Rightarrow> string \<Rightarrow> 'd fat \<Rightarrow> (int \<times> 'd fat) option" where
  "fat32_remove_dir E path s = (if \<not> fat32_ready s then Some (-1, s) else remove_dir_entry_by_path E path True s)"

text \<open>The sectors of one cluster of a file: the result and the bytes that are left.\<close>

primrec write_sectors :: "'d hw \<Rightarrow> byte list \<Rightarrow> u32 list \<Rightarrow> 'd fat \<Rightarrow> (int \<times> byte list \<times> 'd fat) option" where
  "write_sectors E bs [] s = Some (0, bs, s)"
| "write_sectors E bs (lba # lbas) s =
     (let n = unat (bytes_per_sector s); chunk = take n bs
      in if 4096 < n then None
         else do {
           (rc, s1) \<leftarrow> write_buf E lba (chunk @ replicate (n - length chunk) 0) s;
           if rc \<noteq> 0 then Some (rc, bs, s1)
           else if drop n bs = [] then Some (0, [], s1)
           else write_sectors E (drop n bs) lbas s1
         })"

text \<open>One round: a cluster is taken, linked behind the previous one and filled. The result is the
  first cluster with the new one, the bytes that are left, or nothing after an error.\<close>

definition write_cluster ::
  "'d hw \<Rightarrow> u32 \<Rightarrow> u32 \<Rightarrow> byte list \<Rightarrow> 'd fat \<Rightarrow> ((u32 \<times> u32 \<times> byte list) option \<times> 'd fat) option" where
  "write_cluster E first prev bs s = do {
     (c, s1) \<leftarrow> alloc_cluster E s;
     if c = 0 then do { s2 \<leftarrow> (if first \<noteq> 0 then free_cluster_chain E first s1 else Some s1); Some (None, s2) }
     else do {
       let first' = (if first = 0 then c else first);
       (rc, s2) \<leftarrow> (if prev \<noteq> 0 then write_fat_entry E prev c s1 else Some (0, s1));
       if rc \<noteq> 0 then do { s3 \<leftarrow> free_cluster_chain E first' s2; Some (None, s3) }
       else do {
         (rc2, s3) \<leftarrow> write_fat_entry E c 0x0FFFFFFF s2;
         if rc2 \<noteq> 0 then do { s4 \<leftarrow> free_cluster_chain E first' s3; Some (None, s4) }
         else do {
           (rc3, rest, s4) \<leftarrow> write_sectors E bs (cluster_lbas s3 c) s3;
           if rc3 \<noteq> 0 then do { s5 \<leftarrow> free_cluster_chain E first' s4; Some (None, s5) }
           else Some (Some (first', c, rest), s4)
         }
       }
     }
   }"

partial_function (option) write_clusters ::
  "'d hw \<Rightarrow> u32 \<Rightarrow> u32 \<Rightarrow> byte list \<Rightarrow> 'd fat \<Rightarrow> (u32 option \<times> 'd fat) option" where
  "write_clusters E first prev bs s =
     (if bs = [] then Some (Some first, s)
      else Option.bind (write_cluster E first prev bs s) (\<lambda>(r, s1).
             case r of
               None \<Rightarrow> Some (None, s1)
             | Some (first', c, rest) \<Rightarrow> write_clusters E first' c rest s1))"

definition fat32_write_file :: "'d hw \<Rightarrow> string \<Rightarrow> byte list option \<Rightarrow> nat \<Rightarrow> 'd fat \<Rightarrow> (int \<times> 'd fat) option" where
  "fat32_write_file E path buf len s =
     (if \<not> fat32_ready s then Some (-1, s)
      else do {
        (_, s1) \<leftarrow> remove_dir_entry_by_path E path True s;
        (w, s2) \<leftarrow> get_parent_cluster_and_name E path s1;
        (case w of
           None \<Rightarrow> Some (-1, s2)
         | Some (parent, nm) \<Rightarrow>
             (case format_short_name nm of
                None \<Rightarrow> Some (-1, s2)
              | Some name11 \<Rightarrow>
                  (if len = 0 then write_dir_entry E parent name11 0x20 0 0 s2
                   else (case buf of
                     None \<Rightarrow> None
                   | Some bs \<Rightarrow>
                       (if length bs < len then None
                        else do {
                          (r, s3) \<leftarrow> write_clusters E 0 0 (take len bs) s2;
                          (case r of
                             None \<Rightarrow> Some (-1, s3)
                           | Some first \<Rightarrow> do {
                               (rc, s4) \<leftarrow> write_dir_entry E parent name11 0x20 first (of_nat len) s3;
                               if rc \<noteq> 0 then do { s5 \<leftarrow> free_cluster_chain E first s4; Some (-1, s5) } else Some (0, s4)
                             })
                        })))))
      })"

section \<open>Reading\<close>

text \<open>A string of the driver's stack in memory, for the calls of the C library.\<close>

definition str_mem :: "string \<Rightarrow> mem" where
  "str_mem t a = (if unat a < length t then byte_of_char (t ! unat a) else 0)"

text \<open>The sectors of one cluster of a file: what has been read, and whether the read ended.\<close>

primrec read_sectors :: "'d hw \<Rightarrow> nat \<Rightarrow> u32 list \<Rightarrow> byte list \<Rightarrow> 'd fat \<Rightarrow> (int option \<times> byte list \<times> 'd fat) option" where
  "read_sectors E len [] out s = Some (None, out, s)"
| "read_sectors E len (lba # lbas) out s = do {
     (rc, sec, s1) \<leftarrow> read_buf E 4096 lba s;
     if rc \<noteq> 0 then Some (Some (-1), out, s1)
     else let n = min (len - length out) (unat (bytes_per_sector s1))
          in if length sec < n then None
             else let out' = out @ take n sec
                  in if len \<le> length out' then Some (Some (int (length out')), out', s1)
                     else read_sectors E len lbas out' s1
   }"

partial_function (option) read_chain :: "'d hw \<Rightarrow> nat \<Rightarrow> u32 \<Rightarrow> byte list \<Rightarrow> 'd fat \<Rightarrow> (int \<times> byte list \<times> 'd fat) option" where
  "read_chain E len cluster out s =
     (if chain_end cluster then Some (int (length out), out, s)
      else Option.bind (read_sectors E len (cluster_lbas s cluster) out s) (\<lambda>(r, out1, s1).
             case r of
               Some rc \<Rightarrow> Some (rc, out1, s1)
             | None \<Rightarrow> Option.bind (read_fat_entry E cluster s1) (\<lambda>(nx, s2).
                 if chain_end nx \<or> nx = cluster then Some (int (length out1), out1, s2)
                 else read_chain E len nx out1 s2)))"

text \<open>The result and the bytes stored in the buffer.\<close>

definition fat32_read_file :: "'d hw \<Rightarrow> string \<Rightarrow> nat \<Rightarrow> 'd fat \<Rightarrow> (int \<times> byte list \<times> 'd fat) option" where
  "fat32_read_file E path len s =
     (if \<not> fat32_ready s \<or> len = 0 then Some (-1, [], s)
      else do {
        n \<leftarrow> atoi (str_mem path) 0;
        let cluster = (of_int n :: u32);
        if cluster < 2 then Some (-1, [], s)
        else if bytes_per_sector s = 0 \<or> sectors_per_cluster s = 0 then Some (-1, [], s)
        else if 4096 < bytes_per_sector s then Some (-1, [], s)
        else read_chain E len cluster [] s
      })"

text \<open>The comparison of the look-up: with a dot in the component the whole name counts, otherwise
  the part before its dot.\<close>

definition file_entry :: "string \<Rightarrow> byte list \<Rightarrow> verdict" where
  "file_entry up e =
     (if e ! 0 = 0 then Last
      else if e ! 0 = 0xE5 then Skip
      else if is_volume e then Skip
      else if is_lfn e then Skip
      else if (if CHR ''.'' \<in> set up then entry_name_cut e = up else before_dot (entry_name_cut e) = up) then Hit else Skip)"

function find_path :: "'d hw \<Rightarrow> string \<Rightarrow> u32 \<Rightarrow> 'd fat \<Rightarrow> (byte list option \<times> 'd fat) option" where
  "find_path E p current s =
     (if p = [] then Some (None, s)
      else case next_comp p of (cname, rest) \<Rightarrow>
        Option.bind (scan_dir E (file_entry (map fat_toupper cname)) current s) (\<lambda>(f, s1).
          case f of
            At lba sec off \<Rightarrow>
              (if rest = [] then Some (if is_subdir (slot sec off) then None else Some (slot sec off), s1)
               else if \<not> is_subdir (slot sec off) then Some (None, s1)
               else find_path E rest (entry_cluster (slot sec off)) s1)
          | _ \<Rightarrow> Some (None, s1)))"
  by pat_completeness auto
termination
  by (relation "measure (\<lambda>(E, p, current, s). length p)") (auto dest: next_comp_shorter simp: prod_eq_iff)

declare find_path.simps [simp del]

function dec_digits :: "nat \<Rightarrow> string" where
  "dec_digits n = (if n = 0 then [] else dec_digits (n div 10) @ [char_of (48 + n mod 10)])"
  by pat_completeness auto
termination
  by (relation "measure id") auto

declare dec_digits.simps [simp del]

definition dec :: "nat \<Rightarrow> string" where
  "dec n = (if n = 0 then ''0'' else dec_digits n)"

definition on_disk :: "('d fat \<Rightarrow> ('r \<times> 'd fat) option) \<Rightarrow> 'd fat hanafs \<Rightarrow> ('r \<times> 'd fat hanafs) option" where
  "on_disk f st = do { (r, s) \<leftarrow> f (hf_disk st); Some (r, st\<lparr>hf_disk := s\<rparr>) }"

definition fat32_get_file_alloc :: "'d hw \<Rightarrow> string \<Rightarrow> 'd fat hanafs \<Rightarrow> ((u64 \<times> byte list) option \<times> 'd fat hanafs) option" where
  "fat32_get_file_alloc E path st =
     (if \<not> fat32_ready (hf_disk st) then Some (None, st)
      else if skip_slash path = [] then Some (None, st)
      else do {
        (r, st1) \<leftarrow> on_disk (find_path E (skip_slash path) (root_dir_cluster (hf_disk st))) st;
        (case r of
           None \<Rightarrow> Some (None, st1)
         | Some e \<Rightarrow> do {
             let n = (if entry_size e = 0 then 1 else unat (entry_size e));
             (buf, st2) \<leftarrow> hf_alloc (fat_hw E) n st1;
             if buf = 0 then Some (None, st2)
             else do {
               ((rc, bs), st3) \<leftarrow> on_disk (\<lambda>s. map_option (\<lambda>(rc, bs, s'). ((rc, bs), s'))
                  (fat32_read_file E (dec (unat (entry_cluster e))) n s)) st2;
               if rc < 0 then do { st4 \<leftarrow> hf_free buf st3; Some (None, st4) } else Some (Some (buf, bs), st3)
             }
           })
      })"

section \<open>Mounting\<close>

definition parse_bpb :: "byte list \<Rightarrow> bpb_fat32" where
  "parse_bpb b =
     (let r16 = (\<lambda>i. le16 (b ! i) (b ! (i + 1))); r32 = (\<lambda>i. le32 (b ! i) (b ! (i + 1)) (b ! (i + 2)) (b ! (i + 3)))
      in \<lparr>jmpBoot = take 3 b, OEMName = take 8 (drop 3 b), BytsPerSec = r16 11, SecPerClus = b ! 13, RsvdSecCnt = r16 14,
          NumFATs = b ! 16, RootEntCnt = r16 17, TotSec16 = r16 19, Media = b ! 21, FATSz16 = r16 22, SecPerTrk = r16 24,
          NumHeads = r16 26, HiddSec = r32 28, TotSec32 = r32 32, FATSz32 = r32 36, ExtFlags = r16 40, FSVer = r16 42,
          RootClus = r32 44, FSInfo = r16 48, BkBootSec = r16 50, Reserved = take 12 (drop 52 b), DrvNum = b ! 64,
          Reserved1 = b ! 65, BootSig = b ! 66, VolID = r32 67, VolLab = take 11 (drop 71 b), FilSysType = take 8 (drop 82 b)\<rparr>)"

definition set_geometry :: "byte list \<Rightarrow> 'd fat \<Rightarrow> 'd fat" where
  "set_geometry sec s =
     (let b = parse_bpb sec
      in s\<lparr>bpb := b, bytes_per_sector := ucast (BytsPerSec b), sectors_per_cluster := ucast (SecPerClus b),
           fat_begin_lba := ucast (RsvdSecCnt b), cluster_begin_lba := ucast (RsvdSecCnt b) + ucast (NumFATs b) * FATSz32 b,
           root_dir_cluster := RootClus b\<rparr>)"

definition geometry_ok :: "'d fat \<Rightarrow> bool" where
  "geometry_ok s \<longleftrightarrow> bytes_per_sector s \<noteq> 0 \<and> bytes_per_sector s \<le> 4096 \<and> sectors_per_cluster s \<noteq> 0 \<and> sectors_per_cluster s \<le> 128"

text \<open>The boot sector is read into 512 bytes; the variables are set before they are checked.\<close>

definition fat32_init_from_ata :: "'d hw \<Rightarrow> 'd fat \<Rightarrow> (int \<times> 'd fat) option" where
  "fat32_init_from_ata E s = do {
     (rc, sec, s1) \<leftarrow> read_buf E 512 0 s;
     if rc \<noteq> 0 then Some (-1, s1)
     else if length sec < 90 then None
     else let s2 = set_geometry sec s1
          in Some (if geometry_ok s2 then (0, s2\<lparr>fat32_ready := True, mounted_drive := 0\<rparr>) else (-1, s2))
   }"

definition upd_disk :: "('d fat \<Rightarrow> 'd fat) \<Rightarrow> 'd fat vfs \<Rightarrow> 'd fat vfs" where
  "upd_disk f st = st\<lparr>vf_fs := (vf_fs st)\<lparr>hf_disk := f (hf_disk (vf_fs st))\<rparr>\<rparr>"

definition fat_of :: "'d fat vfs \<Rightarrow> 'd fat" where
  "fat_of st = hf_disk (vf_fs st)"

definition fat32_init_from_memory :: "'d hw \<Rightarrow> byte list option \<Rightarrow> 'd fat vfs \<Rightarrow> (int \<times> 'd fat vfs) option" where
  "fat32_init_from_memory E data st =
     (case data of
        None \<Rightarrow> Some (-1, st)
      | Some d \<Rightarrow>
          (if length d < 512 then Some (-1, st)
           else let st1 = upd_disk (set_geometry (take 512 d)) st
                in if \<not> geometry_ok (fat_of st1) then Some (-1, st1)
                   else do {
                     st2 \<leftarrow> vfs_register_mount (fat_hw E) (Some ''fat32'') (Some ''/core/'')
                        (upd_disk (\<lambda>s. s\<lparr>fat32_ready := True, mounted_drive := 1, mounted_module_name := ''<memory>'', module_image := Some d\<rparr>) st1);
                     Some (0, st2)
                   }))"

definition fat32_init_from_iso_root :: "'d fat \<Rightarrow> int \<times> 'd fat" where
  "fat32_init_from_iso_root s = (0, s\<lparr>fat32_ready := True\<rparr>)"

fun init_module_loop :: "'d hw \<Rightarrow> (string option \<times> byte list option) list \<Rightarrow> string \<Rightarrow> 'd fat vfs \<Rightarrow> (int \<times> 'd fat vfs) option" where
  "init_module_loop E [] module_name st = Some (-1, st)"
| "init_module_loop E ((path_opt, data) # mods) module_name st =
     (case path_opt of
        None \<Rightarrow> init_module_loop E mods module_name st
      | Some path \<Rightarrow>
          (if ends_with path module_name \<or> path = module_name
           then do { (rc, st1) \<leftarrow> fat32_init_from_memory E data st; Some (if rc = 0 then 0 else -1, st1) }
           else init_module_loop E mods module_name st))"

definition fat32_init_from_module :: "'d hw \<Rightarrow> boot_modules \<Rightarrow> string option \<Rightarrow> 'd fat vfs \<Rightarrow> (int \<times> 'd fat vfs) option" where
  "fat32_init_from_module E mods module_name st =
     (case (mods, module_name) of (Some ms, Some nm) \<Rightarrow> init_module_loop E ms nm st | _ \<Rightarrow> Some (-1, st))"

text \<open>The loops that try one module after the other: \<open>want\<close> says which, and the name of the one
  that could be mounted is kept for the ones that ask for it.\<close>

fun mount_modules ::
  "'d hw \<Rightarrow> (string option \<Rightarrow> nat \<Rightarrow> bool) \<Rightarrow> bool \<Rightarrow> (string option \<times> byte list option) list \<Rightarrow> 'd fat vfs \<Rightarrow> (bool \<times> 'd fat vfs) option" where
  "mount_modules E want keep_name [] st = Some (False, st)"
| "mount_modules E want keep_name ((path, data) # mods) st =
     (if want path (case data of None \<Rightarrow> 0 | Some d \<Rightarrow> length d)
      then do {
        (rc, st1) \<leftarrow> fat32_init_from_memory E data st;
        if rc = 0
        then Some (True, if keep_name
               then (case path of None \<Rightarrow> st1 | Some t \<Rightarrow> upd_disk (\<lambda>s. s\<lparr>mounted_module_name := take 159 t\<rparr>) st1) else st1)
        else mount_modules E want keep_name mods st1
      }
      else mount_modules E want keep_name mods st)"

definition disk_like :: "string \<Rightarrow> bool" where
  "disk_like path \<longleftrightarrow> ends_with path ''.img'' \<or> ends_with path ''.bin'' \<or> occurs ''rootfs'' path"

definition in_vfs :: "('d fat \<Rightarrow> ('r \<times> 'd fat) option) \<Rightarrow> 'd fat vfs \<Rightarrow> ('r \<times> 'd fat vfs) option" where
  "in_vfs f st = on_fs (on_disk f) st"

definition mount_line_fat :: "nat \<Rightarrow> 'd fat \<Rightarrow> string" where
  "mount_line_fat cap s =
     take (cap - 1)
       (if mounted_drive s = 1
        then (if mounted_module_name s \<noteq> [] then ''FAT32 mount: [1: module -> '' @ mounted_module_name s @ '']'' else ''FAT32 mount: [1: rootfs]'')
        else if mounted_drive s = 0 then ''FAT32 mount: [0: ATA master]''
        else ''FAT32 mount: [no mount]'')"

definition module_line :: "nat \<Rightarrow> string option \<times> byte list option \<Rightarrow> string" where
  "module_line i = (\<lambda>(path, data).
     take 191 (''module['' @ dec i @ '']: '' @ (case path of None \<Rightarrow> ''<unnamed>'' | Some t \<Rightarrow> t) @ '' ('' @
       dec (case data of None \<Rightarrow> 0 | Some d \<Rightarrow> length d mod 2 ^ 32) @ '' bytes)''))"

definition fat32_list_mounts :: "boot_modules \<Rightarrow> 'd fat \<Rightarrow> string list" where
  "fat32_list_mounts mods s =
     mount_line_fat 64 s # (case mods of None \<Rightarrow> [] | Some ms \<Rightarrow> map (\<lambda>(i, m). module_line i m) (List.enumerate 0 ms))"

definition fat32_get_summary :: "'d fat \<Rightarrow> string list" where
  "fat32_get_summary s = [mount_line_fat 128 s]"

definition fat32_mount_all_letter_modules :: "'d hw \<Rightarrow> boot_modules \<Rightarrow> 'd fat vfs \<Rightarrow> 'd fat vfs option" where
  "fat32_mount_all_letter_modules E mods st =
     (if fat32_ready (fat_of st) then Some st
      else do {
        (done, st1) \<leftarrow> (case mods of
            None \<Rightarrow> Some (False, st)
          | Some ms \<Rightarrow> mount_modules E (\<lambda>path n. case path of None \<Rightarrow> False | Some t \<Rightarrow> disk_like t \<or> occurs ''ata_master'' t) True ms st);
        if done then Some st1 else map_option snd (in_vfs (fat32_init_from_ata E) st1)
      })"

definition fat32_mount_ata_master :: "'d hw \<Rightarrow> boot_modules \<Rightarrow> int \<Rightarrow> 'd fat vfs \<Rightarrow> (int \<times> 'd fat vfs) option" where
  "fat32_mount_ata_master E mods drive_number st = do {
     (rc, st1) \<leftarrow> in_vfs (fat32_init_from_ata E) st;
     if rc = 0 then Some (0, st1)
     else (case mods of
             None \<Rightarrow> Some (-1, st1)
           | Some ms \<Rightarrow> do {
               (done, st2) \<leftarrow> mount_modules E
                 (\<lambda>path n. case path of None \<Rightarrow> True | Some t \<Rightarrow> occurs ''rootfs'' t \<or> occurs ''.img'' t \<or> occurs ''.iso'' t) False ms st1;
               Some (if done then 0 else -1, st2)
             })
   }"

definition fat32_mount_ata_slave :: "'d hw \<Rightarrow> int \<Rightarrow> 'd fat \<Rightarrow> (int \<times> 'd fat) option" where
  "fat32_mount_ata_slave E drive_number s = fat32_init_from_ata E s"

section \<open>Listing\<close>

definition list_entry :: "string \<Rightarrow> byte list \<Rightarrow> verdict" where
  "list_entry up e =
     (if e ! 0 = 0 then Last
      else if e ! 0 = 0xE5 then Skip
      else if is_volume e then Skip
      else if is_lfn e then Skip
      else if before_dot (c_text (rstrip (take 8 e))) = up then Hit else Skip)"

function list_walk :: "'d hw \<Rightarrow> string \<Rightarrow> u32 \<Rightarrow> 'd fat \<Rightarrow> (u32 option \<times> 'd fat) option" where
  "list_walk E p cluster s =
     (if p = [] then Some (Some cluster, s)
      else case next_comp p of (cname, rest) \<Rightarrow>
        Option.bind (scan_dir E (list_entry (map fat_toupper cname)) cluster s) (\<lambda>(f, s1).
          case f of
            At lba sec off \<Rightarrow>
              (if \<not> is_subdir (slot sec off) then Some (None, s1)
               else list_walk E rest (entry_cluster (slot sec off)) s1)
          | _ \<Rightarrow> Some (None, s1)))"
  by pat_completeness auto
termination
  by (relation "measure (\<lambda>(E, p, cluster, s). length p)") (auto dest: next_comp_shorter simp: prod_eq_iff)

declare list_walk.simps [simp del]

text \<open>The names in one sector, and whether the entry that ends the directory was met.\<close>

primrec list_slots :: "byte list \<Rightarrow> nat list \<Rightarrow> (bool \<times> string list) option" where
  "list_slots sec [] = Some (False, [])"
| "list_slots sec (off # offs) =
     (if length sec < off + 32 then None
      else let e = slot sec off
           in if e ! 0 = 0 then Some (True, [])
              else if e ! 0 = 0xE5 \<or> is_volume e \<or> is_lfn e \<or> is_subdir e then list_slots sec offs
              else map_option (\<lambda>(stop, ns). (stop, entry_name e # ns)) (list_slots sec offs))"

text \<open>The result once the listing is over, with the names reported.\<close>

primrec list_sectors :: "'d hw \<Rightarrow> u32 list \<Rightarrow> 'd fat \<Rightarrow> (int option \<times> string list \<times> 'd fat) option" where
  "list_sectors E [] s = Some (None, [], s)"
| "list_sectors E (lba # lbas) s = do {
     (rc, sec, s1) \<leftarrow> read_buf E 4096 lba s;
     if rc \<noteq> 0 then Some (Some (-1), [], s1)
     else do {
       (stop, ns) \<leftarrow> list_slots sec (slots s1);
       if stop then Some (Some 0, ns, s1)
       else do { (r, ns2, s2) \<leftarrow> list_sectors E lbas s1; Some (r, ns @ ns2, s2) }
     }
   }"

partial_function (option) list_chain :: "'d hw \<Rightarrow> u32 \<Rightarrow> 'd fat \<Rightarrow> (int \<times> string list \<times> 'd fat) option" where
  "list_chain E cluster s =
     (if chain_end cluster then Some (0, [], s)
      else Option.bind (list_sectors E (cluster_lbas s cluster) s) (\<lambda>(r, ns, s1).
             case r of
               Some rc \<Rightarrow> Some (rc, ns, s1)
             | None \<Rightarrow> Option.bind (read_fat_entry E cluster s1) (\<lambda>(nx, s2).
                 if chain_end nx \<or> nx = cluster then Some (0, ns, s2)
                 else Option.bind (list_chain E nx s2) (\<lambda>(rc, ns2, s3). Some (rc, ns @ ns2, s3)))))"

definition drive_prefix :: "string \<Rightarrow> bool" where
  "drive_prefix p \<longleftrightarrow> p \<noteq> [] \<and> c_at p 1 = CHR '':''"

text \<open>The drive named in the path is mounted first when it is another one than the current.\<close>

definition list_mount :: "'d hw \<Rightarrow> boot_modules \<Rightarrow> string \<Rightarrow> 'd fat vfs \<Rightarrow> 'd fat vfs option" where
  "list_mount E mods p st =
     (let req = (if drive_prefix p \<and> c_at p 0 \<in> set ''0123456789'' then int (of_char (c_at p 0)) - 48 else mounted_drive (fat_of st))
      in if req = mounted_drive (fat_of st) then Some st
         else if req = 0 then map_option snd (in_vfs (fat32_init_from_ata E) st)
         else if req = 1
         then (case mods of
                 None \<Rightarrow> Some st
               | Some ms \<Rightarrow> map_option snd (mount_modules E
                   (\<lambda>path n. (case path of None \<Rightarrow> False | Some t \<Rightarrow> disk_like t) \<or> 512 \<le> n) True ms st))
         else Some st)"

definition list_on_disk :: "'d hw \<Rightarrow> string \<Rightarrow> 'd fat \<Rightarrow> ((int \<times> string list) \<times> 'd fat) option" where
  "list_on_disk E p s = do {
     (c, s1) \<leftarrow> list_walk E p (root_dir_cluster s) s;
     (case c of
        None \<Rightarrow> Some ((-1, []), s1)
      | Some cluster \<Rightarrow>
          (if cluster < 2 then Some ((-1, []), s1)
           else if bytes_per_sector s1 = 0 \<or> 4096 < bytes_per_sector s1 then Some ((-1, []), s1)
           else map_option (\<lambda>(rc, ns, s2). ((rc, ns), s2)) (list_chain E cluster s1)))
   }"

definition fat32_list_dir :: "'d hw \<Rightarrow> boot_modules \<Rightarrow> string \<Rightarrow> 'd fat vfs \<Rightarrow> ((int \<times> string list) \<times> 'd fat vfs) option" where
  "fat32_list_dir E mods p st =
     (if \<not> fat32_ready (fat_of st) then Some ((-1, []), st)
      else do {
        st1 \<leftarrow> list_mount E mods p st;
        in_vfs (list_on_disk E (skip_slash (if drive_prefix p then drop 2 p else p))) st1
      })"

section \<open>Formatting\<close>

text \<open>The number of sectors of a table, by repeated approximation; \<open>None\<close> for a disk that is too
  small.\<close>

primrec fat_size_loop :: "nat \<Rightarrow> u32 \<Rightarrow> u32 \<Rightarrow> u32 option" where
  "fat_size_loop 0 tot sz = Some sz"
| "fat_size_loop (Suc n) tot sz =
     (let data_sectors = tot - 32 - 2 * sz
      in if sint data_sectors \<le> 0 then None
         else let needed = (data_sectors * 4 + 512 - 1) div 512
              in if needed = sz then Some sz else fat_size_loop n tot needed)"

definition format_boot :: "u32 \<Rightarrow> u32 \<Rightarrow> byte list" where
  "format_boot tot sz =
     [0xEB, 0x58, 0x90] @ map byte_of_char ''HanaCor'' @ [0] @ bytes16 512 @ [1] @ bytes16 32 @ [2] @
     [0, 0] @ [0, 0] @ [0xF8] @ [0, 0] @ [0, 0] @ [0, 0] @ [0, 0, 0, 0] @ bytes32 tot @ bytes32 sz @
     [0, 0, 0, 0] @ [2, 0, 0, 0] @ [1, 0, 6, 0] @ replicate 12 0 @ [0x80, 0, 0x29, 0x12, 0x34, 0x56, 0x78] @
     map byte_of_char ''NO NAME    '' @ map byte_of_char ''FAT32   '' @ replicate 420 0 @ [0x55, 0xAA]"

definition format_fsinfo :: "byte list" where
  "format_fsinfo = [0x52, 0x52, 0x61, 0x41] @ replicate 480 0 @ [0x72, 0x72, 0x41, 0x61] @ replicate 8 0xFF @ replicate 12 0 @ [0x55, 0xAA, 0, 0]"

definition format_fat_sector :: "byte list" where
  "format_fat_sector = bytes32 0x0FFFFFF8 @ bytes32 0xFFFFFFFF @ bytes32 0x0FFFFFFF @ replicate 500 0"

text \<open>The sectors in the order they are written: boot sector, info sector, the other reserved
  sectors, both tables, and the root directory.\<close>

definition format_writes :: "u32 \<Rightarrow> u32 \<Rightarrow> (u32 \<times> byte list) list" where
  "format_writes tot sz =
     [(0, format_boot tot sz), (1, format_fsinfo)] @ map (\<lambda>i. (of_nat i, replicate 512 0)) [2..<32] @
     concat (map (\<lambda>f. map (\<lambda>i. (32 + of_nat f * sz + of_nat i, if i = 0 then format_fat_sector else replicate 512 0)) [0..<unat sz]) [0..<2]) @
     [(32 + 2 * sz, replicate 512 0)]"

primrec write_list :: "'d hw \<Rightarrow> (u32 \<times> byte list) list \<Rightarrow> 'd fat \<Rightarrow> int \<times> 'd fat" where
  "write_list E [] s = (0, s)"
| "write_list E (w # ws) s =
     (case hw_wr (fat_hw E) (fst w) (snd w) s of (rc, s1) \<Rightarrow> if rc \<noteq> 0 then (-1, s1) else write_list E ws s1)"

definition fat32_format_ata_impl :: "'d hw \<Rightarrow> 'd fat \<Rightarrow> int \<times> 'd fat" where
  "fat32_format_ata_impl E s =
     (case hw_count (fat_hw E) s of (n, s1) \<Rightarrow>
       if n \<le> 0 then (-1, s1)
       else (case fat_size_loop 32 (of_int n) 1 of
               None \<Rightarrow> (-1, s1)
             | Some sz \<Rightarrow> write_list E (format_writes (of_int n) sz) s1))"

definition fat32_format_ata_master :: "'d hw \<Rightarrow> int \<Rightarrow> 'd fat \<Rightarrow> int \<times> 'd fat" where
  "fat32_format_ata_master E drive_number s = fat32_format_ata_impl E s"

section \<open>The floppy image\<close>

definition floppy_init_from_memory :: "'d hw \<Rightarrow> byte list option \<Rightarrow> 'd fat vfs \<Rightarrow> (int \<times> 'd fat vfs) option" where
  "floppy_init_from_memory E data st =
     (case data of
        None \<Rightarrow> Some (-1, st)
      | Some d \<Rightarrow>
          (if d = [] then Some (-1, st)
           else do {
             (p, st1) \<leftarrow> on_fs (hf_alloc (fat_hw E) (length d)) st;
             if p = 0 then Some (-1, upd_disk (\<lambda>s. s\<lparr>floppy_data := None\<rparr>) st1)
             else do {
               st2 \<leftarrow> vfs_register_mount (fat_hw E) (Some ''floppy'') (Some ''/'') (upd_disk (\<lambda>s. s\<lparr>floppy_data := Some d\<rparr>) st1);
               Some (0, st2)
             }
           }))"

definition printable :: "byte list \<Rightarrow> string" where
  "printable bs = map char_of_byte (filter (\<lambda>b. 32 \<le> b \<and> b < 127) (takeWhile (\<lambda>b. b \<noteq> 0x20) bs))"

definition floppy_name :: "byte list \<Rightarrow> string" where
  "floppy_name e = printable (take 8 e) @ (if \<not> is_subdir e \<and> e ! 8 \<noteq> 0x20 then ''.'' @ printable (take 3 (drop 8 e)) else [])"

primrec floppy_names :: "byte list list \<Rightarrow> string list" where
  "floppy_names [] = []"
| "floppy_names (e # es) =
     (if e ! 0 = 0 then []
      else if e ! 0 = 0xE5 \<or> is_volume e \<or> floppy_name e = [] then floppy_names es
      else floppy_name e # floppy_names es)"

definition floppy_list_dir :: "string \<Rightarrow> 'd fat \<Rightarrow> (int \<times> string list) option" where
  "floppy_list_dir path s =
     (case floppy_data s of
        None \<Rightarrow> Some (-1, [])
      | Some d \<Rightarrow>
          (if path \<noteq> ''/'' then Some (-1, [])
           else if length d < 24 then None
           else let r16 = (\<lambda>i. le16 (d ! i) (d ! (i + 1))); bps = r16 11; root_entries = unat (r16 17);
                    root_dir_sector = ucast (r16 14) + ucast (d ! 16) * ucast (r16 22) :: u32;
                    root_dir_offset = root_dir_sector * ucast bps
                in if bps = 0 \<or> 4096 < bps then Some (-1, [])
                   else if length d < unat (root_dir_offset + of_nat (root_entries * 32)) then Some (-1, [])
                   else if length d < unat root_dir_offset + root_entries * 32 then None
                   else Some (0, floppy_names (map (\<lambda>i. slot d (unat root_dir_offset + 32 * i)) [0..<root_entries]))))"

definition floppy_get_file_alloc :: "'d hw \<Rightarrow> string \<Rightarrow> 'd fat hanafs \<Rightarrow> ((u64 \<times> byte list) option \<times> 'd fat hanafs) option" where
  "floppy_get_file_alloc E path st =
     (case floppy_data (hf_disk st) of
        None \<Rightarrow> Some (None, st)
      | Some d \<Rightarrow>
          (if path = ''/'' then do {
             (p, st1) \<leftarrow> hf_alloc (fat_hw E) (length d) st;
             Some (if p = 0 then None else Some (p, d), st1)
           }
           else Some (None, st)))"

section \<open>Under the dispatcher\<close>

definition fat_other :: "'d hw \<Rightarrow> boot_modules \<Rightarrow> 'd fat other_fs" where
  "fat_other E mods = \<lparr>x_fat32_list_dir = fat32_list_dir E mods, x_fat32_create_file = \<lambda>p. on_disk (fat32_create_file E p),
     x_fat32_unlink = \<lambda>p. on_disk (fat32_unlink E p), x_fat32_make_dir = \<lambda>p. on_disk (fat32_make_dir E p),
     x_fat32_write_file = \<lambda>p buf len. on_disk (fat32_write_file E p buf len), x_fat32_get_file_alloc = fat32_get_file_alloc E,
     x_floppy_list_dir = \<lambda>p st. map_option (\<lambda>(rc, ns). (rc, ns, st)) (floppy_list_dir p (hf_disk st))\<rparr>"

end
