(* ===== verification/FatDisk.thy ===== *)
theory FatDisk
  imports Fat32 HanaDisk
begin

text \<open>
  What the FAT32 driver does to a volume. The volume is seen as the values of its file allocation
  table and the sectors of its clusters, on any block device; the disk behind the IDE driver is
  one. A chain of clusters is followed to its end, a directory is searched in the order of its
  entries, clusters are taken from the beginning of the free ones, and a file that has been
  written is read back.
\<close>

unbundle bit_operations_syntax

section \<open>The volume\<close>

definition with_disk :: "'d \<Rightarrow> 'd fat \<Rightarrow> 'd fat" where
  "with_disk d s = s\<lparr>fat_disk := d\<rparr>"

lemma with_disk_simps [simp]:
  "fat32_ready (with_disk d s) = fat32_ready s" "bpb (with_disk d s) = bpb s" "fat_begin_lba (with_disk d s) = fat_begin_lba s"
  "cluster_begin_lba (with_disk d s) = cluster_begin_lba s" "sectors_per_cluster (with_disk d s) = sectors_per_cluster s"
  "bytes_per_sector (with_disk d s) = bytes_per_sector s" "root_dir_cluster (with_disk d s) = root_dir_cluster s"
  "reads_module (with_disk d s) = reads_module s" "fat_disk (with_disk d s) = d" "with_disk d' (with_disk d s) = with_disk d' s"
  "cluster_to_lba (with_disk d s) = cluster_to_lba s" "cluster_lbas (with_disk d s) = cluster_lbas s" "slots (with_disk d s) = slots s"
  "with_disk (fat_disk s) s = s" "s\<lparr>fat_disk := d\<rparr> = with_disk d s"
  by (simp_all add: with_disk_def reads_module_def cluster_to_lba_def cluster_lbas_def slots_def fun_eq_iff)

lemma with_disk_inject [simp]: "with_disk d s = with_disk d' s \<longleftrightarrow> d = d'"
proof
  assume "with_disk d s = with_disk d' s"
  then have "fat_disk (with_disk d s) = fat_disk (with_disk d' s)" by (rule arg_cong)
  then show "d = d'" by simp
qed simp

text \<open>The number of entries of the table.\<close>

definition fat_entries :: "'d fat \<Rightarrow> nat" where
  "fat_entries s = unat (FATSz32 (bpb s)) * 128"

text \<open>A volume on the disk with sectors of 512 bytes, all of whose clusters have 28-bit addresses.\<close>

definition vol_ok :: "'d fat \<Rightarrow> bool" where
  "vol_ok s \<longleftrightarrow> fat32_ready s \<and> \<not> reads_module s \<and> bytes_per_sector s = 512 \<and> sectors_per_cluster s \<noteq> 0 \<and>
     FATSz32 (bpb s) \<noteq> 0 \<and> NumFATs (bpb s) \<noteq> 0 \<and>
     unat (cluster_begin_lba s) = unat (fat_begin_lba s) + unat (NumFATs (bpb s)) * unat (FATSz32 (bpb s)) \<and>
     unat (cluster_begin_lba s) + fat_entries s * unat (sectors_per_cluster s) < 0x0FFFFFF0"

text \<open>The sector and offset of an entry in the first copy of the table, and its value.\<close>

definition fat_lba :: "'d fat \<Rightarrow> nat \<Rightarrow> nat \<Rightarrow> u32" where
  "fat_lba s i c = fat_begin_lba s + of_nat i * FATSz32 (bpb s) + of_nat (c div 128)"

definition ent_at :: "nat \<Rightarrow> byte list \<Rightarrow> u32" where
  "ent_at o' sec = le32 (sec ! o') (sec ! (o' + 1)) (sec ! (o' + 2)) (sec ! (o' + 3)) AND 0x0FFFFFFF"

definition fat_at :: "(u32 \<Rightarrow> byte list) \<Rightarrow> 'd fat \<Rightarrow> nat \<Rightarrow> u32" where
  "fat_at f s c = ent_at (4 * (c mod 128)) (f (fat_lba s 0 c))"

definition set_fat_copy :: "'d fat \<Rightarrow> nat \<Rightarrow> u32 \<Rightarrow> nat \<Rightarrow> (u32 \<Rightarrow> byte list) \<Rightarrow> u32 \<Rightarrow> byte list" where
  "set_fat_copy s c v i f = f(fat_lba s i c := patch (4 * (c mod 128)) (bytes32 (v AND 0x0FFFFFFF)) (f (fat_lba s i c)))"

definition set_fat :: "'d fat \<Rightarrow> nat \<Rightarrow> u32 \<Rightarrow> (u32 \<Rightarrow> byte list) \<Rightarrow> u32 \<Rightarrow> byte list" where
  "set_fat s c v f = fold (set_fat_copy s c v) [0..<unat (NumFATs (bpb s))] f"

section \<open>Addresses\<close>

lemma patch_length: "off + length bs \<le> length buf \<Longrightarrow> length (patch off bs buf) = length buf"
  by (simp add: patch_def)

lemma patch_nth:
  "off + length bs \<le> length buf \<Longrightarrow> i < length buf \<Longrightarrow>
     patch off bs buf ! i = (if off \<le> i \<and> i < off + length bs then bs ! (i - off) else buf ! i)"
  by (auto simp: patch_def nth_append)

lemma mask28: "(v :: u32) < 0x10000000 \<Longrightarrow> v AND 0x0FFFFFFF = v"
proof -
  assume "v < 0x10000000"
  then have "take_bit 28 v = v"
    by (simp add: word_unat_eq_iff unsigned_take_bit_eq take_bit_nat_eq_self word_less_nat_alt)
  moreover have "(0x0FFFFFFF :: u32) = mask 28" by (simp add: mask_eq_exp_minus_1)
  ultimately show ?thesis by (simp add: take_bit_eq_mask)
qed

lemma entry_address:
  assumes "c < 2 ^ 28"
  shows "(of_nat c * 4 :: u32) div 512 = of_nat (c div 128)" "unat ((of_nat c * 4 :: u32) mod 512) = 4 * (c mod 128)"
proof -
  have u: "unat (of_nat c * 4 :: u32) = c * 4" using assms by (subst unat_mult_lem [THEN iffD1]) (simp_all add: unat_of_nat)
  show "unat ((of_nat c * 4 :: u32) mod 512) = 4 * (c mod 128)"
    unfolding unat_mod u using mod_mult_mult1 [of 4 c 128] by (simp add: mult.commute)
  have "c div 128 < 2 ^ 32" using assms by (simp add: less_mult_imp_div_less)
  then show "(of_nat c * 4 :: u32) div 512 = of_nat (c div 128)"
    using div_mult_mult1 [of 4 c 128] by (simp add: word_unat_eq_iff unat_div u unat_of_nat mult.commute)
qed

lemma unat_of_nat32: "n < 2 ^ 32 \<Longrightarrow> unat (of_nat n :: u32) = n"
  by (simp add: unat_of_nat)

lemma fat_lba_unat:
  assumes v: "vol_ok s" and c: "c < fat_entries s" "i < unat (NumFATs (bpb s))"
  shows "unat (fat_lba s i c) = unat (fat_begin_lba s) + i * unat (FATSz32 (bpb s)) + c div 128"
    "unat (fat_lba s i c) < unat (cluster_begin_lba s)"
proof -
  let ?z = "unat (FATSz32 (bpb s))" and ?b = "unat (fat_begin_lba s)"
  have d: "c div 128 < ?z" using c(1) by (simp add: fat_entries_def less_mult_imp_div_less)
  have "i * ?z + ?z \<le> unat (NumFATs (bpb s)) * ?z" using mult_le_mono1 [of "Suc i" "unat (NumFATs (bpb s))" ?z] c(2) by simp
  then have l: "?b + i * ?z + c div 128 < unat (cluster_begin_lba s)" using d v by (simp add: vol_ok_def)
  have "fat_lba s i c = of_nat (?b + i * ?z + c div 128)" by (simp add: fat_lba_def)
  moreover have "?b + i * ?z + c div 128 < 2 ^ 32" using l v by (simp add: vol_ok_def)
  ultimately show "unat (fat_lba s i c) = ?b + i * ?z + c div 128" by (simp only: unat_of_nat32)
  with l show "unat (fat_lba s i c) < unat (cluster_begin_lba s)" by simp
qed

text \<open>The sectors of a cluster, by number.\<close>

definition data_lba :: "'d fat \<Rightarrow> nat \<Rightarrow> nat" where
  "data_lba s c = unat (cluster_begin_lba s) + (c - 2) * unat (sectors_per_cluster s)"

definition cluster_range :: "'d fat \<Rightarrow> nat list" where
  "cluster_range s = [2..<fat_entries s]"

lemma vol_entries: "vol_ok s \<Longrightarrow> fat_entries s < 0x0FFFFFF0"
proof -
  assume v: "vol_ok s"
  then have "1 \<le> unat (sectors_per_cluster s)" by (simp add: vol_ok_def unat_gt_0 Suc_le_eq)
  then have "fat_entries s \<le> fat_entries s * unat (sectors_per_cluster s)" by simp
  with v show ?thesis unfolding vol_ok_def by linarith
qed

lemma data_lba_bound:
  assumes "vol_ok s" "c \<in> set (cluster_range s)"
  shows "data_lba s c + unat (sectors_per_cluster s) < 0x0FFFFFF0" "unat (cluster_begin_lba s) \<le> data_lba s c" "c < 0x0FFFFFF0"
proof -
  let ?p = "unat (sectors_per_cluster s)"
  have c: "2 \<le> c" "c < fat_entries s" using assms(2) by (simp_all add: cluster_range_def)
  then have "Suc (c - 2) * ?p \<le> fat_entries s * ?p" by (intro mult_le_mono1) simp
  then show "data_lba s c + ?p < 0x0FFFFFF0" using assms(1) by (simp add: data_lba_def vol_ok_def)
  show "unat (cluster_begin_lba s) \<le> data_lba s c" by (simp add: data_lba_def)
  show "c < 0x0FFFFFF0" using c(2) vol_entries [OF assms(1)] by simp
qed

lemma cluster_lbas_eq:
  assumes "2 \<le> c"
  shows "cluster_lbas s (of_nat c) = map of_nat [data_lba s c..<data_lba s c + unat (sectors_per_cluster s)]"
proof -
  have "(of_nat c - 2 :: u32) = of_nat (c - 2)" using assms by (simp add: of_nat_diff)
  then have "cluster_to_lba s (of_nat c) = of_nat (data_lba s c)" by (simp add: cluster_to_lba_def data_lba_def)
  then show ?thesis
    by (auto simp: cluster_lbas_def list_eq_iff_nth_eq)
qed

lemma data_lba_disjoint:
  assumes "c < c'" "2 \<le> c"
  shows "data_lba s c + unat (sectors_per_cluster s) \<le> data_lba s c'"
proof -
  have "Suc (c - 2) * unat (sectors_per_cluster s) \<le> (c' - 2) * unat (sectors_per_cluster s)"
    using assms by (intro mult_le_mono1) simp
  then show ?thesis by (simp add: data_lba_def)
qed

text \<open>A table sector is no cluster sector, and two clusters share none.\<close>

lemma cluster_sectors:
  assumes "vol_ok s" "c \<in> set (cluster_range s)" "l \<in> set (cluster_lbas s (of_nat c))"
  shows "data_lba s c \<le> unat l" "unat l < data_lba s c + unat (sectors_per_cluster s)" "unat l < 0x0FFFFFF0"
    "unat (cluster_begin_lba s) \<le> unat l"
proof -
  have c: "2 \<le> c" using assms(2) by (simp add: cluster_range_def)
  note b = data_lba_bound [OF assms(1,2)]
  obtain n where n: "l = of_nat n" "data_lba s c \<le> n" "n < data_lba s c + unat (sectors_per_cluster s)"
    using assms(3) unfolding cluster_lbas_eq [OF c] by auto
  then have "unat l = n" using b(1) by (simp add: unat_of_nat)
  with n b show "data_lba s c \<le> unat l" "unat l < data_lba s c + unat (sectors_per_cluster s)" "unat l < 0x0FFFFFF0"
    "unat (cluster_begin_lba s) \<le> unat l" by simp_all
qed

lemma cluster_disjoint:
  assumes "vol_ok s" "c \<in> set (cluster_range s)" "c' \<in> set (cluster_range s)" "c \<noteq> c'"
  shows "set (cluster_lbas s (of_nat c)) \<inter> set (cluster_lbas s (of_nat c')) = {}"
proof -
  have "data_lba s c + unat (sectors_per_cluster s) \<le> data_lba s c' \<or> data_lba s c' + unat (sectors_per_cluster s) \<le> data_lba s c"
    using assms(2-4) data_lba_disjoint [of c c' s] data_lba_disjoint [of c' c s] by (auto simp: cluster_range_def neq_iff)
  then show ?thesis using cluster_sectors [OF assms(1,2)] cluster_sectors [OF assms(1,3)] by fastforce
qed

lemma distinct_cluster_lbas:
  assumes "vol_ok s" "c \<in> set (cluster_range s)"
  shows "distinct (cluster_lbas s (of_nat c))" "length (cluster_lbas s (of_nat c)) = unat (sectors_per_cluster s)"
proof -
  have c: "2 \<le> c" using assms(2) by (simp add: cluster_range_def)
  note b = data_lba_bound [OF assms]
  have "inj_on (of_nat :: nat \<Rightarrow> u32) (set [data_lba s c..<data_lba s c + unat (sectors_per_cluster s)])"
    using b(1) by (intro inj_onI) (auto simp: word_unat_eq_iff unat_of_nat)
  then show "distinct (cluster_lbas s (of_nat c))" unfolding cluster_lbas_eq [OF c] by (simp add: distinct_map)
  show "length (cluster_lbas s (of_nat c)) = unat (sectors_per_cluster s)" by (simp add: cluster_lbas_def)
qed

section \<open>The table\<close>

lemma ent_at_patch:
  assumes "length sec = 512" "c < 128" "c' < 128"
  shows "ent_at (4 * c') (patch (4 * c) (bytes32 w) sec) = (if c' = c then w AND 0x0FFFFFFF else ent_at (4 * c') sec)"
proof -
  have l: "4 * c + length (bytes32 w) \<le> length sec" using assms by simp
  show ?thesis
  proof (cases "c' = c")
    case True
    have "patch (4 * c) (bytes32 w) sec ! (4 * c + j) = bytes32 w ! j" if "j < 4" for j
      using patch_nth [OF l, of "4 * c + j"] assms that by simp
    from this [of 0] this [of 1] this [of 2] this [of 3] True show ?thesis by (simp add: ent_at_def bytes32_def)
  next
    case False
    then have "4 * c' + 3 < 4 * c \<or> 4 * c + 4 \<le> 4 * c'" by auto
    then have "patch (4 * c) (bytes32 w) sec ! (4 * c' + j) = sec ! (4 * c' + j)" if "j < 4" for j
      using patch_nth [OF l, of "4 * c' + j"] assms that by auto
    from this [of 0] this [of 1] this [of 2] this [of 3] False show ?thesis by (simp add: ent_at_def)
  qed
qed

text \<open>Changing an entry changes it in every copy, keeps every other entry, and touches no sector
  of a cluster.\<close>

lemma fat_lba_inj:
  assumes v: "vol_ok s" and c: "c < fat_entries s" "i < unat (NumFATs (bpb s))" "c' < fat_entries s" "j < unat (NumFATs (bpb s))"
    and eq: "fat_lba s i c = fat_lba s j c'"
  shows "i = j" "c div 128 = c' div 128"
proof -
  let ?z = "unat (FATSz32 (bpb s))"
  have d: "c div 128 < ?z" "c' div 128 < ?z" using c(1,3) by (simp_all add: fat_entries_def less_mult_imp_div_less)
  have e: "i * ?z + c div 128 = j * ?z + c' div 128"
    using fat_lba_unat(1) [OF v c(1,2)] fat_lba_unat(1) [OF v c(3,4)] eq by simp
  then have "(i * ?z + c div 128) div ?z = (j * ?z + c' div 128) div ?z" by simp
  then show "i = j" using d by simp
  with e show "c div 128 = c' div 128" by simp
qed

definition sectors_ok :: "(u32 \<Rightarrow> byte list) \<Rightarrow> bool" where
  "sectors_ok f \<longleftrightarrow> (\<forall>l. length (f l) = 512)"

lemma set_fat_copies:
  assumes v: "vol_ok s" and f: "sectors_ok f" and c: "c < fat_entries s" and n: "n \<le> unat (NumFATs (bpb s))"
  shows "sectors_ok (fold (set_fat_copy s c w) [0..<n] f) \<and>
    (\<forall>l. l \<notin> (\<lambda>i. fat_lba s i c) ` {0..<n} \<longrightarrow> fold (set_fat_copy s c w) [0..<n] f l = f l) \<and>
    (0 < n \<longrightarrow> fold (set_fat_copy s c w) [0..<n] f (fat_lba s 0 c) = patch (4 * (c mod 128)) (bytes32 (w AND 0x0FFFFFFF)) (f (fat_lba s 0 c)))"
  using n
proof (induction n)
  case (Suc n)
  define g where "g = fold (set_fat_copy s c w) [0..<n] f"
  have st: "fold (set_fat_copy s c w) [0..<Suc n] f = set_fat_copy s c w n g" by (simp add: g_def)
  have IH: "sectors_ok g" "\<And>l. l \<notin> (\<lambda>i. fat_lba s i c) ` {0..<n} \<Longrightarrow> g l = f l"
    "0 < n \<Longrightarrow> g (fat_lba s 0 c) = patch (4 * (c mod 128)) (bytes32 (w AND 0x0FFFFFFF)) (f (fat_lba s 0 c))"
    using Suc unfolding g_def by simp_all
  have m: "4 * (c mod 128) + 4 \<le> 512" by (simp add: Suc_le_eq)
  then have "sectors_ok (set_fat_copy s c w n g)" using IH(1) by (simp add: set_fat_copy_def sectors_ok_def patch_length)
  moreover have "set_fat_copy s c w n g l = f l" if "l \<notin> (\<lambda>i. fat_lba s i c) ` {0..<Suc n}" for l
    using that IH(2) [of l] by (auto simp: set_fat_copy_def atLeast0_lessThan_Suc)
  moreover have "fat_lba s 0 c \<noteq> fat_lba s n c" if "0 < n"
    using fat_lba_inj(1) [OF v c _ c, of 0 n] Suc.prems that by auto
  then have "set_fat_copy s c w n g (fat_lba s 0 c) = patch (4 * (c mod 128)) (bytes32 (w AND 0x0FFFFFFF)) (f (fat_lba s 0 c))"
    using IH(2,3) by (cases "n = 0") (simp_all add: set_fat_copy_def)
  ultimately show ?case unfolding st by blast
qed (use f in simp)

lemma set_fat_laws:
  assumes v: "vol_ok s" and f: "sectors_ok f" and c: "c < fat_entries s"
  shows "sectors_ok (set_fat s c w f)" "unat (cluster_begin_lba s) \<le> unat l \<Longrightarrow> set_fat s c w f l = f l"
    "c' < fat_entries s \<Longrightarrow> fat_at (set_fat s c w f) s c' = (if c' = c then w AND 0x0FFFFFFF else fat_at f s c')"
proof -
  let ?n = "unat (NumFATs (bpb s))"
  have L: "sectors_ok (set_fat s c w f)" "\<And>l. l \<notin> (\<lambda>i. fat_lba s i c) ` {0..<?n} \<Longrightarrow> set_fat s c w f l = f l"
    "0 < ?n \<Longrightarrow> set_fat s c w f (fat_lba s 0 c) = patch (4 * (c mod 128)) (bytes32 (w AND 0x0FFFFFFF)) (f (fat_lba s 0 c))"
    using set_fat_copies [OF v f c order_refl, of w] unfolding set_fat_def by simp_all
  have n: "0 < ?n" using v by (simp add: vol_ok_def unat_gt_0)
  show "sectors_ok (set_fat s c w f)" by (rule L(1))
  show "set_fat s c w f l = f l" if "unat (cluster_begin_lba s) \<le> unat l"
    by (rule L(2)) (use that fat_lba_unat(2) [OF v c] in fastforce)
  show "fat_at (set_fat s c w f) s c' = (if c' = c then w AND 0x0FFFFFFF else fat_at f s c')" if c': "c' < fat_entries s"
  proof (cases "c' div 128 = c div 128")
    case True
    then have e: "fat_lba s 0 c' = fat_lba s 0 c" by (simp add: fat_lba_def)
    have "c' = c \<longleftrightarrow> c' mod 128 = c mod 128" using True by (metis div_mult_mod_eq)
    moreover have "length (f (fat_lba s 0 c)) = 512" using f by (simp add: sectors_ok_def)
    ultimately show ?thesis
      using L(3) [OF n] ent_at_patch [of "f (fat_lba s 0 c)" "c mod 128" "c' mod 128" "w AND 0x0FFFFFFF"]
      unfolding fat_at_def e by (simp add: and.assoc)
  next
    case False
    have "fat_lba s 0 c' \<notin> (\<lambda>i. fat_lba s i c) ` {0..<?n}"
      using fat_lba_inj(2) [OF v c' n c] False by fastforce
    then show ?thesis using L(2) [of "fat_lba s 0 c'"] False by (auto simp: fat_at_def)
  qed
qed

section \<open>The driver on a block device\<close>

locale fat_volume = block_device rd wr sector lba_ok ok
  for rd :: "u32 \<Rightarrow> 's \<Rightarrow> int \<times> byte list \<times> 's" and wr sector lba_ok ok +
  fixes E :: "'s hw"
  assumes hw_laws: "hw_rd E = rd" "hw_wr E = wr"
    and small_lba: "unat n < 2 ^ 28 \<Longrightarrow> lba_ok n"
begin

lemma sectors_ok_sector: "ok d \<Longrightarrow> sectors_ok (sector d)"
  by (simp add: sectors_ok_def sector_length)

lemma sector_read_law:
  assumes "ok d" "\<not> reads_module s" "unat l < 2 ^ 28"
  obtains d' where "read_buf E cap l (with_disk d s) = Some (0, sector d l, with_disk d' s)" "ok d'" "sector d' = sector d"
proof -
  obtain d' where "rd l d = (0, sector d l, d')" "ok d'" "sector d' = sector d" using rd_law [OF assms(1) small_lba [OF assms(3)]] by blast
  then show ?thesis using that [of d'] assms(2) by (simp add: read_buf_def fat32_read_sector_def fat_hw_def hw_laws)
qed

lemma sector_write_law:
  assumes "ok d" "unat l < 2 ^ 28" "length bs = 512"
  obtains d' where "write_buf E l bs (with_disk d s) = Some (0, with_disk d' s)" "ok d'" "sector d' = (sector d)(l := bs)"
proof -
  obtain d' where "wr l bs d = (0, d')" "ok d'" "sector d' = (sector d)(l := bs)" using wr_law [OF assms(1) small_lba [OF assms(2)] assms(3)] by blast
  then show ?thesis using that [of d'] assms(3) by (simp add: write_buf_def fat_hw_def hw_laws at_disk_def)
qed

lemma read_fat_law:
  assumes "ok d" "vol_ok s" "c < fat_entries s"
  obtains d' where "read_fat_entry E (of_nat c) (with_disk d s) = Some (fat_at (sector d) s c, with_disk d' s)" "ok d'" "sector d' = sector d"
proof -
  have n: "0 < unat (NumFATs (bpb s))" using assms(2) by (simp add: vol_ok_def unat_gt_0)
  note u = fat_lba_unat [OF assms(2,3) n]
  have l: "unat (fat_lba s 0 c) < 2 ^ 28" and v: "bytes_per_sector s = 512" "\<not> reads_module s" "c < 2 ^ 28"
    using u(2) assms(2,3) vol_entries [OF assms(2)] by (auto simp: vol_ok_def)
  obtain d' where d': "read_buf E 512 (fat_lba s 0 c) (with_disk d s) = Some (0, sector d (fat_lba s 0 c), with_disk d' s)"
    "ok d'" "sector d' = sector d" by (rule sector_read_law [OF assms(1) v(2) l])
  have "4 * (c mod 128) + 4 \<le> 512" by (simp add: Suc_le_eq)
  moreover have "fat_begin_lba s + of_nat (c div 128) = fat_lba s 0 c" by (simp add: fat_lba_def)
  ultimately have "read_fat_entry E (of_nat c) (with_disk d s) = Some (fat_at (sector d) s c, with_disk d' s)"
    using d'(1) sector_length [OF assms(1), of "fat_lba s 0 c"]
    by (simp add: read_fat_entry_def v(1) entry_address [OF v(3)] fat_at_def ent_at_def Let_def)
  then show ?thesis using d'(2,3) by (rule that)
qed

lemma write_fat_copies_law:
  assumes v: "vol_ok s" and c: "c < fat_entries s" and i: "set is \<subseteq> {0..<unat (NumFATs (bpb s))}" and d: "ok d"
  shows "\<exists>d'. write_fat_copies E (of_nat (c div 128)) (4 * (c mod 128)) w is (with_disk d s) = Some (0, with_disk d' s) \<and>
    ok d' \<and> sector d' = fold (set_fat_copy s c w) is (sector d)"
  using i d
proof (induction "is" arbitrary: d)
  case (Cons i "is")
  let ?l = "fat_lba s i c" and ?o = "4 * (c mod 128)"
  have l: "unat ?l < 2 ^ 28" "\<not> reads_module s"
    using fat_lba_unat(2) [OF v c, of i] Cons.prems(1) v by (auto simp: vol_ok_def)
  have m: "?o + 4 \<le> 512" by (simp add: Suc_le_eq)
  obtain d1 where d1: "read_buf E 4096 ?l (with_disk d s) = Some (0, sector d ?l, with_disk d1 s)" "ok d1" "sector d1 = sector d"
    by (rule sector_read_law [OF Cons.prems(2) l(2,1)])
  let ?b = "patch ?o (bytes32 (w AND 0x0FFFFFFF)) (sector d ?l)"
  have len: "length ?b = 512" using m sector_length [OF Cons.prems(2)] by (simp add: patch_length)
  obtain d2 where d2: "write_buf E ?l ?b (with_disk d1 s) = Some (0, with_disk d2 s)" "ok d2" "sector d2 = (sector d1)(?l := ?b)"
    by (rule sector_write_law [OF d1(2) l(1) len])
  have s2: "sector d2 = set_fat_copy s c w i (sector d)" using d2(3) d1(3) by (simp add: set_fat_copy_def)
  obtain d3 where d3: "write_fat_copies E (of_nat (c div 128)) ?o w is (with_disk d2 s) = Some (0, with_disk d3 s)" "ok d3"
    "sector d3 = fold (set_fat_copy s c w) is (sector d2)"
    using Cons.IH [OF _ d2(2)] Cons.prems(1) by auto
  have "fat_begin_lba s + of_nat i * FATSz32 (bpb s) + of_nat (c div 128) = ?l" by (simp add: fat_lba_def)
  then show ?case
    using d1(1) d2(1) d3 m sector_length [OF Cons.prems(2), of ?l] by (simp add: s2)
qed simp

lemma write_fat_law:
  assumes "ok d" "vol_ok s" "c < fat_entries s"
  obtains d' where "write_fat_entry E (of_nat c) w (with_disk d s) = Some (0, with_disk d' s)" "ok d'" "sector d' = set_fat s c w (sector d)"
proof -
  have v: "bytes_per_sector s = 512" "FATSz32 (bpb s) \<noteq> 0" "c < 2 ^ 28"
    using assms(2,3) vol_entries [OF assms(2)] by (auto simp: vol_ok_def)
  have i: "set [0..<unat (NumFATs (bpb s))] \<subseteq> {0..<unat (NumFATs (bpb s))}" by simp
  obtain d' where "write_fat_copies E (of_nat (c div 128)) (4 * (c mod 128)) w [0..<unat (NumFATs (bpb s))] (with_disk d s) = Some (0, with_disk d' s)"
    "ok d'" "sector d' = set_fat s c w (sector d)"
    using write_fat_copies_law [OF assms(2,3) i assms(1)] unfolding set_fat_def by blast
  then show ?thesis using that [of d'] v by (simp add: write_fat_entry_def entry_address [OF v(3)] Let_def)
qed

lemma free_search_law:
  assumes "ok d" "vol_ok s" "set cs \<subseteq> {0..<fat_entries s}"
  shows "\<exists>d'. free_search E cs (with_disk d s) =
      Some (case find (\<lambda>c. fat_at (sector d) s c = 0) cs of None \<Rightarrow> 0 | Some c \<Rightarrow> of_nat c, with_disk d' s) \<and> ok d' \<and> sector d' = sector d"
  using assms
proof (induction cs arbitrary: d)
  case (Cons c cs)
  obtain d1 where d1: "read_fat_entry E (of_nat c) (with_disk d s) = Some (fat_at (sector d) s c, with_disk d1 s)" "ok d1" "sector d1 = sector d"
    by (rule read_fat_law [OF Cons.prems(1,2), of c]) (use Cons.prems(3) in auto)
  obtain d2 where "free_search E cs (with_disk d1 s) =
      Some (case find (\<lambda>c. fat_at (sector d1) s c = 0) cs of None \<Rightarrow> 0 | Some c \<Rightarrow> of_nat c, with_disk d2 s)" "ok d2" "sector d2 = sector d1"
    using Cons.IH [OF d1(2) Cons.prems(2)] Cons.prems(3) by auto
  with d1 show ?case by (cases "fat_at (sector d) s c = 0") simp_all
qed simp

lemma alloc_law:
  assumes "ok d" "vol_ok s" "find (\<lambda>c. fat_at (sector d) s c = 0) (cluster_range s) = Some c"
  obtains d' where "alloc_cluster E (with_disk d s) = Some (of_nat c, with_disk d' s)" "ok d'" "sector d' = set_fat s c 0x0FFFFFFF (sector d)"
proof -
  have v: "bytes_per_sector s = 512" "FATSz32 (bpb s) \<noteq> 0" using assms(2) by (simp_all add: vol_ok_def)
  have c: "c \<in> set (cluster_range s)" using find_split [OF assms(3)] by auto
  have e: "unat (of_nat (unat (FATSz32 (bpb s)) * 512 div 4) :: u32) = fat_entries s"
  proof -
    have "unat (FATSz32 (bpb s)) * 512 div 4 = fat_entries s" by (simp add: fat_entries_def)
    moreover have "fat_entries s < 2 ^ 32" using vol_entries [OF assms(2)] by simp
    ultimately show ?thesis by (simp only: unat_of_nat32)
  qed
  have r: "set (cluster_range s) \<subseteq> {0..<fat_entries s}" by (auto simp: cluster_range_def)
  obtain d1 where d1: "free_search E (cluster_range s) (with_disk d s) = Some (of_nat c, with_disk d1 s)" "ok d1" "sector d1 = sector d"
    using free_search_law [OF assms(1,2) r] assms(3) by auto
  have f: "find_free_cluster E (with_disk d s) = Some (of_nat c, with_disk d1 s)"
    using d1(1) v e by (simp add: find_free_cluster_def cluster_range_def)
  have ce: "c < fat_entries s" using c r by auto
  obtain d2 where d2: "write_fat_entry E (of_nat c) 0x0FFFFFFF (with_disk d1 s) = Some (0, with_disk d2 s)" "ok d2"
    "sector d2 = set_fat s c 0x0FFFFFFF (sector d1)" by (rule write_fat_law [OF d1(2) assms(2) ce])
  have "2 \<le> c" "c < 2 ^ 32" using c vol_entries [OF assms(2)] by (auto simp: cluster_range_def)
  then have "(of_nat c :: u32) \<noteq> 0" by (simp add: word_unat_eq_iff unat_of_nat)
  then show ?thesis using that [of d2] f d2 d1(3) by (simp add: alloc_cluster_def)
qed

end

section \<open>Chains and their contents\<close>

fun chain_of :: "(nat \<Rightarrow> u32) \<Rightarrow> nat list \<Rightarrow> bool" where
  "chain_of F [] \<longleftrightarrow> False"
| "chain_of F [c] \<longleftrightarrow> 0x0FFFFFF8 \<le> F c"
| "chain_of F (c # c' # cs) \<longleftrightarrow> F c = of_nat c' \<and> chain_of F (c' # cs)"

definition chain_lbas :: "'d fat \<Rightarrow> nat list \<Rightarrow> u32 list" where
  "chain_lbas s cs = concat (map (\<lambda>c. cluster_lbas s (of_nat c)) cs)"

definition file_data :: "(u32 \<Rightarrow> byte list) \<Rightarrow> 'd fat \<Rightarrow> nat list \<Rightarrow> byte list" where
  "file_data f s cs = concat (map f (chain_lbas s cs))"

definition free_clusters :: "(u32 \<Rightarrow> byte list) \<Rightarrow> 'd fat \<Rightarrow> nat list" where
  "free_clusters f s = filter (\<lambda>c. fat_at f s c = 0) (cluster_range s)"

definition cluster_bytes :: "'d fat \<Rightarrow> nat" where
  "cluster_bytes s = unat (sectors_per_cluster s) * 512"

definition clusters_for :: "'d fat \<Rightarrow> nat \<Rightarrow> nat" where
  "clusters_for s n = (n + cluster_bytes s - 1) div cluster_bytes s"

lemma chain_lbas_simps [simp]:
  "chain_lbas s [] = []" "chain_lbas s (c # cs) = cluster_lbas s (of_nat c) @ chain_lbas s cs"
  by (simp_all add: chain_lbas_def)

lemma file_data_simps [simp]:
  "file_data f s [] = []" "file_data f s (c # cs) = concat (map f (cluster_lbas s (of_nat c))) @ file_data f s cs"
  by (simp_all add: file_data_def)

lemma length_concat_sectors: "sectors_ok f \<Longrightarrow> length (concat (map f ls)) = 512 * length ls"
  by (induction ls) (simp_all add: sectors_ok_def)

lemma length_cluster:
  "vol_ok s \<Longrightarrow> sectors_ok f \<Longrightarrow> c \<in> set (cluster_range s) \<Longrightarrow> length (concat (map f (cluster_lbas s (of_nat c)))) = cluster_bytes s"
  by (simp add: length_concat_sectors distinct_cluster_lbas cluster_bytes_def)

lemma clusters_for_step:
  assumes "vol_ok s" "0 < n"
  shows "clusters_for s n = Suc (clusters_for s (n - cluster_bytes s))"
proof -
  have B: "0 < cluster_bytes s" using assms(1) by (simp add: cluster_bytes_def vol_ok_def unat_gt_0)
  show ?thesis
  proof (cases "cluster_bytes s \<le> n")
    case True
    then have "n + cluster_bytes s - 1 = (n - cluster_bytes s + cluster_bytes s - 1) + cluster_bytes s" using B by simp
    then show ?thesis using B unfolding clusters_for_def by (metis div_add_self2 Suc_eq_plus1 less_not_refl2)
  next
    case False
    then have "(n + cluster_bytes s - 1) div cluster_bytes s = 1" using assms(2) by (intro div_nat_eqI) simp_all
    then show ?thesis using False B by (simp add: clusters_for_def)
  qed
qed

context fat_volume
begin

lemma write_sectors_law:
  assumes "ok d" "vol_ok s" "bs \<noteq> []" "distinct lbas" "\<forall>l\<in>set lbas. unat l < 2 ^ 28"
  shows "\<exists>d'. write_sectors E bs lbas (with_disk d s) = Some (0, drop (512 * length lbas) bs, with_disk d' s) \<and> ok d' \<and>
    (\<forall>l. l \<notin> set lbas \<longrightarrow> sector d' l = sector d l) \<and>
    take (length bs) (concat (map (sector d') lbas)) = take (512 * length lbas) bs"
  using assms
proof (induction lbas arbitrary: bs d)
  case (Cons l ls)
  let ?c = "take 512 bs" let ?b = "?c @ replicate (512 - length ?c) 0"
  have n: "unat (bytes_per_sector s) = 512" using Cons.prems(2) by (simp add: vol_ok_def)
  have b: "length ?b = 512" and l: "unat l < 2 ^ 28" using Cons.prems(5) by simp_all
  obtain d1 where d1: "write_buf E l ?b (with_disk d s) = Some (0, with_disk d1 s)" "ok d1" "sector d1 = (sector d)(l := ?b)"
    by (rule sector_write_law [OF Cons.prems(1) l b])
  show ?case
  proof (cases "drop 512 bs = []")
    case True
    then have "write_sectors E bs (l # ls) (with_disk d s) = Some (0, [], with_disk d1 s)" using d1(1) n by simp
    moreover have "take (length bs) (concat (map (sector d1) (l # ls))) = bs" using d1(3) True by simp
    ultimately show ?thesis using d1(2,3) True by auto
  next
    case False
    then have bb: "?b = ?c" "length ?c = 512" "drop 512 bs \<noteq> []" by simp_all
    obtain d2 where d2: "write_sectors E (drop 512 bs) ls (with_disk d1 s) = Some (0, drop (512 * length ls) (drop 512 bs), with_disk d2 s)"
      "ok d2" "\<forall>k. k \<notin> set ls \<longrightarrow> sector d2 k = sector d1 k"
      "take (length (drop 512 bs)) (concat (map (sector d2) ls)) = take (512 * length ls) (drop 512 bs)"
      using Cons.IH [OF d1(2) Cons.prems(2) bb(3)] Cons.prems(4,5) by auto
    have w: "write_sectors E bs (l # ls) (with_disk d s) = Some (0, drop (512 * length (l # ls)) bs, with_disk d2 s)"
      using d1(1) d2(1) n False by (simp add: add.commute)
    have "sector d2 l = ?c" using d2(3) d1(3) Cons.prems(4) bb(1) by simp
    then have "take (length bs) (concat (map (sector d2) (l # ls))) = ?c @ take (length bs - 512) (concat (map (sector d2) ls))"
      using bb(2) by simp
    also have "\<dots> = take (512 * length (l # ls)) bs" using d2(4) by (simp add: take_add)
    finally show ?thesis using w d2(2,3) d1(3) by (intro exI [of _ d2]) auto
  qed
qed simp

end

text \<open>The table is read from its own sectors.\<close>

lemma fat_at_cong:
  assumes "vol_ok s" "k < fat_entries s" "\<And>l. unat l < unat (cluster_begin_lba s) \<Longrightarrow> f l = g l"
  shows "fat_at f s k = fat_at g s k"
proof -
  have n: "0 < unat (NumFATs (bpb s))" using assms(1) by (simp add: vol_ok_def unat_gt_0)
  have "f (fat_lba s 0 k) = g (fat_lba s 0 k)" by (rule assms(3) [OF fat_lba_unat(2) [OF assms(1,2) n]])
  then show ?thesis by (simp add: fat_at_def)
qed

lemma range_entry: "c \<in> set (cluster_range s) \<Longrightarrow> c < fat_entries s"
  by (simp add: cluster_range_def)

lemma range_nonzero: "vol_ok s \<Longrightarrow> c \<in> set (cluster_range s) \<Longrightarrow> (of_nat c :: u32) \<noteq> 0"
proof -
  assume a: "vol_ok s" "c \<in> set (cluster_range s)"
  then have "2 \<le> c" "c < 2 ^ 32" using data_lba_bound(3) [OF a] by (simp_all add: cluster_range_def)
  then show ?thesis by (simp add: word_unat_eq_iff unat_of_nat)
qed

lemma free_clusters_set: "c \<in> set (free_clusters f s) \<Longrightarrow> c \<in> set (cluster_range s) \<and> fat_at f s c = 0"
  by (simp add: free_clusters_def)

lemma free_clusters_distinct: "distinct (free_clusters f s)"
  by (simp add: free_clusters_def cluster_range_def)

lemma find_filter: "filter P xs = c # ys \<Longrightarrow> find P xs = Some c"
  by (induction xs) (auto split: if_splits)

text \<open>When the first free cluster is taken and no other entry becomes or stops being free, the
  remaining ones are left.\<close>

lemma free_clusters_take:
  assumes "free_clusters f s = c # cs" "\<And>k. k \<in> set (cluster_range s) \<Longrightarrow> fat_at g s k = 0 \<longleftrightarrow> fat_at f s k = 0 \<and> k \<noteq> c"
  shows "free_clusters g s = cs"
proof -
  have "free_clusters g s = filter (\<lambda>k. k \<noteq> c) (free_clusters f s)"
    unfolding free_clusters_def filter_filter by (rule filter_cong) (use assms(2) in auto)
  moreover have "c \<notin> set cs" using free_clusters_distinct [of f s] assms(1) by simp
  ultimately show ?thesis using assms(1) by (auto simp: filter_id_conv)
qed

context fat_volume
begin

text \<open>A round of the writing loop on a disk with a free cluster: the cluster is linked behind the
  previous one, marked as the last, and filled with the next bytes.\<close>

lemma write_cluster_law:
  assumes d: "ok d" and v: "vol_ok s" and f: "free_clusters (sector d) s = c # free" and bs: "bs \<noteq> []"
    and ps: "ps = [] \<and> prev = 0 \<or> ps = [p] \<and> prev = of_nat p \<and> p \<in> set (cluster_range s) \<and> fat_at (sector d) s p \<noteq> 0"
  obtains d' where
    "write_cluster E first prev bs (with_disk d s) = Some (Some (if first = 0 then of_nat c else first, of_nat c, drop (cluster_bytes s) bs), with_disk d' s)"
    "ok d'" "free_clusters (sector d') s = free"
    "\<forall>k. k < fat_entries s \<longrightarrow> fat_at (sector d') s k = (if k = c then 0x0FFFFFFF else if k \<in> set ps then of_nat c else fat_at (sector d) s k)"
    "\<forall>l. unat (cluster_begin_lba s) \<le> unat l \<longrightarrow> l \<notin> set (cluster_lbas s (of_nat c)) \<longrightarrow> sector d' l = sector d l"
    "take (length bs) (concat (map (sector d') (cluster_lbas s (of_nat c)))) = take (cluster_bytes s) bs"
proof -
  have c: "c \<in> set (cluster_range s)" "fat_at (sector d) s c = 0" using free_clusters_set [of c "sector d" s] f by simp_all
  note ce = range_entry [OF c(1)] and cn = range_nonzero [OF v c(1)]
  have "find (\<lambda>c. fat_at (sector d) s c = 0) (cluster_range s) = Some c"
    by (rule find_filter) (rule f [unfolded free_clusters_def])
  then obtain d1 where d1: "alloc_cluster E (with_disk d s) = Some (of_nat c, with_disk d1 s)" "ok d1"
    "sector d1 = set_fat s c 0x0FFFFFFF (sector d)" by (rule alloc_law [OF d v])
  note L1 = set_fat_laws [OF v sectors_ok_sector [OF d] ce, where w = "0x0FFFFFFF", folded d1(3)]
  have cb: "of_nat c AND 0x0FFFFFFF = (of_nat c :: u32)"
    by (rule mask28) (use data_lba_bound(3) [OF v c(1)] in \<open>simp add: word_less_nat_alt unat_of_nat\<close>)
  obtain d2 where d2: "(if prev \<noteq> 0 then write_fat_entry E prev (of_nat c) (with_disk d1 s) else Some (0, with_disk d1 s)) = Some (0, with_disk d2 s)" "ok d2"
    "\<And>k. k < fat_entries s \<Longrightarrow> fat_at (sector d2) s k = (if k \<in> set ps then of_nat c else fat_at (sector d1) s k)"
    "\<And>l. unat (cluster_begin_lba s) \<le> unat l \<Longrightarrow> sector d2 l = sector d1 l"
  proof (cases "ps = []")
    case True
    then show thesis using that [of d1] ps d1(2) by simp
  next
    case False
    then have p: "ps = [p]" "prev = of_nat p" "p \<in> set (cluster_range s)" using ps by simp_all
    obtain d2 where d2: "write_fat_entry E (of_nat p) (of_nat c) (with_disk d1 s) = Some (0, with_disk d2 s)" "ok d2"
      "sector d2 = set_fat s p (of_nat c) (sector d1)" by (rule write_fat_law [OF d1(2) v range_entry [OF p(3)]])
    note L = set_fat_laws [OF v sectors_ok_sector [OF d1(2)] range_entry [OF p(3)], where w = "of_nat c", folded d2(3)]
    show thesis using that [OF _ d2(2)] p(1,2) range_nonzero [OF v p(3)] d2(1) L(2,3) cb by simp
  qed
  obtain d3 where d3: "write_fat_entry E (of_nat c) 0x0FFFFFFF (with_disk d2 s) = Some (0, with_disk d3 s)" "ok d3"
    "sector d3 = set_fat s c 0x0FFFFFFF (sector d2)" by (rule write_fat_law [OF d2(2) v ce])
  note L3 = set_fat_laws [OF v sectors_ok_sector [OF d2(2)] ce, where w = "0x0FFFFFFF", folded d3(3)]
  have small: "\<forall>l\<in>set (cluster_lbas s (of_nat c)). unat l < 2 ^ 28" using cluster_sectors(3) [OF v c(1)] by fastforce
  have len: "512 * length (cluster_lbas s (of_nat c)) = cluster_bytes s"
    by (simp add: distinct_cluster_lbas(2) [OF v c(1)] cluster_bytes_def)
  obtain d4 where d4: "write_sectors E bs (cluster_lbas s (of_nat c)) (with_disk d3 s) = Some (0, drop (cluster_bytes s) bs, with_disk d4 s)" "ok d4"
    "\<And>l. l \<notin> set (cluster_lbas s (of_nat c)) \<Longrightarrow> sector d4 l = sector d3 l"
    "take (length bs) (concat (map (sector d4) (cluster_lbas s (of_nat c)))) = take (cluster_bytes s) bs"
    using write_sectors_law [OF d3(2) v bs distinct_cluster_lbas(1) [OF v c(1)] small] unfolding len by blast
  have F: "fat_at (sector d4) s k = (if k = c then 0x0FFFFFFF else if k \<in> set ps then of_nat c else fat_at (sector d) s k)"
    if k: "k < fat_entries s" for k
  proof -
    have "fat_at (sector d4) s k = fat_at (sector d3) s k"
      by (rule fat_at_cong [OF v k]) (rule d4(3), use cluster_sectors(4) [OF v c(1)] in fastforce)
    then show ?thesis using L3(3) [OF k] d2(3) [OF k] L1(3) [OF k] by simp
  qed
  have fr: "free_clusters (sector d4) s = free"
  proof (rule free_clusters_take [OF f])
    fix k assume "k \<in> set (cluster_range s)"
    then show "fat_at (sector d4) s k = 0 \<longleftrightarrow> fat_at (sector d) s k = 0 \<and> k \<noteq> c" using F [OF range_entry] c(2) cn ps by auto
  qed
  show thesis
    by (rule that [OF _ d4(2) fr]) (use F d1(1) d2(1,4) d3(1) d4(1,3,4) cn L1(2) L3(2) in \<open>simp_all add: write_cluster_def\<close>)
qed

end

lemma clusters_for_0: "vol_ok s \<Longrightarrow> clusters_for s 0 = 0"
  by (simp add: clusters_for_def cluster_bytes_def vol_ok_def unat_gt_0)

lemma chain_lbas_disjoint:
  assumes "vol_ok s" "c \<in> set (cluster_range s)" "set cs \<subseteq> set (cluster_range s)" "c \<notin> set cs" "l \<in> set (cluster_lbas s (of_nat c))"
  shows "l \<notin> set (chain_lbas s cs)"
proof
  assume "l \<in> set (chain_lbas s cs)"
  then obtain c' where c': "c' \<in> set cs" "l \<in> set (cluster_lbas s (of_nat c'))" by (auto simp: chain_lbas_def)
  then have "c' \<in> set (cluster_range s)" "c \<noteq> c'" using assms(3,4) by auto
  from cluster_disjoint [OF assms(1,2) this] c'(2) assms(5) show False by blast
qed

text \<open>The effect of the writing loop on the sectors: the clusters \<open>cs\<close> leave the free ones,
  form a chain behind the earlier cluster, if there is one, and begin with the bytes; every other
  entry and every other cluster is as before.\<close>

definition written :: "'d fat \<Rightarrow> nat list \<Rightarrow> nat list \<Rightarrow> byte list \<Rightarrow> (u32 \<Rightarrow> byte list) \<Rightarrow> (u32 \<Rightarrow> byte list) \<Rightarrow> bool" where
  "written s ps cs bs f f' \<longleftrightarrow>
     free_clusters f' s = drop (length cs) (free_clusters f s) \<and>
     (ps @ cs \<noteq> [] \<longrightarrow> chain_of (fat_at f' s) (ps @ cs)) \<and>
     (\<forall>k. k < fat_entries s \<longrightarrow> k \<notin> set (ps @ cs) \<longrightarrow> fat_at f' s k = fat_at f s k) \<and>
     (\<forall>l. unat (cluster_begin_lba s) \<le> unat l \<longrightarrow> l \<notin> set (chain_lbas s cs) \<longrightarrow> f' l = f l) \<and>
     take (length bs) (file_data f' s cs) = bs"

lemma written_step:
  assumes v: "vol_ok s" and ok: "sectors_ok f2" and fr: "free_clusters f s = c # free" and sub: "set cs \<subseteq> set free"
    and ps: "ps = [] \<or> ps = [p] \<and> p \<in> set (cluster_range s) \<and> fat_at f s p \<noteq> 0"
    and f1: "free_clusters f1 s = free"
    "\<forall>k. k < fat_entries s \<longrightarrow> fat_at f1 s k = (if k = c then 0x0FFFFFFF else if k \<in> set ps then of_nat c else fat_at f s k)"
    "\<forall>l. unat (cluster_begin_lba s) \<le> unat l \<longrightarrow> l \<notin> set (cluster_lbas s (of_nat c)) \<longrightarrow> f1 l = f l"
    "take (length bs) (concat (map f1 (cluster_lbas s (of_nat c)))) = take (cluster_bytes s) bs"
    and w: "written s [c] cs (drop (cluster_bytes s) bs) f1 f2"
  shows "written s ps (c # cs) bs f f2"
proof -
  note W = w [unfolded written_def]
  have z: "\<forall>k\<in>set (c # free). k \<in> set (cluster_range s) \<and> fat_at f s k = 0" using free_clusters_set [of _ f s] fr by simp
  have c: "c \<in> set (cluster_range s)" "c \<notin> set free" using z free_clusters_distinct [of f s] fr by simp_all
  have cs: "set cs \<subseteq> set (cluster_range s)" "c \<notin> set cs" using z c(2) sub by auto
  have ch: "chain_of (fat_at f2 s) (ps @ c # cs)"
  proof (cases "ps = []")
    case False
    then have p: "ps = [p]" "p \<in> set (cluster_range s)" "fat_at f s p \<noteq> 0" using ps by simp_all
    then have "p \<notin> set ([c] @ cs)" using z sub by auto
    then have "fat_at f2 s p = of_nat c" using W f1(2) p(1) range_entry [OF p(2)] by simp
    then show ?thesis using W p(1) by simp
  qed (use W in simp)
  have "f2 l = f1 l" if "l \<in> set (cluster_lbas s (of_nat c))" for l
    using W cluster_sectors(4) [OF v c(1) that] chain_lbas_disjoint [OF v c(1) cs that] by blast
  then have m: "map f2 (cluster_lbas s (of_nat c)) = map f1 (cluster_lbas s (of_nat c))" by simp
  have "take (length bs) (file_data f2 s (c # cs)) = take (cluster_bytes s) bs @ take (length bs - cluster_bytes s) (file_data f2 s cs)"
    using f1(4) length_cluster [OF v ok c(1)] by (simp add: m)
  also have "\<dots> = bs" using W by simp
  finally show ?thesis using W ch f1(1,2,3) fr unfolding written_def by simp
qed

context fat_volume
begin

lemma write_clusters_law:
  assumes "ok d" "vol_ok s" "clusters_for s (length bs) \<le> length (free_clusters (sector d) s)"
    "ps = [] \<and> prev = 0 \<or> ps = [p] \<and> prev = of_nat p \<and> p \<in> set (cluster_range s) \<and> 0x0FFFFFF8 \<le> fat_at (sector d) s p"
  shows "\<exists>d' cs. cs = take (clusters_for s (length bs)) (free_clusters (sector d) s) \<and>
    write_clusters E first prev bs (with_disk d s) = Some (Some (if first = 0 \<and> cs \<noteq> [] then of_nat (hd cs) else first), with_disk d' s) \<and>
    ok d' \<and> written s ps cs bs (sector d) (sector d')"
  using assms
proof (induction bs arbitrary: d first prev ps p rule: length_induct)
  case (1 bs)
  note v = 1(3)
  show ?case
  proof (cases "bs = []")
    case True
    then show ?thesis using 1(2,5) clusters_for_0 [OF v] by (intro exI [of _ d] exI [of _ "[]"]) (auto simp: write_clusters.simps written_def)
  next
    case False
    let ?B = "cluster_bytes s" let ?rest = "drop ?B bs" let ?n = "clusters_for s (length ?rest)"
    have n: "clusters_for s (length bs) = Suc ?n" using clusters_for_step [OF v, of "length bs"] False by simp
    then obtain c free where f: "free_clusters (sector d) s = c # free" using 1(4) by (cases "free_clusters (sector d) s") simp_all
    have c: "c \<in> set (cluster_range s)" using free_clusters_set [of c "sector d" s] f by simp
    have ps: "ps = [] \<and> prev = 0 \<or> ps = [p] \<and> prev = of_nat p \<and> p \<in> set (cluster_range s) \<and> fat_at (sector d) s p \<noteq> 0"
      using 1(5) by auto
    define first' where "first' = (if first = 0 then of_nat c else first)"
    obtain d1 where d1: "write_cluster E first prev bs (with_disk d s) = Some (Some (first', of_nat c, ?rest), with_disk d1 s)"
      "ok d1" "free_clusters (sector d1) s = free"
      "\<forall>k. k < fat_entries s \<longrightarrow> fat_at (sector d1) s k = (if k = c then 0x0FFFFFFF else if k \<in> set ps then of_nat c else fat_at (sector d) s k)"
      "\<forall>l. unat (cluster_begin_lba s) \<le> unat l \<longrightarrow> l \<notin> set (cluster_lbas s (of_nat c)) \<longrightarrow> sector d1 l = sector d l"
      "take (length bs) (concat (map (sector d1) (cluster_lbas s (of_nat c)))) = take ?B bs"
      unfolding first'_def by (rule write_cluster_law [OF 1(2) v f False ps, of first])
    have less: "length ?rest < length bs" using v False by (simp add: cluster_bytes_def vol_ok_def unat_gt_0)
    have nf: "?n \<le> length (free_clusters (sector d1) s)" using 1(4) n f d1(3) by simp
    have pc: "[c] = [] \<and> (of_nat c :: u32) = 0 \<or> [c] = [c] \<and> (of_nat c :: u32) = of_nat c \<and> c \<in> set (cluster_range s) \<and> 0x0FFFFFF8 \<le> fat_at (sector d1) s c"
      using c d1(4) range_entry [OF c] by simp
    have fn: "first' \<noteq> 0" using range_nonzero [OF v c] by (simp add: first'_def)
    obtain d2 cs where cs: "cs = take ?n (free_clusters (sector d1) s)"
      and d2: "write_clusters E first' (of_nat c) ?rest (with_disk d1 s) = Some (Some first', with_disk d2 s)"
      "ok d2" "written s [c] cs ?rest (sector d1) (sector d2)"
      using 1(1) [rule_format, OF less d1(2) v nf pc, of first'] fn by auto
    have sub: "set cs \<subseteq> set free" unfolding cs d1(3) by (rule set_take_subset)
    have ps': "ps = [] \<or> ps = [p] \<and> p \<in> set (cluster_range s) \<and> fat_at (sector d) s p \<noteq> 0" using ps by blast
    have "written s ps (c # cs) bs (sector d) (sector d2)"
      by (rule written_step [OF v sectors_ok_sector [OF d2(2)] f sub ps' d1(3-6) d2(3)])
    moreover have "write_clusters E first prev bs (with_disk d s) = Some (Some first', with_disk d2 s)"
      using d1(1) d2(1) False by (subst write_clusters.simps) simp
    ultimately show ?thesis using cs n f d1(3) d2(2) by (intro exI [of _ d2] exI [of _ "c # cs"]) (simp add: first'_def)
  qed
qed

end

section \<open>Following a chain\<close>

lemma range_word:
  assumes "vol_ok s" "c \<in> set (cluster_range s)"
  shows "2 \<le> (of_nat c :: u32)" "(of_nat c :: u32) < 0x0FFFFFF0" "\<not> chain_end (of_nat c)"
proof -
  have c: "2 \<le> c" "c < 0x0FFFFFF0" using data_lba_bound(3) [OF assms] assms(2) by (simp_all add: cluster_range_def)
  then show a: "2 \<le> (of_nat c :: u32)" and b: "(of_nat c :: u32) < 0x0FFFFFF0"
    by (simp_all add: word_le_nat_alt word_less_nat_alt unat_of_nat)
  then show "\<not> chain_end (of_nat c)" by (auto simp: chain_end_def word_le_nat_alt word_less_nat_alt)
qed

lemma range_inj:
  assumes "vol_ok s" "c \<in> set (cluster_range s)" "c' \<in> set (cluster_range s)" "(of_nat c :: u32) = of_nat c'"
  shows "c = c'"
proof -
  have "c < 2 ^ 32" "c' < 2 ^ 32" using data_lba_bound(3) [OF assms(1,2)] data_lba_bound(3) [OF assms(1,3)] by simp_all
  then show ?thesis using assms(4) by (metis unat_of_nat32)
qed

lemma chain_end_last: "0x0FFFFFF8 \<le> c \<Longrightarrow> chain_end c"
  by (simp add: chain_end_def)

lemma chain_of_cong: "(\<And>c. c \<in> set cs \<Longrightarrow> F c = G c) \<Longrightarrow> chain_of F cs = chain_of G cs"
  by (induction G cs rule: chain_of.induct) auto

context fat_volume
begin

lemma read_sectors_law:
  assumes "ok d" "vol_ok s" "\<forall>l\<in>set lbas. unat l < 2 ^ 28" "length out < len"
  shows "\<exists>d'. read_sectors E len lbas out (with_disk d s) =
      Some (if len \<le> length out + 512 * length lbas then Some (int len) else None,
            out @ take (len - length out) (concat (map (sector d) lbas)), with_disk d' s) \<and> ok d' \<and> sector d' = sector d"
  using assms
proof (induction lbas arbitrary: d out)
  case (Cons l ls)
  have v: "\<not> reads_module s" "unat (bytes_per_sector s) = 512" and l: "unat l < 2 ^ 28" using Cons.prems(2,3) by (simp_all add: vol_ok_def)
  obtain d1 where d1: "read_buf E 4096 l (with_disk d s) = Some (0, sector d l, with_disk d1 s)" "ok d1" "sector d1 = sector d"
    by (rule sector_read_law [OF Cons.prems(1) v(1) l])
  have len: "length (sector d l) = 512" by (rule sector_length [OF Cons.prems(1)])
  show ?case
  proof (cases "len \<le> length out + 512")
    case True
    then show ?thesis using d1 v(2) len Cons.prems(4) by (intro exI [of _ d1]) (auto simp: min_absorb1 Let_def)
  next
    case False
    let ?out = "out @ sector d l"
    have o: "length ?out < len" and r: "\<forall>l\<in>set ls. unat l < 2 ^ 28" using False len Cons.prems(3) by simp_all
    obtain d2 where "read_sectors E len ls ?out (with_disk d1 s) =
        Some (if len \<le> length ?out + 512 * length ls then Some (int len) else None,
            ?out @ take (len - length ?out) (concat (map (sector d1) ls)), with_disk d2 s)" "ok d2" "sector d2 = sector d1"
      using Cons.IH [OF d1(2) Cons.prems(2) r o] by blast
    then show ?thesis using d1 v(2) len False by (intro exI [of _ d2]) (simp add: min_absorb2 Let_def)
  qed
qed simp

lemma read_chain_law:
  assumes "ok d" "vol_ok s" "chain_of (fat_at (sector d) s) cs" "set cs \<subseteq> set (cluster_range s)" "distinct cs"
    "length out < len" "len \<le> length out + length (file_data (sector d) s cs)"
  shows "\<exists>d'. read_chain E len (of_nat (hd cs)) out (with_disk d s) =
    Some (int len, out @ take (len - length out) (file_data (sector d) s cs), with_disk d' s) \<and> ok d' \<and> sector d' = sector d"
  using assms
proof (induction cs arbitrary: d out)
  case (Cons c cs)
  note v = Cons.prems(2)
  let ?f = "sector d" and ?ls = "cluster_lbas s (of_nat c)"
  have c: "c \<in> set (cluster_range s)" using Cons.prems(4) by simp
  have small: "\<forall>l\<in>set ?ls. unat l < 2 ^ 28" using cluster_sectors(3) [OF v c] by fastforce
  have len: "length (concat (map ?f ?ls)) = 512 * length ?ls" by (rule length_concat_sectors [OF sectors_ok_sector [OF Cons.prems(1)]])
  obtain d1 where d1: "read_sectors E len ?ls out (with_disk d s) = Some (if len \<le> length out + 512 * length ?ls then Some (int len) else None,
      out @ take (len - length out) (concat (map ?f ?ls)), with_disk d1 s)" "ok d1" "sector d1 = ?f"
    using read_sectors_law [OF Cons.prems(1) v small Cons.prems(6)] by blast
  show ?case
  proof (cases "len \<le> length out + 512 * length ?ls")
    case True
    then show ?thesis using d1 range_word(3) [OF v c] len by (intro exI [of _ d1]) (simp add: read_chain.simps)
  next
    case False
    let ?out = "out @ concat (map ?f ?ls)"
    obtain d2 where d2: "read_fat_entry E (of_nat c) (with_disk d1 s) = Some (fat_at ?f s c, with_disk d2 s)" "ok d2" "sector d2 = ?f"
      using read_fat_law [OF d1(2) v range_entry [OF c]] d1(3) by metis
    obtain c' cs' where cs: "cs = c' # cs'" using Cons.prems(7) False len by (cases cs) simp_all
    have c': "c' \<in> set (cluster_range s)" "(of_nat c' :: u32) \<noteq> of_nat c" using Cons.prems(4,5) cs range_inj [OF v c, of c'] by auto
    have nx: "fat_at ?f s c = of_nat c'" and ch: "chain_of (fat_at ?f s) cs" using Cons.prems(3) cs by simp_all
    have o: "length ?out < len" "len \<le> length ?out + length (file_data (sector d2) s cs)" using False Cons.prems(7) len d2(3) by simp_all
    obtain d3 where d3: "read_chain E len (of_nat (hd cs)) ?out (with_disk d2 s) =
        Some (int len, ?out @ take (len - length ?out) (file_data (sector d2) s cs), with_disk d3 s)" "ok d3" "sector d3 = sector d2"
      using Cons.IH [OF d2(2) v _ _ _ o] ch Cons.prems(4,5) d2(3) by auto
    have "read_chain E len (of_nat c) out (with_disk d s) = read_chain E len (of_nat c') ?out (with_disk d2 s)"
      using d1(1) d2(1) False len range_word(3) [OF v c] range_word(3) [OF v c'(1)] nx c'(2) by (subst read_chain.simps) simp
    then show ?thesis using d3 d2(3) cs False len by (intro exI [of _ d3]) simp
  qed
qed simp

lemma free_chain_law:
  assumes "ok d" "vol_ok s" "chain_of (fat_at (sector d) s) cs" "set cs \<subseteq> set (cluster_range s)" "distinct cs"
  shows "\<exists>d'. free_chain_loop E (of_nat (hd cs)) (with_disk d s) = Some (with_disk d' s) \<and> ok d' \<and>
    (\<forall>k. k < fat_entries s \<longrightarrow> fat_at (sector d') s k = (if k \<in> set cs then 0 else fat_at (sector d) s k)) \<and>
    (\<forall>l. unat (cluster_begin_lba s) \<le> unat l \<longrightarrow> sector d' l = sector d l)"
  using assms
proof (induction cs arbitrary: d)
  case (Cons c cs)
  note v = Cons.prems(2)
  have c: "c \<in> set (cluster_range s)" using Cons.prems(4) by simp
  note ce = range_entry [OF c]
  have w: "2 \<le> (of_nat c :: u32) \<and> (of_nat c :: u32) < 0x0FFFFFF8" using range_word(1,2) [OF v c] by (auto intro: less_trans)
  obtain d1 where d1: "read_fat_entry E (of_nat c) (with_disk d s) = Some (fat_at (sector d) s c, with_disk d1 s)" "ok d1" "sector d1 = sector d"
    by (rule read_fat_law [OF Cons.prems(1) v ce])
  obtain d2 where d2: "write_fat_entry E (of_nat c) 0 (with_disk d1 s) = Some (0, with_disk d2 s)" "ok d2" "sector d2 = set_fat s c 0 (sector d1)"
    by (rule write_fat_law [OF d1(2) v ce])
  note L = set_fat_laws [OF v sectors_ok_sector [OF d1(2)] ce, where w = 0, folded d2(3), unfolded d1(3)]
  show ?case
  proof (cases cs)
    case Nil
    then show ?thesis using d1(1) d2(1,2) w L(2,3) Cons.prems(3) by (intro exI [of _ d2]) (simp add: free_chain_loop.simps)
  next
    case (Cons c' cs')
    have c': "c' \<in> set (cluster_range s)" "(of_nat c' :: u32) \<noteq> of_nat c" using Cons.prems(4,5) Cons range_inj [OF v c, of c'] by auto
    have sub: "set cs \<subseteq> set (cluster_range s)" "distinct cs" "c \<notin> set cs" using Cons.prems(4,5) by simp_all
    have "chain_of (fat_at (sector d2) s) cs = chain_of (fat_at (sector d) s) cs"
      by (rule chain_of_cong) (metis L(3) range_entry sub(1,3) subsetD)
    then have ch: "chain_of (fat_at (sector d2) s) cs" using Cons.prems(3) Cons by simp
    obtain d3 where d3: "free_chain_loop E (of_nat (hd cs)) (with_disk d2 s) = Some (with_disk d3 s)" "ok d3"
      "\<forall>k. k < fat_entries s \<longrightarrow> fat_at (sector d3) s k = (if k \<in> set cs then 0 else fat_at (sector d2) s k)"
      "\<forall>l. unat (cluster_begin_lba s) \<le> unat l \<longrightarrow> sector d3 l = sector d2 l"
      using Cons.IH [OF d2(2) v ch sub(1,2)] by blast
    have nx: "fat_at (sector d) s c = of_nat c'" using Cons.prems(3) Cons by simp
    have "\<not> 0x0FFFFFF8 \<le> (of_nat c' :: u32)" using range_word(3) [OF v c'(1)] by (auto simp: chain_end_def)
    then have "free_chain_loop E (of_nat c) (with_disk d s) = free_chain_loop E (of_nat c') (with_disk d2 s)"
      using d1(1) d2(1) w nx c'(2) range_nonzero [OF v c'(1)] by (subst free_chain_loop.simps) simp
    then show ?thesis using d3 Cons L(2,3) by (intro exI [of _ d3]) auto
  qed
qed simp

end

section \<open>Directories\<close>

text \<open>The entries of a directory in the order in which every search meets them, and the search
  on that list: up to the first entry that ends it.\<close>

definition sector_slots :: "'d fat \<Rightarrow> u32 list \<Rightarrow> (u32 \<times> nat) list" where
  "sector_slots s ls = concat (map (\<lambda>l. map (Pair l) (slots s)) ls)"

definition first_slot :: "(byte list \<Rightarrow> verdict) \<Rightarrow> (u32 \<Rightarrow> byte list) \<Rightarrow> (u32 \<times> nat) list \<Rightarrow> (u32 \<times> nat) option" where
  "first_slot v f ps = find (\<lambda>(l, off). v (slot (f l) off) \<noteq> Skip) ps"

definition scan_end :: "(byte list \<Rightarrow> verdict) \<Rightarrow> (u32 \<Rightarrow> byte list) \<Rightarrow> u32 \<times> nat \<Rightarrow> found" where
  "scan_end v f = (\<lambda>(l, off). if v (slot (f l) off) = Hit then At l (f l) off else NotThere)"

definition scan_spec :: "(byte list \<Rightarrow> verdict) \<Rightarrow> (u32 \<Rightarrow> byte list) \<Rightarrow> (u32 \<times> nat) list \<Rightarrow> found" where
  "scan_spec v f ps = (case first_slot v f ps of None \<Rightarrow> NotThere | Some p \<Rightarrow> scan_end v f p)"

lemma find_append: "find P (xs @ ys) = (case find P xs of None \<Rightarrow> find P ys | Some x \<Rightarrow> Some x)"
  by (induction xs) simp_all

lemma find_map: "find P (map f xs) = map_option f (find (P \<circ> f) xs)"
  by (induction xs) simp_all

lemma slots_ok: "vol_ok s \<Longrightarrow> slots s = map (\<lambda>i. 32 * i) [0..<16]"
  by (simp add: slots_def vol_ok_def)

lemma slots_bound: "vol_ok s \<Longrightarrow> off \<in> set (slots s) \<Longrightarrow> off + 32 \<le> 512"
  by (auto simp: slots_ok)

lemma scan_slots_law:
  assumes "\<forall>off\<in>set offs. off + 32 \<le> length sec"
  shows "scan_slots v sec offs = Some (case find (\<lambda>off. v (slot sec off) \<noteq> Skip) offs of None \<Rightarrow> (Skip, 0) | Some off \<Rightarrow> (v (slot sec off), off))"
  using assms by (induction offs) (auto split: verdict.splits)

lemma first_slot_simps [simp]:
  "first_slot v f [] = None"
  "first_slot v f (ps @ qs) = (case first_slot v f ps of None \<Rightarrow> first_slot v f qs | Some p \<Rightarrow> Some p)"
  "first_slot v f (map (Pair l) offs) = map_option (Pair l) (find (\<lambda>off. v (slot (f l) off) \<noteq> Skip) offs)"
  unfolding first_slot_def by (simp_all add: find_append find_map comp_def)

lemma sector_slots_simps [simp]:
  "sector_slots s [] = []" "sector_slots s (l # ls) = map (Pair l) (slots s) @ sector_slots s ls"
  "sector_slots s (ls @ ls') = sector_slots s ls @ sector_slots s ls'"
  by (simp_all add: sector_slots_def)

context fat_volume
begin

lemma scan_sectors_law:
  assumes "ok d" "vol_ok s" "\<forall>l\<in>set ls. unat l < 2 ^ 28"
  shows "\<exists>d'. scan_sectors E v ls (with_disk d s) = Some (map_option (scan_end v (sector d)) (first_slot v (sector d) (sector_slots s ls)), with_disk d' s) \<and>
    ok d' \<and> sector d' = sector d"
  using assms
proof (induction ls arbitrary: d)
  case (Cons l ls)
  have v: "\<not> reads_module s" and l: "unat l < 2 ^ 28" using Cons.prems(2,3) by (simp_all add: vol_ok_def)
  obtain d1 where d1: "read_buf E 4096 l (with_disk d s) = Some (0, sector d l, with_disk d1 s)" "ok d1" "sector d1 = sector d"
    by (rule sector_read_law [OF Cons.prems(1) v l])
  obtain d2 where d2: "scan_sectors E v ls (with_disk d1 s) = Some (map_option (scan_end v (sector d1)) (first_slot v (sector d1) (sector_slots s ls)), with_disk d2 s)"
    "ok d2" "sector d2 = sector d1" using Cons.IH [OF d1(2) Cons.prems(2)] Cons.prems(3) by auto
  have o: "\<forall>off\<in>set (slots s). off + 32 \<le> length (sector d l)" using slots_bound [OF Cons.prems(2)] sector_length [OF Cons.prems(1)] by simp
  show ?case
  proof (cases "find (\<lambda>off. v (slot (sector d l) off) \<noteq> Skip) (slots s)")
    case None
    then show ?thesis using d1 d2 by (simp add: scan_slots_law [OF o])
  next
    case (Some off)
    then have "v (slot (sector d l) off) \<noteq> Skip" by (auto simp: find_Some_iff)
    then show ?thesis using d1 Some by (cases "v (slot (sector d l) off)") (simp_all add: scan_slots_law [OF o] scan_end_def)
  qed
qed simp

lemma scan_dir_law:
  assumes "ok d" "vol_ok s" "chain_of (fat_at (sector d) s) cs" "set cs \<subseteq> set (cluster_range s)"
  shows "\<exists>d'. scan_dir E v (of_nat (hd cs)) (with_disk d s) = Some (scan_spec v (sector d) (sector_slots s (chain_lbas s cs)), with_disk d' s) \<and>
    ok d' \<and> sector d' = sector d"
  using assms
proof (induction cs arbitrary: d)
  case (Cons c cs)
  note vo = Cons.prems(2)
  let ?f = "sector d" and ?ls = "cluster_lbas s (of_nat c)"
  have c: "c \<in> set (cluster_range s)" using Cons.prems(4) by simp
  have small: "\<forall>l\<in>set ?ls. unat l < 2 ^ 28" using cluster_sectors(3) [OF vo c] by fastforce
  obtain d1 where d1: "scan_sectors E v ?ls (with_disk d s) = Some (map_option (scan_end v ?f) (first_slot v ?f (sector_slots s ?ls)), with_disk d1 s)"
    "ok d1" "sector d1 = ?f" using scan_sectors_law [OF Cons.prems(1) vo small] by blast
  obtain d2 where d2: "read_fat_entry E (of_nat c) (with_disk d1 s) = Some (fat_at ?f s c, with_disk d2 s)" "ok d2" "sector d2 = ?f"
    using read_fat_law [OF d1(2) vo range_entry [OF c]] d1(3) by metis
  show ?case
  proof (cases "first_slot v ?f (sector_slots s ?ls)")
    case (Some p)
    then show ?thesis using d1 range_word(3) [OF vo c] by (intro exI [of _ d1]) (simp add: scan_dir.simps scan_spec_def)
  next
    case None
    show ?thesis
    proof (cases cs)
      case Nil
      then have "chain_end (fat_at ?f s c)" using Cons.prems(3) by (simp add: chain_end_last)
      then show ?thesis using d1 d2 None Nil range_word(3) [OF vo c] by (intro exI [of _ d2]) (simp add: scan_dir.simps scan_spec_def)
    next
      case (Cons c' cs')
      have c': "c' \<in> set (cluster_range s)" and nx: "fat_at ?f s c = of_nat c'" using Cons.prems(3,4) Cons by simp_all
      obtain d3 where d3: "scan_dir E v (of_nat (hd cs)) (with_disk d2 s) = Some (scan_spec v (sector d2) (sector_slots s (chain_lbas s cs)), with_disk d3 s)"
        "ok d3" "sector d3 = sector d2" using Cons.IH [OF d2(2) vo] Cons.prems(3,4) Cons d2(3) by auto
      have "scan_dir E v (of_nat c) (with_disk d s) = scan_dir E v (of_nat c') (with_disk d2 s)"
        using d1(1) d2(1) None range_word(3) [OF vo c] range_word(3) [OF vo c'] nx by (subst scan_dir.simps) simp
      then show ?thesis using d3 d2(3) Cons None by (intro exI [of _ d3]) (simp add: scan_spec_def)
    qed
  qed
qed simp

end

section \<open>Numbers and names\<close>

lemma byte_of_digit: "k < 10 \<Longrightarrow> byte_of_char (char_of (48 + k :: nat)) = of_nat (48 + k)"
  by (simp add: byte_of_char_def of_char_of)

lemma unat_digit: "k < 10 \<Longrightarrow> unat (of_nat (48 + k) :: byte) = 48 + k"
  by (subst unat_of_nat) simp

lemma dec_digits_laws:
  "list_all is_dec (map byte_of_char (dec_digits n)) \<and> length (dec_digits n) \<le> n \<and>
   foldl (\<lambda>x b. x * 10 + of_nat (unat b - 48)) (0 :: u64) (map byte_of_char (dec_digits n)) = of_nat n"
proof (induction n rule: dec_digits.induct)
  case (1 n)
  show ?case
  proof (cases "n = 0")
    case False
    note IH = 1 [OF False]
    have k: "n mod 10 < 10" by simp
    have d: "is_dec (of_nat (48 + n mod 10))" using unat_digit [OF k] by (simp add: is_dec_def word_le_nat_alt)
    have l: "Suc (n div 10) \<le> n" using False by simp
    have "of_nat (n div 10) * 10 + of_nat (n mod 10) = (of_nat (n div 10 * 10 + n mod 10) :: u64)"
      by (simp only: of_nat_add of_nat_mult of_nat_numeral)
    then have "of_nat (n div 10) * 10 + of_nat (n mod 10) = (of_nat n :: u64)" by (simp only: div_mult_mod_eq)
    then show ?thesis using IH False l d byte_of_digit [OF k] unat_digit [OF k] by (subst (1 2 3) dec_digits.simps) simp
  qed (simp add: dec_digits.simps)
qed

lemma str_mem_at: "length t < 2 ^ 64 \<Longrightarrow> bytes_at (str_mem t) 0 (map byte_of_char t @ [0])"
  by (auto simp: bytes_at_nth str_mem_def nth_append unat_of_nat)

lemma atoi_dec:
  assumes "0 < n" "n < 2 ^ 31"
  shows "atoi (str_mem (dec n)) 0 = Some (int n)"
proof -
  have dec: "dec n = dec_digits n" "dec_digits n \<noteq> []" using assms(1) by (simp_all add: dec_def dec_digits.simps [of n])
  note L = dec_digits_laws [of n]
  have "length (dec_digits n) < 2 ^ 64" using L assms(2) by simp
  then have "strtol (str_mem (dec n)) 0 10 = Some (sint (of_nat n :: u64), of_nat (length (dec_digits n)))"
    using strtol_decimal [of "map byte_of_char (dec_digits n)" "str_mem (dec n)" 0] L dec str_mem_at [of "dec_digits n"] by simp
  moreover have "sint (of_nat n :: u64) = int n"
    using assms(2) by (simp add: signed_of_nat signed_take_bit_int_eq_self)
  moreover have "sint (of_nat n :: 32 word) = int n"
    using assms(2) by (simp add: signed_of_nat signed_take_bit_int_eq_self)
  ultimately show ?thesis by (simp add: atoi_def)
qed

text \<open>Names of one to eight characters with an extension of none or of three.\<close>

definition plain_char :: "char \<Rightarrow> bool" where
  "plain_char c \<longleftrightarrow> c \<noteq> NUL \<and> c \<noteq> CHR '' '' \<and> c \<noteq> CHR ''.'' \<and> c \<noteq> slash"

definition good83 :: "string \<Rightarrow> string \<Rightarrow> bool" where
  "good83 b x \<longleftrightarrow> b \<noteq> [] \<and> length b \<le> 8 \<and> (x = [] \<or> length x = 3) \<and> list_all plain_char b \<and> list_all plain_char x \<and> hd b \<noteq> CHR 0xE5"

definition name83 :: "string \<Rightarrow> string \<Rightarrow> string" where
  "name83 b x = b @ (if x = [] then [] else CHR ''.'' # x)"

definition bytes83 :: "string \<Rightarrow> string \<Rightarrow> byte list" where
  "bytes83 b x = map byte_of_char (map fat_toupper b @ replicate (8 - length b) (CHR '' '') @ map fat_toupper x @ replicate (3 - length x) (CHR '' ''))"

lemma fat_toupper_char:
  assumes "(of_char d :: nat) < 65 \<or> 122 < (of_char d :: nat)"
  shows "fat_toupper c = d \<longleftrightarrow> c = d"
proof (cases "97 \<le> (of_char c :: nat) \<and> (of_char c :: nat) \<le> 122")
  case True
  then have "(of_char c - 32 :: nat) mod 256 = of_char c - 32" by (intro mod_less) linarith
  then have "(of_char (fat_toupper c) :: nat) = of_char c - 32" using True by (simp add: fat_toupper_def of_char_of)
  then show ?thesis using True assms by auto
next
  case False
  then show ?thesis unfolding fat_toupper_def by (simp only: if_False)
qed

lemma fat_toupper_plain [simp]:
  "fat_toupper c = NUL \<longleftrightarrow> c = NUL" "fat_toupper c = CHR '' '' \<longleftrightarrow> c = CHR '' ''" "fat_toupper c = CHR ''.'' \<longleftrightarrow> c = CHR ''.''"
  "fat_toupper c = CHR 0xE5 \<longleftrightarrow> c = CHR 0xE5"
  by (rule fat_toupper_char; simp add: NUL_def)+

lemma toupper_dot [simp]: "fat_toupper (CHR ''.'') = CHR ''.''"
  by (simp add: fat_toupper_def)

lemma length_bytes83: "good83 b x \<Longrightarrow> length (bytes83 b x) = 11"
  by (auto simp: bytes83_def good83_def)

lemma plain_set: "list_all plain_char t \<Longrightarrow> CHR ''.'' \<notin> set t \<and> CHR '' '' \<notin> set t \<and> NUL \<notin> set t \<and> slash \<notin> set t"
  by (auto simp: list_all_iff plain_char_def)

lemma format_short_name_83:
  assumes "good83 b x"
  shows "format_short_name (name83 b x) = Some (bytes83 b x)"
proof -
  have b: "b \<noteq> []" "length b \<le> 8" "x = [] \<or> length x = 3" "list_all plain_char b" "list_all plain_char x" using assms by (simp_all add: good83_def)
  note p = plain_set [OF b(4)] and q = plain_set [OF b(5)]
  have sp: "CHR '' '' \<notin> fat_toupper ` set b" "CHR '' '' \<notin> fat_toupper ` set x" using p q by (auto dest: sym)
  show ?thesis
  proof (cases "x = []")
    case True
    then show ?thesis using b p sp by (simp add: format_short_name_def name83_def bytes83_def)
  next
    case False
    have "takeWhile (\<lambda>c. c \<noteq> CHR ''.'') (rev x @ CHR ''.'' # rev b) = rev x" using q by (subst takeWhile_append2) auto
    then show ?thesis using False b p q sp by (simp add: format_short_name_def name83_def bytes83_def Let_def)
  qed
qed

lemma byte_of_char_20 [simp]: "byte_of_char c = 0x20 \<longleftrightarrow> c = CHR '' ''"
proof -
  have "byte_of_char (CHR '' '') = 0x20" by (simp add: byte_of_char_def)
  then show ?thesis by (metis byte_of_char_inj)
qed

lemma entry_name_cut_83:
  assumes "good83 b x" "take 11 e = bytes83 b x"
  shows "entry_name_cut e = map fat_toupper (name83 b x)"
proof -
  have b: "b \<noteq> []" "length b \<le> 8" "x = [] \<or> length x = 3" "list_all plain_char b" "list_all plain_char x" using assms by (simp_all add: good83_def)
  note p = plain_set [OF b(4)] and q = plain_set [OF b(5)]
  obtain r where e: "e = bytes83 b x @ r" using assms(2) append_take_drop_id [of 11 e] by metis
  let ?B = "map byte_of_char (map fat_toupper b)" and ?X = "map byte_of_char (map fat_toupper x)"
  have t8: "take 8 e = ?B @ replicate (8 - length b) 0x20" using b(2) by (simp add: e bytes83_def byte_of_char_def)
  have "takeWhile (\<lambda>b. b \<noteq> 0 \<and> b \<noteq> 0x20) (take 8 e) = ?B"
    unfolding t8 using p by (subst takeWhile_append2) (auto simp: list_all_iff takeWhile_replicate)
  moreover have "entry_ext e = (if x = [] then [] else 0x2E # ?X)"
  proof (cases "x = []")
    case True
    then show ?thesis using b(2) by (simp add: entry_ext_def e bytes83_def nth_append)
  next
    case False
    then have "e ! 8 = byte_of_char (fat_toupper (hd x))" "drop 8 e = ?X @ r" using b(2,3)
      by (auto simp: e bytes83_def nth_append hd_conv_nth)
    moreover have "hd x \<noteq> CHR '' ''" using False q by (cases x) auto
    ultimately show ?thesis using False b(3) by (simp add: entry_ext_def)
  qed
  moreover have "takeWhile (\<lambda>b. b \<noteq> 0) (?B @ (if x = [] then [] else 0x2E # ?X)) = ?B @ (if x = [] then [] else 0x2E # ?X)"
    unfolding takeWhile_eq_all_conv using p q by auto
  moreover have "char_of_byte 0x2E = CHR ''.''" using char_of_byte_of_char [of "CHR ''.''"] by (simp add: byte_of_char_def)
  ultimately have "entry_name_cut e = map char_of_byte (?B @ (if x = [] then [] else 0x2E # ?X))" "char_of_byte 0x2E = CHR ''.''"
    unfolding entry_name_cut_def c_text_def by (simp_all only:)
  then show ?thesis by (simp add: name83_def comp_def)
qed

end
