(* ===== verification/FatFiles.thy ===== *)
theory FatFiles
  imports FatDisk
begin

text \<open>
  Files of a FAT32 volume: an entry is put into the first free place of a directory, a file that
  has been written under an 8.3 name is found again and read back, every other file keeps its
  clusters, and a removed file gives its clusters back. The laws are proved for any block device
  and then used for the disk behind the IDE driver.
\<close>

unbundle bit_operations_syntax

section \<open>Entries and their places\<close>

lemma dir_record_laws:
  assumes "length name11 = 11" "length old = 32"
  shows "length (dir_record name11 attr fc fsz old) = 32" "take 11 (dir_record name11 attr fc fsz old) = name11"
    "dir_record name11 attr fc fsz old ! 0 = name11 ! 0" "dir_record name11 attr fc fsz old ! 11 = attr"
    "entry_cluster (dir_record name11 attr fc fsz old) = fc" "entry_size (dir_record name11 attr fc fsz old) = fsz"
  using assms by (simp_all add: dir_record_def entry_cluster_def entry_size_def bytes32_def nth_append)

lemma slot_patch_same: "off + 32 \<le> length sec \<Longrightarrow> length e = 32 \<Longrightarrow> slot (patch off e sec) off = e"
  by (simp add: slot_def patch_def)

lemma slot_patch_other:
  assumes "off + 32 \<le> length sec" "length e \<le> 32" "off' + 32 \<le> length sec" "off' + 32 \<le> off \<or> off + 32 \<le> off'"
  shows "slot (patch off e sec) off' = slot sec off'"
proof (rule nth_equalityI)
  have l: "off + length e \<le> length sec" using assms(1,2) by simp
  show len: "length (slot (patch off e sec) off') = length (slot sec off')" using assms l by (simp add: slot_def patch_length)
  fix i assume "i < length (slot (patch off e sec) off')"
  then have i: "i < 32" "off' + i < length sec" using len assms(3) by (simp_all add: slot_def)
  have "patch off e sec ! (off' + i) = sec ! (off' + i)" using patch_nth [OF l i(2)] i(1) assms(2,4) by auto
  then show "slot (patch off e sec) off' ! i = slot sec off' ! i" using i l assms(3) by (simp add: slot_def patch_length)
qed

lemma length_slot: "off + 32 \<le> length sec \<Longrightarrow> length (slot sec off) = 32"
  by (simp add: slot_def)

lemma slots_apart:
  assumes "vol_ok s" "off \<in> set (slots s)" "off' \<in> set (slots s)" "off \<noteq> off'"
  shows "off' + 32 \<le> off \<or> off + 32 \<le> off'"
proof -
  obtain i j where "off = 32 * i" "off' = 32 * j" using assms by (auto simp: slots_ok)
  then show ?thesis using assms(4) by (cases "i < j") auto
qed

lemma sector_slots_mem: "(l, off) \<in> set (sector_slots s ls) \<longleftrightarrow> l \<in> set ls \<and> off \<in> set (slots s)"
  by (auto simp: sector_slots_def)

lemma distinct_sector_slots:
  assumes "vol_ok s" "distinct ls"
  shows "distinct (sector_slots s ls)"
  using assms(2)
proof (induction ls)
  case (Cons l ls)
  have "distinct (slots s)" by (simp add: slots_ok [OF assms(1)] distinct_map inj_on_def)
  then have "distinct (map (Pair l) (slots s))" by (simp add: distinct_map inj_on_def)
  then show ?case using Cons by (auto simp: sector_slots_mem)
qed simp

text \<open>A search depends on the sectors of its list only, and an entry that is put into one place
  leaves every other one as it was.\<close>

lemma first_slot_cong: "(\<And>l off. (l, off) \<in> set ps \<Longrightarrow> slot (f l) off = slot (g l) off) \<Longrightarrow> first_slot v f ps = first_slot v g ps"
  unfolding first_slot_def by (rule find_cong) auto

lemma first_slot_mem:
  assumes "first_slot v f ps = Some (l, off)"
  shows "(l, off) \<in> set ps" "v (slot (f l) off) \<noteq> Skip"
  using find_split [OF assms [unfolded first_slot_def]] by auto

lemma scan_spec_cong: "(\<And>l off. (l, off) \<in> set ps \<Longrightarrow> f l = g l) \<Longrightarrow> scan_spec v f ps = scan_spec v g ps"
proof -
  assume a: "\<And>l off. (l, off) \<in> set ps \<Longrightarrow> f l = g l"
  have e: "first_slot v f ps = first_slot v g ps" by (rule first_slot_cong) (use a in auto)
  show ?thesis
  proof (cases "first_slot v g ps")
    case (Some p)
    obtain l off where p: "p = (l, off)" by (cases p)
    have "f l = g l" by (rule a [OF first_slot_mem(1) [OF Some [unfolded p]]])
    then show ?thesis using e Some p by (simp add: scan_spec_def scan_end_def)
  qed (simp add: scan_spec_def e)
qed

definition put_entry :: "u32 \<Rightarrow> nat \<Rightarrow> byte list \<Rightarrow> (u32 \<Rightarrow> byte list) \<Rightarrow> u32 \<Rightarrow> byte list" where
  "put_entry l off e f = f(l := patch off e (f l))"

lemma put_entry_other:
  assumes "vol_ok s" "sectors_ok f" "length e \<le> 32" "off \<in> set (slots s)" "off' \<in> set (slots s)" "(l, off) \<noteq> (l', off')"
  shows "slot (put_entry l off e f l') off' = slot (f l') off'"
proof (cases "l' = l")
  case True
  then have n: "off \<noteq> off'" using assms(6) by simp
  have "length (f l) = 512" using assms(2) by (simp add: sectors_ok_def)
  then show ?thesis
    using True slot_patch_other [OF _ assms(3) _ slots_apart [OF assms(1,4,5) n], of "f l"] slots_bound [OF assms(1)] assms(4,5)
    by (simp add: put_entry_def)
qed (simp add: put_entry_def)

text \<open>An entry in the first free place is found by every search that did not find anything before
  and that accepts it.\<close>

lemma put_entry_found:
  assumes v: "vol_ok s" "sectors_ok f" and D: "D = sector_slots s ls" "distinct ls"
    and fr: "first_slot free_slot f D = Some (l, off)" and nf: "scan_spec v f D = NotThere"
    and last: "\<And>e. e ! 0 \<noteq> 0 \<Longrightarrow> v e \<noteq> Last" and e: "length e = 32" "v e = Hit"
  shows "scan_spec v (put_entry l off e f) D = At l (put_entry l off e f l) off"
proof -
  let ?g = "put_entry l off e f"
  obtain us vs where ps: "D = us @ (l, off) # vs" "\<forall>(k, o')\<in>set us. free_slot (slot (f k) o') = Skip"
    using find_split [OF fr [unfolded first_slot_def]] by fastforce
  have mem: "\<forall>k o'. (k, o') \<in> set us \<longrightarrow> o' \<in> set (slots s) \<and> (l, off) \<noteq> (k, o')" "off \<in> set (slots s)"
    using ps(1) D(1) distinct_sector_slots [OF v(1) D(2)] sector_slots_mem [of _ _ s ls] by auto
  have none: "first_slot v f us = None"
  proof (rule ccontr)
    assume "first_slot v f us \<noteq> None"
    then obtain k o' where q: "first_slot v f us = Some (k, o')" by auto
    note q' = first_slot_mem [OF q]
    then have "slot (f k) o' ! 0 \<noteq> 0" using ps(2) by (auto simp: free_slot_def split: if_splits)
    then have "v (slot (f k) o') = Hit" using last q'(2) by (cases "v (slot (f k) o')") auto
    then show False using nf q ps(1) by (simp add: scan_spec_def scan_end_def)
  qed
  have "first_slot v ?g us = first_slot v f us"
    by (rule first_slot_cong) (use mem put_entry_other [OF v _ mem(2)] e(1) in auto)
  moreover have "slot (?g l) off = e" using slot_patch_same [OF _ e(1)] slots_bound [OF v(1) mem(2)] v(2) by (simp add: put_entry_def sectors_ok_def)
  ultimately show ?thesis using ps(1) none e(2) by (simp add: scan_spec_def first_slot_def find_append scan_end_def)
qed

section \<open>The root directory\<close>

definition is_chain :: "'d fat \<Rightarrow> (u32 \<Rightarrow> byte list) \<Rightarrow> nat list \<Rightarrow> bool" where
  "is_chain s f cs \<longleftrightarrow> chain_of (fat_at f s) cs \<and> set cs \<subseteq> set (cluster_range s) \<and> distinct cs"

definition root_chain :: "'d fat \<Rightarrow> (u32 \<Rightarrow> byte list) \<Rightarrow> nat list \<Rightarrow> bool" where
  "root_chain s f rs \<longleftrightarrow> root_dir_cluster s = of_nat (hd rs) \<and> is_chain s f rs"

definition dir_slots :: "'d fat \<Rightarrow> nat list \<Rightarrow> (u32 \<times> nat) list" where
  "dir_slots s rs = sector_slots s (chain_lbas s rs)"

lemma chain_nonzero:
  assumes "vol_ok s" "chain_of F cs" "set cs \<subseteq> set (cluster_range s)" "c \<in> set cs"
  shows "F c \<noteq> 0"
  using assms(2-4)
proof (induction F cs rule: chain_of.induct)
  case (3 F c0 c' cs)
  then show ?case using range_nonzero [OF assms(1), of c'] by auto
qed auto

lemma distinct_chain_lbas:
  assumes "vol_ok s" "set cs \<subseteq> set (cluster_range s)" "distinct cs"
  shows "distinct (chain_lbas s cs)"
  using assms(2,3)
proof (induction cs)
  case (Cons c cs)
  have c: "c \<in> set (cluster_range s)" "set cs \<subseteq> set (cluster_range s)" "c \<notin> set cs" using Cons.prems by simp_all
  show ?case using Cons distinct_cluster_lbas(1) [OF assms(1) c(1)] chain_lbas_disjoint [OF assms(1) c] by auto
qed simp

lemma chain_lbas_sectors:
  assumes "vol_ok s" "set cs \<subseteq> set (cluster_range s)" "l \<in> set (chain_lbas s cs)"
  shows "unat l < 2 ^ 28" "unat (cluster_begin_lba s) \<le> unat l"
proof -
  obtain c where c: "c \<in> set (cluster_range s)" "l \<in> set (cluster_lbas s (of_nat c))" using assms(2,3) by (auto simp: chain_lbas_def)
  show "unat l < 2 ^ 28" "unat (cluster_begin_lba s) \<le> unat l" using cluster_sectors(3,4) [OF assms(1) c] by simp_all
qed

lemma chain_lbas_apart:
  assumes "vol_ok s" "set cs \<subseteq> set (cluster_range s)" "set ks \<subseteq> set (cluster_range s)" "set cs \<inter> set ks = {}" "l \<in> set (chain_lbas s cs)"
  shows "l \<notin> set (chain_lbas s ks)"
proof -
  obtain c where c: "c \<in> set cs" "l \<in> set (cluster_lbas s (of_nat c))" using assms(5) by (auto simp: chain_lbas_def)
  show ?thesis by (rule chain_lbas_disjoint [OF assms(1) _ assms(3) _ c(2)]) (use c(1) assms(2,4) in auto)
qed

lemma file_data_cong: "(\<And>l. l \<in> set (chain_lbas s cs) \<Longrightarrow> f l = g l) \<Longrightarrow> file_data f s cs = file_data g s cs"
  unfolding file_data_def by (rule arg_cong [where f = concat]) simp

text \<open>Paths of one component.\<close>

definition root_path :: "string \<Rightarrow> string \<Rightarrow> bool" where
  "root_path nm path \<longleftrightarrow> path = nm \<or> path = slash # nm"

lemma name83_facts:
  assumes "good83 b x"
  shows "name83 b x \<noteq> []" "slash \<notin> set (name83 b x)" "length (name83 b x) \<le> 12"
proof -
  have b: "b \<noteq> []" "length b \<le> 8" "x = [] \<or> length x = 3" "list_all plain_char b" "list_all plain_char x" using assms by (simp_all add: good83_def)
  show "name83 b x \<noteq> []" using b(1) by (simp add: name83_def)
  show "slash \<notin> set (name83 b x)" using plain_set [OF b(4)] plain_set [OF b(5)] by (auto simp: name83_def slash_def)
  show "length (name83 b x) \<le> 12" using b(2,3) by (auto simp: name83_def)
qed

lemma root_path_walk:
  assumes "good83 b x" "root_path (name83 b x) path"
  shows "path \<noteq> []" "skip_slash path = name83 b x" "next_comp (name83 b x) = (name83 b x, [])"
    "walk_parent E dirs (name83 b x) c s = Some (Some (c, name83 b x), s)"
proof -
  note nm = name83_facts [OF assms(1)]
  have "c_at (name83 b x) 0 \<noteq> slash" using nm(1,2) by (cases "name83 b x") (auto simp: c_at_def)
  then show "path \<noteq> []" "skip_slash path = name83 b x" using assms(2) nm(1) by (auto simp: root_path_def skip_slash_def c_at_def)
  have "take 63 (takeWhile (\<lambda>c. c \<noteq> slash) (name83 b x)) = name83 b x" using nm(2,3) by (subst takeWhile_eq_all_conv [THEN iffD2]) auto
  then show n: "next_comp (name83 b x) = (name83 b x, [])" by (simp only: next_comp_def Let_def) (simp add: c_at_def slash_def)
  show "walk_parent E dirs (name83 b x) c s = Some (Some (c, name83 b x), s)" using nm(1) n by (simp add: walk_parent.simps)
qed

context fat_volume
begin

lemma scan_root_law:
  assumes "ok d" "vol_ok s" "root_chain s (sector d) rs"
  obtains d' where "scan_dir E v (root_dir_cluster s) (with_disk d s) = Some (scan_spec v (sector d) (dir_slots s rs), with_disk d' s)"
    "ok d'" "sector d' = sector d"
  using scan_dir_law [OF assms(1,2), of rs v] assms(3) unfolding root_chain_def is_chain_def dir_slots_def by auto

lemma write_dir_entry_law:
  assumes d: "ok d" and v: "vol_ok s" and r: "root_chain s (sector d) rs" and n: "length name11 = 11"
    and fr: "first_slot free_slot (sector d) (dir_slots s rs) = Some (l, off)"
  obtains d' where "write_dir_entry E (root_dir_cluster s) name11 attr fc fsz (with_disk d s) = Some (0, with_disk d' s)" "ok d'"
    "sector d' = put_entry l off (dir_record name11 attr fc fsz (slot (sector d l) off)) (sector d)"
proof -
  let ?e = "dir_record name11 attr fc fsz (slot (sector d l) off)"
  have rs: "chain_of (fat_at (sector d) s) rs" "set rs \<subseteq> set (cluster_range s)" "root_dir_cluster s = of_nat (hd rs)"
    using r by (simp_all add: root_chain_def is_chain_def)
  note p = first_slot_mem [OF fr]
  have l: "unat l < 2 ^ 28" and o: "off + 32 \<le> length (sector d l)"
    using p(1) chain_lbas_sectors(1) [OF v rs(2)] slots_bound [OF v] sector_length [OF d] by (simp_all add: dir_slots_def sector_slots_mem)
  have hit: "scan_spec free_slot (sector d) (dir_slots s rs) = At l (sector d l) off"
    using fr p(2) by (simp add: scan_spec_def scan_end_def free_slot_def split: if_splits)
  have "rs \<noteq> []" using rs(1) by auto
  then have "\<not> root_dir_cluster s < 2" using range_word(1) [OF v, of "hd rs"] rs(2,3) by (cases rs) auto
  moreover obtain d1 where d1: "scan_dir E free_slot (root_dir_cluster s) (with_disk d s) = Some (At l (sector d l) off, with_disk d1 s)"
    "ok d1" "sector d1 = sector d" by (rule scan_root_law [OF d v r, of free_slot, unfolded hit])
  moreover have "length (patch off ?e (sector d l)) = 512"
    using o dir_record_laws(1) [OF n length_slot [OF o]] sector_length [OF d] by (simp add: patch_length)
  then obtain d2 where "write_buf E l (patch off ?e (sector d l)) (with_disk d1 s) = Some (0, with_disk d2 s)" "ok d2"
    "sector d2 = (sector d1)(l := patch off ?e (sector d l))" by (rule sector_write_law [OF d1(2) l])
  ultimately show ?thesis using that [of d2] by (simp add: write_dir_entry_def put_entry_def)
qed

end

section \<open>Files\<close>

text \<open>A name that neither comparison finds in the directory; a file of the directory, as both
  find it, with its clusters and its bytes.\<close>

definition fresh_name :: "'d fat \<Rightarrow> (u32 \<Rightarrow> byte list) \<Rightarrow> nat list \<Rightarrow> string \<Rightarrow> bool" where
  "fresh_name s f rs nm \<longleftrightarrow> scan_spec (path_entry nm) f (dir_slots s rs) = NotThere \<and>
     scan_spec (file_entry (map fat_toupper nm)) f (dir_slots s rs) = NotThere"

definition is_file :: "'d fat \<Rightarrow> (u32 \<Rightarrow> byte list) \<Rightarrow> nat list \<Rightarrow> string \<Rightarrow> nat list \<Rightarrow> byte list \<Rightarrow> bool" where
  "is_file s f rs nm cs bs \<longleftrightarrow>
     (case scan_spec (file_entry (map fat_toupper nm)) f (dir_slots s rs) of
        At l sec off \<Rightarrow> scan_spec (path_entry nm) f (dir_slots s rs) = At l sec off \<and> \<not> is_subdir (slot sec off) \<and> entry_cluster (slot sec off) = of_nat (hd cs) \<and>
          entry_size (slot sec off) = of_nat (length bs)
      | _ \<Rightarrow> False) \<and>
     is_chain s f cs \<and> take (length bs) (file_data f s cs) = bs"

definition keeps_chains :: "'d fat \<Rightarrow> nat list \<Rightarrow> (u32 \<Rightarrow> byte list) \<Rightarrow> (u32 \<Rightarrow> byte list) \<Rightarrow> bool" where
  "keeps_chains s rs f f' \<longleftrightarrow>
     (\<forall>ks. is_chain s f ks \<longrightarrow> set ks \<inter> set rs = {} \<longrightarrow> is_chain s f' ks \<and> file_data f' s ks = file_data f s ks)"

lemma entry_name_83:
  assumes "good83 b x" "take 11 e = bytes83 b x"
  shows "entry_name e = map fat_toupper (name83 b x)"
proof -
  have b: "b \<noteq> []" "length b \<le> 8" "list_all plain_char b" using assms(1) by (simp_all add: good83_def)
  let ?B = "map byte_of_char (map fat_toupper b)"
  have "take 8 e = take 8 (take 11 e)" by simp
  also have "\<dots> = ?B @ replicate (8 - length b) 0x20" unfolding assms(2) using b(2) by (simp add: bytes83_def byte_of_char_def)
  finally have t8: "take 8 e = ?B @ replicate (8 - length b) 0x20" .
  have "dropWhile (\<lambda>b. b = 0x20) (replicate n 0x20 @ rev ?B) = rev ?B" for n
  proof -
    obtain bb z where bb: "b = bb @ [z]" using b(1) by (cases b rule: rev_cases) auto
    then have "z \<noteq> CHR '' ''" using plain_set [OF b(3)] by auto
    then show ?thesis by (simp add: bb dropWhile_append)
  qed
  then have r: "rstrip (take 8 e) = ?B" unfolding rstrip_def t8 by simp
  have "takeWhile (\<lambda>b. b \<noteq> 0) ?B = ?B" "takeWhile (\<lambda>b. b \<noteq> 0 \<and> b \<noteq> 0x20) (take 8 e) = ?B"
    unfolding t8 using plain_set [OF b(3)] by (auto simp: takeWhile_eq_all_conv takeWhile_append takeWhile_replicate)
  then show ?thesis using entry_name_cut_83 [OF assms] by (simp only: entry_name_def entry_name_cut_def r)
qed

lemma entry_hit:
  assumes "good83 b x" "take 11 e = bytes83 b x" "length e = 32" "e ! 11 = 0x20"
  shows "file_entry (map fat_toupper (name83 b x)) e = Hit" "path_entry (name83 b x) e = Hit"
proof -
  have b: "b \<noteq> []" "list_all plain_char b" "list_all plain_char x" "hd b \<noteq> CHR 0xE5" using assms(1) by (simp_all add: good83_def)
  have "e ! 0 = take 11 e ! 0" by simp
  also have "\<dots> = byte_of_char (fat_toupper (hd b))" unfolding assms(2) using b(1) by (simp add: bytes83_def nth_append hd_conv_nth)
  finally have e0: "e ! 0 = byte_of_char (fat_toupper (hd b))" .
  have "hd b \<noteq> NUL" using b(1) plain_set [OF b(2)] by (cases b) auto
  then have z: "e ! 0 \<noteq> 0" unfolding e0 by simp
  have "byte_of_char (CHR 0xE5) = 0xE5" by (simp add: byte_of_char_def)
  then have d: "e ! 0 \<noteq> 0xE5" unfolding e0 using b(4) by (metis byte_of_char_inj fat_toupper_plain(4))
  have at: "\<not> is_volume e" "\<not> is_lfn e" using assms(4) by (simp_all add: is_volume_def is_lfn_def)
  have dot: "CHR ''.'' \<notin> set (map fat_toupper (name83 b x)) \<Longrightarrow> before_dot (map fat_toupper (name83 b x)) = map fat_toupper (name83 b x)"
    unfolding before_dot_def takeWhile_eq_all_conv by metis
  show "file_entry (map fat_toupper (name83 b x)) e = Hit"
    using z d at dot entry_name_cut_83 [OF assms(1,2)] by (simp add: file_entry_def)
  show "path_entry (name83 b x) e = Hit" using z d at entry_name_83 [OF assms(1,2)] by (simp add: path_entry_def)
qed

lemma path_entry_last: "e ! 0 \<noteq> 0 \<Longrightarrow> path_entry nm e \<noteq> Last"
  by (simp add: path_entry_def)

lemma file_entry_last: "e ! 0 \<noteq> 0 \<Longrightarrow> file_entry up e \<noteq> Last"
  by (simp add: file_entry_def)

lemma is_chain_cong:
  assumes "\<And>k. k \<in> set cs \<Longrightarrow> fat_at f s k = fat_at g s k"
  shows "is_chain s f cs = is_chain s g cs"
  using chain_of_cong [of cs "fat_at f s" "fat_at g s"] assms by (simp add: is_chain_def)

text \<open>Sectors of clusters are no sectors of the table.\<close>

lemma fat_at_put:
  assumes "vol_ok s" "k < fat_entries s" "unat (cluster_begin_lba s) \<le> unat l"
  shows "fat_at (put_entry l off e f) s k = fat_at f s k"
  by (rule fat_at_cong [OF assms(1,2)]) (use assms(3) in \<open>auto simp: put_entry_def\<close>)

text \<open>What writing the clusters and then the entry leaves alone.\<close>

lemma written_put_keeps:
  assumes v: "vol_ok s" and w: "written s [] cs bs f g" and cs: "set cs \<subseteq> set (free_clusters f s)" "distinct cs" "cs \<noteq> []"
    and r: "root_chain s f rs" and l: "l \<in> set (chain_lbas s rs)"
    and h_def: "h = put_entry l off e g"
  shows "keeps_chains s rs f h" "root_chain s h rs" "is_chain s h cs" "take (length bs) (file_data h s cs) = bs"
    "free_clusters h s = drop (length cs) (free_clusters f s)" "\<And>k. k \<in> set (chain_lbas s rs) \<Longrightarrow> g k = f k"
proof -
  note W = w [unfolded written_def]
  have rs: "set rs \<subseteq> set (cluster_range s)" "is_chain s f rs" using r by (simp_all add: root_chain_def is_chain_def)
  have csr: "set cs \<subseteq> set (cluster_range s)" using cs(1) free_clusters_set by fastforce
  have h: "fat_at h s k = fat_at g s k" if "k < fat_entries s" for k
    unfolding h_def by (rule fat_at_put [OF v that chain_lbas_sectors(2) [OF v rs(1) l]])
  have dis: "set ks \<inter> set cs = {}" if "is_chain s f ks" for ks
    using chain_nonzero [OF v, of "fat_at f s" ks] that cs(1) free_clusters_set [of _ f s] unfolding is_chain_def by blast
  have keep: "is_chain s h ks \<and> (\<forall>k\<in>set (chain_lbas s ks). g k = f k)" if ks: "is_chain s f ks" for ks
  proof -
    have sub: "set ks \<subseteq> set (cluster_range s)" using ks by (simp add: is_chain_def)
    have "fat_at h s k = fat_at f s k" if "k \<in> set ks" for k
    proof -
      have "k < fat_entries s" "k \<notin> set ([] @ cs)" using range_entry [of k s] sub dis [OF ks] that by auto
      then show ?thesis using W h by metis
    qed
    then have "is_chain s h ks" using ks is_chain_cong [of ks h s f] by simp
    moreover have "g k = f k" if "k \<in> set (chain_lbas s ks)" for k
      using W chain_lbas_sectors(2) [OF v sub that] chain_lbas_apart [OF v sub csr dis [OF ks] that] by blast
    ultimately show ?thesis by blast
  qed
  show "\<And>k. k \<in> set (chain_lbas s rs) \<Longrightarrow> g k = f k" using keep [OF rs(2)] by blast
  show "root_chain s h rs" using keep [OF rs(2)] r by (simp add: root_chain_def)
  show "keeps_chains s rs f h"
    unfolding keeps_chains_def
  proof (intro allI impI conjI)
    fix ks assume ks: "is_chain s f ks" "set ks \<inter> set rs = {}"
    show "is_chain s h ks" using keep [OF ks(1)] by blast
    have "l \<notin> set (chain_lbas s ks)"
      by (rule chain_lbas_apart [OF v rs(1) _ _ l]) (use ks in \<open>auto simp: is_chain_def\<close>)
    then show "file_data h s ks = file_data f s ks" using keep [OF ks(1)] by (intro file_data_cong) (auto simp: h_def put_entry_def)
  qed
  have "chain_of (fat_at h s) cs" using W cs(3) chain_of_cong [of cs "fat_at h s" "fat_at g s"] h range_entry csr by auto
  then show "is_chain s h cs" using csr cs(2) by (simp add: is_chain_def)
  have "l \<notin> set (chain_lbas s cs)" by (rule chain_lbas_apart [OF v rs(1) csr dis [OF rs(2)] l])
  then have "file_data h s cs = file_data g s cs" by (intro file_data_cong) (auto simp: h_def put_entry_def)
  then show "take (length bs) (file_data h s cs) = bs" using W by simp
  have "free_clusters h s = free_clusters g s" unfolding free_clusters_def by (rule filter_cong) (simp_all add: h [OF range_entry])
  then show "free_clusters h s = drop (length cs) (free_clusters f s)" using W by simp
qed

context fat_volume
begin

text \<open>A new file of the root directory.\<close>

lemma fat_write_law:
  assumes d: "ok d" and v: "vol_ok s" and r: "root_chain s (sector d) rs" and g: "good83 b x" and path: "root_path (name83 b x) path"
    and fresh: "fresh_name s (sector d) rs (name83 b x)" and bs: "bs \<noteq> []"
    and free: "clusters_for s (length bs) \<le> length (free_clusters (sector d) s)" "first_slot free_slot (sector d) (dir_slots s rs) \<noteq> None"
  obtains d' cs where "fat32_write_file E path (Some bs) (length bs) (with_disk d s) = Some (0, with_disk d' s)" "ok d'"
    "cs = take (clusters_for s (length bs)) (free_clusters (sector d) s)" "is_file s (sector d') rs (name83 b x) cs bs"
    "keeps_chains s rs (sector d) (sector d')" "root_chain s (sector d') rs"
    "free_clusters (sector d') s = drop (length cs) (free_clusters (sector d) s)"
proof -
  let ?nm = "name83 b x" and ?up = "map fat_toupper (name83 b x)" and ?f = "sector d" and ?D = "dir_slots s rs"
  have ready: "fat32_ready s" using v by (simp add: vol_ok_def)
  have rs: "set rs \<subseteq> set (cluster_range s)" "distinct rs" using r by (simp_all add: root_chain_def is_chain_def)
  note w = root_path_walk [OF g path]
  obtain d1 where d1: "scan_dir E (path_entry ?nm) (root_dir_cluster s) (with_disk d s) = Some (NotThere, with_disk d1 s)" "ok d1" "sector d1 = ?f"
    using scan_root_law [OF d v r, of "path_entry ?nm"] fresh unfolding fresh_name_def by metis
  have rm: "remove_dir_entry_by_path E path True (with_disk d s) = Some (-1, with_disk d1 s)"
    using w(1,2) name83_facts(1) [OF g] d1(1) by (simp add: remove_dir_entry_by_path_def root_path_walk(4) [OF g path])
  have pr: "get_parent_cluster_and_name E path (with_disk d1 s) = Some (Some (root_dir_cluster s, ?nm), with_disk d1 s)"
    using w(2) by (simp add: get_parent_cluster_and_name_def root_path_walk(4) [OF g path])
  have free1: "clusters_for s (length bs) \<le> length (free_clusters (sector d1) s)" using free(1) d1(3) by simp
  obtain d2 cs where cs: "cs = take (clusters_for s (length bs)) (free_clusters ?f s)"
    and d2: "write_clusters E 0 0 bs (with_disk d1 s) = Some (Some (if cs \<noteq> [] then of_nat (hd cs) else 0), with_disk d2 s)" "ok d2"
      "written s [] cs bs ?f (sector d2)"
    using write_clusters_law [OF d1(2) v free1, of "[]" 0 0 0] d1(3) by auto
  have cs0: "cs \<noteq> []" "distinct cs" "set cs \<subseteq> set (free_clusters ?f s)"
    using cs free(1) clusters_for_step [OF v, of "length bs"] bs free_clusters_distinct [of ?f s] by (auto dest: in_set_takeD)
  obtain l off where lo: "first_slot free_slot ?f ?D = Some (l, off)" using free(2) by auto
  have mem: "l \<in> set (chain_lbas s rs)" "off \<in> set (slots s)"
    using first_slot_mem [OF lo] by (simp_all add: dir_slots_def sector_slots_mem)
  define e where "e = dir_record (bytes83 b x) 0x20 (of_nat (hd cs)) (of_nat (length bs)) (slot (?f l) off)"
  note K = written_put_keeps [OF v d2(3) cs0(3,2,1) r mem(1), of "put_entry l off e (sector d2)" off e, OF refl]
  have same: "\<And>k o'. (k, o') \<in> set ?D \<Longrightarrow> sector d2 k = ?f k" using K(6) by (auto simp: dir_slots_def sector_slots_mem)
  have lo2: "first_slot free_slot (sector d2) ?D = Some (l, off)"
    using lo first_slot_cong [of ?D "sector d2" ?f free_slot] same by simp
  have "fat_at (put_entry l off e (sector d2)) s k = fat_at (sector d2) s k" if "k \<in> set rs" for k
    by (rule fat_at_put [OF v range_entry chain_lbas_sectors(2) [OF v rs(1) mem(1)]]) (use that rs(1) in blast)
  then have r2: "root_chain s (sector d2) rs"
    using K(2) is_chain_cong [of rs "put_entry l off e (sector d2)" s "sector d2"] by (simp add: root_chain_def)
  obtain d3 where d3: "write_dir_entry E (root_dir_cluster s) (bytes83 b x) 0x20 (of_nat (hd cs)) (of_nat (length bs)) (with_disk d2 s) = Some (0, with_disk d3 s)"
    "ok d3" "sector d3 = put_entry l off e (sector d2)"
    using write_dir_entry_law [OF d2(2) v r2 length_bytes83 [OF g] lo2] K(6) [OF mem(1)] unfolding e_def by metis
  have "off + 32 \<le> length (?f l)" using slots_bound [OF v mem(2)] sector_length [OF d] by simp
  note R = dir_record_laws [OF length_bytes83 [OF g] length_slot [OF this], of "0x20" "of_nat (hd cs)" "of_nat (length bs)", folded e_def]
  have nf: "scan_spec (file_entry ?up) (sector d2) ?D = NotThere" "scan_spec (path_entry ?nm) (sector d2) ?D = NotThere"
    using fresh scan_spec_cong [of ?D "sector d2" ?f] same by (simp_all add: fresh_name_def)
  note found = put_entry_found [OF v sectors_ok_sector [OF d2(2)] dir_slots_def [of s rs] distinct_chain_lbas [OF v rs] lo2]
  note hit = entry_hit [OF g R(2,1,4)]
  have "scan_spec (file_entry ?up) (sector d3) ?D = At l (sector d3 l) off"
    unfolding d3(3) by (rule found [where v = "file_entry ?up", OF nf(1) _ R(1) hit(1)]) (rule file_entry_last)
  moreover have "scan_spec (path_entry ?nm) (sector d3) ?D = At l (sector d3 l) off"
    unfolding d3(3) by (rule found [where v = "path_entry ?nm", OF nf(2) _ R(1) hit(2)]) (rule path_entry_last)
  moreover have "slot (sector d3 l) off = e"
    using slot_patch_same [OF _ R(1)] slots_bound [OF v mem(2)] sector_length [OF d2(2)] by (simp add: d3(3) put_entry_def)
  ultimately have "is_file s (sector d3) rs ?nm cs bs"
    using K(3,4) R(4-6) by (simp add: is_file_def d3(3) is_subdir_def)
  moreover have "fat32_write_file E path (Some bs) (length bs) (with_disk d s) = Some (0, with_disk d3 s)"
    using ready rm pr format_short_name_83 [OF g] d2(1) d3(1) cs0(1) bs by (simp add: fat32_write_file_def)
  ultimately show ?thesis using that [of d3 cs] d3(2,3) cs K(1,2,5) by simp
qed

text \<open>The look-up of a file and the copy of its bytes into a fresh block.\<close>

lemma fat_get_law:
  assumes d: "ok d" and v: "vol_ok s" and r: "root_chain s (sector d) rs" and g: "good83 b x" and path: "root_path (name83 b x) path"
    and fl: "is_file s (sector d) rs (name83 b x) cs bs" and bs: "bs \<noteq> []" "length bs < 2 ^ 32"
    and st: "hf_disk st = with_disk d s" and room: "hf_room (fat_hw E) S A (hf_heap st)" "room_cost (length bs) \<le> S"
  obtains buf st' d' where "fat32_get_file_alloc E path st = Some (Some (buf, bs), st')" "buf \<noteq> 0" "buf \<notin> A"
    "hf_disk st' = with_disk d' s" "ok d'" "sector d' = sector d"
    "hf_room (fat_hw E) (S - room_cost (length bs)) (insert buf A) (hf_heap st')"
proof -
  let ?nm = "name83 b x" and ?up = "map fat_toupper (name83 b x)"
  note F = fl [unfolded is_file_def]
  obtain l sec off where hit: "scan_spec (file_entry ?up) (sector d) (dir_slots s rs) = At l sec off"
    and e: "\<not> is_subdir (slot sec off)" "entry_cluster (slot sec off) = of_nat (hd cs)" "entry_size (slot sec off) = of_nat (length bs)"
    using F by (auto split: found.splits)
  have ch: "chain_of (fat_at (sector d) s) cs" "set cs \<subseteq> set (cluster_range s)" "distinct cs" using F by (simp_all add: is_chain_def)
  then have c: "hd cs \<in> set (cluster_range s)" by (cases cs) auto
  note w = root_path_walk [OF g path]
  obtain d1 where d1: "scan_dir E (file_entry ?up) (root_dir_cluster s) (with_disk d s) = Some (At l sec off, with_disk d1 s)" "ok d1" "sector d1 = sector d"
    using scan_root_law [OF d v r, of "file_entry ?up"] hit by metis
  have find: "find_path E ?nm (root_dir_cluster s) (with_disk d s) = Some (Some (slot sec off), with_disk d1 s)"
    using w(3) name83_facts(1) [OF g] d1(1) e(1) by (simp add: find_path.simps)
  let ?st1 = "st\<lparr>hf_disk := with_disk d1 s\<rparr>"
  have room1: "hf_room (fat_hw E) S A (hf_heap ?st1)" "0 < length bs" using room(1) bs(1) by simp_all
  obtain buf st2 where st2: "hf_alloc (fat_hw E) (length bs) ?st1 = Some (buf, st2)" "buf \<noteq> 0" "buf \<notin> A"
    "hf_room (fat_hw E) (S - room_cost (length bs)) (insert buf A) (hf_heap st2)" "entries st2 = entries ?st1" "hf_disk st2 = hf_disk ?st1"
    by (rule hf_alloc_room [OF room1 room(2)])
  have n: "unat (of_nat (length bs) :: u32) = length bs" "(of_nat (length bs) :: u32) \<noteq> 0"
    using bs by (simp_all add: unat_of_nat32 word_unat_eq_iff)
  have hc: "2 \<le> hd cs" "hd cs < 0x0FFFFFF0" using c data_lba_bound(3) [OF v c] by (simp_all add: cluster_range_def)
  then have u: "unat (of_nat (hd cs) :: u32) = hd cs" by (simp add: unat_of_nat32)
  have len: "length bs \<le> length [] + length (file_data (sector d1) s cs)" "length [] < length bs"
    using F bs(1) d1(3) length_take [of "length bs" "file_data (sector d) s cs"] by auto
  obtain d2 where d2: "read_chain E (length bs) (of_nat (hd cs)) [] (with_disk d1 s) = Some (int (length bs), bs, with_disk d2 s)" "ok d2" "sector d2 = sector d1"
    using read_chain_law [OF d1(2) v _ ch(2,3) len(2,1)] ch(1) F d1(3) by auto
  have "fat32_read_file E (dec (hd cs)) (length bs) (with_disk d1 s) = Some (int (length bs), bs, with_disk d2 s)"
    using v atoi_dec [of "hd cs"] hc d2(1) bs(1) range_word(1) [OF v c] by (simp add: fat32_read_file_def vol_ok_def linorder_not_less [symmetric] Let_def)
  then have "fat32_get_file_alloc E path st = Some (Some (buf, bs), st2\<lparr>hf_disk := with_disk d2 s\<rparr>)"
    using v w(2) name83_facts(1) [OF g] find st2(1,2,6) n u e(2,3)
    by (simp add: fat32_get_file_alloc_def on_disk_def st vol_ok_def)
  then show ?thesis using that [of buf "st2\<lparr>hf_disk := with_disk d2 s\<rparr>" d2] st2(2-4) d2(2,3) d1(3) by simp
qed

end

section \<open>Removal\<close>

text \<open>The sectors after a file has been removed: its entries of the table are zero, its entry of
  the directory is marked, and nothing else of the table or of a cluster has changed.\<close>

definition removed :: "'d fat \<Rightarrow> nat list \<Rightarrow> u32 \<Rightarrow> nat \<Rightarrow> (u32 \<Rightarrow> byte list) \<Rightarrow> (u32 \<Rightarrow> byte list) \<Rightarrow> bool" where
  "removed s cs l off f f' \<longleftrightarrow>
     (\<forall>k. k < fat_entries s \<longrightarrow> fat_at f' s k = (if k \<in> set cs then 0 else fat_at f s k)) \<and>
     (\<forall>k. unat (cluster_begin_lba s) \<le> unat k \<longrightarrow> f' k = put_entry l off [0xE5] f k)"

lemma removed_free:
  assumes "removed s cs l off f f'" "set cs \<subseteq> set (cluster_range s)"
  shows "set (free_clusters f' s) = set cs \<union> set (free_clusters f s)"
  using assms range_entry [of _ s] by (auto simp: removed_def free_clusters_def)

lemma free_clusters_eq:
  assumes "set (free_clusters f s) = set (free_clusters g s)"
  shows "free_clusters f s = free_clusters g s"
  unfolding free_clusters_def
proof (rule filter_cong)
  fix k assume "k \<in> set (cluster_range s)"
  then show "(fat_at f s k = 0) = (fat_at g s k = 0)" using assms by (auto simp: free_clusters_def set_eq_iff)
qed simp

lemma removed_keeps:
  assumes v: "vol_ok s" and r: "removed s cs l off f f'" and l: "l \<in> set (chain_lbas s rs)" and rs: "set rs \<subseteq> set (cluster_range s)"
    and ks: "is_chain s f ks" "set ks \<inter> set cs = {}"
  shows "is_chain s f' ks" "set ks \<inter> set rs = {} \<Longrightarrow> file_data f' s ks = file_data f s ks"
proof -
  have sub: "set ks \<subseteq> set (cluster_range s)" using ks(1) by (simp add: is_chain_def)
  have "fat_at f' s k = fat_at f s k" if "k \<in> set ks" for k
  proof -
    have "k < fat_entries s" "k \<notin> set cs" using that sub range_entry [of k s] ks(2) by auto
    then show ?thesis using r by (simp add: removed_def)
  qed
  then show "is_chain s f' ks" using ks(1) is_chain_cong [of ks f' s f] by simp
  assume a: "set ks \<inter> set rs = {}"
  show "file_data f' s ks = file_data f s ks"
  proof (rule file_data_cong)
    fix k assume k: "k \<in> set (chain_lbas s ks)"
    then have "k \<noteq> l" using chain_lbas_apart [OF v sub rs a k] l by auto
    then show "f' k = f k" using r chain_lbas_sectors(2) [OF v sub k] by (simp add: removed_def put_entry_def)
  qed
qed

context fat_volume
begin

lemma fat_unlink_law:
  assumes d: "ok d" and v: "vol_ok s" and r: "root_chain s (sector d) rs" and g: "good83 b x" and path: "root_path (name83 b x) path"
    and fl: "is_file s (sector d) rs (name83 b x) cs bs" and dis: "set cs \<inter> set rs = {}"
  obtains d' l off where "fat32_unlink E path (with_disk d s) = Some (0, with_disk d' s)" "ok d'"
    "l \<in> set (chain_lbas s rs)" "removed s cs l off (sector d) (sector d')"
proof -
  let ?nm = "name83 b x"
  note F = fl [unfolded is_file_def]
  obtain l sec off where hit: "scan_spec (path_entry ?nm) (sector d) (dir_slots s rs) = At l sec off"
    and e: "entry_cluster (slot sec off) = of_nat (hd cs)" using F by (auto split: found.splits)
  have ch: "chain_of (fat_at (sector d) s) cs" "set cs \<subseteq> set (cluster_range s)" "distinct cs" using F by (simp_all add: is_chain_def)
  have rs: "set rs \<subseteq> set (cluster_range s)" using r by (simp add: root_chain_def is_chain_def)
  have fs: "first_slot (path_entry ?nm) (sector d) (dir_slots s rs) = Some (l, off)" "sec = sector d l"
    using hit by (auto simp: scan_spec_def scan_end_def split: option.splits if_splits)
  have mem: "l \<in> set (chain_lbas s rs)" "off \<in> set (slots s)"
    using first_slot_mem(1) [OF fs(1)] by (simp_all add: dir_slots_def sector_slots_mem)
  note L = chain_lbas_sectors [OF v rs mem(1)]
  have c: "hd cs \<in> set (cluster_range s)" using ch(1,2) by (cases cs) auto
  note w = root_path_walk [OF g path]
  obtain d1 where d1: "scan_dir E (path_entry ?nm) (root_dir_cluster s) (with_disk d s) = Some (At l sec off, with_disk d1 s)" "ok d1" "sector d1 = sector d"
    using scan_root_law [OF d v r, of "path_entry ?nm"] hit by metis
  obtain d2 where d2: "free_chain_loop E (of_nat (hd cs)) (with_disk d1 s) = Some (with_disk d2 s)" "ok d2"
    "\<forall>k. k < fat_entries s \<longrightarrow> fat_at (sector d2) s k = (if k \<in> set cs then 0 else fat_at (sector d) s k)"
    "\<forall>k. unat (cluster_begin_lba s) \<le> unat k \<longrightarrow> sector d2 k = sector d k"
    using free_chain_law [OF d1(2) v _ ch(2,3)] ch(1) d1(3) by auto
  have o: "off + 1 \<le> length (sector d l)" using slots_bound [OF v mem(2)] sector_length [OF d] by simp
  then have "length (patch off [0xE5] sec) = 512" using fs(2) sector_length [OF d] by (simp add: patch_length)
  then obtain d3 where d3: "write_buf E l (patch off [0xE5] sec) (with_disk d2 s) = Some (0, with_disk d3 s)" "ok d3"
    "sector d3 = (sector d2)(l := patch off [0xE5] sec)" by (rule sector_write_law [OF d2(2) L(1)])
  have "fat_at (sector d3) s k = fat_at (sector d2) s k" if "k < fat_entries s" for k
    by (rule fat_at_cong [OF v that]) (use L(2) d3(3) in auto)
  then have "removed s cs l off (sector d) (sector d3)"
    using d2(3,4) d3(3) fs(2) by (auto simp: removed_def put_entry_def)
  moreover have "fat32_unlink E path (with_disk d s) = Some (0, with_disk d3 s)"
    using v w(1,2) name83_facts(1) [OF g] d1(1) d2(1) d3(1) e range_word(1) [OF v c]
    by (simp add: fat32_unlink_def remove_dir_entry_by_path_def root_path_walk(4) [OF g path] free_cluster_chain_def vol_ok_def linorder_not_less [symmetric])
  ultimately show ?thesis using that [of d3 l off] d3(2) mem(1) by simp
qed

end

end
