(* ===== verification/FatFormat.thy ===== *)
theory FatFormat
  imports FatFiles
begin

text \<open>
  A disk that has been formatted: the size of the tables is found by a loop that ends within its
  rounds, the sectors are written in ascending order, and the volume that is mounted afterwards is
  empty. On the disk behind the IDE driver the laws of the volume give the properties of the
  driver's calls.
\<close>

unbundle bit_operations_syntax

section \<open>The size of the tables\<close>

lemma fat_size_step:
  assumes "35 \<le> N" "N < 2 ^ 27" "1 \<le> z" "z \<le> (N - 34) div 128 + 1"
  defines "D \<equiv> N - 32 - 2 * z"
  shows "(of_nat N - 32 - 2 * of_nat z :: u32) = of_nat D" "\<not> sint (of_nat D :: u32) \<le> 0"
    "((of_nat D * 4 + 512 - 1) div 512 :: u32) = of_nat ((4 * D + 511) div 512)"
    "1 \<le> (4 * D + 511) div 512" "(4 * D + 511) div 512 \<le> (N - 34) div 128 + 1"
proof -
  define q where "q = (N - 34) div 128"
  have q: "128 * q \<le> N - 34" "N - 34 < 128 * q + 128" unfolding q_def by simp_all
  have z: "z \<le> q + 1" using assms(4) by (simp add: q_def)
  have D: "2 * z + 32 < N" "0 < D" "D \<le> N - 34" "D < 2 ^ 27" using assms(1-3) q(1) z unfolding D_def by linarith+
  then show "(of_nat N - 32 - 2 * of_nat z :: u32) = of_nat D" unfolding D_def by (simp add: of_nat_diff)
  show "\<not> sint (of_nat D :: u32) \<le> 0" using D(2,4) by (simp add: signed_of_nat signed_take_bit_int_eq_self)
  have "(of_nat D * 4 + 512 - 1 :: u32) = of_nat (4 * D + 511)" by simp
  moreover have "unat (of_nat (4 * D + 511) :: u32) = 4 * D + 511" by (rule unat_of_nat32) (use D(4) in simp)
  moreover have "(4 * D + 511) div 512 < 2 ^ 32" using D(4) by simp
  ultimately show "((of_nat D * 4 + 512 - 1) div 512 :: u32) = of_nat ((4 * D + 511) div 512)"
    by (simp only: word_unat_eq_iff unat_div unat_of_nat32) simp
  show "1 \<le> (4 * D + 511) div 512" using D(2) div_le_mono [of 512 "4 * D + 511" 512] by simp
  have "4 * D + 511 < (q + 2) * 512" using D(3) q(2) by simp
  then show "(4 * D + 511) div 512 \<le> (N - 34) div 128 + 1" unfolding q_def [symmetric] using less_mult_imp_div_less [of "4 * D + 511" "q + 2" 512] by simp
qed

lemma fat_size_law:
  assumes "35 \<le> N" "N < 2 ^ 27" "1 \<le> z" "z \<le> (N - 34) div 128 + 1"
  shows "\<exists>z'. fat_size_loop k (of_nat N) (of_nat z) = Some (of_nat z') \<and> 1 \<le> z' \<and> z' \<le> (N - 34) div 128 + 1"
  using assms(3,4)
proof (induction k arbitrary: z)
  case (Suc k)
  note S = fat_size_step [OF assms(1,2) Suc.prems]
  from Suc.IH [OF S(4,5)] Suc.prems S(1-3) show ?case by (auto simp: Let_def)
qed auto

section \<open>The sectors that are written\<close>

definition format_sector :: "u32 \<Rightarrow> nat \<Rightarrow> nat \<Rightarrow> byte list" where
  "format_sector tot z i =
     (if i = 0 then format_boot tot (of_nat z) else if i = 1 then format_fsinfo
      else if i = 32 \<or> i = 32 + z then format_fat_sector else replicate 512 0)"

lemma length_format_boot: "length (format_boot tot sz) = 512"
  by (simp add: format_boot_def)

lemma length_format_sector: "length (format_sector tot z i) = 512"
  by (simp add: format_sector_def length_format_boot format_fsinfo_def format_fat_sector_def)

lemma upt_cut: "i \<le> j \<Longrightarrow> j \<le> k \<Longrightarrow> [i..<k] = [i..<j] @ [j..<k]"
  using upt_add_eq_append [of i j "k - j"] by simp

lemma format_writes_eq:
  assumes "1 \<le> z" "z < 2 ^ 27"
  shows "format_writes tot (of_nat z) = map (\<lambda>i. (of_nat i, format_sector tot z i)) [0..<33 + 2 * z]"
proof -
  let ?w = "\<lambda>i. (of_nat i :: u32, format_sector tot z i)"
  have u: "unat (of_nat z :: u32) = z" using assms(2) by (simp add: unat_of_nat32)
  have sh: "map ?w [k..<k + z] = map (\<lambda>i. ?w (k + i)) [0..<z]" for k
    by (rule nth_equalityI) simp_all
  have "33 + 2 * z = Suc (32 + z + z)" by simp
  then have sp: "[0..<33 + 2 * z] = [0..<2] @ [2..<32] @ [32..<32 + z] @ [32 + z..<32 + z + z] @ [32 + z + z]"
    using upt_cut [of 0 2 "32 + z + z"] upt_cut [of 2 32 "32 + z + z"] upt_cut [of 32 "32 + z" "32 + z + z"] by (simp only: upt_Suc) simp
  have two: "[0..<2] = [0 :: nat, 1]" by (simp add: upt_rec)
  have w0: "map ?w [0, 1] = [(0, format_boot tot (of_nat z)), (1, format_fsinfo)]" by (simp add: format_sector_def)
  have w2: "map ?w [2..<32] = map (\<lambda>i. (of_nat i, replicate 512 0)) [2..<32]" by (rule map_cong) (auto simp: format_sector_def)
  have w32: "map ?w [32..<32 + z] = map (\<lambda>i. (32 + of_nat 0 * of_nat z + of_nat i, if i = 0 then format_fat_sector else replicate 512 0)) [0..<z]"
    unfolding sh by (rule map_cong) (auto simp: format_sector_def)
  have w33: "map ?w [32 + z..<32 + z + z] = map (\<lambda>i. (32 + of_nat 1 * of_nat z + of_nat i, if i = 0 then format_fat_sector else replicate 512 0)) [0..<z]"
    unfolding sh by (rule map_cong) (auto simp: format_sector_def)
  have we: "map ?w [32 + z + z] = [(32 + 2 * of_nat z, replicate 512 0)]" using assms(1) by (simp add: format_sector_def)
  show ?thesis unfolding format_writes_def sp map_append w0 w2 w32 w33 we two u by (simp only: list.map concat.simps append_Nil append_Nil2 append_assoc)
qed

lemma fold_writes:
  assumes "n \<le> 2 ^ 32"
  shows "fold (\<lambda>w f. f(fst w := snd w)) (map (\<lambda>i. (of_nat i :: u32, g i)) [0..<n]) f l = (if unat l < n then g (unat l) else f l)"
  using assms
proof (induction n)
  case (Suc n)
  have "l = of_nat n \<longleftrightarrow> unat l = n" using Suc.prems by (auto simp: unat_of_nat32)
  then show ?case using Suc by auto
qed simp

section \<open>The mounted volume\<close>

definition mounted_as :: "byte list \<Rightarrow> 'd fat \<Rightarrow> 'd fat" where
  "mounted_as sec s = (set_geometry sec s)\<lparr>fat32_ready := True, mounted_drive := 0\<rparr>"

lemma mounted_as_disk: "mounted_as sec (with_disk d s) = with_disk d (mounted_as sec s)"
  unfolding with_disk_def by (simp add: mounted_as_def set_geometry_def Let_def del: with_disk_simps)

lemma boot_bpb:
  "BytsPerSec (parse_bpb (format_boot tot sz)) = 512" "SecPerClus (parse_bpb (format_boot tot sz)) = 1"
  "RsvdSecCnt (parse_bpb (format_boot tot sz)) = 32" "NumFATs (parse_bpb (format_boot tot sz)) = 2"
  "RootClus (parse_bpb (format_boot tot sz)) = 2"
  by (simp_all add: parse_bpb_def format_boot_def Let_def bytes16_def bytes32_def le16_def le32_def)

lemma boot_fat_size: "FATSz32 (parse_bpb (format_boot tot sz)) = sz"
  by (simp add: parse_bpb_def format_boot_def Let_def bytes16_def bytes32_def)

text \<open>The sectors of a formatted disk, from the first up to the root directory.\<close>

definition formatted :: "u32 \<Rightarrow> nat \<Rightarrow> (u32 \<Rightarrow> byte list) \<Rightarrow> bool" where
  "formatted tot z f \<longleftrightarrow> (\<forall>l. unat l < 33 + 2 * z \<longrightarrow> f l = format_sector tot z (unat l))"

lemma mounted_geometry:
  assumes "s' = mounted_as (format_boot tot (of_nat z)) s"
  shows "fat32_ready s'" "\<not> reads_module s'" "bytes_per_sector s' = 512" "sectors_per_cluster s' = 1" "FATSz32 (bpb s') = of_nat z"
    "NumFATs (bpb s') = 2" "fat_begin_lba s' = 32" "cluster_begin_lba s' = of_nat (32 + 2 * z)" "root_dir_cluster s' = 2"
  using assms by (simp_all add: mounted_as_def set_geometry_def boot_bpb boot_fat_size reads_module_def Let_def)

lemma mounted_vol_ok:
  assumes s': "s' = mounted_as (format_boot tot (of_nat z)) s" and z: "1 \<le> z" "130 * z + 32 < 0x0FFFFFF0"
  shows "vol_ok s'" "fat_entries s' = 128 * z" "unat (cluster_begin_lba s') = 32 + 2 * z"
proof -
  note G = mounted_geometry [OF s']
  have u: "unat (of_nat z :: u32) = z" by (rule unat_of_nat32) (use z in simp)
  show e: "fat_entries s' = 128 * z" by (simp add: fat_entries_def G u)
  show c: "unat (cluster_begin_lba s') = 32 + 2 * z" unfolding G(8) by (rule unat_of_nat32) (use z in simp)
  have "FATSz32 (bpb s') \<noteq> 0" using u z(1) by (auto simp: G(5))
  then show "vol_ok s'" using G(1-7) z u unfolding vol_ok_def e c by simp
qed

lemma format_fat_values:
  assumes "c < 128"
  shows "ent_at (4 * c) format_fat_sector = (if c = 0 then 0x0FFFFFF8 else if c \<le> 2 then 0x0FFFFFFF else 0)"
proof (cases "c \<le> 2")
  case True
  then have "c = 0 \<or> c = 1 \<or> c = 2" by auto
  then show ?thesis by (auto simp: ent_at_def format_fat_sector_def bytes32_def le32_def)
next
  case False
  have "format_fat_sector ! (4 * c + j) = 0" if "j < 4" for j
  proof -
    have "12 \<le> 4 * c + j" "4 * c + j < 512" using False assms that by linarith+
    then show ?thesis unfolding format_fat_sector_def nth_append by (auto simp: not_less)
  qed
  from this [of 0] this [of 1] this [of 2] this [of 3] False show ?thesis by (simp add: ent_at_def le32_def)
qed

lemma formatted_fat:
  assumes s': "s' = mounted_as (format_boot tot (of_nat z)) s" and z: "1 \<le> z" "130 * z + 32 < 0x0FFFFFF0" and f: "formatted tot z f"
    and c: "2 \<le> c" "c < 128 * z"
  shows "fat_at f s' c = (if c = 2 then 0x0FFFFFFF else 0)"
proof -
  note V = mounted_vol_ok [OF s' z] and G = mounted_geometry [OF s']
  have n: "0 < unat (NumFATs (bpb s'))" by (simp add: G)
  have ce: "c < fat_entries s'" using c(2) V(2) by simp
  have u: "unat (fat_lba s' 0 c) = 32 + c div 128" using fat_lba_unat(1) [OF V(1) ce n] by (simp add: G)
  have d: "c div 128 < z" using c(2) by (simp add: less_mult_imp_div_less mult.commute)
  then have fl: "f (fat_lba s' 0 c) = format_sector tot z (32 + c div 128)" using f u by (simp add: formatted_def)
  show ?thesis
  proof (cases "c < 128")
    case True
    then show ?thesis using fl c(1) format_fat_values [OF True] by (simp add: fat_at_def format_sector_def)
  next
    case False
    then have "1 \<le> c div 128" using div_le_mono [of 128 c 128] by simp
    then have "f (fat_lba s' 0 c) = replicate 512 0" using fl d by (simp add: format_sector_def)
    moreover have "4 * (c mod 128) + 3 < 512" by simp
    ultimately show ?thesis using False by (simp add: fat_at_def ent_at_def le32_def)
  qed
qed

definition empty_volume :: "'d fat \<Rightarrow> (u32 \<Rightarrow> byte list) \<Rightarrow> bool" where
  "empty_volume s f \<longleftrightarrow> root_chain s f [2] \<and> (\<forall>nm. fresh_name s f [2] nm) \<and>
     first_slot free_slot f (dir_slots s [2]) \<noteq> None \<and> free_clusters f s = [3..<fat_entries s]"

lemma formatted_empty:
  assumes s': "s' = mounted_as (format_boot tot (of_nat z)) s" and z: "1 \<le> z" "130 * z + 32 < 0x0FFFFFF0" and f: "formatted tot z f"
  shows "empty_volume s' f"
proof -
  note V = mounted_vol_ok [OF s' z] and G = mounted_geometry [OF s'] and F = formatted_fat [OF s' z f]
  let ?l = "of_nat (32 + 2 * z) :: u32"
  have "root_chain s' f [2]" using F [of 2] z(1) by (simp add: root_chain_def is_chain_def G(9) cluster_range_def V(2))
  moreover have "free_clusters f s' = [3..<fat_entries s']"
  proof -
    have "cluster_range s' = 2 # [3..<128 * z]" using z(1) by (simp add: cluster_range_def V(2) upt_conv_Cons)
    moreover have "filter (\<lambda>c. fat_at f s' c = 0) [3..<128 * z] = [3..<128 * z]" by (rule filter_True) (use F in simp)
    ultimately show ?thesis using F [of 2] z(1) by (simp add: free_clusters_def V(2))
  qed
  moreover obtain ps where ps: "dir_slots s' [2] = (?l, 0) # ps"
  proof -
    have "data_lba s' 2 = 32 + 2 * z" "unat (sectors_per_cluster s') = 1" by (simp_all add: data_lba_def V(3) G(4))
    then have "cluster_lbas s' (of_nat 2) = map of_nat [32 + 2 * z..<Suc (32 + 2 * z)]" using cluster_lbas_eq [of 2 s'] by simp
    then have "cluster_lbas s' (of_nat 2) = [?l]" by (simp only: upt_Suc) simp
    moreover have "slots s' = 0 # map (\<lambda>i. 32 * i) [1..<16]" by (simp add: slots_ok [OF V(1)] upt_conv_Cons [of 0])
    ultimately show ?thesis using that by (simp add: dir_slots_def)
  qed
  moreover have "slot (f ?l) 0 ! 0 = 0"
  proof -
    have u: "unat ?l = 32 + 2 * z" by (rule unat_of_nat32) (use z in simp)
    have "f ?l = format_sector tot z (32 + 2 * z)" using f [unfolded formatted_def, rule_format, of ?l] unfolding u by simp
    then have "f ?l = replicate 512 0" using z(1) by (simp only: format_sector_def) simp
    then show ?thesis by (simp only: slot_def) simp
  qed
  ultimately show ?thesis
    by (simp add: empty_volume_def fresh_name_def ps scan_spec_def first_slot_def scan_end_def path_entry_def file_entry_def free_slot_def)
qed

context fat_volume
begin

lemma write_list_law:
  assumes "ok d" "\<forall>w\<in>set ws. unat (fst w) < 2 ^ 28 \<and> length (snd w) = 512"
  shows "\<exists>d'. write_list E ws (with_disk d s) = (0, with_disk d' s) \<and> ok d' \<and> sector d' = fold (\<lambda>w f. f(fst w := snd w)) ws (sector d)"
  using assms
proof (induction ws arbitrary: d)
  case (Cons w ws)
  have w: "unat (fst w) < 2 ^ 28" "length (snd w) = 512" using Cons.prems(2) by simp_all
  obtain d1 where d1: "wr (fst w) (snd w) d = (0, d1)" "ok d1" "sector d1 = (sector d)(fst w := snd w)"
    using wr_law [OF Cons.prems(1) small_lba [OF w(1)] w(2)] by blast
  then have "hw_wr (fat_hw E) (fst w) (snd w) (with_disk d s) = (0, with_disk d1 s)" by (simp add: fat_hw_def at_disk_def hw_laws)
  with Cons.IH [OF d1(2)] Cons.prems(2) d1(3) show ?case by auto
qed simp

lemma format_law:
  assumes d: "ok d" and n: "hw_count E d = (int N, d0)" "ok d0" "35 \<le> N" "N < 2 ^ 27"
  obtains z d' where "fat32_format_ata_impl E (with_disk d s) = (0, with_disk d' s)" "ok d'" "1 \<le> z" "130 * z + 32 < 0x0FFFFFF0"
    "formatted (of_nat N) z (sector d')"
proof -
  obtain z where z: "fat_size_loop 32 (of_nat N) (of_nat 1) = Some (of_nat z)" "1 \<le> z" "z \<le> (N - 34) div 128 + 1"
    using fat_size_law [OF n(3,4), of 1 32] by auto
  have "(N - 34) div 128 < 2 ^ 20" using n(4) by (simp add: less_mult_imp_div_less)
  then have b: "130 * z + 32 < 0x0FFFFFF0" "z < 2 ^ 27" using z(3) by simp_all
  let ?ws = "map (\<lambda>i. (of_nat i :: u32, format_sector (of_nat N) z i)) [0..<33 + 2 * z]"
  have "unat (of_nat i :: u32) < 2 ^ 28" if "i < 33 + 2 * z" for i using that b(1) by (subst unat_of_nat32) simp_all
  then have "\<forall>w\<in>set ?ws. unat (fst w) < 2 ^ 28 \<and> length (snd w) = 512" by (auto simp: length_format_sector)
  from write_list_law [OF n(2) this, of s] obtain d' where d': "write_list E ?ws (with_disk d0 s) = (0, with_disk d' s)" "ok d'"
    "sector d' = fold (\<lambda>w f. f(fst w := snd w)) ?ws (sector d0)" by blast
  have "formatted (of_nat N) z (sector d')" unfolding formatted_def d'(3)
    by (intro allI impI, subst fold_writes) (use b(1) in simp_all)
  moreover have "hw_count (fat_hw E) (with_disk d s) = (int N, with_disk d0 s)" using n(1) by (simp add: fat_hw_def at_disk_def)
  then have "fat32_format_ata_impl E (with_disk d s) = (0, with_disk d' s)"
    using n(3) z(1) d'(1) by (simp add: fat32_format_ata_impl_def format_writes_eq [OF z(2) b(2)])
  ultimately show ?thesis using that d'(2) z(2) b(1) by blast
qed

lemma mount_law:
  assumes "ok d" "\<not> reads_module s" "sector d 0 = format_boot tot (of_nat z)"
  obtains d' where "fat32_init_from_ata E (with_disk d s) = Some (0, with_disk d' (mounted_as (sector d 0) s))" "ok d'" "sector d' = sector d"
proof -
  obtain d' where d': "read_buf E 512 0 (with_disk d s) = Some (0, sector d 0, with_disk d' s)" "ok d'" "sector d' = sector d"
    by (rule sector_read_law [OF assms(1,2), of 0]) simp
  have "geometry_ok (set_geometry (sector d 0) (with_disk d' s))"
    by (simp add: geometry_ok_def set_geometry_def assms(3) boot_bpb Let_def)
  then have "fat32_init_from_ata E (with_disk d s) = Some (0, mounted_as (sector d 0) (with_disk d' s))"
    using d'(1) sector_length [OF assms(1), of 0] by (simp add: fat32_init_from_ata_def Let_def mounted_as_def)
  then show ?thesis using that d'(2,3) by (simp add: mounted_as_disk)
qed

end

section \<open>The disk behind the IDE driver\<close>

interpretation ide_fat: fat_volume "ata_read_sector ata_ports" "ata_write_sector ata_ports" ide_sector lba28 ide_ok "ide_hw env" for env
  by unfold_locales (simp_all add: ide_hw_def lba28_below)

lemma ide_hw_count:
  assumes "ide_ok d"
  obtains d' where "hw_count (ide_hw env) d = (sint (ident_sectors (ide_dev d)), d')" "ide_ok d'"
proof -
  obtain a' where a: "ata_get_sector_count ata_ports (ide_dev d) = (sint (ident_sectors (ide_dev d)), a')" "ata_ok a'"
    using sector_count_ata [of "ide_dev d"] assms unfolding ide_ok_def by blast
  then show ?thesis using that [of "d\<lparr>ide_dev := a'\<rparr>"] by (simp add: ide_hw_def ide_ok_def)
qed

text \<open>The sectors of the disk of a driver state.\<close>

definition vol_sectors :: "ata ide fat \<Rightarrow> u32 \<Rightarrow> byte list" where
  "vol_sectors s = ide_sector (fat_disk s)"

lemma vol_sectors_with [simp]: "vol_sectors (with_disk d s) = ide_sector d"
  by (simp add: vol_sectors_def)

text \<open>A volume on that disk with a root directory, an 8.3 name that is not in it and room for a
  file under that name.\<close>

definition new_file_ok :: "ata ide fat \<Rightarrow> nat list \<Rightarrow> string \<Rightarrow> string \<Rightarrow> string \<Rightarrow> byte list \<Rightarrow> bool" where
  "new_file_ok s rs b x path bs \<longleftrightarrow> ide_ok (fat_disk s) \<and> vol_ok s \<and> root_chain s (vol_sectors s) rs \<and>
     good83 b x \<and> root_path (name83 b x) path \<and> fresh_name s (vol_sectors s) rs (name83 b x) \<and>
     bs \<noteq> [] \<and> length bs < 2 ^ 32 \<and> clusters_for s (length bs) \<le> length (free_clusters (vol_sectors s) s) \<and>
     first_slot free_slot (vol_sectors s) (dir_slots s rs) \<noteq> None"

text \<open>The predicates on a volume do not look at the disk the state was taken from.\<close>

lemma with_disk_preds [simp]:
  "vol_ok (with_disk d s) = vol_ok s" "root_chain (with_disk d s) = root_chain s" "is_chain (with_disk d s) = is_chain s"
  "free_clusters f (with_disk d s) = free_clusters f s" "keeps_chains (with_disk d s) = keeps_chains s"
  "empty_volume (with_disk d s) = empty_volume s"
proof -
  have e: "fat_entries (with_disk d s) = fat_entries s" "cluster_range (with_disk d s) = cluster_range s"
    "\<And>f. fat_at f (with_disk d s) = fat_at f s" "chain_lbas (with_disk d s) = chain_lbas s"
    by (simp_all add: fat_entries_def cluster_range_def fat_at_def fat_lba_def chain_lbas_def fun_eq_iff)
  then have fd: "\<And>f. file_data f (with_disk d s) = file_data f s" by (simp add: file_data_def fun_eq_iff)
  show v: "vol_ok (with_disk d s) = vol_ok s" by (simp add: vol_ok_def e)
  show c: "is_chain (with_disk d s) = is_chain s" by (simp add: is_chain_def fun_eq_iff e)
  show r: "root_chain (with_disk d s) = root_chain s" by (simp add: root_chain_def fun_eq_iff c)
  show fc: "\<And>f. free_clusters f (with_disk d s) = free_clusters f s" by (simp add: free_clusters_def e)
  show "keeps_chains (with_disk d s) = keeps_chains s" by (simp add: keeps_chains_def fun_eq_iff c fd)
  have "dir_slots (with_disk d s) = dir_slots s" by (simp add: dir_slots_def sector_slots_def fun_eq_iff e)
  then show "empty_volume (with_disk d s) = empty_volume s"
    by (simp add: empty_volume_def fresh_name_def fun_eq_iff r fc e)
qed

lemma new_file_written:
  assumes "new_file_ok s rs b x path bs"
  obtains d' cs where "fat32_write_file (ide_hw env) path (Some bs) (length bs) s = Some (0, with_disk d' s)" "ide_ok d'"
    "cs = take (clusters_for s (length bs)) (free_clusters (vol_sectors s) s)" "is_file s (ide_sector d') rs (name83 b x) cs bs"
    "keeps_chains s rs (vol_sectors s) (ide_sector d')" "root_chain s (ide_sector d') rs"
    "free_clusters (ide_sector d') s = drop (length cs) (free_clusters (vol_sectors s) s)"
proof -
  have w: "with_disk (fat_disk s) s = s" by simp
  from assms ide_fat.fat_write_law [of "fat_disk s" s rs b x path bs env thesis] that show ?thesis
    unfolding new_file_ok_def vol_sectors_def w by blast
qed

lemma chain_free_disjoint:
  assumes "vol_ok s" "is_chain s f ks"
  shows "set ks \<inter> set (free_clusters f s) = {}"
  using chain_nonzero [OF assms(1), of "fat_at f s" ks] assms(2) free_clusters_set [of _ f s] unfolding is_chain_def by blast

text \<open>The paths that the process and device file systems answer for.\<close>

definition pseudo_file :: "string \<Rightarrow> bool" where
  "pseudo_file path \<longleftrightarrow> path \<in> {''cpuinfo'', ''meminfo'', ''self'', ''/proc/cpuinfo'', ''/proc/meminfo'', ''/proc/self''} \<or>
     dev_name path = ''console''"

lemma hana_read_missing:
  assumes "hf_room E S A (hf_heap st)" "entries_ok A (entries st)" "room_cost (length path + 3) \<le> S"
    "hana_map (entries st) (hana_ipath path) = None"
  obtains pb st1 where "hanafs_get_file_alloc E (Some path) st = Some (None, st1)" "hf_disk st1 = hf_disk st"
    "hf_room E (S - room_cost (length path + 3)) (insert pb A) (hf_heap st1)"
proof -
  have n: "0 < length path + 2" "room_cost (length path + 2) \<le> S" using assms(3) by (simp_all add: room_cost_def)
  obtain pb st1 where pb: "hf_alloc E (length path + 2) st = Some (pb, st1)" "pb \<noteq> 0" "pb \<notin> A"
    "hf_room E (S - room_cost (length path + 2)) (insert pb A) (hf_heap st1)" "entries st1 = entries st" "hf_disk st1 = hf_disk st"
    by (rule hf_alloc_room [OF assms(1) n])
  have "find_entry (hana_ipath path) st1 = Some None"
    using find_entry_room [OF assms(1), of st1] assms(2,4) pb(5) by (simp add: hana_map_find split: option.splits)
  then have "hanafs_get_file_alloc E (Some path) st = Some (None, st1)"
    using pb(1,2) by (simp add: hanafs_get_file_alloc_def path_copy_def)
  moreover have "hf_room E (S - room_cost (length path + 3)) (insert pb A) (hf_heap st1)"
    using pb(4) by (rule hf_room_mono) (simp add: room_cost_def)
  ultimately show ?thesis using that [of st1 pb] pb(6) by simp
qed

section \<open>Properties\<close>

text \<open>C19. Formatting gives an empty volume: on a disk of 35 to \<open>2^27\<close> sectors
  \<open>fat32_format_ata_master\<close> succeeds, \<open>fat32_init_from_ata\<close> then mounts the volume, its root
  directory is the chain of cluster 2, no name is found in it, there is place for an entry, and
  every other cluster is free.\<close>

theorem fat_format_mount:
  assumes "ide_ok (fat_disk s)" and "\<not> reads_module s" and "35 \<le> unat (ident_sectors (ide_dev (fat_disk s)))"
    and "unat (ident_sectors (ide_dev (fat_disk s))) < 2 ^ 27"
  shows "\<exists>s1 s2. fat32_format_ata_master (ide_hw env) drive_number s = (0, s1) \<and> fat32_init_from_ata (ide_hw env) s1 = Some (0, s2) \<and>
    ide_ok (fat_disk s2) \<and> vol_ok s2 \<and> empty_volume s2 (vol_sectors s2)"
proof -
  let ?d = "fat_disk s" let ?n = "unat (ident_sectors (ide_dev ?d))"
  have w: "with_disk ?d s = s" by simp
  have "sint (of_nat k :: u32) = int k" if "k < 2 ^ 27" for k
    using that by (simp add: signed_of_nat signed_take_bit_int_eq_self)
  from this [OF assms(4)] have n: "sint (ident_sectors (ide_dev ?d)) = int ?n" by simp
  obtain d0 where d0: "hw_count (ide_hw env) ?d = (int ?n, d0)" "ide_ok d0" by (rule ide_hw_count [OF assms(1), of env, unfolded n])
  obtain z d1 where d1: "fat32_format_ata_impl (ide_hw env) s = (0, with_disk d1 s)" "ide_ok d1" "1 \<le> z" "130 * z + 32 < 0x0FFFFFF0"
    "formatted (of_nat ?n) z (ide_sector d1)"
    by (rule ide_fat.format_law [OF assms(1) d0 assms(3,4), of s, unfolded w])
  have b: "ide_sector d1 0 = format_boot (of_nat ?n) (of_nat z)" using d1(5) by (simp add: formatted_def format_sector_def)
  obtain d2 where d2: "fat32_init_from_ata (ide_hw env) (with_disk d1 s) = Some (0, with_disk d2 (mounted_as (ide_sector d1 0) s))" "ide_ok d2"
    "ide_sector d2 = ide_sector d1" by (rule ide_fat.mount_law [OF d1(2) assms(2) b])
  have "vol_ok (mounted_as (ide_sector d1 0) s)" "empty_volume (mounted_as (ide_sector d1 0) s) (ide_sector d1)"
    using mounted_vol_ok(1) [OF refl d1(3,4)] formatted_empty [OF refl d1(3-5)] unfolding b by blast+
  then show ?thesis using d1(1) d2 by (simp add: fat32_format_ata_master_def)
qed




section \<open>Witnesses\<close>

text \<open>A disk of a hundred sectors, and the driver before anything is mounted.\<close>

definition demo_fat :: "ata ide fat" where
  "demo_fat = \<lparr>fat32_ready = False, bpb = parse_bpb (replicate 512 0), fat_begin_lba = 0, cluster_begin_lba = 0,
     sectors_per_cluster = 0, bytes_per_sector = 0, root_dir_cluster = 0, mounted_drive = -1, mounted_module_name = [],
     module_image = None, floppy_data = None,
     fat_disk = demo_disk\<lparr>ide_dev := (ide_dev demo_disk)\<lparr>a_ident := (replicate 256 0)[60 := 100]\<rparr>\<rparr>\<rparr>"

lemma demo_fat_ok:
  "ide_ok (fat_disk demo_fat)" "\<not> reads_module demo_fat" "unat (ident_sectors (ide_dev (fat_disk demo_fat))) = 100"
  by (simp_all add: demo_fat_def ide_ok_def ata_ok_def demo_disk_def reads_module_def ident_sectors_def)

theorem fat_format_mount_witness:
  "\<exists>s1 s2. fat32_format_ata_master (ide_hw demo_env) 0 demo_fat = (0, s1) \<and> fat32_init_from_ata (ide_hw demo_env) s1 = Some (0, s2) \<and>
     vol_ok s2 \<and> empty_volume s2 (vol_sectors s2)"
  using fat_format_mount [OF demo_fat_ok(1,2), of demo_env 0] demo_fat_ok(3) by auto

text \<open>The volume on that disk after formatting and mounting.\<close>

lemma demo_volume:
  obtains s where "ide_ok (fat_disk s)" "vol_ok s" "empty_volume s (vol_sectors s)" "sectors_per_cluster s = 1" "128 \<le> fat_entries s"
proof -
  let ?d = "fat_disk demo_fat"
  have "hw_count (ide_hw demo_env) ?d = (sint (ident_sectors (ide_dev ?d)), d0) \<Longrightarrow> hw_count (ide_hw demo_env) ?d = (int 100, d0)" for d0
    using demo_fat_ok(3) by (simp add: demo_fat_def ident_sectors_def demo_disk_def)
  then obtain d0 where d0: "hw_count (ide_hw demo_env) ?d = (int 100, d0)" "ide_ok d0" using ide_hw_count [OF demo_fat_ok(1), of demo_env] by metis
  have b: "35 \<le> (100 :: nat)" "(100 :: nat) < 2 ^ 27" by simp_all
  obtain z d1 where d1: "fat32_format_ata_impl (ide_hw demo_env) (with_disk ?d demo_fat) = (0, with_disk d1 demo_fat)" "ide_ok d1" "1 \<le> z"
    "130 * z + 32 < 0x0FFFFFF0" "formatted (of_nat 100) z (ide_sector d1)"
    by (rule ide_fat.format_law [OF demo_fat_ok(1) d0 b, of demo_fat])
  let ?s = "with_disk d1 (mounted_as (format_boot (of_nat 100) (of_nat z)) demo_fat)"
  have s: "?s = mounted_as (format_boot (of_nat 100) (of_nat z)) (with_disk d1 demo_fat)" by (simp add: mounted_as_disk)
  note G = mounted_geometry [OF s] and V = mounted_vol_ok [OF s d1(3,4)] and M = formatted_empty [OF s d1(3-5)]
  show ?thesis by (rule that [of ?s]) (use G(4) V M d1(2,3) in \<open>simp_all add: vol_sectors_def\<close>)
qed

lemma demo_new_file:
  obtains s where "new_file_ok s [2] ''hello'' ''txt'' ''/hello.txt'' (replicate 1000 7)"
proof -
  obtain s where s: "ide_ok (fat_disk s)" "vol_ok s" "empty_volume s (vol_sectors s)" "sectors_per_cluster s = 1" "128 \<le> fat_entries s"
    by (rule demo_volume)
  have "clusters_for s 1000 = 2" by (simp add: clusters_for_def cluster_bytes_def s(4))
  moreover have "good83 ''hello'' ''txt''" by (simp add: good83_def plain_char_def slash_def NUL_def)
  moreover have "root_path (name83 ''hello'' ''txt'') ''/hello.txt''" by (simp add: root_path_def name83_def slash_def)
  ultimately have "new_file_ok s [2] ''hello'' ''txt'' ''/hello.txt'' (replicate 1000 7)"
    using s by (simp add: new_file_ok_def empty_volume_def)
  then show ?thesis by (rule that)
qed

definition demo_fat_fs :: "ata ide fat hanafs" where
  "demo_fat_fs = \<lparr>hf_heap = hf_heap demo_fs, entries = [], loaded_from_ata = False, persist_enabled = True, hf_disk = demo_fat\<rparr>"

lemma demo_fat_room: "hf_room (fat_hw (ide_hw demo_env)) 1048576 {} (hf_heap demo_fat_fs)"
proof -
  have "boot_ok demo_env 0" using demo_boot_ok by (auto simp: boot_ok_def bump_ok_def Let_def)
  then have "heap_room demo_env 1048576 {} (heap_init demo_env 0x100000 heap_boot)" by (rule heap_init_room) simp_all
  then show ?thesis by (simp add: hf_room_def fat_hw_def ide_hw_def demo_fat_fs_def demo_fs_def)
qed




end
