(* ===== verification/SysTypes.thy ===== *)
theory SysTypes
  imports Syscalls FatFormat
begin

text \<open>
  The type invariant of descriptor tables: what every entry of the table of the running task
  looks like between system calls of \<^verbatim>\<open>kernel/userland/syscalls.cpp\<close>, whatever the arguments are and
  whether or not memory is available.
\<close>

section \<open>Entries\<close>

text \<open>An open file has a buffer of its length, none when it is empty, and a position inside; an
  entry of another type has no path, no buffer and position 0.\<close>

definition fd_wf :: "fdentry \<Rightarrow> bool" where
  "fd_wf e \<longleftrightarrow>
     (if fd_type e = FD_FILE
      then fd_len e = length (fd_buf e) \<and> fd_pos e \<le> fd_len e \<and> (fd_buf_ptr e = 0 \<longrightarrow> fd_buf e = [])
      else fd_len e = 0 \<and> fd_pos e = 0 \<and> fd_buf e = [] \<and> fd_buf_ptr e = 0 \<and> fd_path_ptr e = 0)"

text \<open>The table of the running task has as many entries as the task says, all of that form.\<close>

definition fds_typed :: "'d kernel \<Rightarrow> bool" where
  "fds_typed k \<longleftrightarrow> (let t = sc_tasks k (current_task k)
     in t_fds t \<noteq> 0 \<longrightarrow> length (km_fdt k (t_fds t)) = nat (t_fd_count t) \<and> list_all fd_wf (km_fdt k (t_fds t)))"

text \<open>What a call other than one that switches tasks does to the tables.\<close>

definition fd_step :: "u64 \<Rightarrow> 'd kernel \<Rightarrow> 'd kernel \<Rightarrow> bool" where
  "fd_step tbl k k' \<longleftrightarrow> sc_tasks k' = sc_tasks k \<and> current_task k' = current_task k \<and>
     length (km_fdt k' tbl) = length (km_fdt k tbl) \<and> (list_all fd_wf (km_fdt k tbl) \<longrightarrow> list_all fd_wf (km_fdt k' tbl))"

definition quiet :: "'d kernel \<Rightarrow> 'd kernel \<Rightarrow> bool" where
  "quiet k k' \<longleftrightarrow> sc_tasks k' = sc_tasks k \<and> current_task k' = current_task k \<and> km_fdt k' = km_fdt k"

lemma quiet_refl [simp]: "quiet k k"
  by (simp add: quiet_def)

lemma quiet_trans [trans]: "quiet a b \<Longrightarrow> quiet b c \<Longrightarrow> quiet a c"
  by (simp add: quiet_def)

lemma quiet_step: "quiet k k' \<Longrightarrow> fd_step tbl k k'"
  by (simp add: quiet_def fd_step_def)

lemma quiet_then: "quiet k k1 \<Longrightarrow> fd_step tbl k1 k' \<Longrightarrow> fd_step tbl k k'"
  by (simp add: quiet_def fd_step_def)

lemma put_step: "(list_all fd_wf (km_fdt k tbl) \<Longrightarrow> fd_wf e) \<Longrightarrow> fd_step tbl k (put_ent tbl i e k)"
  by (auto simp: fd_step_def put_ent_def fdt_put_def list_all_iff dest: subsetD [OF set_update_subset_insert])

lemma entry_wf: "list_all fd_wf es \<Longrightarrow> i < length es \<Longrightarrow> fd_wf (es ! i)"
  by (simp add: list_all_length)

lemma km_alloc_quiet: "km_alloc env n k = Some (p, k') \<Longrightarrow> quiet k k'"
  by (auto simp: km_alloc_def quiet_def bind_eq_Some_conv)

lemma km_free_quiet: "km_free p k = Some k' \<Longrightarrow> quiet k k'"
  by (auto simp: km_free_def quiet_def bind_eq_Some_conv)

lemma km_free_if_quiet: "km_free_if p k = Some k' \<Longrightarrow> quiet k k'"
  by (auto simp: km_free_if_def split: if_splits dest: km_free_quiet)

lemma with_fs_quiet: "with_fs f k = Some (r, k') \<Longrightarrow> quiet k k'"
  by (auto simp: with_fs_def quiet_def bind_eq_Some_conv)

lemma fdtable_get_less: "fdtable_get tbl cnt fd = Some i \<Longrightarrow> i < nat cnt"
  by (auto simp: fdtable_get_def split: if_splits)

lemma alloc_fd_less: "tbl \<noteq> 0 \<Longrightarrow> \<not> fdtable_alloc_fd tbl cnt k < 0 \<Longrightarrow> nat (fdtable_alloc_fd tbl cnt k) < nat cnt \<and>
    fd_type (km_fdt k tbl ! nat (fdtable_alloc_fd tbl cnt k)) = FD_NONE"
  using fdtable_alloc_fd_cases [of tbl cnt k] by auto

section \<open>The calls\<close>

text \<open>A file that is handed out has a buffer.\<close>

definition nonnull :: "((u64 \<times> byte list) option \<times> 's) option \<Rightarrow> bool" where
  "nonnull r \<longleftrightarrow> (\<forall>b bs s. r = Some (Some (b, bs), s) \<longrightarrow> b \<noteq> 0)"

lemma nonnull_bind: "(\<And>a. x = Some a \<Longrightarrow> nonnull (f a)) \<Longrightarrow> nonnull (Option.bind x f)"
  by (cases x) (simp_all add: nonnull_def)

lemma nonnull_value: "nonnull None" "nonnull (Some (None, s))" "b \<noteq> 0 \<Longrightarrow> nonnull (Some (Some (b, bs), s))"
  by (simp_all add: nonnull_def)

lemma nonnull_keep:
  assumes "nonnull r"
  shows "nonnull (keep_nonempty r)"
proof (cases r)
  case None
  then show ?thesis by (simp add: nonnull_def keep_nonempty_def)
next
  case (Some x)
  obtain d s where x: "x = (d, s)" by (cases x)
  show ?thesis
  proof (cases d)
    case None
    then show ?thesis by (simp add: Some x nonnull_def keep_nonempty_def)
  next
    case (Some y)
    obtain b bs where y: "y = (b, bs)" by (cases y)
    have "b \<noteq> 0" using assms by (simp add: nonnull_def \<open>r = Some x\<close> x Some y)
    then show ?thesis
      by (simp add: nonnull_def keep_nonempty_def \<open>r = Some x\<close> x Some y bind_eq_Some_conv)
  qed
qed

lemma nonnull_or_else:
  assumes "nonnull r" "\<And>fs. nonnull (g fs)"
  shows "nonnull (or_else r g)"
proof (cases r)
  case None
  then show ?thesis by (simp add: nonnull_def or_else_def)
next
  case (Some x)
  obtain d s where x: "x = (d, s)" by (cases x)
  show ?thesis
    using assms(1) nonnull_keep [OF assms(2)] by (cases d) (simp_all add: or_else_def Some x nonnull_def)
qed

lemma nonnull_text: "nonnull (text_file E s st)"
  unfolding text_file_def by (auto intro!: nonnull_bind nonnull_value split: prod.split)

lemma nonnull_hana: "nonnull (hanafs_get_file_alloc E p st)"
  unfolding hanafs_get_file_alloc_def
  by (auto intro!: nonnull_bind nonnull_value split: option.split prod.split)

lemma nonnull_fat: "nonnull (fat32_get_file_alloc E p st)"
  unfolding fat32_get_file_alloc_def Let_def
  by (auto intro!: nonnull_bind nonnull_value split: option.split prod.split)

lemma nonnull_pseudo: "nonnull (procfs_get_file_alloc E p st)" "nonnull (devfs_get_file_alloc E p st)"
  unfolding procfs_get_file_alloc_def devfs_get_file_alloc_def by (simp_all add: nonnull_text nonnull_value)

lemma nonnull_on_fs: "(\<And>fs. nonnull (f fs)) \<Longrightarrow> nonnull (on_fs f st)"
  by (cases "f (vf_fs st)") (auto simp: nonnull_def on_fs_def)

lemma nonnull_vfs: "nonnull (vfs_get_file_alloc E (fat_other E' mods) p st)"
proof (cases p)
  case None
  then show ?thesis by (simp add: vfs_get_file_alloc_def nonnull_def)
next
  case (Some path)
  have "nonnull (get_fallback E (fat_other E' mods) path fs)" for fs
    unfolding get_fallback_def ramfs_get_file_alloc_def fat_other_def
    by (intro nonnull_or_else nonnull_keep) (simp_all add: nonnull_hana nonnull_pseudo nonnull_fat)
  then have "nonnull (on_fs (get_fallback E (fat_other E' mods) path) st)" by (rule nonnull_on_fs)
  moreover have "nonnull (on_fs (\<lambda>fs. keep_nonempty (x_fat32_get_file_alloc (fat_other E' mods) q fs)) st)"
    "nonnull (on_fs (\<lambda>fs. keep_nonempty (ramfs_get_file_alloc E (Some q) fs)) st)"
    "nonnull (on_fs (procfs_get_file_alloc E q) st)" "nonnull (on_fs (devfs_get_file_alloc E q) st)" for q
    unfolding fat_other_def ramfs_get_file_alloc_def
    by (intro nonnull_on_fs; simp add: nonnull_keep nonnull_hana nonnull_fat nonnull_pseudo)+
  ultimately show ?thesis
    unfolding vfs_get_file_alloc_def Let_def Some by (simp add: nonnull_value split: option.split prod.split)
qed

lemma nonnull_with_fs: "(\<And>v. nonnull (f v)) \<Longrightarrow> with_fs f k = Some (Some (b, bs), k') \<Longrightarrow> b \<noteq> 0"
  by (cases "f ((k_vfs k)\<lparr>vf_fs := kernel_fs k\<rparr>)") (auto simp: nonnull_def with_fs_def)

definition steps :: "u64 \<Rightarrow> 'd kernel \<Rightarrow> ('a \<times> 'd kernel) option \<Rightarrow> bool" where
  "steps tbl k r \<longleftrightarrow> (\<forall>v k'. r = Some (v, k') \<longrightarrow> fd_step tbl k k')"

lemma steps_bind: "(\<And>a. x = Some a \<Longrightarrow> steps tbl k (f a)) \<Longrightarrow> steps tbl k (Option.bind x f)"
  by (cases x) (simp_all add: steps_def)

lemma steps_quiet: "quiet k k' \<Longrightarrow> steps tbl k (Some (v, k'))"
  by (simp add: steps_def quiet_step)

lemma steps_put:
  assumes q: "quiet k k'" and w: "list_all fd_wf (km_fdt k tbl) \<Longrightarrow> fd_wf e"
  shows "steps tbl k (Some (v, put_ent tbl i e k'))"
proof -
  have "fd_step tbl k' (put_ent tbl i e k')" by (rule put_step) (use q w in \<open>simp add: quiet_def\<close>)
  then show ?thesis by (simp add: steps_def quiet_then [OF q])
qed

lemma steps_None: "steps tbl k None"
  by (simp add: steps_def)

lemma quiet_updates [simp]:
  "quiet k (k'\<lparr>k_tty := t\<rparr>) = quiet k k'" "quiet k (k'\<lparr>k_pipes := p\<rparr>) = quiet k k'" "quiet k (k'\<lparr>k_mem := m\<rparr>) = quiet k k'"
  "quiet k (k'\<lparr>k_stats := s\<rparr>) = quiet k k'"
  by (simp_all add: quiet_def)

lemma grow_buf_wf:
  assumes "grow_buf env n e (k :: 'd kernel) = Some (ok, e1, k1)"
  shows "quiet k k1" "fd_wf e \<Longrightarrow> fd_type e = FD_FILE \<Longrightarrow> fd_wf e1 \<and> fd_type e1 = FD_FILE"
proof -
  consider "\<not> fd_len e < n" "e1 = e" "k1 = k"
    | nb k2 where "fd_len e < n" "km_alloc env n k = Some (nb, k2)" "nb = 0" "e1 = e" "k1 = k2"
    | nb k2 where "fd_len e < n" "km_alloc env n k = Some (nb, k2)" "nb \<noteq> 0" "km_free_if (fd_buf_ptr e) k2 = Some k1"
      "e1 = e\<lparr>fd_buf_ptr := nb, fd_buf := take (fd_len e) (fd_buf e) @ replicate (n - fd_len e) 0, fd_len := n\<rparr>"
    using assms by (auto simp: grow_buf_def bind_eq_Some_conv split: if_splits)
  then have "quiet k k1 \<and> (fd_wf e \<longrightarrow> fd_type e = FD_FILE \<longrightarrow> fd_wf e1 \<and> fd_type e1 = FD_FILE)"
  proof cases
    case 3
    then show ?thesis
      using quiet_trans [OF km_alloc_quiet km_free_if_quiet] by (auto simp: fd_wf_def)
  qed (auto dest: km_alloc_quiet)
  then show "quiet k k1" "fd_wf e \<Longrightarrow> fd_type e = FD_FILE \<Longrightarrow> fd_wf e1 \<and> fd_type e1 = FD_FILE" by auto
qed

lemma write_wf:
  assumes "fd_wf e" "fd_type e = FD_FILE" "\<not> length (fd_buf e) < fd_pos e + unat count" "length bs = unat count"
  shows "fd_wf (e\<lparr>fd_buf := take (fd_pos e) (fd_buf e) @ bs @ drop (fd_pos e + unat count) (fd_buf e),
    fd_pos := unat (of_nat (fd_pos e) + count)\<rparr>)"
proof -
  have "unat (of_nat (fd_pos e) + count) \<le> fd_pos e + unat count"
    by (simp add: unat_word_ariths unat_of_nat) (metis mod_add_left_eq mod_less_eq_dividend)
  with assms show ?thesis by (auto simp: fd_wf_def)
qed

lemma write_file_steps:
  assumes "i < length (km_fdt k tbl)" "fd_type (km_fdt k tbl ! i) = FD_FILE"
  shows "steps tbl k (write_file_fd env tbl i buf count k)"
proof -
  have "steps tbl k (if \<not> ok then Some (-1, k1) else if length (fd_buf e1) < fd_pos e1 + unat count then None
      else let bs = bytes_in (k_mem k1) buf (unat count)
        in Some (count, put_ent tbl i (e1\<lparr>fd_buf := take (fd_pos e1) (fd_buf e1) @ bs @ drop (fd_pos e1 + unat count) (fd_buf e1),
             fd_pos := unat (of_nat (fd_pos e1) + count)\<rparr>) k1))"
    if "grow_buf env n (km_fdt k tbl ! i) k = Some (ok, e1, k1)" for n ok e1 k1
  proof -
    note g = grow_buf_wf [OF that]
    have "fd_wf e1 \<and> fd_type e1 = FD_FILE" if "list_all fd_wf (km_fdt k tbl)"
      using g(2) entry_wf [OF that assms(1)] assms(2) by blast
    then show ?thesis unfolding Let_def using g(1) by (auto simp: steps_None intro: steps_quiet intro!: steps_put write_wf)
  qed
  then show ?thesis unfolding write_file_fd_def Let_def by (auto intro!: steps_bind)
qed

lemma sys_write_steps:
  assumes "length (km_fdt k tbl) = nat cnt"
  shows "steps tbl k (sys_write env tbl cnt a buf count k)"
proof (cases "fdtable_get tbl cnt (int_arg a)")
  case None
  then show ?thesis by (simp add: sys_write_def steps_quiet)
next
  case (Some i)
  then have i: "i < length (km_fdt k tbl)" using fdtable_get_less [OF Some] assms by simp
  show ?thesis
    unfolding sys_write_def Some option.case Let_def using write_file_steps [OF i]
    by (cases "fd_type (km_fdt k tbl ! i)") (auto simp: steps_None intro!: steps_quiet steps_bind split: prod.split)
qed

lemma sys_read_steps:
  assumes "length (km_fdt k tbl) = nat cnt"
  shows "steps tbl k (sys_read tbl cnt a buf count k)"
proof (cases "fdtable_get tbl cnt (int_arg a)")
  case None
  then show ?thesis by (simp add: sys_read_def steps_quiet)
next
  case (Some i)
  let ?e = "km_fdt k tbl ! i"
  have i: "i < length (km_fdt k tbl)" using fdtable_get_less [OF Some] assms by simp
  have "steps tbl k (read_file_fd tbl i buf count k)" if "fd_type ?e = FD_FILE"
  proof -
    have "fd_wf (?e\<lparr>fd_pos := fd_pos ?e + min (if fd_pos ?e < fd_len ?e then fd_len ?e - fd_pos ?e else 0) (unat count)\<rparr>)"
      if "list_all fd_wf (km_fdt k tbl)"
      using entry_wf [OF that i] \<open>fd_type ?e = FD_FILE\<close> by (auto simp: fd_wf_def)
    then show ?thesis
      unfolding read_file_fd_def Let_def by (auto simp: steps_None intro!: steps_put)
  qed
  then show ?thesis
    unfolding sys_read_def Some option.case Let_def
    by (cases "fd_type ?e") (auto simp: steps_None intro!: steps_quiet split: prod.split)
qed

lemma sys_lseek_steps:
  assumes "length (km_fdt k tbl) = nat cnt"
  shows "steps tbl k (sys_lseek tbl cnt a offset c k)"
proof (cases "fdtable_get tbl cnt (int_arg a)")
  case None
  then show ?thesis by (simp add: sys_lseek_def steps_quiet)
next
  case (Some i)
  have i: "i < length (km_fdt k tbl)" using fdtable_get_less [OF Some] assms by simp
  have "fd_wf ((km_fdt k tbl ! i)\<lparr>fd_pos := min n (fd_len (km_fdt k tbl ! i))\<rparr>)" "fd_wf ((km_fdt k tbl ! i)\<lparr>fd_pos := 0\<rparr>)"
    if "list_all fd_wf (km_fdt k tbl)" "fd_type (km_fdt k tbl ! i) = FD_FILE" for n
    using entry_wf [OF that(1) i] that(2) by (simp_all add: fd_wf_def)
  then show ?thesis
    unfolding sys_lseek_def Some option.case Let_def
    by (cases "fd_type (km_fdt k tbl ! i) = FD_FILE") (auto intro: steps_quiet intro!: steps_put)
qed

lemma fs_step_quiet: "map_option snd (with_fs f k) = Some k' \<Longrightarrow> quiet k k'"
  by (auto dest: with_fs_quiet)

lemma close_wf: "fd_wf (close_entry e)" "fd_type (close_entry e) = FD_NONE"
  by (simp_all add: fd_wf_def close_entry_def)

lemma sys_close_steps: "steps tbl k (sys_close E tbl cnt a k)"
proof (cases "fdtable_get tbl cnt (int_arg a)")
  case None
  then show ?thesis by (simp add: sys_close_def steps_quiet)
next
  case (Some i)
  have "quiet k k1" if "(if c then map_option snd (with_fs f k) else Some k) = Some k1" for c f k1
    using that by (auto split: if_splits dest: with_fs_quiet)
  then have q: "quiet k k3" if "(if c then map_option snd (with_fs f k) else Some k) = Some k1" "km_free_if p k1 = Some k2" "km_free_if q k2 = Some k3"
    for c f k1 k2 k3 p q
    using that by (meson km_free_if_quiet quiet_trans)
  show ?thesis
    unfolding sys_close_def Some option.case Let_def
    by (intro steps_bind steps_put close_wf) (rule q)
qed

text \<open>An entry of a file before its position is set.\<close>

definition file_entry_wf :: "fdentry \<Rightarrow> bool" where
  "file_entry_wf e \<longleftrightarrow> fd_type e = FD_FILE \<and> fd_len e = length (fd_buf e) \<and> (fd_buf_ptr e = 0 \<longrightarrow> fd_buf e = [])"

lemma no_buf_wf: "fd_type e = FD_FILE \<Longrightarrow> file_entry_wf (no_buf e)"
  by (simp add: no_buf_def file_entry_wf_def)

lemma open_data_wf:
  assumes "open_data d e k = Some (e1, k1)" "fd_type e = FD_FILE" "\<And>p bs. d = Some (p, bs) \<Longrightarrow> p \<noteq> 0"
  shows "file_entry_wf e1" "quiet k k1"
  using assms no_buf_wf [OF assms(2)] unfolding open_data_def
  by (cases d; auto simp: file_entry_wf_def bind_eq_Some_conv split: if_splits dest: km_free_quiet)+

lemma open_trunc_wf:
  assumes "open_trunc flags e k = Some (e1, k1)" "file_entry_wf e"
  shows "file_entry_wf e1" "quiet k k1"
  using assms no_buf_wf [of e] unfolding open_trunc_def
  by (auto simp: file_entry_wf_def bind_eq_Some_conv split: if_splits dest: km_free_quiet)

lemma open_entry_step:
  assumes d: "\<And>p bs. d = Some (p, bs) \<Longrightarrow> p \<noteq> 0" and r: "open_entry env tbl i path flags d k = Some k'"
  shows "fd_step tbl k k'"
proof -
  obtain pp k1 e1 k2 e2 k3 where s: "km_alloc env (length path + 1) k = Some (pp, k1)"
    "open_data d ((km_fdt k1 tbl ! i)\<lparr>fd_type := FD_FILE, fd_path_ptr := pp, fd_path := (if pp \<noteq> 0 then path else [])\<rparr>) k1 = Some (e1, k2)"
    "open_trunc flags e1 k2 = Some (e2, k3)"
    and k': "k' = put_ent tbl i (e2\<lparr>fd_pos := (if flags AND O_APPEND \<noteq> 0 then fd_len e2 else 0), fd_flags := flags\<rparr>) k3"
    using r unfolding open_entry_def by (auto simp: bind_eq_Some_conv)
  have w: "file_entry_wf e1" "quiet k1 k2" by (rule open_data_wf [OF s(2) _ d]; simp)+
  then have "file_entry_wf e2" "quiet k k3"
    using open_trunc_wf [OF s(3) w(1)] km_alloc_quiet [OF s(1)] by (auto intro: quiet_trans)
  then show ?thesis
    using steps_put [of k k3 tbl "e2\<lparr>fd_pos := (if flags AND O_APPEND \<noteq> 0 then fd_len e2 else 0), fd_flags := flags\<rparr>" "()" i]
    by (auto simp: k' steps_def fd_wf_def file_entry_wf_def)
qed

lemma open_tail_steps:
  fixes fd :: int
  assumes q: "quiet k k2" and d: "\<And>p bs. d = Some (p, bs) \<Longrightarrow> p \<noteq> 0"
  shows "steps tbl k (if fd < 0 then do { k3 \<leftarrow> (case d of Some (p, _) \<Rightarrow> km_free p k2 | None \<Rightarrow> Some k2); Some (-1, k3) }
      else do { k3 \<leftarrow> open_entry env tbl i path flags d k2; Some (v, k3) })"
proof (cases "fd < 0")
  case True
  have "quiet k k3" if "(case d of Some (p, _) \<Rightarrow> km_free p k2 | None \<Rightarrow> Some k2) = Some k3" for k3
    using that q by (cases d) (auto dest: km_free_quiet intro: quiet_trans)
  then show ?thesis by (simp add: True) (intro steps_bind steps_quiet)
next
  case False
  have "fd_step tbl k k3" if "open_entry env tbl i path flags d k2 = Some k3" for k3
    using open_entry_step [OF d that] by (rule quiet_then [OF q])
  then show ?thesis by (simp add: False) (intro steps_bind, simp add: steps_def)
qed

lemma sys_open_steps: "steps tbl k (sys_open E (fat_other E' mods) tbl cnt a b k)"
  unfolding sys_open_def
proof (rule steps_bind)
  fix pa assume "path_arg a k = Some pa"
  show "steps tbl k (case pa of None \<Rightarrow> Some (-1, k) | Some path \<Rightarrow> do {
      let flags = ucast b;
      (d, k1) \<leftarrow> with_fs (vfs_get_file_alloc E (fat_other E' mods) (Some path)) k;
      k2 \<leftarrow> (if d = None \<and> flags AND O_CREAT \<noteq> 0
             then map_option snd (with_fs (on_fs (ramfs_create_file E (Some path))) k1) else Some k1);
      let fd = fdtable_alloc_fd tbl cnt k2;
      if fd < 0 then do { k3 \<leftarrow> (case d of Some (p, _) \<Rightarrow> km_free p k2 | None \<Rightarrow> Some k2); Some (-1, k3) }
      else do { k3 \<leftarrow> open_entry (hw_boot E) tbl (nat fd) path flags d k2; Some (of_int fd, k3) } })"
  proof (cases pa)
    case None
    then show ?thesis by (simp add: steps_quiet)
  next
    case (Some path)
    have q: "quiet k k2"
      if "with_fs (vfs_get_file_alloc E (fat_other E' mods) (Some path)) k = Some (d, k1)"
        "(if d = None \<and> c then map_option snd (with_fs g k1) else Some k1) = Some k2" for d k1 k2 c g
      using that by (auto split: if_splits dest!: with_fs_quiet intro: quiet_trans)
    have nn: "p \<noteq> 0" if "with_fs (vfs_get_file_alloc E (fat_other E' mods) (Some path)) k = Some (d, k1)" "d = Some (p, bs)" for p bs d k1
      using nonnull_with_fs [OF nonnull_vfs that(1) [unfolded that(2)]] .
    show ?thesis
      unfolding Some option.case Let_def
    proof (rule steps_bind, goal_cases)
      case (1 x)
      show ?case
      proof (cases x)
        case (Pair d k1)
        note w = 1 [unfolded Pair]
        show ?thesis unfolding Pair prod.case
          by (rule steps_bind, rule open_tail_steps) (erule q [OF w], erule nn [OF w])
      qed
    qed
  qed
qed

lemma dup_entry_wf:
  assumes "fd_wf s" "fd_wf n" "fd_type n = FD_NONE" and r: "dup_entry env s n k = Some (n', k')"
  shows "fd_wf n'" "quiet k k'"
proof -
  let ?p = "if fd_path_ptr s \<noteq> 0 then do {
       (pp, k1) \<leftarrow> km_alloc env (length (fd_path s) + 1) k;
       if pp = 0 then None else Some (n\<lparr>fd_path_ptr := pp, fd_path := fd_path s\<rparr>, k1) } else Some (n, k)"
  obtain n1 k1 where p: "?p = Some (n1, k1)" using r by (cases ?p) (auto simp: dup_entry_def)
  let ?b = "if fd_buf_ptr s \<noteq> 0 \<and> 0 < fd_len s then do {
       (bp, k2) \<leftarrow> km_alloc env (fd_len s) k1;
       if bp = 0 then None
       else Some (n1\<lparr>fd_buf_ptr := bp, fd_buf := take (fd_len s) (fd_buf s), fd_len := fd_len s\<rparr>, k2) } else Some (n1, k1)"
  obtain n2 k2 where b: "?b = Some (n2, k2)" using r by (cases ?b) (auto simp: dup_entry_def p)
  have n': "n' = n2\<lparr>fd_pos := fd_pos s, fd_flags := fd_flags s, fd_type := fd_type s\<rparr>" "k' = k2"
    using r by (auto simp: dup_entry_def p b)
  have "quiet k k1" "fd_len n1 = 0" "fd_buf n1 = []" "fd_buf_ptr n1 = 0" "fd_path_ptr s = 0 \<longrightarrow> fd_path_ptr n1 = 0"
    using p assms(2,3) by (auto simp: fd_wf_def bind_eq_Some_conv split: if_splits dest: km_alloc_quiet)
  moreover have "quiet k1 k2" using b by (auto simp: bind_eq_Some_conv split: if_splits dest: km_alloc_quiet)
  ultimately show "fd_wf n'" "quiet k k'"
    using b assms(1) unfolding n'
    by (auto simp: fd_wf_def bind_eq_Some_conv split: if_splits intro: quiet_trans)
qed

lemma sys_dup2_steps:
  assumes len: "length (km_fdt k tbl) = nat cnt"
  shows "steps tbl k (sys_dup2 env tbl cnt a b k)"
proof (cases "int_arg a = int_arg b \<or> fdtable_get tbl cnt (int_arg a) = None \<or> fdtable_get tbl cnt (int_arg b) = None")
  case True
  then show ?thesis
    by (auto simp: sys_dup2_def steps_None Let_def intro!: steps_quiet split: option.split)
next
  case False
  then obtain i j where ij: "fdtable_get tbl cnt (int_arg a) = Some i" "fdtable_get tbl cnt (int_arg b) = Some j" by auto
  let ?s = "km_fdt k tbl ! i" and ?n = "km_fdt k tbl ! j"
  let ?free = "if fd_type ?n \<noteq> FD_NONE
     then do { k0 \<leftarrow> km_free_if (fd_path_ptr ?n) k; km_free_if (fd_buf_ptr ?n) k0 } else Some k"
  have q: "quiet k k1" if "?free = Some k1" for k1
    using that by (auto simp: bind_eq_Some_conv split: if_splits dest!: km_free_if_quiet intro: quiet_trans)
  have "fd_wf ?s" "fd_wf (if fd_type ?n \<noteq> FD_NONE then close_entry ?n else ?n)" if "list_all fd_wf (km_fdt k tbl)"
    using entry_wf [OF that] fdtable_get_less [OF ij(1)] fdtable_get_less [OF ij(2)] len by (simp_all add: close_wf)
  then have w: "fd_wf n'" if "dup_entry env ?s (if fd_type ?n \<noteq> FD_NONE then close_entry ?n else ?n) k1 = Some (n', k2)"
      "list_all fd_wf (km_fdt k tbl)" for k1 n' k2
    using dup_entry_wf(1) [OF _ _ _ that(1)] that(2) by (auto simp: close_wf)
  have d: "quiet k1 k2" if "dup_entry env s n k1 = Some (n', k2)" for s n k1 n' k2
    using that by (auto simp: dup_entry_def bind_eq_Some_conv split: if_splits dest!: km_alloc_quiet intro: quiet_trans)
  have "steps tbl k (do { k1 \<leftarrow> ?free;
      (n', k2) \<leftarrow> dup_entry env ?s (if fd_type ?n \<noteq> FD_NONE then close_entry ?n else ?n) k1;
      Some (v, put_ent tbl j n' k2) })" for v :: u64
    by (intro steps_bind) (auto simp del: bind_eq_Some_conv intro!: steps_put dest: q d w intro: quiet_trans)
  then show ?thesis using False unfolding sys_dup2_def ij option.case Let_def by (auto intro: steps_quiet)
qed

lemma sys_pipe_steps:
  assumes len: "length (km_fdt k tbl) = nat cnt" and tbl: "tbl \<noteq> 0"
  shows "steps tbl k (sys_pipe env tbl cnt a k)"
proof (cases "a = 0 \<or> fdtable_alloc_fd tbl cnt k < 0")
  case True
  then show ?thesis by (auto simp: sys_pipe_def Let_def intro: steps_quiet)
next
  case False
  let ?i = "nat (fdtable_alloc_fd tbl cnt k)"
  have i: "?i < length (km_fdt k tbl)" "fd_type (km_fdt k tbl ! ?i) = FD_NONE"
    using alloc_fd_less [OF tbl] False len by auto
  have wf: "fd_wf ((km_fdt k tbl ! ?i)\<lparr>fd_type := t, fd_pipe := p\<rparr>)" if "list_all fd_wf (km_fdt k tbl)" "t \<noteq> FD_FILE" for t p
    using entry_wf [OF that(1) i(1)] i(2) that(2) by (simp add: fd_wf_def)
  have f: "fd_step tbl k ((put_ent tbl ?i ((km_fdt (put_ent tbl ?i ((km_fdt k3 tbl ! ?i)\<lparr>fd_type := FD_PIPE_READ, fd_pipe := p\<rparr>) k3) tbl ! ?i)
        \<lparr>fd_type := FD_PIPE_WRITE, fd_pipe := p\<rparr>)
      (put_ent tbl ?i ((km_fdt k3 tbl ! ?i)\<lparr>fd_type := FD_PIPE_READ, fd_pipe := p\<rparr>) k3))\<lparr>k_mem := m\<rparr>)"
    if "quiet k k3" for k3 p m
    using that wf [of FD_PIPE_WRITE p] i(1)
    by (auto simp: fd_step_def quiet_def put_ent_def fdt_put_def list_all_iff dest: subsetD [OF set_update_subset_insert])
  have al: "steps tbl k (do {
      (p, k1) \<leftarrow> km_alloc env n k;
      if p = 0 then None
      else do { (bp, k2) \<leftarrow> km_alloc env n' k1; Some (v, g p bp k2) } })"
    if "\<And>p bp k2. quiet k k2 \<Longrightarrow> fd_step tbl k (g p bp k2)" for n n' g and v :: u64
    by (auto simp: steps_None steps_def [of _ _ "Some _"] intro!: steps_bind that dest!: km_alloc_quiet) (rule quiet_trans)
  have c: "a \<noteq> 0" "\<not> (fdtable_alloc_fd tbl cnt k < 0 \<or> fdtable_alloc_fd tbl cnt k < 0)" using False by simp_all
  show ?thesis
    unfolding sys_pipe_def Let_def if_not_P [OF c(1)] if_not_P [OF c(2)] by (rule al, rule f) simp
qed

lemma sys_stat_steps: "steps tbl k (sys_stat E a b k)" "steps tbl k (sys_fstat E tbl cnt a b k)"
  unfolding sys_stat_def sys_fstat_def Let_def
  by (auto intro!: steps_bind steps_quiet split: option.split dest!: with_fs_quiet)

lemma sys_path_op_steps: "steps tbl k (sys_path_op f a k)"
  unfolding sys_path_op_def by (auto intro!: steps_bind steps_quiet split: option.split dest!: with_fs_quiet)

section \<open>The dispatcher\<close>

text \<open>The numbers of the calls that switch to another task: \<open>execve\<close>, \<open>exit\<close> and the two of \<open>waitpid\<close>.\<close>

definition switching :: "u64 \<Rightarrow> bool" where
  "switching num \<longleftrightarrow> num \<in> {59, 60, 61, 20}"

lemma dispatch_step:
  assumes t: "fds_typed k" and n: "\<not> switching num"
    and r: "syscall_dispatch E (fat_other E' mods) se others num a b c k = Some (v, k')"
  shows "fds_typed k'"
proof -
  let ?t = "sc_tasks k (current_task k)"
  let ?tbl = "t_fds ?t" and ?cnt = "t_fd_count ?t"
  show ?thesis
  proof (cases "current_task k = 0 \<or> ?tbl = 0")
    case True
    with r t show ?thesis by (auto simp: syscall_dispatch_def Let_def)
  next
    case False
    then have len: "length (km_fdt k ?tbl) = nat ?cnt" using t by (simp add: fds_typed_def Let_def)
    have "steps ?tbl k (syscall_dispatch E (fat_other E' mods) se others num a b c k)"
      using n False unfolding syscall_dispatch_def Let_def switching_def
      by (simp add: sys_write_steps [OF len] sys_read_steps [OF len] sys_open_steps sys_close_steps sys_lseek_steps [OF len]
          sys_dup2_steps [OF len] sys_pipe_steps [OF len] sys_stat_steps sys_path_op_steps steps_quiet)
    with r have "fd_step ?tbl k k'" by (simp add: steps_def)
    with t len False show ?thesis by (auto simp: fds_typed_def fd_step_def Let_def)
  qed
qed

text \<open>Calls one after the other, each with its number and three arguments.\<close>

primrec sys_calls :: "'d hw \<Rightarrow> 'd other_fs \<Rightarrow> sched_env \<Rightarrow> ('d kernel \<Rightarrow> 'd kernel) \<Rightarrow> (u64 \<times> u64 \<times> u64 \<times> u64) list \<Rightarrow>
    'd kernel \<Rightarrow> (u64 list \<times> 'd kernel) option" where
  "sys_calls E X se others [] k = Some ([], k)"
| "sys_calls E X se others (q # qs) k =
     (case q of (num, a, b, c) \<Rightarrow> do {
        (v, k1) \<leftarrow> syscall_dispatch E X se others num a b c k;
        (vs, k2) \<leftarrow> sys_calls E X se others qs k1;
        Some (v # vs, k2)
      })"

section \<open>Properties\<close>

text \<open>C11. The table of descriptors stays well-typed: whatever sequence of system calls a task makes,
  with whatever numbers and arguments, other than those that switch to another task, and
  whether or not memory runs out on the way, after the calls the table still has as many
  entries as the task says, every open file has a buffer of its length with the position
  inside, and every other entry has no path, no buffer and position 0.\<close>

theorem fds_stay_typed:
  assumes "fds_typed k" "\<forall>q\<in>set qs. \<not> switching (fst q)"
    "sys_calls E (fat_other E' mods) se others qs k = Some (vs, k')"
  shows "fds_typed k'"
  using assms
proof (induction qs arbitrary: k vs)
  case (Cons q qs)
  obtain num a b c where q: "q = (num, a, b, c)" by (cases q)
  obtain v k1 vs1 where s: "syscall_dispatch E (fat_other E' mods) se others num a b c k = Some (v, k1)"
    "sys_calls E (fat_other E' mods) se others qs k1 = Some (vs1, k')"
    using Cons.prems(3) by (auto simp: q bind_eq_Some_conv)
  have "fds_typed k1" using dispatch_step [OF Cons.prems(1) _ s(1)] Cons.prems(2) by (simp add: q)
  then show ?case by (rule Cons.IH) (use Cons.prems(2) s(2) in simp_all)
qed simp

definition demo_table :: "fdentry list" where
  "demo_table = stdio_fds[3 := fd_none\<lparr>fd_type := FD_FILE, fd_buf_ptr := 64, fd_buf := [1, 2, 3], fd_len := 3\<rparr>]"

definition demo_task :: "ata ide fat kernel" where
  "demo_task = \<lparr>km_heap = heap_boot, km_fdt = \<lambda>_. demo_table, sc_tasks = \<lambda>_. task_zero\<lparr>t_fds := 1, t_fd_count := 64\<rparr>,
     sc_words = \<lambda>_. 0, task_list = 1, current_task = 1, next_pid = 2,
     k_vfs = \<lparr>vf_fs = demo_fat_fs, mounts = replicate 16 no_mount, mount_count = 0\<rparr>, k_tty = tty_boot,
     k_pipes = \<lambda>_. \<lparr>pi_buf_ptr = 0, pi_buf = [], pi_cap = 0, pi_rpos = 0, pi_wpos = 0, pi_refs = 0\<rparr>,
     k_mem = \<lambda>_. 0, k_stats = \<lambda>_. \<lparr>st_size = 0, st_nlink = 0, st_mode = 0\<rparr>\<rparr>"

theorem fds_stay_typed_witness:
  "\<exists>k'. sys_calls (fat_hw (ide_hw demo_env)) (fat_other (ide_hw demo_env) None) demo_se id [(8, 3, 2, 0), (0, 3, 0x1000, 5), (33, 0, 5, 0)] demo_task =
     Some ([2, 1, 5], k') \<and> fds_typed k'"
proof -
  let ?qs = "[(8, 3, 2, 0), (0, 3, 0x1000, 5), (33, 0, 5, 0)] :: (u64 \<times> u64 \<times> u64 \<times> u64) list"
  let ?run = "sys_calls (fat_hw (ide_hw demo_env)) (fat_other (ide_hw demo_env) None) demo_se id ?qs demo_task"
  have i: "int_arg 3 = 3" "int_arg 0 = 0" "int_arg 5 = 5" by (simp_all add: int_arg_def)
  have l: "length demo_table = 64" by (simp add: demo_table_def)
  have e: "demo_table ! 0 = fd_none\<lparr>fd_type := FD_TTY\<rparr>" "demo_table ! 5 = fd_none"
    "demo_table ! 3 = fd_none\<lparr>fd_type := FD_FILE, fd_buf_ptr := 64, fd_buf := [1, 2, 3], fd_len := 3\<rparr>"
    by (simp_all add: demo_table_def stdio_fds_def fd_stdio_def nth_append fd_none_def)
  have "list_all fd_wf demo_table" by code_simp
  then have t: "fds_typed demo_task" by (simp add: fds_typed_def demo_task_def l task_zero_def)
  have "\<exists>k'. ?run = Some ([2, 1, 5], k')"
    by (simp add: syscall_dispatch_def sys_lseek_def sys_read_def read_file_fd_def sys_dup2_def dup_entry_def demo_task_def task_zero_def fdtable_get_def i
        put_ent_def fdt_put_def nth_list_update l e fd_none_def Let_def)
  then obtain k' where k': "?run = Some ([2, 1, 5], k')" by blast
  have "fds_typed k'" by (rule fds_stay_typed [OF t _ k']) (simp add: switching_def)
  with k' show ?thesis by blast
qed

end
