(* ===== verification/Ext3.thy ===== *)
theory Ext3
  imports Kheap
begin

text \<open>
  The reader for ext3 images of \<^verbatim>\<open>kernel/filesystem/ext3.cpp\<close>. The image is the list of
  its bytes; a pointer into it is an offset, and an access outside the image is \<open>None\<close>. The
  two loops over a directory (the search for a name and the listing) are one walk, \<open>dir_walk\<close>,
  whose argument is what the code does with an entry: it goes on with a new value (\<open>Inl\<close>) or
  returns from the function (\<open>Inr\<close>). The walk is total: a record length of zero ends it.
\<close>

record ext3_superblock =
  s_inodes_count :: u32
  s_blocks_count :: u32
  s_r_blocks_count :: u32
  s_free_blocks_count :: u32
  s_free_inodes_count :: u32
  s_first_data_block :: u32
  s_log_block_size :: u32
  s_log_frag_size :: u32
  s_blocks_per_group :: u32
  s_frags_per_group :: u32
  s_inodes_per_group :: u32
  s_mtime :: u32
  s_wtime :: u32
  s_mnt_count :: u16
  s_max_mnt_count :: u16
  s_magic :: u16

record ext3_inode =
  i_mode :: u16
  i_uid :: u16
  i_size :: u32
  i_atime :: u32
  i_ctime :: u32
  i_mtime :: u32
  i_dtime :: u32
  i_gid :: u16
  i_links_count :: u16
  i_blocks :: u32
  i_flags :: u32
  i_block :: "u32 list"

record ext3 =
  ext3_image :: "byte list option"
  ext3_image_size :: nat
  superblock :: ext3_superblock
  block_size :: u32

section \<open>The image\<close>

definition img_bytes :: "ext3 \<Rightarrow> nat \<Rightarrow> nat \<Rightarrow> byte list option" where
  "img_bytes s pos n =
     (case ext3_image s of
        None \<Rightarrow> None
      | Some d \<Rightarrow> if pos + n \<le> length d then Some (take n (drop pos d)) else None)"

definition get16 :: "byte list \<Rightarrow> nat \<Rightarrow> u16" where
  "get16 b i = le16 (b ! i) (b ! (i + 1))"

definition get32 :: "byte list \<Rightarrow> nat \<Rightarrow> u32" where
  "get32 b i = le32 (b ! i) (b ! (i + 1)) (b ! (i + 2)) (b ! (i + 3))"

definition parse_superblock :: "byte list \<Rightarrow> ext3_superblock" where
  "parse_superblock b =
     \<lparr>s_inodes_count = get32 b 0, s_blocks_count = get32 b 4, s_r_blocks_count = get32 b 8,
      s_free_blocks_count = get32 b 12, s_free_inodes_count = get32 b 16, s_first_data_block = get32 b 20,
      s_log_block_size = get32 b 24, s_log_frag_size = get32 b 28, s_blocks_per_group = get32 b 32,
      s_frags_per_group = get32 b 36, s_inodes_per_group = get32 b 40, s_mtime = get32 b 44,
      s_wtime = get32 b 48, s_mnt_count = get16 b 52, s_max_mnt_count = get16 b 54, s_magic = get16 b 56\<rparr>"

text \<open>\<open>1024 << s_log_block_size\<close>; a shift by 32 or more is undefined.\<close>

definition shifted_size :: "ext3_superblock \<Rightarrow> u32 option" where
  "shifted_size sb =
     (if s_log_block_size sb < 32 then Some (push_bit (unat (s_log_block_size sb)) 1024) else None)"

definition load_superblock :: "ext3 \<Rightarrow> ext3 option" where
  "load_superblock s = do { b \<leftarrow> img_bytes s 1024 60; Some (s\<lparr>superblock := parse_superblock b\<rparr>) }"

definition set_image :: "byte list option \<Rightarrow> nat \<Rightarrow> ext3 \<Rightarrow> ext3 option" where
  "set_image img sz s =
     (let s1 = s\<lparr>ext3_image := img, ext3_image_size := sz\<rparr>
      in if sz < 2048 then Some s1
         else do {
           s2 \<leftarrow> load_superblock s1;
           if s_magic (superblock s2) = 0xEF53
           then do { n \<leftarrow> shifted_size (superblock s2); Some (s2\<lparr>block_size := n\<rparr>) }
           else Some (s2\<lparr>block_size := 1024\<rparr>)
         })"

definition ext3_block_size :: "ext3 \<Rightarrow> u32" where
  "ext3_block_size s = block_size s"

text \<open>The product of the block number and the block size has 32 bits.\<close>

definition ext3_read_block :: "u32 \<Rightarrow> ext3 \<Rightarrow> nat option" where
  "ext3_read_block n s =
     (if ext3_image s = None \<or> n = 0 then None
      else let pos = unat (n * block_size s)
           in if ext3_image_size s < pos + unat (block_size s) then None else Some pos)"

definition ext3_init :: "ext3 \<Rightarrow> (int \<times> ext3) option" where
  "ext3_init s =
     (if ext3_image s = None \<or> ext3_image_size s < 2048 then Some (-1, s)
      else do {
        s1 \<leftarrow> load_superblock s;
        if s_magic (superblock s1) \<noteq> 0xEF53 then Some (-1, s1)
        else do { n \<leftarrow> shifted_size (superblock s1); Some (0, s1\<lparr>block_size := n\<rparr>) }
      })"

definition ext3_mount :: "int \<Rightarrow> string option \<Rightarrow> ext3 \<Rightarrow> (int \<times> ext3) option" where
  "ext3_mount drive mount_point s = do {
     (r, s1) \<leftarrow> ext3_init s;
     Some (if r = 0 then 0 else -1, s1)
   }"

section \<open>Inodes\<close>

definition parse_inode :: "byte list \<Rightarrow> ext3_inode" where
  "parse_inode b =
     \<lparr>i_mode = get16 b 0, i_uid = get16 b 2, i_size = get32 b 4, i_atime = get32 b 8, i_ctime = get32 b 12,
      i_mtime = get32 b 16, i_dtime = get32 b 20, i_gid = get16 b 24, i_links_count = get16 b 26,
      i_blocks = get32 b 28, i_flags = get32 b 32, i_block = map (\<lambda>k. get32 b (36 + 4 * k)) [0..<15]\<rparr>"

text \<open>\<open>Some None\<close> is the result \<open>-1\<close>. The size of an inode is the size of the structure, 96
  bytes. The field \<open>bg_inode_table\<close> is at offset 8 of the group descriptor.\<close>

definition read_inode :: "u32 \<Rightarrow> ext3 \<Rightarrow> ext3_inode option option" where
  "read_inode idx s =
     (if ext3_image s = None then Some None
      else case ext3_read_block (if block_size s = 1024 then 2 else 1) s of
        None \<Rightarrow> Some None
      | Some gd \<Rightarrow> do {
          t \<leftarrow> img_bytes s (gd + 8) 4;
          let per_block = block_size s div 96;
          if per_block = 0 then None
          else case ext3_read_block (get32 t 0 + (idx - 1) div per_block) s of
            None \<Rightarrow> Some None
          | Some blk \<Rightarrow> do {
              b \<leftarrow> img_bytes s (blk + unat ((idx - 1) mod per_block * 96)) 96;
              Some (Some (parse_inode b))
            }
        })"

section \<open>Directories\<close>

function dir_walk ::
  "ext3 \<Rightarrow> (u32 \<Rightarrow> string \<Rightarrow> 'a \<Rightarrow> ('a + 'r) option) \<Rightarrow> nat \<Rightarrow> nat \<Rightarrow> 'a \<Rightarrow> ('a + 'r) option" where
  "dir_walk s f base off a =
     (if unat (block_size s) \<le> off then Some (Inl a)
      else do {
        hd \<leftarrow> img_bytes s (base + off) 6;
        nl \<leftarrow> (if get32 hd 0 \<noteq> 0 then map_option (\<lambda>b. b ! 0) (img_bytes s (base + off + 6) 1) else Some 0);
        r \<leftarrow> (if 0 < nl \<and> nl < 255
             then do { nm \<leftarrow> img_bytes s (base + off + 8) (unat nl); f (get32 hd 0) (c_text nm) a }
             else Some (Inl a));
        case r of
          Inr x \<Rightarrow> Some (Inr x)
        | Inl a' \<Rightarrow> if get16 hd 4 = 0 then Some (Inl a') else dir_walk s f base (off + unat (get16 hd 4)) a'
      })"
  by pat_completeness auto
termination
  by (relation "measure (\<lambda>(s, f, base, off, a). unat (block_size s) - off)")
    (auto intro!: diff_less_mono2 simp: unat_gt_0)

primrec blocks_walk ::
  "ext3 \<Rightarrow> (u32 \<Rightarrow> string \<Rightarrow> 'a \<Rightarrow> ('a + 'r) option) \<Rightarrow> u32 list \<Rightarrow> 'a \<Rightarrow> ('a + 'r) option" where
  "blocks_walk s f [] a = Some (Inl a)"
| "blocks_walk s f (b # bs) a =
     (if b = 0 then blocks_walk s f bs a
      else case ext3_read_block b s of
        None \<Rightarrow> blocks_walk s f bs a
      | Some base \<Rightarrow> do {
          r \<leftarrow> dir_walk s f base 0 a;
          case r of Inr x \<Rightarrow> Some (Inr x) | Inl a' \<Rightarrow> blocks_walk s f bs a'
        })"

definition direct_blocks :: "ext3_inode \<Rightarrow> u32 list" where
  "direct_blocks i = take 12 (i_block i)"

text \<open>What the search does with an entry of the directory \<open>/bin\<close>, and with one of the root.\<close>

definition bin_entry :: "ext3 \<Rightarrow> string \<Rightarrow> u32 \<Rightarrow> string \<Rightarrow> unit \<Rightarrow> (unit + ext3_inode option) option" where
  "bin_entry s fname ino name a =
     (if name = fname then map_option Inr (read_inode ino s) else Some (Inl a))"

definition root_entry :: "ext3 \<Rightarrow> string \<Rightarrow> u32 \<Rightarrow> string \<Rightarrow> unit \<Rightarrow> (unit + ext3_inode option) option" where
  "root_entry s fname ino name a =
     (if name = ''bin'' then do {
        b \<leftarrow> read_inode ino s;
        case b of
          None \<Rightarrow> Some (Inr None)
        | Some bin_inode \<Rightarrow> blocks_walk s (bin_entry s fname) (direct_blocks bin_inode) a
      }
      else Some (Inl a))"

definition find_inode_by_path :: "string option \<Rightarrow> ext3 \<Rightarrow> ext3_inode option option" where
  "find_inode_by_path path_arg s =
     (case path_arg of
        None \<Rightarrow> Some None
      | Some path \<Rightarrow>
          if path = ''/'' then read_inode 2 s
          else if take 5 path = ''/bin/'' then do {
            r \<leftarrow> read_inode 2 s;
            case r of
              None \<Rightarrow> Some None
            | Some root_inode \<Rightarrow> do {
                w \<leftarrow> blocks_walk s (root_entry s (drop 5 path)) (direct_blocks root_inode) ();
                Some (case w of Inl _ \<Rightarrow> None | Inr x \<Rightarrow> x)
              }
          }
          else Some None)"

section \<open>Files\<close>

text \<open>The copy loop: the bytes it puts into the buffer. A block that is not in the image ends
  it, a block number zero is passed over, and the buffer is not tested for null.\<close>

primrec copy_blocks :: "ext3 \<Rightarrow> u64 \<Rightarrow> nat \<Rightarrow> u32 list \<Rightarrow> nat \<Rightarrow> byte list option" where
  "copy_blocks s buf sz [] copied = Some []"
| "copy_blocks s buf sz (b # bs) copied =
     (if sz \<le> copied then Some []
      else if b = 0 then copy_blocks s buf sz bs copied
      else case ext3_read_block b s of
        None \<Rightarrow> Some []
      | Some base \<Rightarrow>
          let to_copy = (if sz < copied + unat (block_size s) then sz - copied else unat (block_size s))
          in do {
            d \<leftarrow> (if buf = 0 then None else img_bytes s base to_copy);
            ds \<leftarrow> copy_blocks s buf sz bs (copied + to_copy);
            Some (d @ ds)
          })"

text \<open>The result is the buffer, \<open>*out_len\<close>, and the bytes written at the start of the buffer.\<close>

definition ext3_get_file_alloc ::
  "boot_env \<Rightarrow> string option \<Rightarrow> ext3 \<Rightarrow> heap \<Rightarrow> (u64 \<times> nat \<times> byte list \<times> heap) option" where
  "ext3_get_file_alloc env path s h = do {
     r \<leftarrow> find_inode_by_path path s;
     case r of
       None \<Rightarrow> Some (0, 0, [], h)
     | Some inode \<Rightarrow>
         if i_size inode = 0 then Some (0, 0, [], h)
         else do {
           (buf, h1) \<leftarrow> kmalloc env (ucast (i_size inode)) h;
           d \<leftarrow> copy_blocks s buf (unat (i_size inode)) (direct_blocks inode) 0;
           Some (buf, unat (i_size inode), d, h1)
         }
   }"

definition list_name :: "u32 \<Rightarrow> string \<Rightarrow> string list \<Rightarrow> (string list + unit) option" where
  "list_name ino name names = Some (Inl (names @ [name]))"

definition ext3_list_dir :: "string option \<Rightarrow> ext3 \<Rightarrow> (int \<times> string list) option" where
  "ext3_list_dir path s = do {
     r \<leftarrow> find_inode_by_path path s;
     case r of
       None \<Rightarrow> Some (-1, [])
     | Some inode \<Rightarrow> do {
         w \<leftarrow> blocks_walk s list_name (direct_blocks inode) [];
         Some (0, case w of Inl names \<Rightarrow> names | Inr _ \<Rightarrow> [])
       }
   }"

section \<open>Well-formed directories and files\<close>

text \<open>An entry of a directory as it is stored: its number, the length of the record, the length
  of the name, the type, the name and the padding up to the next record.\<close>

record dent =
  de_inode :: u32
  de_type :: byte
  de_name :: string
  de_pad :: "byte list"

definition dent_len :: "dent \<Rightarrow> nat" where
  "dent_len e = 8 + length (de_name e) + length (de_pad e)"

definition enc_dent :: "dent \<Rightarrow> byte list" where
  "enc_dent e = bytes32 (de_inode e) @ bytes16 (of_nat (dent_len e)) @ [of_nat (length (de_name e)), de_type e] @
     map byte_of_char (de_name e) @ de_pad e"

text \<open>The length of a record has 16 bits. An entry with number zero is unused; the name of
  another one has between 1 and 254 characters.\<close>

definition dent_ok :: "dent \<Rightarrow> bool" where
  "dent_ok e \<longleftrightarrow> dent_len e < 2 ^ 16 \<and>
     (de_inode e = 0 \<or> 0 < length (de_name e) \<and> length (de_name e) < 255 \<and> cstring (de_name e))"

primrec first_hit :: "(u32 \<Rightarrow> string \<Rightarrow> 'a \<Rightarrow> ('a + 'r) option) \<Rightarrow> dent list \<Rightarrow> 'a \<Rightarrow> ('a + 'r) option" where
  "first_hit f [] a = Some (Inl a)"
| "first_hit f (e # es) a =
     (if de_inode e = 0 then first_hit f es a
      else do {
        r \<leftarrow> f (de_inode e) (de_name e) a;
        case r of Inr x \<Rightarrow> Some (Inr x) | Inl a' \<Rightarrow> first_hit f es a'
      })"

definition block_data :: "ext3 \<Rightarrow> u32 \<Rightarrow> byte list option" where
  "block_data s n = (if n = 0 then None else Option.bind (ext3_read_block n s) (\<lambda>base. img_bytes s base (unat (block_size s))))"

definition dir_block :: "ext3 \<Rightarrow> u32 \<Rightarrow> dent list \<Rightarrow> bool" where
  "dir_block s n es \<longleftrightarrow> (\<forall>e\<in>set es. dent_ok e) \<and> block_data s n = Some (concat (map enc_dent es))"

definition is_dir :: "ext3 \<Rightarrow> ext3_inode \<Rightarrow> dent list \<Rightarrow> bool" where
  "is_dir s i es \<longleftrightarrow> (\<exists>ns ess. direct_blocks i = ns @ replicate (12 - length ns) 0 \<and>
     list_all2 (dir_block s) ns ess \<and> es = concat ess)"

definition is_data :: "ext3 \<Rightarrow> ext3_inode \<Rightarrow> byte list \<Rightarrow> bool" where
  "is_data s i ds \<longleftrightarrow> (\<exists>ns xs. direct_blocks i = ns @ replicate (12 - length ns) 0 \<and>
     list_all2 (\<lambda>n x. block_data s n = Some x) ns xs \<and> unat (i_size i) \<le> length (concat xs) \<and>
     ds = take (unat (i_size i)) (concat xs))"

definition dent_named :: "string \<Rightarrow> dent list \<Rightarrow> dent option" where
  "dent_named n es = find (\<lambda>e. de_inode e \<noteq> 0 \<and> de_name e = n) es"

section \<open>The walks on well-formed directories\<close>

lemma length_enc_dent [simp]: "length (enc_dent e) = dent_len e"
  by (simp add: enc_dent_def dent_len_def)

declare dir_walk.simps [simp del]

lemma get32_bytes [simp]: "get32 (bytes32 w @ xs) 0 = w"
  by (simp add: get32_def bytes32_def)

lemma get16_bytes [simp]: "get16 (bytes32 w @ bytes16 v) 4 = v"
  by (simp add: get16_def bytes16_def bytes32_def)

lemma img_bytes_Some: "img_bytes s pos n = Some xs \<longleftrightarrow>
    (\<exists>d. ext3_image s = Some d \<and> pos + n \<le> length d \<and> xs = take n (drop pos d))"
  by (auto simp: img_bytes_def split: option.splits)

lemma img_bytes_length: "img_bytes s pos n = Some xs \<Longrightarrow> length xs = n"
  by (auto simp: img_bytes_Some)

lemma img_bytes_part:
  assumes "img_bytes s pos n = Some (xs @ ys @ zs)" "p = pos + length xs" "m = length ys"
  shows "img_bytes s p m = Some ys"
proof -
  obtain d where d: "ext3_image s = Some d" "pos + n \<le> length d" "xs @ ys @ zs = take n (drop pos d)"
    using assms(1) by (auto simp: img_bytes_Some)
  have n: "length xs + length ys + length zs = n"
    using img_bytes_length [OF assms(1)] by simp
  have "take m (drop (length xs) (take n (drop pos d))) = ys"
    using assms(3) by (simp add: d(3) [symmetric])
  then have "take m (drop p d) = ys"
    using n assms(2,3) by (auto simp: drop_take min_def add.commute split: if_splits)
  with d n assms(2,3) show ?thesis
    by (auto simp: img_bytes_Some)
qed

lemma dir_walk_enc:
  assumes "img_bytes s base (unat (block_size s)) = Some (pre @ concat (map enc_dent es))"
    and "\<forall>e\<in>set es. dent_ok e"
  shows "dir_walk s f base (length pre) a = first_hit f es a"
  using assms
proof (induction es arbitrary: pre a)
  case Nil
  then have "length pre = unat (block_size s)" using img_bytes_length by fastforce
  then show ?case by (subst dir_walk.simps) simp
next
  case (Cons e es)
  let ?d = "concat (map enc_dent es)"
  note img = Cons.prems(1)
  have ok: "dent_ok e" and e: "dent_len e < 65536" "8 \<le> dent_len e"
    using Cons.prems(2) by (auto simp: dent_ok_def dent_len_def)
  have "length (pre @ concat (map enc_dent (e # es))) = unat (block_size s)"
    by (rule img_bytes_length [OF img])
  then have off: "\<not> unat (block_size s) \<le> length pre" using e(2) by simp
  let ?r = "map byte_of_char (de_name e) @ de_pad e @ ?d"
  have hd: "img_bytes s (base + length pre) 6 = Some (bytes32 (de_inode e) @ bytes16 (of_nat (dent_len e)))"
    by (rule img_bytes_part [where pos = base and n = "unat (block_size s)" and xs = pre and zs = "of_nat (length (de_name e)) # de_type e # ?r"])
      (use img in \<open>simp_all add: enc_dent_def [of e]\<close>)
  have nl: "img_bytes s (base + length pre + 6) 1 = Some [of_nat (length (de_name e))]"
    by (rule img_bytes_part [where pos = base and n = "unat (block_size s)" and xs = "pre @ bytes32 (de_inode e) @ bytes16 (of_nat (dent_len e))" and zs = "de_type e # ?r"])
      (use img in \<open>simp_all add: enc_dent_def [of e]\<close>)
  have nm: "img_bytes s (base + length pre + 8) (length (de_name e)) = Some (map byte_of_char (de_name e))"
    by (rule img_bytes_part [where pos = base and n = "unat (block_size s)" and xs = "pre @ bytes32 (de_inode e) @ bytes16 (of_nat (dent_len e)) @
          [of_nat (length (de_name e)), de_type e]" and zs = "de_pad e @ ?d"])
      (use img in \<open>simp_all add: enc_dent_def [of e]\<close>)
  have rl0: "(of_nat (dent_len e) :: u16) \<noteq> 0" and url: "unat (of_nat (dent_len e) :: u16) = dent_len e"
    using e by (auto simp: unat_of_nat word_unat_eq_iff)
  have IH: "dir_walk s f base (length pre + dent_len e) a' = first_hit f es a'" for a'
    using Cons.IH [of "pre @ enc_dent e" a'] Cons.prems by simp
  show ?case
  proof (cases "de_inode e = 0")
    case True
    with off hd show ?thesis
      by (subst dir_walk.simps) (simp add: rl0 url IH)
  next
    case False
    then have n: "0 < length (de_name e)" "length (de_name e) < 255" "cstring (de_name e)"
      using ok by (auto simp: dent_ok_def)
    then have n': "0 < (of_nat (length (de_name e)) :: byte)" "(of_nat (length (de_name e)) :: byte) < 255"
      "unat (of_nat (length (de_name e)) :: byte) = length (de_name e)"
      by (auto simp: word_less_nat_alt unat_of_nat)
    from False off hd nl nm show ?thesis
      by (subst dir_walk.simps) (simp add: n' n(3) c_text_bytes rl0 url IH)
  qed
qed

lemma blocks_walk_zero [simp]: "blocks_walk s f (replicate n 0) a = Some (Inl a)"
  by (induction n) auto

lemma first_hit_append:
  "first_hit f (es @ fs) a = Option.bind (first_hit f es a) (\<lambda>r. case r of Inr x \<Rightarrow> Some (Inr x) | Inl a' \<Rightarrow> first_hit f fs a')"
  by (induction es arbitrary: a) (auto split: sum.splits Option.bind_splits)

lemma blocks_walk_dir:
  assumes "list_all2 (dir_block s) ns ess"
  shows "blocks_walk s f (ns @ replicate k 0) a = first_hit f (concat ess) a"
  using assms
proof (induction arbitrary: a rule: list_all2_induct)
  case Nil
  then show ?case by simp
next
  case (Cons n ns es ess)
  obtain base where b: "n \<noteq> 0" "ext3_read_block n s = Some base"
    "img_bytes s base (unat (block_size s)) = Some (concat (map enc_dent es))" and ok: "\<forall>e\<in>set es. dent_ok e"
    using Cons.hyps by (auto simp: dir_block_def block_data_def split: if_splits Option.bind_splits)
  have "dir_walk s f base 0 a = first_hit f es a"
    using dir_walk_enc [of s base "[]" es f a] b(3) ok by simp
  with b show ?case
    by (auto simp: first_hit_append Cons.IH split: sum.splits Option.bind_splits)
qed

lemma walk_dir: "is_dir s i es \<Longrightarrow> blocks_walk s f (direct_blocks i) a = first_hit f es a"
  by (auto simp: is_dir_def blocks_walk_dir)

lemma first_hit_named:
  assumes "dent_named n es = Some e" "\<And>i m. m \<noteq> n \<Longrightarrow> f i m a = Some (Inl a)" "f (de_inode e) n a = Some (Inr x)"
  shows "first_hit f es a = Some (Inr x)"
  using assms by (induction es) (auto simp: dent_named_def split: if_splits)

lemma copy_blocks_zero [simp]: "copy_blocks s buf sz (replicate n 0) k = Some []"
  by (induction n) auto

lemma copy_blocks_data:
  assumes "list_all2 (\<lambda>n x. block_data s n = Some x) ns xs" "buf \<noteq> 0" "k \<le> sz" "sz \<le> k + length (concat xs)"
  shows "copy_blocks s buf sz (ns @ replicate j 0) k = Some (take (sz - k) (concat xs))"
  using assms
proof (induction arbitrary: k rule: list_all2_induct)
  case Nil
  then show ?case by simp
next
  case (Cons n ns x xs)
  obtain base where b: "n \<noteq> 0" "ext3_read_block n s = Some base" "img_bytes s base (unat (block_size s)) = Some x"
    using Cons.hyps by (auto simp: block_data_def split: if_splits Option.bind_splits)
  have l: "length x = unat (block_size s)" using b(3) by (rule img_bytes_length)
  show ?case
  proof (cases "sz < k + unat (block_size s)")
    case True
    have "img_bytes s base (sz - k) = Some (take (sz - k) x)"
      by (rule img_bytes_part [where pos = base and xs = "[]" and zs = "drop (sz - k) x"])
        (use b(3) True l in auto)
    moreover have "copy_blocks s buf sz (ns @ replicate j 0) sz = Some []"
      using Cons.IH [of sz] Cons.prems by simp
    ultimately show ?thesis using b True l Cons.prems by simp
  next
    case False
    with Cons.prems l have "copy_blocks s buf sz (ns @ replicate j 0) (k + unat (block_size s)) =
        Some (take (sz - (k + unat (block_size s))) (concat xs))"
      by (intro Cons.IH) auto
    moreover have "x = []" if "sz \<le> k"
    proof -
      have "length x = 0" using that False l by linarith
      then show ?thesis by simp
    qed
    ultimately show ?thesis using b False l Cons.prems by (auto simp: diff_diff_left)
  qed
qed

lemma copy_data:
  assumes "is_data s i ds" "buf \<noteq> 0"
  shows "copy_blocks s buf (unat (i_size i)) (direct_blocks i) 0 = Some ds"
  using assms copy_blocks_data [of s _ _ buf 0 "unat (i_size i)"] by (auto simp: is_data_def)

lemma find_bin_inode:
  assumes root: "read_inode 2 s = Some (Some r)" "is_dir s r es" "dent_named ''bin'' es = Some b"
    and bin: "read_inode (de_inode b) s = Some (Some d)" "is_dir s d fs" "dent_named n fs = Some e"
    and inode: "read_inode (de_inode e) s = Some (Some i)"
  shows "find_inode_by_path (Some (''/bin/'' @ n)) s = Some (Some i)"
proof -
  have "blocks_walk s (bin_entry s n) (direct_blocks d) () = Some (Inr (Some i))"
    unfolding walk_dir [OF bin(2)]
    by (rule first_hit_named [OF bin(3)]) (simp_all add: bin_entry_def inode)
  then have "root_entry s n (de_inode b) ''bin'' () = Some (Inr (Some i))"
    by (simp add: root_entry_def bin)
  then have "first_hit (root_entry s n) es () = Some (Inr (Some i))"
    by (intro first_hit_named [OF root(3)]) (simp_all add: root_entry_def)
  then show ?thesis
    by (simp add: find_inode_by_path_def root walk_dir [OF root(2)])
qed

lemma first_hit_list: "first_hit list_name es a = Some (Inl (a @ map de_name (filter (\<lambda>e. de_inode e \<noteq> 0) es)))"
  by (induction es arbitrary: a) (auto simp: list_name_def)

section \<open>A small image\<close>

text \<open>Seven blocks of 1024 bytes: the superblock is block 1, the group descriptor block 2, the
  inode table block 3, the root directory block 4, the directory \<open>bin\<close> block 5 and the file
  \<open>sh\<close> block 6.\<close>

definition demo_inode :: "u32 \<Rightarrow> u32 \<Rightarrow> byte list" where
  "demo_inode sz b = replicate 4 0 @ bytes32 sz @ replicate 28 0 @ bytes32 b @ replicate 56 0"

definition demo_dir :: "u32 \<Rightarrow> string \<Rightarrow> dent list" where
  "demo_dir ino nm = [\<lparr>de_inode = ino, de_type = 0, de_name = nm, de_pad = replicate (1016 - length nm) 0\<rparr>]"

definition demo_super :: "byte list" where
  "demo_super = replicate 56 0 @ bytes16 0xEF53 @ replicate 966 0"

definition demo_group :: "byte list" where
  "demo_group = replicate 8 0 @ bytes32 3 @ replicate 1012 0"

definition demo_table :: "byte list" where
  "demo_table = replicate 96 0 @ demo_inode 1024 4 @ demo_inode 1024 5 @ demo_inode 5 6 @ replicate 640 0"

definition demo_file :: "byte list" where
  "demo_file = [1, 2, 3, 4, 5] @ replicate 1019 0"

definition demo_image :: "byte list" where
  "demo_image = concat [replicate 1024 0, demo_super, demo_group, demo_table,
     concat (map enc_dent (demo_dir 3 ''bin'')), concat (map enc_dent (demo_dir 4 ''sh'')), demo_file]"

definition demo_ext3 :: ext3 where
  "demo_ext3 = \<lparr>ext3_image = Some demo_image, ext3_image_size = 7168,
     superblock = parse_superblock (take 60 demo_super), block_size = 1024\<rparr>"

lemma demo_lengths [simp]:
  "length (demo_inode sz b) = 96" "length demo_super = 1024" "length demo_group = 1024"
  "length demo_table = 1024" "length demo_file = 1024"
  "length nm \<le> 1016 \<Longrightarrow> length (concat (map enc_dent (demo_dir ino nm))) = 1024"
  by (simp_all add: demo_inode_def demo_super_def demo_group_def demo_table_def demo_file_def demo_dir_def dent_len_def)

lemma demo_image_bytes: "img_bytes demo_ext3 0 7168 = Some demo_image"
  by (simp add: img_bytes_def demo_ext3_def demo_image_def)

lemma demo_block_bytes:
  assumes "demo_image = xs @ ys @ zs" "length xs = k" "length ys = m"
  shows "img_bytes demo_ext3 k m = Some ys"
  by (rule img_bytes_part [OF demo_image_bytes [unfolded assms(1)]]) (use assms in simp_all)

lemma demo_set_image: "set_image (Some demo_image) 7168 s = Some demo_ext3"
proof -
  let ?s = "s\<lparr>ext3_image := Some demo_image, ext3_image_size := 7168\<rparr>"
  have "img_bytes demo_ext3 1024 60 = Some (take 60 demo_super)"
    by (rule demo_block_bytes [where xs = "replicate 1024 0" and zs = "drop 60 demo_super @ concat [demo_group, demo_table,
        concat (map enc_dent (demo_dir 3 ''bin'')), concat (map enc_dent (demo_dir 4 ''sh'')), demo_file]"])
      (simp_all add: demo_image_def append_assoc [symmetric] del: append_assoc)
  then have "img_bytes ?s 1024 60 = Some (take 60 demo_super)"
    by (simp add: img_bytes_def demo_ext3_def)
  moreover have "s_magic (parse_superblock (take 60 demo_super)) = 0xEF53" "s_log_block_size (parse_superblock (take 60 demo_super)) = 0"
    by (simp_all add: parse_superblock_def get16_def get32_def demo_super_def bytes16_def nth_append le32_def le16_def)
  ultimately show ?thesis
    by (simp add: set_image_def load_superblock_def shifted_size_def demo_ext3_def)
qed

lemma demo_ext3_simps [simp]: "ext3_image demo_ext3 = Some demo_image" "block_size demo_ext3 = 1024"
  "ext3_image_size demo_ext3 = 7168"
  by (simp_all add: demo_ext3_def)

lemma demo_blocks:
  "img_bytes demo_ext3 2056 4 = Some (bytes32 3)"
  "img_bytes demo_ext3 3168 96 = Some (demo_inode 1024 4)"
  "img_bytes demo_ext3 3264 96 = Some (demo_inode 1024 5)"
  "img_bytes demo_ext3 3360 96 = Some (demo_inode 5 6)"
  "img_bytes demo_ext3 4096 1024 = Some (concat (map enc_dent (demo_dir 3 ''bin'')))"
  "img_bytes demo_ext3 5120 1024 = Some (concat (map enc_dent (demo_dir 4 ''sh'')))"
  "img_bytes demo_ext3 6144 1024 = Some demo_file"
proof -
  let ?z = "replicate 1024 0" and ?d3 = "concat (map enc_dent (demo_dir 3 ''bin''))"
    and ?d4 = "concat (map enc_dent (demo_dir 4 ''sh''))"
  note b = demo_image_def [unfolded concat.simps append_Nil2]
  show "img_bytes demo_ext3 2056 4 = Some (bytes32 3)"
    by (rule demo_block_bytes [where xs = "?z @ demo_super @ replicate 8 0" and zs = "replicate 1012 0 @ demo_table @ ?d3 @ ?d4 @ demo_file"])
      (simp_all only: b demo_group_def append_assoc, simp_all)
  show "img_bytes demo_ext3 3168 96 = Some (demo_inode 1024 4)"
    by (rule demo_block_bytes [where xs = "?z @ demo_super @ demo_group @ replicate 96 0"
          and zs = "demo_inode 1024 5 @ demo_inode 5 6 @ replicate 640 0 @ ?d3 @ ?d4 @ demo_file"])
      (simp_all only: b demo_table_def append_assoc, simp_all)
  show "img_bytes demo_ext3 3264 96 = Some (demo_inode 1024 5)"
    by (rule demo_block_bytes [where xs = "?z @ demo_super @ demo_group @ replicate 96 0 @ demo_inode 1024 4"
          and zs = "demo_inode 5 6 @ replicate 640 0 @ ?d3 @ ?d4 @ demo_file"])
      (simp_all only: b demo_table_def append_assoc, simp_all)
  show "img_bytes demo_ext3 3360 96 = Some (demo_inode 5 6)"
    by (rule demo_block_bytes [where xs = "?z @ demo_super @ demo_group @ replicate 96 0 @ demo_inode 1024 4 @ demo_inode 1024 5"
          and zs = "replicate 640 0 @ ?d3 @ ?d4 @ demo_file"])
      (simp_all only: b demo_table_def append_assoc, simp_all)
  show "img_bytes demo_ext3 4096 1024 = Some ?d3"
    by (rule demo_block_bytes [where xs = "?z @ demo_super @ demo_group @ demo_table" and zs = "?d4 @ demo_file"])
      (simp_all only: b append_assoc, simp_all)
  show "img_bytes demo_ext3 5120 1024 = Some ?d4"
    by (rule demo_block_bytes [where xs = "?z @ demo_super @ demo_group @ demo_table @ ?d3" and zs = demo_file])
      (simp_all only: b append_assoc, simp_all)
  show "img_bytes demo_ext3 6144 1024 = Some demo_file"
    by (rule demo_block_bytes [where xs = "?z @ demo_super @ demo_group @ demo_table @ ?d3 @ ?d4" and zs = "[]"])
      (simp_all only: b append_assoc append_Nil2, simp_all)
qed

lemma demo_inode_fields:
  "i_size (parse_inode (demo_inode sz b)) = sz"
  "direct_blocks (parse_inode (demo_inode sz b)) = [b, 0, 0, 0, 0, 0, 0, 0, 0, 0, 0, 0]"
proof -
  have z: "le32 0 0 0 0 = 0" by (simp add: le32_def)
  have u: "[0..<15] = [0, 1, 2, 3, 4, 5, 6, 7, 8, 9, 10, 11, 12, 13, 14 :: nat]" by (simp add: upt_rec)
  show "i_size (parse_inode (demo_inode sz b)) = sz"
    "direct_blocks (parse_inode (demo_inode sz b)) = [b, 0, 0, 0, 0, 0, 0, 0, 0, 0, 0, 0]"
    by (simp_all add: parse_inode_def direct_blocks_def get32_def demo_inode_def bytes32_def nth_append u z)
qed

lemma demo_inodes:
  "read_inode 2 demo_ext3 = Some (Some (parse_inode (demo_inode 1024 4)))"
  "read_inode 3 demo_ext3 = Some (Some (parse_inode (demo_inode 1024 5)))"
  "read_inode 4 demo_ext3 = Some (Some (parse_inode (demo_inode 5 6)))"
  using demo_blocks get32_bytes [of 3 "[]"] by (simp_all add: read_inode_def ext3_read_block_def Let_def)

lemma demo_dirs:
  "is_dir demo_ext3 (parse_inode (demo_inode 1024 4)) (demo_dir 3 ''bin'')"
  "is_dir demo_ext3 (parse_inode (demo_inode 1024 5)) (demo_dir 4 ''sh'')"
  "is_data demo_ext3 (parse_inode (demo_inode 5 6)) [1, 2, 3, 4, 5]"
proof -
  have "dent_ok e" if "e \<in> set (demo_dir 3 ''bin'') \<union> set (demo_dir 4 ''sh'')" for e
    using that by (auto simp: demo_dir_def dent_ok_def dent_len_def NUL_def)
  then have d: "dir_block demo_ext3 4 (demo_dir 3 ''bin'')" "dir_block demo_ext3 5 (demo_dir 4 ''sh'')"
    using demo_blocks by (auto simp: dir_block_def block_data_def ext3_read_block_def)
  show "is_dir demo_ext3 (parse_inode (demo_inode 1024 4)) (demo_dir 3 ''bin'')"
    unfolding is_dir_def demo_inode_fields
    by (rule exI [of _ "[4]"], rule exI [of _ "[demo_dir 3 ''bin'']"]) (use d in \<open>simp add: numeral_eq_Suc\<close>)
  show "is_dir demo_ext3 (parse_inode (demo_inode 1024 5)) (demo_dir 4 ''sh'')"
    unfolding is_dir_def demo_inode_fields
    by (rule exI [of _ "[5]"], rule exI [of _ "[demo_dir 4 ''sh'']"]) (use d in \<open>simp add: numeral_eq_Suc\<close>)
  have "block_data demo_ext3 6 = Some demo_file"
    using demo_blocks by (simp add: block_data_def ext3_read_block_def)
  moreover have "take 5 demo_file = [1, 2, 3, 4, 5]" by (simp add: demo_file_def)
  moreover have "replicate 11 (0 :: u32) = [0, 0, 0, 0, 0, 0, 0, 0, 0, 0, 0]" by (simp add: numeral_eq_Suc)
  ultimately show "is_data demo_ext3 (parse_inode (demo_inode 5 6)) [1, 2, 3, 4, 5]"
    unfolding is_data_def demo_inode_fields
    by (intro exI [of _ "[6]"] exI [of _ "[demo_file]"]) simp
qed



end
