(* ===== verification/Shell.thy ===== *)
theory Shell
  imports Syscalls Users Keyboard Libc Fat32
begin

text \<open>
  The built-in shell: \<^verbatim>\<open>kernel/shell/shell.cpp\<close>, the commands of \<^verbatim>\<open>kernel/shell/commands.cpp\<close>,
  and the start of a boot module, \<^verbatim>\<open>kernel/userland/module_runner.cpp\<close>. The state is that of the
  system calls with the user database, the keyboard and the modules of the boot loader. The
  keyboard holds the bytes the controller will deliver, so a loop that waits for a key when
  there is none left does not return, which is \<open>None\<close>. The code a command jumps to is the
  argument \<open>run\<close>. Log output is left out.
\<close>

section \<open>The state\<close>

record limine_module =
  mod_path :: "string option"
  mod_address :: u64
  mod_size :: u64

record 'd machine =
  mk :: "'d fat kernel"
  m_users :: users
  m_kbd :: kbd_state
  m_cwd :: string
  m_modules :: "limine_module list option"

record shell_env =
  sh_sched :: sched_env
  sh_date :: string
  sh_time :: string

definition out :: "string \<Rightarrow> 'd machine \<Rightarrow> 'd machine" where
  "out s m = m\<lparr>mk := (mk m)\<lparr>k_tty := print s (k_tty (mk m))\<rparr>\<rparr>"

definition outs :: "string list \<Rightarrow> 'd machine \<Rightarrow> 'd machine" where
  "outs ss m = fold out ss m"

definition poll_key :: "'d machine \<Rightarrow> char \<times> 'd machine" where
  "poll_key m =
     (case keyboard_poll_char ((m_kbd m)\<lparr>kb_tty := k_tty (mk m)\<rparr>) of
        (c, kb) \<Rightarrow> (c, m\<lparr>m_kbd := kb, mk := (mk m)\<lparr>k_tty := kb_tty kb\<rparr>\<rparr>))"

definition on_kernel :: "('d fat kernel \<Rightarrow> ('a \<times> 'd fat kernel) option) \<Rightarrow> 'd machine \<Rightarrow> ('a \<times> 'd machine) option" where
  "on_kernel f m = do { (r, k) \<leftarrow> f (mk m); Some (r, m\<lparr>mk := k\<rparr>) }"

definition hhdm_addr :: "boot_env \<Rightarrow> u64 \<Rightarrow> u64" where
  "hhdm_addr env a = (case hhdm_offset env of None \<Rightarrow> a | Some off \<Rightarrow> if a < off then off + a else a)"

text \<open>The modules as the FAT32 driver sees them.\<close>

definition module_bytes :: "boot_env \<Rightarrow> 'd machine \<Rightarrow> boot_modules" where
  "module_bytes env m =
     map_option (map (\<lambda>md. (mod_path md, if hhdm_addr env (mod_address md) = 0 then None
        else Some (bytes_in (k_mem (mk m)) (hhdm_addr env (mod_address md)) (unat (mod_size md)))))) (m_modules m)"

definition m_other :: "'d hw \<Rightarrow> 'd machine \<Rightarrow> 'd fat other_fs" where
  "m_other E m = fat_other E (module_bytes (hw_boot E) m)"

definition snprintf :: "nat \<Rightarrow> string \<Rightarrow> va_arg list \<Rightarrow> string option" where
  "snprintf n fmt args = Option.bind (vsnprintf n fmt args) snd"

section \<open>Command lines\<close>

definition is_blank :: "char \<Rightarrow> bool" where
  "is_blank c \<longleftrightarrow> c = CHR '' '' \<or> c = CHR 0x09"

definition parse :: "nat \<Rightarrow> nat \<Rightarrow> string \<Rightarrow> string \<times> string" where
  "parse cmd_size args_size line =
     (let l1 = dropWhile is_blank line;
          cmd = take (cmd_size - 1) (takeWhile (\<lambda>c. \<not> is_blank c) l1);
          l2 = dropWhile is_blank (drop (length cmd) l1)
      in (cmd, take (args_size - 1) l2))"

text \<open>With a buffer of one byte per token no character fits and the loop stores empty tokens.\<close>

fun tokenize :: "nat \<Rightarrow> nat \<Rightarrow> string \<Rightarrow> string list" where
  "tokenize 0 token_size p = []"
| "tokenize (Suc n) token_size p =
     (let p1 = dropWhile is_blank p
      in if p1 = [] then []
         else let t = take (token_size - 1) (takeWhile (\<lambda>c. \<not> is_blank c) p1)
              in t # tokenize n token_size (drop (length t) p1))"

definition get_cwd :: "'d machine \<Rightarrow> string" where
  "get_cwd m = m_cwd m"

definition set_cwd :: "string option \<Rightarrow> 'd machine \<Rightarrow> int \<times> 'd machine" where
  "set_cwd path m =
     (case path of
        None \<Rightarrow> (-1, m)
      | Some p \<Rightarrow> if p = [] then (-1, m) else (0, m\<lparr>m_cwd := take 255 p\<rparr>))"

text \<open>The loop of the three line readers, here and in the login: \<open>wr\<close> writes to the console and
  \<open>echo\<close> is what is written for a character.\<close>

partial_function (option) line_loop ::
  "(string \<Rightarrow> 'd machine \<Rightarrow> 'd machine) \<Rightarrow> (char \<Rightarrow> string) \<Rightarrow> nat \<Rightarrow> string \<Rightarrow> 'd machine \<Rightarrow> (string \<times> 'd machine) option" where
  "line_loop wr echo maxlen buf m =
     (if \<not> length buf < maxlen - 1 then Some (buf, m)
      else case poll_key m of (c, m1) \<Rightarrow>
        if c = NUL then line_loop wr echo maxlen buf m1
        else if c = CHR 0x0A \<or> c = CHR 0x0D then Some (buf, wr ''\<newline>'' m1)
        else if c = CHR 0x08 \<and> buf \<noteq> [] then line_loop wr echo maxlen (butlast buf) (wr [CHR 0x08, CHR '' '', CHR 0x08] m1)
        else if 32 \<le> (of_char c :: nat) \<and> (of_char c :: nat) < 127 then line_loop wr echo maxlen (buf @ [c]) (wr (echo c) m1)
        else line_loop wr echo maxlen buf m1)"

definition read_line :: "nat \<Rightarrow> 'd machine \<Rightarrow> (string \<times> 'd machine) option" where
  "read_line maxlen m = line_loop out (\<lambda>c. [c]) maxlen [] m"

section \<open>Modules\<close>

definition module_blob :: "u64 \<Rightarrow> 'd machine \<Rightarrow> blob option" where
  "module_blob a m = (if a = 0 then None else Some (\<lambda>i. k_mem (mk m) (a + i)))"

text \<open>The loader on a file at an address: the entry point, null for a failure.\<close>

definition load_elf :: "boot_env \<Rightarrow> blob option \<Rightarrow> u64 \<Rightarrow> 'd machine \<Rightarrow> u64 \<times> 'd machine" where
  "load_elf env f sz m =
     (case elf64_load_from_memory env f sz (bump_ptr (km_heap (mk m))) (k_mem (mk m)) of
        (entry, bp, mem) \<Rightarrow> (entry, m\<lparr>mk := (mk m)\<lparr>k_mem := mem, km_heap := (km_heap (mk m))\<lparr>bump_ptr := bp\<rparr>\<rparr>\<rparr>))"

definition run_elf_from_module ::
  "(u64 \<Rightarrow> 'd machine \<Rightarrow> 'd machine option) \<Rightarrow> boot_env \<Rightarrow> limine_module \<Rightarrow> 'd machine \<Rightarrow> (int \<times> 'd machine) option" where
  "run_elf_from_module run env md m =
     (case load_elf env (module_blob (hhdm_addr env (mod_address md)) m) (mod_size md) m of
        (entry, m1) \<Rightarrow> if entry = 0 then Some (-1, m1) else do { m2 \<leftarrow> run entry m1; Some (0, m2) })"

definition has_suffix :: "string \<Rightarrow> string \<Rightarrow> bool" where
  "has_suffix path name \<longleftrightarrow> length name \<le> length path \<and> drop (length path - length name) path = name"

primrec exec_module_loop ::
  "(u64 \<Rightarrow> 'd machine \<Rightarrow> 'd machine option) \<Rightarrow> boot_env \<Rightarrow> string \<Rightarrow> limine_module list \<Rightarrow> 'd machine \<Rightarrow>
   (int \<times> 'd machine) option" where
  "exec_module_loop run env filename [] m = Some (-1, m)"
| "exec_module_loop run env filename (md # mds) m =
     (case mod_path md of
        None \<Rightarrow> exec_module_loop run env filename mds m
      | Some path \<Rightarrow>
          if has_suffix path filename then do {
            (r, m1) \<leftarrow> run_elf_from_module run env md m;
            if r = 0 then Some (0, m1)
            else do { m2 \<leftarrow> run (hhdm_addr env (mod_address md)) m1; Some (0, m2) }
          }
          else exec_module_loop run env filename mds m)"

definition exec_module_by_name ::
  "(u64 \<Rightarrow> 'd machine \<Rightarrow> 'd machine option) \<Rightarrow> boot_env \<Rightarrow> string option \<Rightarrow> 'd machine \<Rightarrow> (int \<times> 'd machine) option" where
  "exec_module_by_name run env filename m =
     (case (m_modules m, filename) of
        (Some mds, Some name) \<Rightarrow> exec_module_loop run env name mds m
      | _ \<Rightarrow> Some (-1, m))"

section \<open>Commands\<close>

text \<open>A command returns its status with the new state.\<close>

definition cmd_help :: "string \<Rightarrow> 'd machine \<Rightarrow> int \<times> 'd machine" where
  "cmd_help args m = (0, outs
     [''\<newline>=== Available Commands ===\<newline>'',
      ''help              - Show this help message\<newline>'',
      ''exit              - Exit the shell\<newline>'',
      ''logout            - Exit the shell\<newline>'',
      ''clear             - Clear the screen\<newline>'',
      ''echo <text>       - Echo text to screen\<newline>'',
      ''whoami            - Display current user info\<newline>'',
      ''pwd               - Print working directory\<newline>'',
      ''cd <path>         - Change directory (stub)\<newline>'',
      ''ls [path]         - List directory contents\<newline>'',
      ''lsblk            - List block devices and mounts\<newline>'',
      ''version           - Show system version\<newline>'', ''\<newline>''] m)"

definition cmd_echo :: "string \<Rightarrow> 'd machine \<Rightarrow> int \<times> 'd machine" where
  "cmd_echo args m = (0, if args \<noteq> [] then outs [args, ''\<newline>''] m else out ''\<newline>'' m)"

definition cmd_whoami :: "string \<Rightarrow> 'd machine \<Rightarrow> (int \<times> 'd machine) option" where
  "cmd_whoami args m = do {
     uidstr \<leftarrow> snprintf 16 ''%u'' [VWord (ucast (get_current_uid (m_users m)))];
     gidstr \<leftarrow> snprintf 16 ''%u'' [VWord (ucast (get_current_gid (m_users m)))];
     Some (0, outs [get_username_by_uid (get_current_uid (m_users m)) (m_users m), '' (uid='', uidstr, '', gid='', gidstr, '')\<newline>''] m)
   }"

definition cmd_version :: "shell_env \<Rightarrow> string \<Rightarrow> 'd machine \<Rightarrow> int \<times> 'd machine" where
  "cmd_version V args m = (0, outs [''HanaCore vI dont remmeber lmao '', sh_date V, '' '', sh_time V, ''\<newline>''] m)"

definition cmd_pwd :: "string \<Rightarrow> 'd machine \<Rightarrow> int \<times> 'd machine" where
  "cmd_pwd args m = (0, out ''/\<newline>'' m)"

definition cmd_cd :: "string \<Rightarrow> 'd machine \<Rightarrow> int \<times> 'd machine" where
  "cmd_cd args m =
     (if args = [] then (1, out ''cd: missing argument\<newline>'' m)
      else (1, out ''cd: directory changing not yet implemented\<newline>'' m))"

definition cmd_clear :: "string \<Rightarrow> 'd machine \<Rightarrow> int \<times> 'd machine" where
  "cmd_clear args m = (0, outs [CHR 0x1B # ''[2J'', CHR 0x1B # ''[H''] m)"

definition file_name :: "string \<Rightarrow> string" where
  "file_name path = rev (takeWhile (\<lambda>c. c \<noteq> slash) (rev path))"

text \<open>The part of \<open>cmd_exec_external\<close> that looks through the modules: \<open>None\<close> as the status when
  no module has the name.\<close>

primrec exec_from_modules ::
  "(u64 \<Rightarrow> 'd machine \<Rightarrow> 'd machine option) \<Rightarrow> boot_env \<Rightarrow> string \<Rightarrow> limine_module list \<Rightarrow> 'd machine \<Rightarrow>
   (int option \<times> 'd machine) option" where
  "exec_from_modules run env cmdname [] m = Some (None, m)"
| "exec_from_modules run env cmdname (md # mds) m =
     (case mod_path md of
        None \<Rightarrow> exec_from_modules run env cmdname mds m
      | Some path \<Rightarrow>
          if file_name path = cmdname then
            (case load_elf env (module_blob (hhdm_addr env (mod_address md)) m) (mod_size md) m of
               (entry, m1) \<Rightarrow>
                 if entry \<noteq> 0 then do { m2 \<leftarrow> run entry m1; Some (Some 0, m2) }
                 else Some (Some 1, outs [''Failed to load ELF: '', cmdname, ''\<newline>''] m1))
          else exec_from_modules run env cmdname mds m)"

text \<open>A buffer of the heap as a file: behind its end is the memory that follows the block.\<close>

definition buffer_blob :: "u64 \<Rightarrow> byte list \<Rightarrow> 'd machine \<Rightarrow> blob" where
  "buffer_blob p bs m = (\<lambda>i. if unat i < length bs then bs ! unat i else k_mem (mk m) (p + i))"

definition m_free :: "u64 \<Rightarrow> 'd machine \<Rightarrow> 'd machine option" where
  "m_free p m = do { k \<leftarrow> km_free p (mk m); Some (m\<lparr>mk := k\<rparr>) }"

definition not_found :: "string \<Rightarrow> 'd machine \<Rightarrow> int \<times> 'd machine" where
  "not_found cmdname m = (127, outs [''Command not found: '', cmdname, ''\<newline>''] m)"

definition exec_from_vfs :: "'d hw \<Rightarrow> shell_env \<Rightarrow> string \<Rightarrow> 'd machine \<Rightarrow> (int \<times> 'd machine) option" where
  "exec_from_vfs E V cmdname m = do {
     binpath \<leftarrow> snprintf 256 ''/bin/%s'' [VStr cmdname];
     (d, m1) \<leftarrow> on_kernel (with_fs (vfs_get_file_alloc (fat_hw E) (m_other E m) (Some binpath))) m;
     (case d of
        None \<Rightarrow> Some (not_found cmdname m1)
      | Some (p, bs) \<Rightarrow>
          (if bs = [] then do { m2 \<leftarrow> m_free p m1; Some (not_found cmdname m2) }
           else case load_elf (hw_boot E) (Some (buffer_blob p bs m1)) (of_nat (length bs)) m1 of
             (entry, m2) \<Rightarrow> do {
               m3 \<leftarrow> m_free p m2;
               if entry = 0 then Some (1, outs [''Failed to load ELF from '', binpath, ''\<newline>''] m3)
               else do {
                 (pid, m4) \<leftarrow> on_kernel (create_user_task (sh_sched V) entry 16384) m3;
                 if pid = 0 then Some (1, outs [''Failed to create user task for '', binpath, ''\<newline>''] m4)
                 else do {
                   txt \<leftarrow> snprintf 32 ''Started pid=%d\<newline>'' [VWord (of_int pid)];
                   Some (0, out txt m4)
                 }
               }
             }))
   }"

definition cmd_exec_external ::
  "(u64 \<Rightarrow> 'd machine \<Rightarrow> 'd machine option) \<Rightarrow> 'd hw \<Rightarrow> shell_env \<Rightarrow> string \<Rightarrow> string \<Rightarrow> 'd machine \<Rightarrow>
   (int \<times> 'd machine) option" where
  "cmd_exec_external run E V cmdname args m =
     (if cmdname = [] then Some (-1, m)
      else do {
        (r, m1) \<leftarrow> (case m_modules m of
           None \<Rightarrow> Some (None, m) | Some mds \<Rightarrow> exec_from_modules run (hw_boot E) cmdname mds m);
        case r of Some rc \<Rightarrow> Some (rc, m1) | None \<Rightarrow> exec_from_vfs E V cmdname m1
      })"

text \<open>What \<open>cmd_ls\<close> prints: the callback prints every name, then the status is tested.\<close>

definition ls_report :: "string \<Rightarrow> int \<Rightarrow> string list \<Rightarrow> 'd machine \<Rightarrow> (int \<times> 'd machine) option" where
  "ls_report path rc names m =
     (let m1 = outs (concat (map (\<lambda>n. [n, ''\<newline>'']) names)) m
      in if rc \<noteq> 0 then do {
           tmp \<leftarrow> snprintf 16 ''%d'' [VWord (of_int rc)];
           Some (1, outs [''Cannot list directory: '', path, '' (rc='', tmp, '')\<newline>''] m1)
         }
         else Some (0, if names = [] then out ''(empty directory)\<newline>'' m1 else m1))"

definition cmd_ls :: "'d hw \<Rightarrow> string \<Rightarrow> 'd machine \<Rightarrow> (int \<times> 'd machine) option" where
  "cmd_ls E args m =
     (let path = (if args \<noteq> [] then args else ''/'')
      in do {
        ((rc, names), m1) \<leftarrow> on_kernel (with_fs (vfs_list_dir (fat_hw E) (m_other E m) (Some path))) m;
        ls_report path rc names m1
      })"

definition lsblk_collect_cb :: "string list \<Rightarrow> string \<Rightarrow> string list" where
  "lsblk_collect_cb lines line = (if 64 \<le> length lines then lines else lines @ [take 127 line])"

definition cmd_lsblk :: "string \<Rightarrow> 'd machine \<Rightarrow> int \<times> 'd machine" where
  "cmd_lsblk args m =
     (let m1 = out ''-- FAT32 summary --\<newline>'' (outs [''=== lsblk ===\<newline>'', ''-- VFS mounts --\<newline>''] m);
          l1 = foldl lsblk_collect_cb [] (snd (vfs_list_mounts (k_vfs (mk m))));
          fat = hf_disk (vf_fs (k_vfs (mk m)));
          l2 = (if fat32_ready fat then foldl lsblk_collect_cb l1 (fat32_get_summary fat)
                else lsblk_collect_cb l1 ''(FAT32 not initialized)'')
      in (0, outs (concat (map (\<lambda>l. [l, ''\<newline>'']) l2)) m1))"

section \<open>The command loop\<close>

definition box :: "char \<Rightarrow> string" where
  "box c = [CHR 0xE2, CHR 0x95, c]"

definition box_line :: "char \<Rightarrow> nat \<Rightarrow> char \<Rightarrow> string" where
  "box_line l n r = box l @ concat (replicate n (box (CHR 0x90))) @ box r"

definition shell_banner :: "string list" where
  "shell_banner =
     [''\<newline>'' @ box_line (CHR 0x94) 40 (CHR 0x97) @ ''\<newline>'',
      box (CHR 0x91) @ ''     HanaCore          Shell v1.0       '' @ box (CHR 0x91) @ ''\<newline>'',
      box_line (CHR 0x9A) 40 (CHR 0x9D) @ ''\<newline>\<newline>'',
      ''Type '' @ [CHR 0x27] @ ''help'' @ [CHR 0x27] @ '' for available commands.\<newline>\<newline>'']"

definition shell_prompt :: "'d machine \<Rightarrow> 'd machine" where
  "shell_prompt m = outs [get_username_by_uid (get_current_uid (m_users m)) (m_users m), '':'', get_cwd m, ''$ ''] m"

text \<open>A command other than \<open>exit\<close> and \<open>logout\<close>.\<close>

definition shell_command ::
  "(u64 \<Rightarrow> 'd machine \<Rightarrow> 'd machine option) \<Rightarrow> 'd hw \<Rightarrow> shell_env \<Rightarrow> string \<Rightarrow> string \<Rightarrow> 'd machine \<Rightarrow>
   (int \<times> 'd machine) option" where
  "shell_command run E V cmd args m =
     (if cmd = ''help'' then Some (cmd_help args m)
      else if cmd = ''echo'' then Some (cmd_echo args m)
      else if cmd = ''whoami'' then cmd_whoami args m
      else if cmd = ''version'' then Some (cmd_version V args m)
      else if cmd = ''pwd'' then Some (cmd_pwd args m)
      else if cmd = ''cd'' then Some (cmd_cd args m)
      else if cmd = ''clear'' then Some (cmd_clear args m)
      else if cmd = ''ls'' then cmd_ls E args m
      else if cmd = ''lsblk'' then Some (cmd_lsblk args m)
      else cmd_exec_external run E V cmd args m)"

partial_function (option) shell_loop ::
  "(u64 \<Rightarrow> 'd machine \<Rightarrow> 'd machine option) \<Rightarrow> 'd hw \<Rightarrow> shell_env \<Rightarrow> 'd machine \<Rightarrow> 'd machine option" where
  "shell_loop run E V m =
     Option.bind (read_line 512 (shell_prompt m)) (\<lambda>(line, m1).
       if line = [] then shell_loop run E V m1
       else if fst (parse 128 384 line) = ''exit'' \<or> fst (parse 128 384 line) = ''logout''
       then Some (out ''Exiting shell...\<newline>'' m1)
       else Option.bind (shell_command run E V (fst (parse 128 384 line)) (snd (parse 128 384 line)) m1)
              (\<lambda>(_, m2). shell_loop run E V m2))"

definition builtin_shell_main ::
  "(u64 \<Rightarrow> 'd machine \<Rightarrow> 'd machine option) \<Rightarrow> 'd hw \<Rightarrow> shell_env \<Rightarrow> 'd machine \<Rightarrow> 'd machine option" where
  "builtin_shell_main run E V m = shell_loop run E V (outs shell_banner m)"

section \<open>Typing lines\<close>

text \<open>\<open>at_keys bs m m'\<close>: the two states agree but for the keyboard, which has no modifier down in
  the second one and will deliver the bytes \<open>bs\<close>.\<close>

definition at_keys :: "u8 list \<Rightarrow> 'd machine \<Rightarrow> 'd machine \<Rightarrow> bool" where
  "at_keys bs m m' \<longleftrightarrow> m'\<lparr>m_kbd := m_kbd m\<rparr> = m \<and> ps2_rx (m_kbd m') = bs \<and>
     \<not> shift_down (m_kbd m') \<and> \<not> alt_down (m_kbd m') \<and> \<not> ctrl_down (m_kbd m')"

definition key_text :: "u8 list \<Rightarrow> string" where
  "key_text ks = map (\<lambda>k. scancode_map ! unat k) ks"

text \<open>Keys of printable characters.\<close>

definition text_key :: "u8 \<Rightarrow> bool" where
  "text_key k \<longleftrightarrow> plain_key k \<and> 32 \<le> (of_char (scancode_map ! unat k) :: nat) \<and> (of_char (scancode_map ! unat k) :: nat) < 127"

definition line_taps :: "u8 list \<Rightarrow> u8 list" where
  "line_taps ks = key_taps ks @ [0x1C, 0x9C]"

lemma at_keys_eq:
  assumes "at_keys bs m m'"
  shows "m' = m\<lparr>m_kbd := m_kbd m'\<rparr>"
proof -
  have "m\<lparr>m_kbd := m_kbd m'\<rparr> = m'\<lparr>m_kbd := m_kbd m\<rparr>\<lparr>m_kbd := m_kbd m'\<rparr>"
    using assms by (simp add: at_keys_def)
  then show ?thesis by simp
qed

lemma out_kbd [simp]: "out s (m\<lparr>m_kbd := kb\<rparr>) = (out s m)\<lparr>m_kbd := kb\<rparr>"
  "m_kbd (out s m) = m_kbd m" "m_users (out s m) = m_users m" "m_cwd (out s m) = m_cwd m" "m_modules (out s m) = m_modules m"
  by (simp_all add: out_def)

lemma outs_kbd [simp]: "outs ss (m\<lparr>m_kbd := kb\<rparr>) = (outs ss m)\<lparr>m_kbd := kb\<rparr>"
  "m_kbd (outs ss m) = m_kbd m"
  by (induction ss arbitrary: m) (simp_all add: outs_def)

lemma at_keys_out:
  assumes "at_keys bs m m'"
  shows "at_keys bs (out s m) (out s m')"
proof -
  have "(out s m')\<lparr>m_kbd := m_kbd m\<rparr> = out s m"
    using assms out_kbd(1) [where s = s and m = m' and kb = "m_kbd m"] by (simp add: at_keys_def)
  then show ?thesis using assms by (simp add: at_keys_def)
qed

lemma poll_release:
  assumes "at_keys (b # bs) m m'" "b AND 0x80 \<noteq> 0" "b \<noteq> 0xE0"
  obtains m1 where "poll_key m' = (NUL, m1)" "at_keys bs m m1"
proof -
  let ?kb = "(m_kbd m')\<lparr>kb_tty := k_tty (mk m')\<rparr>"
  have "keyboard_poll_char ?kb = (NUL, kb_release b (?kb\<lparr>ps2_rx := bs\<rparr>))"
    using assms by (simp add: at_keys_def keyboard_poll_char_def)
  then have "poll_key m' = (NUL, m'\<lparr>m_kbd := kb_release b (?kb\<lparr>ps2_rx := bs\<rparr>)\<rparr>)"
    by (simp add: poll_key_def kb_release_def Let_def)
  moreover have "at_keys bs m (m'\<lparr>m_kbd := kb_release b (?kb\<lparr>ps2_rx := bs\<rparr>)\<rparr>)"
    using assms by (auto simp: at_keys_def kb_release_def Let_def)
  ultimately show ?thesis by (rule that)
qed

lemma poll_press:
  assumes "at_keys (sc # bs) m m'" "plain_key sc"
  obtains m1 where "poll_key m' = (scancode_map ! unat sc, m1)" "at_keys bs m m1"
proof -
  let ?kb = "(m_kbd m')\<lparr>kb_tty := k_tty (mk m')\<rparr>"
  have lt: "sc < 58" and ne: "sc \<noteq> 0x2A" "sc \<noteq> 0x36" "sc \<noteq> 0x38" "sc \<noteq> 0x1D"
    using assms(2) by (simp_all add: plain_key_def)
  have "sc < 128" using lt by (simp add: word_less_nat_alt)
  note b = low_key_bits [OF this]
  have "sc \<noteq> 0xE0" and n: "ansi_tail sc = None" "unat sc < length scancode_map"
    using lt by (auto simp: ansi_tail_def scancode_map_def word_less_nat_alt)
  then have "keyboard_poll_char ?kb = (scancode_map ! unat sc, ?kb\<lparr>ps2_rx := bs\<rparr>)"
    using assms(1) ne b(1) by (simp add: at_keys_def keyboard_poll_char_def kb_press_def kb_map_def)
  then have "poll_key m' = (scancode_map ! unat sc, m'\<lparr>m_kbd := ?kb\<lparr>ps2_rx := bs\<rparr>\<rparr>)"
    by (simp add: poll_key_def)
  moreover have "at_keys bs m (m'\<lparr>m_kbd := ?kb\<lparr>ps2_rx := bs\<rparr>\<rparr>)"
    using assms(1) by (simp add: at_keys_def)
  ultimately show ?thesis by (rule that)
qed

text \<open>A line as it is typed: every character is echoed, then the newline.\<close>

definition type_line :: "(string \<Rightarrow> 'd machine \<Rightarrow> 'd machine) \<Rightarrow> (char \<Rightarrow> string) \<Rightarrow> string \<Rightarrow> 'd machine \<Rightarrow> 'd machine" where
  "type_line wr echo line m = wr ''\<newline>'' (fold (\<lambda>c. wr (echo c)) line m)"

lemma key_taps_Cons: "key_taps (k # ks) = k # (k OR 0x80) # key_taps ks"
  by (simp add: key_taps_def)

lemma release_byte:
  assumes "plain_key k"
  shows "(k OR 0x80) AND 0x80 \<noteq> 0" "k OR 0x80 \<noteq> 0xE0"
proof -
  have "k < 128" using assms by (simp add: plain_key_def word_less_nat_alt)
  note b = low_key_bits [OF this]
  show "(k OR 0x80) AND 0x80 \<noteq> 0" by (rule b(2))
  show "k OR 0x80 \<noteq> 0xE0"
  proof
    assume "k OR 0x80 = 0xE0"
    then have "k = 0xE0 AND 0x7F" using b(3) by metis
    then show False using assms by (simp add: plain_key_def)
  qed
qed

lemma line_loop_skip:
  assumes "poll_key m' = (NUL, m1)" "length buf < maxlen - 1"
  shows "line_loop wr echo maxlen buf m' = line_loop wr echo maxlen buf m1"
  using assms by (subst line_loop.simps) simp

text \<open>The writers of the line readers change nothing but the console.\<close>

definition writer :: "(string \<Rightarrow> 'd machine \<Rightarrow> 'd machine) \<Rightarrow> bool" where
  "writer wr \<longleftrightarrow> (\<forall>bs s m m'. at_keys bs m m' \<longrightarrow> at_keys bs (wr s m) (wr s m'))"

lemma line_loop_typed:
  assumes "writer wr" "list_all text_key ks" "at_keys (key_taps ks @ 0x1C # bs) m m'" "length buf + length ks < maxlen - 1"
  obtains m1 where "line_loop wr echo maxlen buf m' = Some (buf @ key_text ks, m1)"
    "at_keys bs (type_line wr echo (key_text ks) m) m1"
  using assms(2-)
proof (induction ks arbitrary: buf m m' thesis)
  case Nil
  have k: "plain_key 0x1C" "scancode_map ! unat (0x1C :: u8) = CHR 0x0A"
    by (simp_all add: plain_key_def scancode_map_def)
  from Nil.prems(3) obtain m1 where p: "poll_key m' = (CHR 0x0A, m1)" "at_keys bs m m1"
    by (auto simp: key_taps_def k(2) elim: poll_press [OF _ k(1), unfolded k(2)])
  have "at_keys bs (wr ''\<newline>'' m) (wr ''\<newline>'' m1)" using p(2) assms(1) by (simp add: writer_def)
  moreover have "line_loop wr echo maxlen buf m' = Some (buf, wr ''\<newline>'' m1)"
    using Nil.prems(4) p(1) by (subst line_loop.simps) (simp add: NUL_def)
  ultimately show ?case using Nil.prems(1) by (simp add: key_text_def type_line_def)
next
  case (Cons k ks)
  let ?c = "scancode_map ! unat k"
  have k: "plain_key k" "32 \<le> (of_char ?c :: nat)" "(of_char ?c :: nat) < 127"
    using Cons.prems(2) by (auto simp: text_key_def)
  then have c: "?c \<noteq> NUL" "?c \<noteq> CHR 0x0A" "?c \<noteq> CHR 0x0D" "?c \<noteq> CHR 0x08" by (auto simp: NUL_def)
  from Cons.prems(3) obtain m1 where p: "poll_key m' = (?c, m1)" "at_keys ((k OR 0x80) # key_taps ks @ 0x1C # bs) m m1"
    by (auto simp: key_taps_Cons elim: poll_press [OF _ k(1)])
  have l: "line_loop wr echo maxlen buf m' = line_loop wr echo maxlen (buf @ [?c]) (wr (echo ?c) m1)"
    using Cons.prems(4) p(1) c k(2,3) by (subst line_loop.simps) simp
  have "at_keys ((k OR 0x80) # key_taps ks @ 0x1C # bs) (wr (echo ?c) m) (wr (echo ?c) m1)"
    using p(2) assms(1) by (simp add: writer_def)
  then obtain m2 where q: "poll_key (wr (echo ?c) m1) = (NUL, m2)" "at_keys (key_taps ks @ 0x1C # bs) (wr (echo ?c) m) m2"
    by (rule poll_release [OF _ release_byte [OF k(1)]])
  have s: "line_loop wr echo maxlen (buf @ [?c]) (wr (echo ?c) m1) = line_loop wr echo maxlen (buf @ [?c]) m2"
    using q(1) Cons.prems(4) by (intro line_loop_skip) simp_all
  have pre: "list_all text_key ks" "length (buf @ [?c]) + length ks < maxlen - 1"
    using Cons.prems(2,4) by auto
  obtain m3 where "line_loop wr echo maxlen (buf @ [?c]) m2 = Some ((buf @ [?c]) @ key_text ks, m3)"
    "at_keys bs (type_line wr echo (key_text ks) (wr (echo ?c) m)) m3"
    by (rule Cons.IH [OF _ pre(1) q(2) pre(2)])
  then show ?case
    using Cons.prems(1) [of m3] l s by (simp add: key_text_def type_line_def)
qed

lemma writer_out: "writer out"
  by (simp add: writer_def at_keys_out)

text \<open>What is left of the previous line, the release of its enter key, is skipped.\<close>

lemma line_typed:
  assumes wr: "writer wr" and ks: "list_all text_key ks" "length ks < maxlen - 1"
    and ak: "at_keys (pre @ key_taps ks @ 0x1C # bs) m m'" "pre = [] \<or> pre = [0x9C]"
  obtains m1 where "line_loop wr echo maxlen [] m' = Some (key_text ks, m1)" "at_keys bs (type_line wr echo (key_text ks) m) m1"
proof -
  have r: "(0x9C :: u8) AND 0x80 \<noteq> 0" "(0x9C :: u8) \<noteq> 0xE0" by simp_all
  obtain m0 where m0: "line_loop wr echo maxlen [] m' = line_loop wr echo maxlen [] m0"
    "at_keys (key_taps ks @ 0x1C # bs) m m0"
  proof (cases "pre = []")
    case True
    with ak(1) that show ?thesis by simp
  next
    case False
    then have k: "at_keys (0x9C # key_taps ks @ 0x1C # bs) m m'" using ak by simp
    obtain m0 where "poll_key m' = (NUL, m0)" "at_keys (key_taps ks @ 0x1C # bs) m m0"
      by (rule poll_release [OF k r])
    with that line_loop_skip [of m' m0 "[]" maxlen] ks(2) show ?thesis by auto
  qed
  have "length ([] :: string) + length ks < maxlen - 1" using ks(2) by simp
  then obtain m1 where "line_loop wr echo maxlen [] m0 = Some ([] @ key_text ks, m1)"
    "at_keys bs (type_line wr echo (key_text ks) m) m1"
    by (rule line_loop_typed [OF wr ks(1) m0(2)])
  with m0(1) that show ?thesis by simp
qed

lemmas read_line_typed = line_typed [OF writer_out, where echo = "\<lambda>c. [c]", folded read_line_def]

section \<open>Sessions\<close>

definition builtin_cmd :: "string \<Rightarrow> bool" where
  "builtin_cmd cmd \<longleftrightarrow> cmd \<in> {''help'', ''echo'', ''whoami'', ''version'', ''pwd'', ''cd'', ''clear'', ''ls'', ''lsblk''}"

lemma on_kernel_kbd:
  "on_kernel f (m\<lparr>m_kbd := kb\<rparr>) = map_option (apsnd (\<lambda>x. x\<lparr>m_kbd := kb\<rparr>)) (on_kernel f m)"
  by (auto simp: on_kernel_def split: Option.bind_splits)

lemma m_other_kbd [simp]: "m_other E (m\<lparr>m_kbd := kb\<rparr>) = m_other E m"
  by (simp add: m_other_def module_bytes_def cong: if_cong)

lemma ls_report_kbd:
  "ls_report path rc names (m\<lparr>m_kbd := kb\<rparr>) = map_option (apsnd (\<lambda>x. x\<lparr>m_kbd := kb\<rparr>)) (ls_report path rc names m)"
  by (cases "snprintf 16 ''%d'' [VWord (of_int rc)]") (simp_all add: ls_report_def Let_def)

lemma ls_report_keeps: "ls_report path rc names m = Some (r, m1) \<Longrightarrow> m_kbd m1 = m_kbd m"
  by (cases "snprintf 16 ''%d'' [VWord (of_int rc)]") (auto simp: ls_report_def Let_def split: if_splits)

lemma cmd_ls_kbd: "cmd_ls E args (m\<lparr>m_kbd := kb\<rparr>) = map_option (apsnd (\<lambda>x. x\<lparr>m_kbd := kb\<rparr>)) (cmd_ls E args m)"
proof -
  let ?p = "if args \<noteq> [] then args else ''/''"
  show ?thesis
    by (cases "on_kernel (with_fs (vfs_list_dir (fat_hw E) (m_other E m) (Some ?p))) m")
      (auto simp: cmd_ls_def Let_def on_kernel_kbd ls_report_kbd simp del: if_split)
qed

lemma cmd_whoami_kbd: "cmd_whoami args (m\<lparr>m_kbd := kb\<rparr>) = map_option (apsnd (\<lambda>x. x\<lparr>m_kbd := kb\<rparr>)) (cmd_whoami args m)"
  by (auto simp: cmd_whoami_def split: Option.bind_splits)

lemma on_kernel_keeps: "on_kernel f m = Some (r, m1) \<Longrightarrow> m_kbd m1 = m_kbd m"
  by (auto simp: on_kernel_def split: bind_splits)

lemma cmd_ls_keeps: "cmd_ls E args m = Some (r, m1) \<Longrightarrow> m_kbd m1 = m_kbd m"
  by (auto simp: cmd_ls_def Let_def dest!: on_kernel_keeps ls_report_keeps split: Option.bind_splits simp del: if_split)

lemma cmd_whoami_keeps: "cmd_whoami args m = Some (r, m1) \<Longrightarrow> m_kbd m1 = m_kbd m"
  by (auto simp: cmd_whoami_def split: Option.bind_splits)

lemmas plain_cmds = cmd_help_def cmd_echo_def cmd_version_def cmd_pwd_def cmd_cd_def cmd_clear_def cmd_lsblk_def Let_def

text \<open>A built-in command does not see the keyboard.\<close>

lemma shell_command_kbd:
  assumes "builtin_cmd cmd"
  shows "shell_command run E V cmd args (m\<lparr>m_kbd := kb\<rparr>) =
    map_option (apsnd (\<lambda>x. x\<lparr>m_kbd := kb\<rparr>)) (shell_command run E V cmd args m)"
  using assms unfolding builtin_cmd_def shell_command_def
  by (elim insertE emptyE) (simp_all add: plain_cmds cmd_whoami_kbd cmd_ls_kbd)

lemma shell_command_keeps:
  assumes "builtin_cmd cmd" "shell_command run E V cmd args m = Some (r, m1)"
  shows "m_kbd m1 = m_kbd m"
  using assms unfolding builtin_cmd_def shell_command_def
  by (elim insertE emptyE)
    (auto simp: plain_cmds dest: cmd_whoami_keeps cmd_ls_keeps split: if_splits)

text \<open>The commands of a session in order, with what is typed shown on the console, and then
  \<open>exit\<close>.\<close>

primrec run_lines ::
  "(u64 \<Rightarrow> 'd machine \<Rightarrow> 'd machine option) \<Rightarrow> 'd hw \<Rightarrow> shell_env \<Rightarrow> string list \<Rightarrow> 'd machine \<Rightarrow> 'd machine option" where
  "run_lines run E V [] m = Some (out ''Exiting shell...\<newline>'' (type_line out (\<lambda>c. [c]) ''exit'' (shell_prompt m)))"
| "run_lines run E V (l # ls) m =
     (let m1 = type_line out (\<lambda>c. [c]) l (shell_prompt m)
      in if l = [] then run_lines run E V ls m1
         else do {
           (_, m2) \<leftarrow> shell_command run E V (fst (parse 128 384 l)) (snd (parse 128 384 l)) m1;
           run_lines run E V ls m2
         })"

definition exit_keys :: "u8 list" where
  "exit_keys = [0x12, 0x2D, 0x17, 0x14]"

definition session_line :: "u8 list \<Rightarrow> bool" where
  "session_line ks \<longleftrightarrow> list_all text_key ks \<and> length ks < 511 \<and>
     (ks = [] \<or> builtin_cmd (fst (parse 128 384 (key_text ks))))"

lemma at_keys_outs: "at_keys bs m m' \<Longrightarrow> at_keys bs (outs ss m) (outs ss m')"
  by (induction ss arbitrary: m m') (auto simp: outs_def at_keys_out)

lemma at_keys_fields:
  assumes "at_keys bs m m'"
  shows "m_users m' = m_users m" "m_cwd m' = m_cwd m" "mk m' = mk m" "m_modules m' = m_modules m"
  using at_keys_eq [OF assms] by (metis machine.select_convs machine.surjective machine.update_convs)+

lemma at_keys_prompt: "at_keys bs m m' \<Longrightarrow> at_keys bs (shell_prompt m) (shell_prompt m')"
  using at_keys_fields [of bs m m'] by (simp add: shell_prompt_def get_cwd_def at_keys_outs)

lemma builtin_not_exit: "builtin_cmd cmd \<Longrightarrow> cmd \<noteq> ''exit'' \<and> cmd \<noteq> ''logout''"
  by (auto simp: builtin_cmd_def)

lemma at_keys_command:
  assumes "at_keys bs m m'" "builtin_cmd cmd" "shell_command run E V cmd args m = Some (r, m1)"
  obtains m2 where "shell_command run E V cmd args m' = Some (r, m2)" "at_keys bs m1 m2"
proof -
  have k: "m_kbd m1 = m_kbd m" by (rule shell_command_keeps [OF assms(2,3)])
  have "shell_command run E V cmd args m' = Some (r, m1\<lparr>m_kbd := m_kbd m'\<rparr>)"
    using shell_command_kbd [OF assms(2), where m = m and kb = "m_kbd m'" and run = run and E = E and V = V and args = args] at_keys_eq [OF assms(1)] assms(3) by simp
  moreover have "at_keys bs m1 (m1\<lparr>m_kbd := m_kbd m'\<rparr>)"
    using assms(1) k by (simp add: at_keys_def)
  ultimately show ?thesis by (rule that)
qed

lemma exit_line: "key_text exit_keys = ''exit''" "list_all text_key exit_keys" "length exit_keys < 511"
  "fst (parse 128 384 ''exit'') = ''exit''"
  by (simp_all add: key_text_def exit_keys_def scancode_map_def text_key_def plain_key_def parse_def is_blank_def Let_def)

lemma shell_loop_lines:
  assumes "list_all session_line lines" "pre = [] \<or> pre = [0x9C]"
    and "at_keys (pre @ concat (map line_taps lines) @ line_taps exit_keys @ rest) m m'"
    and "run_lines run E V (map key_text lines) m = Some m1"
  shows "\<exists>m2. shell_loop run E V m' = Some m2 \<and> at_keys (0x9C # rest) m1 m2"
  using assms
proof (induction lines arbitrary: pre m m')
  case Nil
  have ak: "at_keys (pre @ key_taps exit_keys @ 0x1C # 0x9C # rest) (shell_prompt m) (shell_prompt m')"
    using at_keys_prompt [OF Nil.prems(3)] by (simp add: line_taps_def)
  have len: "length exit_keys < 512 - 1" using exit_line(3) by simp
  obtain m2 where r: "read_line 512 (shell_prompt m') = Some (''exit'', m2)"
    "at_keys (0x9C # rest) (type_line out (\<lambda>c. [c]) ''exit'' (shell_prompt m)) m2"
    by (rule read_line_typed [OF exit_line(2) len ak Nil.prems(2), unfolded exit_line(1)])
  have "shell_loop run E V m' = Some (out ''Exiting shell...\<newline>'' m2)"
    using r(1) exit_line(4) by (subst shell_loop.simps) simp
  with at_keys_out [OF r(2)] Nil.prems(4) show ?case by auto
next
  case (Cons ks lines)
  let ?R = "concat (map line_taps lines) @ line_taps exit_keys @ rest" and ?t = "key_text ks"
  let ?m1 = "type_line out (\<lambda>c. [c]) ?t (shell_prompt m)"
  have ks: "list_all text_key ks" "length ks < 512 - 1" using Cons.prems(1) by (auto simp: session_line_def)
  have ak: "at_keys (pre @ key_taps ks @ 0x1C # 0x9C # ?R) (shell_prompt m) (shell_prompt m')"
    using at_keys_prompt [OF Cons.prems(3)] by (simp add: line_taps_def [of ks])
  obtain m2 where r: "read_line 512 (shell_prompt m') = Some (?t, m2)" "at_keys (0x9C # ?R) ?m1 m2"
    by (rule read_line_typed [OF ks ak Cons.prems(2)])
  have ak2: "at_keys ([0x9C] @ ?R) ?m1 m2" using r(2) by simp
  show ?case
  proof (cases "ks = []")
    case True
    then have e: "?t = []" by (simp add: key_text_def)
    have "shell_loop run E V m' = shell_loop run E V m2" using r(1) e by (subst shell_loop.simps) simp
    moreover have "run_lines run E V (map key_text lines) ?m1 = Some m1" using Cons.prems(4) e by simp
    ultimately show ?thesis using Cons.IH [OF _ _ ak2] Cons.prems(1) by simp
  next
    case False
    then have t: "?t \<noteq> []" and b: "builtin_cmd (fst (parse 128 384 ?t))"
      using Cons.prems(1) by (auto simp: key_text_def session_line_def)
    obtain s m3 where c: "shell_command run E V (fst (parse 128 384 ?t)) (snd (parse 128 384 ?t)) ?m1 = Some (s, m3)"
      and l: "run_lines run E V (map key_text lines) m3 = Some m1"
      using Cons.prems(4) t by (auto simp: Let_def split: Option.bind_splits)
    obtain m4 where m4: "shell_command run E V (fst (parse 128 384 ?t)) (snd (parse 128 384 ?t)) m2 = Some (s, m4)"
      "at_keys ([0x9C] @ ?R) m3 m4"
      by (rule at_keys_command [OF ak2 b c])
    have "shell_loop run E V m' = shell_loop run E V m4"
      using r(1) t m4(1) builtin_not_exit [OF b] by (subst shell_loop.simps) simp
    with Cons.IH [OF _ _ m4(2) l] Cons.prems(1) show ?thesis by simp
  qed
qed

text \<open>C15. A session of the built-in shell: when the keyboard delivers the key strokes of some
  lines, each empty or with a built-in command, and of \<open>exit\<close>, then the shell returns. It has
  printed its banner, shown every line as it was typed, run the commands in order with the
  arguments of their lines, and left the later key strokes in the keyboard.\<close>

theorem shell_session:
  assumes "list_all session_line lines" "\<not> shift_down (m_kbd m)" "\<not> alt_down (m_kbd m)" "\<not> ctrl_down (m_kbd m)"
    and "ps2_rx (m_kbd m) = concat (map line_taps lines) @ line_taps exit_keys @ rest"
    and "run_lines run E V (map key_text lines) (outs shell_banner m) = Some m1"
  shows "\<exists>m'. builtin_shell_main run E V m = Some m' \<and> m'\<lparr>m_kbd := m_kbd m1\<rparr> = m1 \<and> ps2_rx (m_kbd m') = 0x9C # rest"
proof -
  have "at_keys ([] @ concat (map line_taps lines) @ line_taps exit_keys @ rest) (outs shell_banner m) (outs shell_banner m)"
    using assms(2-5) by (simp add: at_keys_def)
  from shell_loop_lines [OF assms(1) _ this assms(6)] show ?thesis
    by (auto simp: builtin_shell_main_def at_keys_def)
qed

lemma outs_outs: "outs ss (outs ts m) = outs (ts @ ss) m"
  by (simp add: outs_def)

lemma out_outs: "out s m = outs [s] m"
  by (simp add: outs_def)

lemma type_line_outs: "type_line out (\<lambda>c. [c]) l m = outs (map (\<lambda>c. [c]) l @ [''\<newline>'']) m"
  by (simp add: type_line_def outs_def fold_map comp_def)

lemma outs_fields [simp]: "m_users (outs ss m) = m_users m" "m_cwd (outs ss m) = m_cwd m"
  by (induction ss arbitrary: m) (simp_all add: outs_def)

lemma console_outs: "console (k_tty (mk (outs ss m))) = console (k_tty (mk m)) @ map Print ss"
  by (induction ss arbitrary: m) (auto simp: outs_def out_def print_def)

definition demo_machine :: "u8 list \<Rightarrow> ata ide fat kernel \<Rightarrow> ata ide machine" where
  "demo_machine bs k = \<lparr>mk = k, m_users = init_users users_boot, m_kbd = kbd_boot\<lparr>ps2_rx := bs\<rparr>, m_cwd = ''/'', m_modules = None\<rparr>"

definition demo_shell :: shell_env where
  "demo_shell = \<lparr>sh_sched = demo_se, sh_date = ''Jan  1 2025'', sh_time = ''12:00:00''\<rparr>"

definition echo_hi_keys :: "u8 list" where
  "echo_hi_keys = [0x12, 0x2E, 0x23, 0x18, 0x39, 0x23, 0x17]"

theorem shell_session_witness:
  "\<forall>k. \<exists>m'. builtin_shell_main (\<lambda>_ _. None) (ide_hw demo_env) demo_shell (demo_machine (line_taps echo_hi_keys @ line_taps exit_keys) k) = Some m' \<and>
     console (k_tty (mk m')) = console (k_tty k) @ map Print (shell_banner @
       [''root'', '':'', ''/'', ''$ '', ''e'', ''c'', ''h'', ''o'', '' '', ''h'', ''i'', ''\<newline>'', ''hi'', ''\<newline>'',
        ''root'', '':'', ''/'', ''$ '', ''e'', ''x'', ''i'', ''t'', ''\<newline>'', ''Exiting shell...\<newline>''])"
proof
  fix k :: "ata ide fat kernel"
  let ?m = "demo_machine (line_taps echo_hi_keys @ line_taps exit_keys) k"
  have kt: "key_text echo_hi_keys = ''echo hi''" "list_all text_key echo_hi_keys"
    by (simp_all add: key_text_def echo_hi_keys_def scancode_map_def text_key_def plain_key_def)
  have p: "parse 128 384 ''echo hi'' = (''echo'', ''hi'')" by (simp add: parse_def is_blank_def Let_def)
  have s: "list_all session_line [echo_hi_keys]"
    using kt by (simp add: session_line_def p builtin_cmd_def echo_hi_keys_def)
  have u: "current_uid (init_users users_boot) = 0" by (simp add: init_users_def users_boot_def Let_def)
  have pr: "shell_prompt m = outs [''root'', '':'', ''/'', ''$ ''] m" if "m_users m = init_users users_boot" "m_cwd m = ''/''" for m :: "ata ide machine"
    using that u by (simp add: shell_prompt_def get_cwd_def get_username_by_uid_def get_current_uid_def user_entries_init)
  have m: "m_users ?m = init_users users_boot" "m_cwd ?m = ''/''" by (simp_all add: demo_machine_def)
  define r where "r = [''root'', '':'', ''/'', ''$ '', ''e'', ''c'', ''h'', ''o'', '' '', ''h'', ''i'', ''\<newline>'', ''hi'', ''\<newline>'',
        ''root'', '':'', ''/'', ''$ '', ''e'', ''x'', ''i'', ''t'', ''\<newline>'', ''Exiting shell...\<newline>'']"
  let ?o = "outs (shell_banner @ r) ?m"
  have run: "run_lines (\<lambda>_ _. None) (ide_hw demo_env) demo_shell (map key_text [echo_hi_keys]) (outs shell_banner ?m) = Some ?o"
    by (simp add: kt p pr m type_line_outs out_outs shell_command_def cmd_echo_def outs_outs r_def)
  have "\<exists>m'. builtin_shell_main (\<lambda>_ _. None) (ide_hw demo_env) demo_shell ?m = Some m' \<and>
      m'\<lparr>m_kbd := m_kbd ?o\<rparr> = ?o \<and> ps2_rx (m_kbd m') = 0x9C # []"
    by (rule shell_session [OF s _ _ _ _ run]) (simp_all add: demo_machine_def kbd_boot_def)
  then obtain m' where m': "builtin_shell_main (\<lambda>_ _. None) (ide_hw demo_env) demo_shell ?m = Some m'"
    "m'\<lparr>m_kbd := m_kbd ?o\<rparr> = ?o" by blast
  have "mk m' = mk (m'\<lparr>m_kbd := m_kbd ?o\<rparr>)" by simp
  also have "\<dots> = mk ?o" unfolding m'(2) ..
  finally have "console (k_tty (mk m')) = console (k_tty (mk ?m)) @ map Print (shell_banner @ r)"
    unfolding console_outs [symmetric] by simp
  moreover have "mk ?m = k" by (simp add: demo_machine_def)
  ultimately show "\<exists>m'. builtin_shell_main (\<lambda>_ _. None) (ide_hw demo_env) demo_shell ?m = Some m' \<and>
     console (k_tty (mk m')) = console (k_tty k) @ map Print (shell_banner @
       [''root'', '':'', ''/'', ''$ '', ''e'', ''c'', ''h'', ''o'', '' '', ''h'', ''i'', ''\<newline>'', ''hi'', ''\<newline>'',
        ''root'', '':'', ''/'', ''$ '', ''e'', ''x'', ''i'', ''t'', ''\<newline>'', ''Exiting shell...\<newline>''])"
    using m'(1) unfolding r_def by simp
qed

end
