(* ===== verification/Login.thy ===== *)
theory Login
  imports Shell
begin

text \<open>
  The login loop of \<^verbatim>\<open>kernel/userland/login.cpp\<close>: reading a name and a password, checking them,
  and starting the shell of the user from the file systems or the boot modules, or the built-in
  one. The loop only ends by halting the machine after the third failure; its value is the
  state in which the machine halts. Log output is left out.
\<close>

section \<open>Reading\<close>

definition tty_out :: "string \<Rightarrow> 'd machine \<Rightarrow> 'd machine" where
  "tty_out s m = m\<lparr>mk := (mk m)\<lparr>k_tty := tty_write s (k_tty (mk m))\<rparr>\<rparr>"

definition read_password :: "nat \<Rightarrow> 'd machine \<Rightarrow> (string \<times> 'd machine) option" where
  "read_password maxlen m = line_loop tty_out (\<lambda>c. ''*'') maxlen [] m"

definition read_name :: "nat \<Rightarrow> 'd machine \<Rightarrow> (string \<times> 'd machine) option" where
  "read_name maxlen m = line_loop tty_out (\<lambda>c. [c]) maxlen [] m"

section \<open>The shell of the user\<close>

datatype shell_image = No_image | Vfs_image u64 "byte list" | Module_image u64 u64

definition ascii_upper :: "char \<Rightarrow> char" where
  "ascii_upper c =
     (if 97 \<le> (of_char c :: nat) \<and> (of_char c :: nat) \<le> 122 then char_of (of_char c - 32 :: nat) else c)"

definition image_of :: "(u64 \<times> byte list) option \<Rightarrow> shell_image" where
  "image_of d = (case d of Some (p, bs) \<Rightarrow> if bs \<noteq> [] then Vfs_image p bs else No_image | None \<Rightarrow> No_image)"

definition vfs_image :: "'d hw \<Rightarrow> string \<Rightarrow> 'd machine \<Rightarrow> (shell_image \<times> 'd machine) option" where
  "vfs_image E path m = do {
     (d, m1) \<leftarrow> on_kernel (with_fs (vfs_get_file_alloc (fat_hw E) (m_other E m) (Some path))) m;
     Some (image_of d, m1)
   }"

primrec module_image_of :: "boot_env \<Rightarrow> string \<Rightarrow> limine_module list \<Rightarrow> shell_image" where
  "module_image_of env name [] = No_image"
| "module_image_of env name (md # mds) =
     (case mod_path md of
        None \<Rightarrow> module_image_of env name mds
      | Some path \<Rightarrow>
          if has_suffix path name then
            (if hhdm_addr env (mod_address md) \<noteq> 0 \<and> mod_size md \<noteq> 0
             then Module_image (hhdm_addr env (mod_address md)) (mod_size md) else No_image)
          else module_image_of env name mds)"

text \<open>The three places in order. The copy for the upper-case name has no terminator when the
  path fills its 255 characters, and the loop then reads behind it.\<close>

definition find_shell :: "'d hw \<Rightarrow> string \<Rightarrow> 'd machine \<Rightarrow> (shell_image \<times> 'd machine) option" where
  "find_shell E path m = do {
     (i1, m1) \<leftarrow> vfs_image E path m;
     (i2, m2) \<leftarrow> (if i1 = No_image \<and> c_at path 0 = slash
                  then if 255 \<le> length path then None else vfs_image E (map ascii_upper path) m1
                  else Some (i1, m1));
     Some (if i2 = No_image
           then (case m_modules m2 of None \<Rightarrow> No_image | Some mds \<Rightarrow> module_image_of (hw_boot E) (file_name path) mds)
           else i2, m2)
   }"

definition image_blob :: "shell_image \<Rightarrow> 'd machine \<Rightarrow> blob option" where
  "image_blob i m =
     (case i of
        No_image \<Rightarrow> None
      | Vfs_image p bs \<Rightarrow> Some (buffer_blob p bs m)
      | Module_image a sz \<Rightarrow> module_blob a m)"

definition image_size :: "shell_image \<Rightarrow> u64" where
  "image_size i = (case i of No_image \<Rightarrow> 0 | Vfs_image p bs \<Rightarrow> of_nat (length bs) | Module_image a sz \<Rightarrow> sz)"

definition free_image :: "shell_image \<Rightarrow> 'd machine \<Rightarrow> 'd machine option" where
  "free_image i m = (case i of Vfs_image p bs \<Rightarrow> m_free p m | _ \<Rightarrow> Some m)"

text \<open>\<open>others\<close> is what the other tasks do while the login waits for the shell.\<close>

record 'd login_env =
  lg_run :: "u64 \<Rightarrow> 'd machine \<Rightarrow> 'd machine option"
  lg_others :: "'d fat kernel \<Rightarrow> 'd fat kernel"
  lg_shell :: shell_env

definition launch_shell :: "'d hw \<Rightarrow> 'd login_env \<Rightarrow> shell_image \<Rightarrow> 'd machine \<Rightarrow> 'd machine option" where
  "launch_shell E L i m =
     (if i = No_image
      then builtin_shell_main (lg_run L) E (lg_shell L) (outs [''Shell not found.\<newline>'', ''Using built-in shell.\<newline>\<newline>''] m)
      else case load_elf (hw_boot E) (image_blob i m) (image_size i) m of
        (entry, m1) \<Rightarrow>
          if entry = 0 then free_image i (out ''Failed to load shell binary.\<newline>'' m1)
          else do {
            (pid, m2) \<leftarrow> on_kernel (create_user_task (sh_sched (lg_shell L)) entry 65536) m1;
            if pid = 0 then Some (out ''Failed to create user shell task.\<newline>'' m2)
            else do {
              m3 \<leftarrow> free_image i m2;
              k \<leftarrow> wait_task (lg_others L) pid (mk m3);
              Some (m3\<lparr>mk := k\<rparr>)
            }
          })"

definition login_session :: "'d hw \<Rightarrow> 'd login_env \<Rightarrow> string \<Rightarrow> 'd machine \<Rightarrow> 'd machine option" where
  "login_session E L name m =
     (case get_user_by_name (Some name) (m_users m) of
        None \<Rightarrow> Some m
      | Some u \<Rightarrow> do {
          let m1 = outs [''\<newline>Welcome to HanaCore!\<newline>'', ''Type '' @ [CHR 0x27] @ ''help'' @ [CHR 0x27] @ '' for available commands.\<newline>\<newline>'']
                     (m\<lparr>m_users := set_current_user (u_uid u) (u_gid u) (m_users m)\<rparr>);
          (i, m2) \<leftarrow> find_shell E (shell u) m1;
          launch_shell E L i m2
        })"

section \<open>The loop\<close>

partial_function (option) login_loop :: "'d hw \<Rightarrow> 'd login_env \<Rightarrow> nat \<Rightarrow> 'd machine \<Rightarrow> 'd machine option" where
  "login_loop E L failed_attempts m =
     (if \<not> failed_attempts < 3 then Some m
      else Option.bind (read_name 64 (out ''login: '' m)) (\<lambda>(username, m1).
        Option.bind (read_password 128 (out ''Password: '' m1)) (\<lambda>(password, m2).
          if authenticate_user (Some username) (Some password) (m_users m2)
          then Option.bind (login_session E L username m2) (login_loop E L failed_attempts)
          else if failed_attempts + 1 < 3
          then login_loop E L (failed_attempts + 1) (out ''Login failed. Try again.\<newline>\<newline>'' m2)
          else Some (out ''Maximum login attempts exceeded. System halting.\<newline>'' m2))))"

definition login_banner :: string where
  "login_banner =
     ''\<newline>  '' @ box_line (CHR 0x94) 39 (CHR 0x97) @ ''\<newline>  '' @
     box (CHR 0x91) @ ''        HanaCore Operating System      '' @ box (CHR 0x91) @ ''\<newline>  '' @
     box (CHR 0x91) @ ''           Login Interface             '' @ box (CHR 0x91) @ ''\<newline>  '' @
     box_line (CHR 0x9A) 39 (CHR 0x9D) @ ''\<newline>\<newline>''"

definition login_main :: "'d hw \<Rightarrow> 'd login_env \<Rightarrow> 'd machine \<Rightarrow> 'd machine option" where
  "login_main E L m =
     (let m1 = m\<lparr>m_users := init_users (m_users m), mk := (mk m)\<lparr>k_tty := tty_init (k_tty (mk m))\<rparr>\<rparr>
      in login_loop E L 0 (out login_banner m1))"

section \<open>Failed attempts\<close>

lemma console_vt_append [simp]: "console (vt_append s t) = console t"
proof -
  have "console (fold (vt_put v) s t) = console t" for v
    by (induction s arbitrary: t) (simp_all add: vt_put_def Let_def)
  then show ?thesis by (simp add: vt_append_def)
qed

lemma writer_tty_out: "writer tty_out"
  unfolding writer_def at_keys_def tty_out_def
  by (auto simp: machine.defs) (metis machine.ext_inject machine.surjective machine.update_convs)+

text \<open>\<open>said ss m m'\<close>: from \<open>m\<close> to \<open>m'\<close> the strings \<open>ss\<close> were printed, and nothing else changed but
  the terminals and the keyboard.\<close>

definition said :: "string list \<Rightarrow> 'd machine \<Rightarrow> 'd machine \<Rightarrow> bool" where
  "said ss m m' \<longleftrightarrow> m_users m' = m_users m \<and> m_cwd m' = m_cwd m \<and> m_modules m' = m_modules m \<and>
     (mk m')\<lparr>k_tty := k_tty (mk m)\<rparr> = mk m \<and> console (k_tty (mk m')) = console (k_tty (mk m)) @ map Print ss"

lemma said_refl: "said [] m m"
  by (simp add: said_def)

lemma said_out: "said ss m m' \<Longrightarrow> said (ss @ [s]) m (out s m')"
  by (simp add: said_def out_def print_def)

lemma said_tty_out: "said ss m m' \<Longrightarrow> said (ss @ [s]) m (tty_out s m')"
  by (simp add: said_def tty_out_def tty_write_def print_def)

lemma said_type_line:
  assumes "said ss m m'"
  shows "said (ss @ map echo l @ [''\<newline>'']) m (type_line tty_out echo l m')"
proof -
  have "said (ss @ map echo l) m (fold (\<lambda>c. tty_out (echo c)) l m')"
    using assms
  proof (induction l arbitrary: ss m')
    case (Cons c l)
    from Cons.IH [OF said_tty_out [OF Cons.prems]] show ?case by simp
  qed simp
  from said_tty_out [OF this, of "''\<newline>''"] show ?thesis by (simp add: type_line_def)
qed

lemma said_at_keys:
  assumes "said ss m m1" "at_keys bs m1 m2"
  shows "said ss m m2"
  using assms at_keys_fields [OF assms(2)] by (simp add: said_def)

text \<open>What an attempt shows: the name as it is typed and a star for every character of the
  password.\<close>

definition attempt_text :: "string \<Rightarrow> u8 list \<times> u8 list \<Rightarrow> string list" where
  "attempt_text msg a = [''login: ''] @ map (\<lambda>c. [c]) (key_text (fst a)) @ [''\<newline>'', ''Password: ''] @
     replicate (length (snd a)) ''*'' @ [''\<newline>'', msg]"

definition attempt_taps :: "u8 list \<times> u8 list \<Rightarrow> u8 list" where
  "attempt_taps a = line_taps (fst a) @ line_taps (snd a)"

definition failing :: "users \<Rightarrow> u8 list \<times> u8 list \<Rightarrow> bool" where
  "failing us a \<longleftrightarrow> list_all text_key (fst a) \<and> list_all text_key (snd a) \<and> length (fst a) < 63 \<and> length (snd a) < 127 \<and>
     \<not> authenticate_user (Some (key_text (fst a))) (Some (key_text (snd a))) us"

definition attempts_text :: "(u8 list \<times> u8 list) list \<Rightarrow> string list" where
  "attempts_text as = concat (map (attempt_text ''Login failed. Try again.\<newline>\<newline>'') (butlast as)) @
     attempt_text ''Maximum login attempts exceeded. System halting.\<newline>'' (last as)"

lemma attempts_text_Cons: "as \<noteq> [] \<Longrightarrow> attempts_text (a # as) = attempt_text ''Login failed. Try again.\<newline>\<newline>'' a @ attempts_text as"
  by (simp add: attempts_text_def)

text \<open>Reading the name and the password of one attempt.\<close>

lemma attempt_read:
  assumes f: "failing us a" and ak: "at_keys (pre @ attempt_taps a @ bs) m m'" "pre = [] \<or> pre = [0x9C]"
  obtains m1 m2 where "read_name 64 (out ''login: '' m') = Some (key_text (fst a), m1)"
    "read_password 128 (out ''Password: '' m1) = Some (key_text (snd a), m2)"
    "at_keys (0x9C # bs) m2 m2" "\<And>msg. said (attempt_text msg a) m (out msg m2)"
proof -
  let ?m0 = "out ''login: '' m"
  have k: "list_all text_key (fst a)" "length (fst a) < 64 - 1" "list_all text_key (snd a)" "length (snd a) < 128 - 1"
    using f by (auto simp: failing_def)
  have a0: "at_keys (pre @ key_taps (fst a) @ 0x1C # 0x9C # line_taps (snd a) @ bs) ?m0 (out ''login: '' m')"
    using at_keys_out [OF ak(1)] by (simp add: attempt_taps_def line_taps_def [of "fst a"])
  obtain m1 where r1: "line_loop tty_out (\<lambda>c. [c]) 64 [] (out ''login: '' m') = Some (key_text (fst a), m1)"
    "at_keys (0x9C # line_taps (snd a) @ bs) (type_line tty_out (\<lambda>c. [c]) (key_text (fst a)) ?m0) m1"
    by (rule line_typed [OF writer_tty_out k(1,2) a0 ak(2)])
  let ?m1 = "out ''Password: '' (type_line tty_out (\<lambda>c. [c]) (key_text (fst a)) ?m0)"
  have a1: "at_keys ([0x9C] @ key_taps (snd a) @ 0x1C # 0x9C # bs) ?m1 (out ''Password: '' m1)"
    using at_keys_out [OF r1(2)] by (simp add: line_taps_def)
  obtain m2 where r2: "line_loop tty_out (\<lambda>c. ''*'') 128 [] (out ''Password: '' m1) = Some (key_text (snd a), m2)"
    "at_keys (0x9C # bs) (type_line tty_out (\<lambda>c. ''*'') (key_text (snd a)) ?m1) m2"
    by (rule line_typed [OF writer_tty_out k(3,4) a1]) simp
  have "at_keys (0x9C # bs) m2 m2" using r2(2) by (simp add: at_keys_def)
  moreover have "said (attempt_text msg a) m (out msg m2)" for msg
  proof -
    let ?s = "[''login: ''] @ map (\<lambda>c. [c]) (key_text (fst a)) @ [''\<newline>'']"
    have s1: "said ?s m (type_line tty_out (\<lambda>c. [c]) (key_text (fst a)) ?m0)"
      by (rule said_type_line) (use said_out [OF said_refl] in simp)
    have s2: "said ((?s @ [''Password: '']) @ map (\<lambda>c. ''*'') (key_text (snd a)) @ [''\<newline>'']) m
        (type_line tty_out (\<lambda>c. ''*'') (key_text (snd a)) ?m1)"
      by (rule said_type_line [OF said_out [OF s1]])
    have "said ((?s @ [''Password: '']) @ map (\<lambda>c. ''*'') (key_text (snd a)) @ [''\<newline>'']) m m2"
      by (rule said_at_keys [OF s2 r2(2)])
    from said_out [OF this, of msg] show ?thesis
      by (simp add: attempt_text_def key_text_def map_replicate_const)
  qed
  ultimately show ?thesis using r1(1) r2(1) that by (simp add: read_name_def read_password_def)
qed

lemma said_trans:
  assumes "said ss m m1" "said ts m1 m2"
  shows "said (ss @ ts) m m2"
proof -
  have "(mk m2)\<lparr>k_tty := k_tty (mk m)\<rparr> = (mk m2)\<lparr>k_tty := k_tty (mk m1)\<rparr>\<lparr>k_tty := k_tty (mk m)\<rparr>" by simp
  also have "\<dots> = mk m" using assms by (simp add: said_def)
  finally show ?thesis using assms by (simp add: said_def)
qed

lemma current_uid_init: "current_uid (init_users us) = current_uid us"
  by (simp add: init_users_def Let_def)

lemma login_loop_failing:
  assumes "list_all (failing (m_users m)) as" "length as = 3 - n" "n < 3" "pre = [] \<or> pre = [0x9C]"
    and "at_keys (pre @ concat (map attempt_taps as) @ rest) m m"
  shows "\<exists>m'. login_loop E L n m = Some m' \<and> said (attempts_text as) m m' \<and> ps2_rx (m_kbd m') = 0x9C # rest"
  using assms
proof (induction as arbitrary: n m pre)
  case Nil
  then show ?case by simp
next
  case (Cons a as)
  have f: "failing (m_users m) a" using Cons.prems(1) by simp
  have k: "at_keys (pre @ attempt_taps a @ concat (map attempt_taps as) @ rest) m m" using Cons.prems(5) by simp
  obtain m1 m2 where r: "read_name 64 (out ''login: '' m) = Some (key_text (fst a), m1)"
    "read_password 128 (out ''Password: '' m1) = Some (key_text (snd a), m2)"
    "at_keys (0x9C # concat (map attempt_taps as) @ rest) m2 m2" "\<And>msg. said (attempt_text msg a) m (out msg m2)"
    by (rule attempt_read [OF f k Cons.prems(4)]) blast
  have u: "m_users m2 = m_users m" using r(4) [of "[]"] by (simp add: said_def)
  then have au: "\<not> authenticate_user (Some (key_text (fst a))) (Some (key_text (snd a))) (m_users m2)"
    using f by (simp add: failing_def)
  show ?case
  proof (cases "as = []")
    case True
    then have "login_loop E L n m = Some (out ''Maximum login attempts exceeded. System halting.\<newline>'' m2)"
      using Cons.prems(2,3) r(1,2) au by (subst login_loop.simps) simp
    then show ?thesis
      using r(3,4) True by (auto simp: attempts_text_def at_keys_def)
  next
    case False
    let ?m = "out ''Login failed. Try again.\<newline>\<newline>'' m2"
    have n: "n + 1 < 3" "length as = 3 - (n + 1)" using Cons.prems(2,3) False by (cases as; simp)+
    have l: "login_loop E L n m = login_loop E L (n + 1) ?m"
      using n(1) r(1,2) au Cons.prems(3) by (subst login_loop.simps) simp
    have "at_keys ([0x9C] @ concat (map attempt_taps as) @ rest) ?m ?m" using at_keys_out [OF r(3)] by simp
    moreover have "list_all (failing (m_users ?m)) as" using Cons.prems(1) u by simp
    ultimately obtain m' where "login_loop E L (n + 1) ?m = Some m'" "said (attempts_text as) ?m m'" "ps2_rx (m_kbd m') = 0x9C # rest"
      using Cons.IH [of ?m "n + 1" "[0x9C]"] n by blast
    with l said_trans [OF r(4)] attempts_text_Cons [OF False] show ?thesis by auto
  qed
qed



end
