(* ===== verification/Framebuffer.thy ===== *)
theory Framebuffer
  imports Libc Tty Bump
begin

text \<open>
  The linear framebuffer, \<^verbatim>\<open>kernel/drivers/framebuffer.cpp\<close>: set-up from the boot loader's answer,
  pixels, rectangles, circles and clearing, over the byte memory of the machine. The line
  drawing routine works with floating-point numbers and is left out. The arithmetic on
  coordinates and addresses has the width of the code; an \<open>int\<close> that overflows is \<open>None\<close>.
\<close>

record limine_framebuffer =
  lf_address :: u64
  lf_width :: u64
  lf_height :: u64
  lf_pitch :: u64
  lf_bpp :: u16

record framebuffer =
  fb_global :: "limine_framebuffer option"
  fb_width :: u64
  fb_height :: u64
  fb_pitch :: u64
  fb_virt :: u64

section \<open>Set-up\<close>

text \<open>The answer is \<open>None\<close> when the boot loader gave none, else its list of framebuffers. The text
  is what is printed.\<close>

definition framebuffer_init ::
  "boot_env \<Rightarrow> limine_framebuffer list option \<Rightarrow> framebuffer \<Rightarrow> (bool \<times> string option) \<times> framebuffer" where
  "framebuffer_init env resp st =
     (case resp of
        None \<Rightarrow> ((False, Some ''[FAIL] No Limine framebuffer response\<newline>''), st)
      | Some fbs \<Rightarrow>
          (case fbs of
             [] \<Rightarrow> ((False, Some ''[FAIL] Limine returned zero framebuffers\<newline>''), st)
           | g # _ \<Rightarrow>
               let st1 = st\<lparr>fb_global := Some g, fb_width := lf_width g, fb_height := lf_height g, fb_pitch := lf_pitch g\<rparr>
               in case hhdm_offset env of
                    None \<Rightarrow> ((False, Some ''[FAIL] No HHDM provided by Limine; refusing to map framebuffer\<newline>''), st1\<lparr>fb_virt := 0\<rparr>)
                  | Some off \<Rightarrow>
                      ((True, None), st1\<lparr>fb_virt := (if off \<le> lf_address g then lf_address g else off + lf_address g)\<rparr>)))"

definition framebuffer_available :: "framebuffer \<Rightarrow> bool" where
  "framebuffer_available st \<longleftrightarrow> fb_global st \<noteq> None"

definition framebuffer_get_width :: "framebuffer \<Rightarrow> u32" where
  "framebuffer_get_width st = ucast (fb_width st)"

definition framebuffer_get_height :: "framebuffer \<Rightarrow> u32" where
  "framebuffer_get_height st = ucast (fb_height st)"

definition framebuffer_rgb :: "u8 \<Rightarrow> u8 \<Rightarrow> u8 \<Rightarrow> u32" where
  "framebuffer_rgb r g b = push_bit 16 (ucast r) OR push_bit 8 (ucast g) OR ucast b"

definition framebuffer_rgba :: "u8 \<Rightarrow> u8 \<Rightarrow> u8 \<Rightarrow> u8 \<Rightarrow> u32" where
  "framebuffer_rgba r g b a = push_bit 16 (ucast r) OR push_bit 8 (ucast g) OR ucast b OR push_bit 24 (ucast a)"

section \<open>Drawing\<close>

definition bytes_per_pixel :: "limine_framebuffer \<Rightarrow> u64" where
  "bytes_per_pixel g = ucast (lf_bpp g div 8)"

text \<open>With four bytes per pixel or more the colour is stored as a word, else its low bytes.\<close>

definition pixel_bytes :: "u64 \<Rightarrow> u32 \<Rightarrow> byte list" where
  "pixel_bytes bpp color = (if 4 \<le> bpp then bytes32 color else take (unat bpp) (bytes32 color))"

definition framebuffer_put_pixel :: "framebuffer \<Rightarrow> u32 \<Rightarrow> u32 \<Rightarrow> u32 \<Rightarrow> mem \<Rightarrow> mem" where
  "framebuffer_put_pixel st x y color m =
     (case fb_global st of
        None \<Rightarrow> m
      | Some g \<Rightarrow>
          if ucast (fb_width st) \<le> x \<or> ucast (fb_height st) \<le> y then m
          else if fb_virt st = 0 then m
          else store_bytes m (fb_virt st + (ucast y * fb_pitch st + ucast x * bytes_per_pixel g))
                 (pixel_bytes (bytes_per_pixel g) color))"

definition framebuffer_draw_rect :: "framebuffer \<Rightarrow> u32 \<Rightarrow> u32 \<Rightarrow> u32 \<Rightarrow> u32 \<Rightarrow> u32 \<Rightarrow> mem \<Rightarrow> mem" where
  "framebuffer_draw_rect st x y width height color m =
     fold (\<lambda>py. fold (\<lambda>px. framebuffer_put_pixel st (x + of_nat px) (y + of_nat py) color) [0..<unat width]) [0..<unat height] m"

definition int_range :: "int \<Rightarrow> bool" where
  "int_range i \<longleftrightarrow> - (2 ^ 31) \<le> i \<and> i < 2 ^ 31"

text \<open>One pixel of the square around the circle.\<close>

definition circle_pixel :: "framebuffer \<Rightarrow> int \<Rightarrow> int \<Rightarrow> int \<Rightarrow> u32 \<Rightarrow> int \<Rightarrow> int \<Rightarrow> mem \<Rightarrow> mem option" where
  "circle_pixel st cx cy r color x y m =
     (if \<not> int_range (x * x + y * y) \<or> \<not> int_range (r * r) then None
      else if r * r < x * x + y * y then Some m
      else if \<not> int_range (cx + x) \<or> \<not> int_range (cy + y) then None
      else if 0 \<le> cx + x \<and> cx + x < sint (ucast (fb_width st) :: u32) \<and> 0 \<le> cy + y \<and> cy + y < sint (ucast (fb_height st) :: u32)
      then Some (framebuffer_put_pixel st (of_int (cx + x)) (of_int (cy + y)) color m)
      else Some m)"

primrec circle_pixels :: "framebuffer \<Rightarrow> int \<Rightarrow> int \<Rightarrow> int \<Rightarrow> u32 \<Rightarrow> (int \<times> int) list \<Rightarrow> mem \<Rightarrow> mem option" where
  "circle_pixels st cx cy r color [] m = Some m"
| "circle_pixels st cx cy r color (p # ps) m = do {
     m1 \<leftarrow> circle_pixel st cx cy r color (snd p) (fst p) m;
     circle_pixels st cx cy r color ps m1
   }"

definition framebuffer_draw_filled_circle :: "framebuffer \<Rightarrow> u32 \<Rightarrow> u32 \<Rightarrow> u32 \<Rightarrow> u32 \<Rightarrow> mem \<Rightarrow> mem option" where
  "framebuffer_draw_filled_circle st cx cy radius color m =
     (let r = sint radius
      in if r = - (2 ^ 31) then None
         else circle_pixels st (sint cx) (sint cy) r color (List.product [-r..r] [-r..r]) m)"

text \<open>The slow way shifts the colour by 32 bits or more, which is undefined, when a pixel has more
  than four bytes.\<close>

definition framebuffer_clear :: "framebuffer \<Rightarrow> u32 \<Rightarrow> mem \<Rightarrow> mem option" where
  "framebuffer_clear st color m =
     (case fb_global st of
        None \<Rightarrow> Some m
      | Some g \<Rightarrow>
          if fb_virt st = 0 then Some m
          else if 4 \<le> bytes_per_pixel g \<and> fb_pitch st mod 4 = 0
          then Some (fold (\<lambda>i m. store_bytes m (fb_virt st + 4 * of_nat i) (bytes32 color)) [0..<unat (fb_pitch st div 4 * fb_height st)] m)
          else if 4 < bytes_per_pixel g \<and> fb_width st \<noteq> 0 \<and> fb_height st \<noteq> 0 then None
          else Some (fold (\<lambda>y. fold (\<lambda>x m. store_bytes m (fb_virt st + of_nat y * fb_pitch st + of_nat x * bytes_per_pixel g)
                   (map (\<lambda>b. ucast (drop_bit (8 * b) color AND 0xFF)) [0..<unat (bytes_per_pixel g)]))
                 [0..<unat (fb_width st)]) [0..<unat (fb_height st)] m))"

section \<open>Pixels in memory\<close>

text \<open>A framebuffer whose rows fit into the pitch and which does not wrap around the address
  space.\<close>

definition fb_ok :: "framebuffer \<Rightarrow> limine_framebuffer \<Rightarrow> bool" where
  "fb_ok st g \<longleftrightarrow> fb_global st = Some g \<and> fb_virt st \<noteq> 0 \<and> 0 < unat (bytes_per_pixel g) \<and>
     unat (fb_width st) < 2 ^ 32 \<and> unat (fb_height st) < 2 ^ 32 \<and>
     unat (fb_width st) * unat (bytes_per_pixel g) \<le> unat (fb_pitch st) \<and>
     unat (fb_virt st) + unat (fb_height st) * unat (fb_pitch st) \<le> 2 ^ 64"

definition on_screen :: "framebuffer \<Rightarrow> u32 \<Rightarrow> u32 \<Rightarrow> bool" where
  "on_screen st x y \<longleftrightarrow> unat x < unat (fb_width st) \<and> unat y < unat (fb_height st)"

definition pixel_addr :: "framebuffer \<Rightarrow> limine_framebuffer \<Rightarrow> u32 \<Rightarrow> u32 \<Rightarrow> u64" where
  "pixel_addr st g x y = fb_virt st + (ucast y * fb_pitch st + ucast x * bytes_per_pixel g)"

definition pixel_at :: "framebuffer \<Rightarrow> limine_framebuffer \<Rightarrow> mem \<Rightarrow> u32 \<Rightarrow> u32 \<Rightarrow> byte list" where
  "pixel_at st g m x y = map (\<lambda>i. m (pixel_addr st g x y + of_nat i)) [0..<min 4 (unat (bytes_per_pixel g))]"

lemma length_pixel_bytes: "length (pixel_bytes bpp c) = min 4 (unat bpp)"
  by (auto simp: pixel_bytes_def word_le_nat_alt)

lemma unat_ucast_u32: "unat (ucast (x :: u32) :: u64) = unat x"
proof -
  have "unat x < 2 ^ 64" by (rule order.strict_trans [OF unsigned_less]) simp
  then show ?thesis by (simp add: unsigned_ucast_eq take_bit_nat_eq_self)
qed

text \<open>The offset of a pixel, as a number.\<close>

lemma pixel_offset:
  assumes "fb_ok st g" "on_screen st x y"
  defines "off \<equiv> unat y * unat (fb_pitch st) + unat x * unat (bytes_per_pixel g)"
  shows "unat (pixel_addr st g x y) = unat (fb_virt st) + off"
    and "off + unat (bytes_per_pixel g) \<le> Suc (unat y) * unat (fb_pitch st)"
    and "unat (fb_virt st) + off + unat (bytes_per_pixel g) \<le> 2 ^ 64"
proof -
  let ?p = "unat (fb_pitch st)" and ?b = "unat (bytes_per_pixel g)"
  have xb: "Suc (unat x) * ?b \<le> ?p"
    using assms(1,2) by (meson Suc_leI fb_ok_def mult_le_mono1 on_screen_def order_trans)
  then show row: "off + ?b \<le> Suc (unat y) * ?p" by (simp add: off_def)
  have "Suc (unat y) * ?p \<le> unat (fb_height st) * ?p"
    using assms(2) by (intro mult_le_mono1) (simp add: on_screen_def)
  with row assms(1) show lim: "unat (fb_virt st) + off + ?b \<le> 2 ^ 64" by (simp add: fb_ok_def)
  have "0 < ?b" using assms(1) by (simp add: fb_ok_def)
  with lim have small: "unat (fb_virt st) + off < 2 ^ 64" by simp
  then have m: "unat (ucast y * fb_pitch st) = unat y * ?p" "unat (ucast x * bytes_per_pixel g) = unat x * ?b"
    by (simp_all add: unat_word_ariths unat_ucast_u32 off_def)
  then show "unat (pixel_addr st g x y) = unat (fb_virt st) + off"
    using small unfolding pixel_addr_def by (simp add: unat_word_ariths m off_def)
qed

lemma offsets_apart:
  assumes ok: "fb_ok st g" and s: "on_screen st x y" "on_screen st x' y'" and ne: "(x, y) \<noteq> (x', y')"
  shows "unat (pixel_addr st g x y) + unat (bytes_per_pixel g) \<le> unat (pixel_addr st g x' y') \<or>
    unat (pixel_addr st g x' y') + unat (bytes_per_pixel g) \<le> unat (pixel_addr st g x y)"
proof -
  let ?p = "unat (fb_pitch st)" and ?b = "unat (bytes_per_pixel g)"
  note o1 = pixel_offset [OF ok s(1)] and o2 = pixel_offset [OF ok s(2)]
  consider "unat y < unat y'" | "unat y' < unat y" | "y = y'" "unat x < unat x'" | "y = y'" "unat x' < unat x"
    using ne by (metis nat_neq_iff unsigned_word_eqI)
  then show ?thesis
  proof cases
    case 1
    then have "Suc (unat y) * ?p \<le> unat y' * ?p" by (intro mult_le_mono1) simp
    with o1(2) show ?thesis unfolding o1(1) o2(1) by linarith
  next
    case 2
    then have "Suc (unat y') * ?p \<le> unat y * ?p" by (intro mult_le_mono1) simp
    with o2(2) show ?thesis unfolding o1(1) o2(1) by linarith
  next
    case 3
    then have "Suc (unat x) * ?b \<le> unat x' * ?b" by (intro mult_le_mono1) simp
    with 3 show ?thesis unfolding o1(1) o2(1) by simp
  next
    case 4
    then have "Suc (unat x') * ?b \<le> unat x * ?b" by (intro mult_le_mono1) simp
    with 4 show ?thesis unfolding o1(1) o2(1) by simp
  qed
qed

lemma pixels_apart:
  assumes ok: "fb_ok st g" and s: "on_screen st x y" "on_screen st x' y'" and ne: "(x, y) \<noteq> (x', y')"
    and i: "i < unat (bytes_per_pixel g)"
  shows "\<not> unat (pixel_addr st g x' y' + of_nat i - pixel_addr st g x y) < unat (bytes_per_pixel g)"
proof -
  let ?a = "pixel_addr st g x y" and ?c = "pixel_addr st g x' y'" and ?b = "unat (bytes_per_pixel g)"
  have lim: "unat ?a + ?b \<le> 2 ^ 64" "unat ?c + ?b \<le> 2 ^ 64"
    using pixel_offset(1,3) [OF ok s(1)] pixel_offset(1,3) [OF ok s(2)] by simp_all
  have ib: "unat (of_nat i :: u64) = i" using i unat_lt_u64 [of "bytes_per_pixel g"] by (simp add: unat_of_nat)
  then have "unat (?c + of_nat i) = unat ?c + i" using i lim(2) by (subst unat_add_nowrap) simp_all
  with offsets_apart [OF ok s ne] lim i show ?thesis by (auto simp: unat_sub_if')
qed

lemma put_pixel_at:
  assumes ok: "fb_ok st g" and s: "on_screen st a b"
  shows "pixel_at st g (framebuffer_put_pixel st x y c m) a b =
    (if x = a \<and> y = b then pixel_bytes (bytes_per_pixel g) c else pixel_at st g m a b)"
proof (cases "on_screen st x y")
  case False
  have "unat (ucast (fb_width st) :: u32) = unat (fb_width st)" "unat (ucast (fb_height st) :: u32) = unat (fb_height st)"
    using ok by (simp_all add: fb_ok_def unsigned_ucast_eq take_bit_nat_eq_self)
  then have "ucast (fb_width st) \<le> x \<or> ucast (fb_height st) \<le> y"
    using False by (auto simp: on_screen_def word_le_nat_alt)
  with False s ok show ?thesis by (auto simp: framebuffer_put_pixel_def fb_ok_def)
next
  case True
  let ?b = "unat (bytes_per_pixel g)" and ?p = "pixel_bytes (bytes_per_pixel g) c"
  have w: "unat (ucast (fb_width st) :: u32) = unat (fb_width st)" "unat (ucast (fb_height st) :: u32) = unat (fb_height st)"
    using ok by (simp_all add: fb_ok_def unsigned_ucast_eq take_bit_nat_eq_self)
  have "\<not> ucast (fb_width st) \<le> x" "\<not> ucast (fb_height st) \<le> y"
    using True w by (simp_all add: on_screen_def word_le_nat_alt)
  then have "framebuffer_put_pixel st x y c m = store_bytes m (pixel_addr st g x y) ?p"
    using ok by (simp add: framebuffer_put_pixel_def fb_ok_def pixel_addr_def)
  then have m: "framebuffer_put_pixel st x y c m = stored m (pixel_addr st g x y) ?p (min 4 ?b)"
    by (simp add: store_bytes_def store_fold length_pixel_bytes)
  show ?thesis
  proof (cases "x = a \<and> y = b")
    case True
    then have "pixel_at st g (framebuffer_put_pixel st x y c m) a b = map ((!) ?p) [0..<min 4 ?b]"
      unfolding m by (auto simp: pixel_at_def stored_def unat_of_nat)
    then show ?thesis using True length_pixel_bytes [of "bytes_per_pixel g" c] map_nth [of ?p] by simp
  next
    case False
    then have "(x, y) \<noteq> (a, b)" by auto
    from pixels_apart [OF ok True s this] have "pixel_at st g (framebuffer_put_pixel st x y c m) a b = pixel_at st g m a b"
      unfolding m by (auto simp: pixel_at_def stored_def)
    with False show ?thesis by auto
  qed
qed

lemma put_pixels_at:
  assumes "fb_ok st g" "on_screen st a b"
  shows "pixel_at st g (fold (\<lambda>p. framebuffer_put_pixel st (fst p) (snd p) c) ps m) a b =
    (if (a, b) \<in> set ps then pixel_bytes (bytes_per_pixel g) c else pixel_at st g m a b)"
  using assms by (induction ps arbitrary: m) (auto simp: put_pixel_at)

section \<open>Rectangles\<close>

definition rect_points :: "u32 \<Rightarrow> u32 \<Rightarrow> u32 \<Rightarrow> u32 \<Rightarrow> (u32 \<times> u32) list" where
  "rect_points x y w h = concat (map (\<lambda>py. map (\<lambda>px. (x + of_nat px, y + of_nat py)) [0..<unat w]) [0..<unat h])"

lemma draw_rect_points:
  "framebuffer_draw_rect st x y w h c m = fold (\<lambda>p. framebuffer_put_pixel st (fst p) (snd p) c) (rect_points x y w h) m"
proof -
  have "fold (\<lambda>py. fold (\<lambda>px. framebuffer_put_pixel st (x + of_nat px) (y + of_nat py) c) [0..<n]) ys m =
      fold (\<lambda>p. framebuffer_put_pixel st (fst p) (snd p) c)
        (concat (map (\<lambda>py. map (\<lambda>px. (x + of_nat px, y + of_nat py)) [0..<n]) ys)) m" for n ys
    by (induction ys arbitrary: m) (simp_all add: fold_map comp_def)
  then show ?thesis by (simp add: framebuffer_draw_rect_def rect_points_def)
qed

lemma offset_iff:
  fixes a x w :: u32
  shows "(\<exists>i<unat w. a = x + of_nat i) \<longleftrightarrow> unat (a - x) < unat w"
proof
  assume "\<exists>i<unat w. a = x + of_nat i"
  then obtain i where i: "i < unat w" "a = x + of_nat i" by auto
  then have "unat (of_nat i :: u32) = i" using unsigned_less [of w, where 'a = nat] by (simp add: unat_of_nat)
  with i show "unat (a - x) < unat w" by simp
next
  assume "unat (a - x) < unat w"
  then show "\<exists>i<unat w. a = x + of_nat i" by (intro exI [of _ "unat (a - x)"]) simp
qed

lemma rect_points_iff: "(a, b) \<in> set (rect_points x y w h) \<longleftrightarrow> unat (a - x) < unat w \<and> unat (b - y) < unat h"
proof -
  have "(a, b) \<in> set (rect_points x y w h) \<longleftrightarrow> (\<exists>i<unat w. a = x + of_nat i) \<and> (\<exists>j<unat h. b = y + of_nat j)"
    by (force simp: rect_points_def)
  then show ?thesis by (simp add: offset_iff)
qed


definition demo_lfb :: limine_framebuffer where
  "demo_lfb = \<lparr>lf_address = 0xE0000000, lf_width = 640, lf_height = 480, lf_pitch = 2560, lf_bpp = 32\<rparr>"

definition demo_fb :: framebuffer where
  "demo_fb = \<lparr>fb_global = None, fb_width = 0, fb_height = 0, fb_pitch = 0, fb_virt = 0\<rparr>"


end
