(* ===== verification/Kernel.thy ===== *)
theory Kernel
  imports Login Framebuffer Initrd Ports FatFormat
begin

text \<open>
  The start of the kernel, \<^verbatim>\<open>kernel/kernel.cpp\<close>, and the registers of the system call instruction,
  \<^verbatim>\<open>kernel/arch/syscall_init.cpp\<close>. \<open>kernel_main\<close> initialises the components in the order of the code
  and ends in the login. What the linker and the boot loader provide (the constructors, the
  framebuffers, two entry points, the stack pointer) is the record \<open>boot_info\<close>. Log output is
  left out.
\<close>

unbundle bit_operations_syntax

section \<open>The state\<close>

record 'd board =
  b_machine :: "'d machine"
  b_fb :: framebuffer
  b_gdt :: "gdt_entry list"
  b_idt :: "idt_entry list"
  b_msrs :: "(u32 \<times> u32 \<times> u32) list"

record 'd boot_info =
  bi_framebuffers :: "limine_framebuffer list option"
  bi_init_array :: "('d board \<Rightarrow> 'd board) option list"
  bi_isr_common_stub :: u64
  bi_syscall_entry :: u64
  bi_rsp :: u64

section \<open>Model-specific registers\<close>

text \<open>\<open>wrmsr\<close> takes the high and the low half of the value.\<close>

definition write_msr :: "u32 \<Rightarrow> u64 \<Rightarrow> 'd board \<Rightarrow> 'd board" where
  "write_msr msr val b = b\<lparr>b_msrs := b_msrs b @ [(msr, ucast (drop_bit 32 val), ucast (val AND 0xFFFFFFFF))]\<rparr>"

definition init_syscall :: "u64 \<Rightarrow> 'd board \<Rightarrow> 'd board" where
  "init_syscall syscall_entry b =
     (let star = push_bit 32 0x08 OR push_bit 48 0x1B
      in write_msr 0xC0000084 0 (write_msr 0xC0000082 syscall_entry (write_msr 0xC0000081 star b)))"

section \<open>The start\<close>

definition call_constructors :: "('d board \<Rightarrow> 'd board) option list \<Rightarrow> 'd board \<Rightarrow> 'd board" where
  "call_constructors fs b = fold (\<lambda>f b. case f of None \<Rightarrow> b | Some g \<Rightarrow> g b) fs b"

definition start_screen :: "boot_env \<Rightarrow> 'd boot_info \<Rightarrow> 'd board \<Rightarrow> 'd board" where
  "start_screen env B b =
     (case framebuffer_init env (bi_framebuffers B) (b_fb b) of
        ((ok, txt), fb) \<Rightarrow>
          let m = b_machine b;
              m1 = (case txt of None \<Rightarrow> m | Some s \<Rightarrow> out s m);
              m2 = (if ok then m1\<lparr>mk := (mk m1)\<lparr>k_tty := clear_screen (k_tty (mk m1))\<rparr>\<rparr> else m1)
          in b\<lparr>b_fb := fb, b_machine := m2\<rparr>)"

definition core_init :: "boot_env \<Rightarrow> 'd boot_info \<Rightarrow> 'd board \<Rightarrow> 'd board" where
  "core_init env B b =
     (let b1 = init_syscall (bi_syscall_entry B)
            (b\<lparr>b_gdt := gdt_install (b_gdt b), b_idt := idt_install (bi_isr_common_stub B) (b_idt b)\<rparr>);
          m = b_machine b1
      in b1\<lparr>b_machine := m\<lparr>mk := (mk m)\<lparr>km_heap := heap_init env 1048576 (km_heap (mk m))\<rparr>,
                           m_kbd := keyboard_init (m_kbd m)\<rparr>\<rparr>)"

text \<open>The modules as the code that unpacks the boot archive sees them: their addresses are used as
  they are.\<close>

definition initrd_modules :: "'d machine \<Rightarrow> (string option \<times> byte list option) list option" where
  "initrd_modules m =
     map_option (map (\<lambda>md. (mod_path md, if mod_address md = 0 then None
        else Some (bytes_in (k_mem (mk m)) (mod_address md) (unat (mod_size md)))))) (m_modules m)"

definition fs_init :: "'d hw \<Rightarrow> 'd machine \<Rightarrow> 'd machine option" where
  "fs_init E m = do {
     (rc, m1) \<leftarrow> on_kernel (with_fs (on_fs (init_from_module (fat_hw E) (initrd_modules m) (Some ''initrd.tar'')))) m;
     (u, m2) \<leftarrow> on_kernel (with_fs (\<lambda>v. map_option (Pair ()) (vfs_boot (fat_hw E) v))) m1;
     (r1, m3) \<leftarrow> on_kernel (with_fs (vfs_list_dir (fat_hw E) (m_other E m2) (Some ''/''))) m2;
     (r2, m4) \<leftarrow> on_kernel (with_fs (vfs_list_dir (fat_hw E) (m_other E m3) (Some ''/bin''))) m3;
     Some m4
   }"

definition kernel_init :: "'d hw \<Rightarrow> 'd login_env \<Rightarrow> 'd boot_info \<Rightarrow> 'd board \<Rightarrow> 'd board option" where
  "kernel_init E L B b = do {
     let b1 = core_init (hw_boot E) B (call_constructors (bi_init_array B) (start_screen (hw_boot E) B b));
     m \<leftarrow> fs_init E (b_machine b1);
     k \<leftarrow> init_scheduler (sh_sched (lg_shell L)) (bi_rsp B) (mk m);
     Some (b1\<lparr>b_machine := m\<lparr>mk := k\<rparr>\<rparr>)
   }"

text \<open>The login does not come back: it halts the machine after the third failure. The statements
  behind its call are never reached.\<close>

definition kernel_main :: "'d hw \<Rightarrow> 'd login_env \<Rightarrow> 'd boot_info \<Rightarrow> 'd board \<Rightarrow> 'd board option" where
  "kernel_main E L B b = do {
     b1 \<leftarrow> kernel_init E L B b;
     m \<leftarrow> login_main E L (b_machine b1);
     Some (b1\<lparr>b_machine := m\<rparr>)
   }"

section \<open>Steps of the start\<close>

lemma on_kernel_fs:
  assumes "f ((k_vfs (mk m))\<lparr>vf_fs := kernel_fs (mk m)\<rparr>) = Some (r, v)"
  obtains m' where "on_kernel (with_fs f) m = Some (r, m')" "k_vfs (mk m') = v" "kernel_fs (mk m') = vf_fs v"
    "next_pid (mk m') = next_pid (mk m)"
proof (rule that)
  show "on_kernel (with_fs f) m = Some (r, m\<lparr>mk := (mk m)\<lparr>k_vfs := v, km_heap := hf_heap (vf_fs v)\<rparr>\<rparr>)"
    using assms by (simp add: on_kernel_def with_fs_def)
qed (simp_all add: kernel_fs_def)

lemma no_boot_mount: "boot_mounts st \<Longrightarrow> find_mount ''/'' st = None" "boot_mounts st \<Longrightarrow> find_mount ''/bin'' st = None"
  by (auto simp: boot_mounts_def find_mount_def mount_matches_def mount_pair_def List.map_filter_simps take_Suc_conv_app_nth
      numeral_2_eq_2 c_at_def slash_def)

lemma init_scheduler_vfs:
  "init_scheduler se r (k :: 'd kernel) = Some k' \<Longrightarrow> k_vfs k' = k_vfs k \<and> k_tty k' = k_tty k"
  by (auto simp: init_scheduler_def km_alloc_def upd_task_def bind_eq_Some_conv Let_def)

lemma boot_mounts_fs [simp]: "boot_mounts (st\<lparr>vf_fs := fs\<rparr>) = boot_mounts st"
  by (simp add: boot_mounts_def)

lemma boot_list_ok:
  assumes inv: "hf_inv (fat_hw E) S pay (kernel_fs (mk m))" and b: "boot_mounts (k_vfs (mk m))"
    and p: "path = ''/'' \<or> path = ''/bin''" and S: "room_cost (length path + 3) \<le> S"
  obtains r m' where "on_kernel (with_fs (vfs_list_dir (fat_hw E) X (Some path))) m = Some (r, m')"
    "boot_mounts (k_vfs (mk m'))" "next_pid (mk m') = next_pid (mk m)"
    "entries (kernel_fs (mk m')) = entries (kernel_fs (mk m))"
    "hf_inv (fat_hw E) (S - room_cost (length path + 3)) pay (kernel_fs (mk m'))"
proof -
  let ?w = "(k_vfs (mk m))\<lparr>vf_fs := kernel_fs (mk m)\<rparr>"
  have w: "hf_inv (fat_hw E) S pay (vf_fs ?w)" "find_mount path ?w = None" using inv b p by (auto simp: no_boot_mount)
  obtain names fs where l: "vfs_list_dir (fat_hw E) X (Some path) ?w = Some ((0, names), ?w\<lparr>vf_fs := fs\<rparr>)"
    "entries fs = entries (vf_fs ?w)" "hf_inv (fat_hw E) (S - room_cost (length path + 3)) pay fs"
    by (rule vfs_list_unmounted [OF w S])
  obtain m' where m': "on_kernel (with_fs (vfs_list_dir (fat_hw E) X (Some path))) m = Some ((0, names), m')"
    "k_vfs (mk m') = ?w\<lparr>vf_fs := fs\<rparr>" "kernel_fs (mk m') = vf_fs (?w\<lparr>vf_fs := fs\<rparr>)" "next_pid (mk m') = next_pid (mk m)"
    by (rule on_kernel_fs [where f = "vfs_list_dir (fat_hw E) X (Some path)" and m = m, OF l(1)])
  show ?thesis by (rule that [OF m'(1) _ m'(4)]) (use m'(2,3) l(2,3) b in simp_all)
qed

lemma boot_vfs_ok:
  assumes inv: "hf_inv E S pay (kernel_fs (mk m))" and mo: "mounts (k_vfs (mk m)) = replicate 16 no_mount"
    and S: "room_cost 6 + room_cost 5 \<le> S"
  obtains m' where "on_kernel (with_fs (\<lambda>v. map_option (Pair ()) (vfs_boot E v))) m = Some ((), m')"
    "boot_mounts (k_vfs (mk m'))" "next_pid (mk m') = next_pid (mk m)"
    "entries (kernel_fs (mk m')) = entries (kernel_fs (mk m))"
    "hf_inv E (S - room_cost 6 - room_cost 5) pay (kernel_fs (mk m'))"
proof -
  let ?w = "(k_vfs (mk m))\<lparr>vf_fs := kernel_fs (mk m)\<rparr>"
  have w: "hf_inv E S pay (vf_fs ?w)" "mounts ?w = replicate 16 no_mount" using inv mo by simp_all
  obtain v where v: "vfs_boot E ?w = Some v" "boot_mounts v" "hf_inv E (S - room_cost 6 - room_cost 5) pay (vf_fs v)"
    "entries (vf_fs v) = entries (vf_fs ?w)"
    by (rule vfs_boot_ok [OF w S])
  have "(\<lambda>v. map_option (Pair ()) (vfs_boot E v)) ?w = Some ((), v)" using v(1) by simp
  then obtain m' where m': "on_kernel (with_fs (\<lambda>v. map_option (Pair ()) (vfs_boot E v))) m = Some ((), m')"
    "k_vfs (mk m') = v" "kernel_fs (mk m') = vf_fs v" "next_pid (mk m') = next_pid (mk m)"
    by (rule on_kernel_fs)
  show ?thesis by (rule that [OF m'(1) _ m'(4)]) (use m'(2,3) v(2-4) in simp_all)
qed

text \<open>The calls into HanaFS that unpacking an archive comes to.\<close>

definition boot_calls :: "titem list \<Rightarrow> fs_call list" where
  "boot_calls its = concat (map item_calls its)"

lemma boot_archive_ok:
  assumes inv: "hf_inv E S 0 (kernel_fs (mk m))" and e: "entries (vf_fs (k_vfs (mk m))) = []"
    and S: "calls_cost 0 (boot_calls its) \<le> S" and its: "\<forall>it\<in>set its. item_ok it"
    and mods: "mods = Some mds" "find_module ''initrd.tar'' mds = Some (Some (Some (archive its)))"
  obtains m' where "on_kernel (with_fs (on_fs (init_from_module E mods (Some ''initrd.tar'')))) m = Some (0, m')"
    "mounts (k_vfs (mk m')) = mounts (k_vfs (mk m))" "next_pid (mk m') = next_pid (mk m)"
    "hana_map (entries (kernel_fs (mk m'))) = snd (spec_calls (boot_calls its) Map.empty)"
    "hf_inv E (S - calls_cost 0 (boot_calls its)) (sum_list (map call_bytes (boot_calls its))) (kernel_fs (mk m'))"
proof -
  have e0: "hana_map (entries (kernel_fs (mk m))) = Map.empty" using e by (simp add: kernel_fs_def hana_map_def)
  obtain fs where f: "init_from_memory E (Some (archive its)) (kernel_fs (mk m)) = Some (0, fs)"
    "hana_map (entries fs) = snd (spec_calls (boot_calls its) Map.empty)"
    "hf_inv E (S - calls_cost 0 (boot_calls its)) (sum_list (map call_bytes (boot_calls its))) fs"
    using init_from_memory_ok [OF inv its S [unfolded boot_calls_def]] unfolding e0 boot_calls_def by auto
  let ?v = "(k_vfs (mk m))\<lparr>vf_fs := fs\<rparr>"
  have "on_fs (init_from_module E mods (Some ''initrd.tar'')) ((k_vfs (mk m))\<lparr>vf_fs := kernel_fs (mk m)\<rparr>) = Some (0, ?v)"
    using f(1) by (simp add: on_fs_def init_from_module_def mods)
  then obtain m' where m': "on_kernel (with_fs (on_fs (init_from_module E mods (Some ''initrd.tar'')))) m = Some (0, m')"
    "k_vfs (mk m') = ?v" "kernel_fs (mk m') = vf_fs ?v" "next_pid (mk m') = next_pid (mk m)"
    by (rule on_kernel_fs)
  show ?thesis by (rule that [OF m'(1) _ m'(4)]) (use m'(2,3) f(2,3) in simp_all)
qed

definition boot_cost :: "titem list \<Rightarrow> nat" where
  "boot_cost its = calls_cost 0 (boot_calls its) + room_cost 6 + room_cost 5 + room_cost 4 + room_cost 7"

lemma fs_init_ok:
  assumes inv: "hf_inv (fat_hw E) S 0 (kernel_fs (mk m))" and e: "entries (vf_fs (k_vfs (mk m))) = []"
    and mo: "mounts (k_vfs (mk m)) = replicate 16 no_mount" and S: "boot_cost its \<le> S"
    and its: "\<forall>it\<in>set its. item_ok it"
    and mods: "initrd_modules m = Some mds" "find_module ''initrd.tar'' mds = Some (Some (Some (archive its)))"
  obtains m' where "fs_init E m = Some m'" "boot_mounts (k_vfs (mk m'))" "next_pid (mk m') = next_pid (mk m)"
    "hana_map (entries (kernel_fs (mk m'))) = snd (spec_calls (boot_calls its) Map.empty)"
    "hf_inv (fat_hw E) (S - boot_cost its) (sum_list (map call_bytes (boot_calls its))) (kernel_fs (mk m'))"
proof -
  have S0: "calls_cost 0 (boot_calls its) \<le> S" using S by (simp add: boot_cost_def)
  obtain m1 where m1: "on_kernel (with_fs (on_fs (init_from_module (fat_hw E) (initrd_modules m) (Some ''initrd.tar'')))) m = Some (0, m1)"
    "mounts (k_vfs (mk m1)) = mounts (k_vfs (mk m))" "next_pid (mk m1) = next_pid (mk m)"
    "hana_map (entries (kernel_fs (mk m1))) = snd (spec_calls (boot_calls its) Map.empty)"
    "hf_inv (fat_hw E) (S - calls_cost 0 (boot_calls its)) (sum_list (map call_bytes (boot_calls its))) (kernel_fs (mk m1))"
    by (rule boot_archive_ok [OF inv e S0 its mods])
  have c1: "mounts (k_vfs (mk m1)) = replicate 16 no_mount" "room_cost 6 + room_cost 5 \<le> S - calls_cost 0 (boot_calls its)"
    using m1(2) mo S by (simp_all add: boot_cost_def)
  obtain m2 where m2: "on_kernel (with_fs (\<lambda>v. map_option (Pair ()) (vfs_boot (fat_hw E) v))) m1 = Some ((), m2)"
    "boot_mounts (k_vfs (mk m2))" "next_pid (mk m2) = next_pid (mk m1)" "entries (kernel_fs (mk m2)) = entries (kernel_fs (mk m1))"
    "hf_inv (fat_hw E) (S - calls_cost 0 (boot_calls its) - room_cost 6 - room_cost 5) (sum_list (map call_bytes (boot_calls its))) (kernel_fs (mk m2))"
    by (rule boot_vfs_ok [OF m1(5) c1])
  have c2: "room_cost (length ''/'' + 3) \<le> S - calls_cost 0 (boot_calls its) - room_cost 6 - room_cost 5"
    using S by (simp add: boot_cost_def)
  obtain r1 m3 where m3: "on_kernel (with_fs (vfs_list_dir (fat_hw E) (m_other E m2) (Some ''/''))) m2 = Some (r1, m3)"
    "boot_mounts (k_vfs (mk m3))" "next_pid (mk m3) = next_pid (mk m2)" "entries (kernel_fs (mk m3)) = entries (kernel_fs (mk m2))"
    "hf_inv (fat_hw E) (S - calls_cost 0 (boot_calls its) - room_cost 6 - room_cost 5 - room_cost (length ''/'' + 3))
       (sum_list (map call_bytes (boot_calls its))) (kernel_fs (mk m3))"
    by (rule boot_list_ok [OF m2(5,2) _ c2]) simp
  have c3: "room_cost (length ''/bin'' + 3) \<le> S - calls_cost 0 (boot_calls its) - room_cost 6 - room_cost 5 - room_cost (length ''/'' + 3)"
    using S by (simp add: boot_cost_def)
  obtain r2 m4 where m4: "on_kernel (with_fs (vfs_list_dir (fat_hw E) (m_other E m3) (Some ''/bin''))) m3 = Some (r2, m4)"
    "boot_mounts (k_vfs (mk m4))" "next_pid (mk m4) = next_pid (mk m3)" "entries (kernel_fs (mk m4)) = entries (kernel_fs (mk m3))"
    "hf_inv (fat_hw E) (S - calls_cost 0 (boot_calls its) - room_cost 6 - room_cost 5 - room_cost (length ''/'' + 3) - room_cost (length ''/bin'' + 3))
       (sum_list (map call_bytes (boot_calls its))) (kernel_fs (mk m4))"
    by (rule boot_list_ok [OF m3(5,2) _ c3]) simp
  have "fs_init E m = Some m4" unfolding fs_init_def m1(1) by (simp add: m2(1) m3(1) m4(1))
  then show ?thesis
    by (rule that [OF _ m4(2)]) (use m1(3,4) m2(3,4) m3(3,4) m4(3-5) in \<open>simp_all add: boot_cost_def\<close>)
qed

lemma constructors_id: "\<forall>g. Some g \<in> set fs \<longrightarrow> (\<forall>b. g b = b) \<Longrightarrow> call_constructors fs b = b"
  unfolding call_constructors_def
proof (induction fs arbitrary: b)
  case (Cons f fs)
  then show ?case by (cases f) simp_all
qed simp

lemma start_screen_keeps:
  shows "km_heap (mk (b_machine (start_screen env B b))) = km_heap (mk (b_machine b))"
    "k_vfs (mk (b_machine (start_screen env B b))) = k_vfs (mk (b_machine b))"
    "next_pid (mk (b_machine (start_screen env B b))) = next_pid (mk (b_machine b))"
    "initrd_modules (b_machine (start_screen env B b)) = initrd_modules (b_machine b)"
    "b_msrs (start_screen env B b) = b_msrs b" "b_gdt (start_screen env B b) = b_gdt b"
  by (simp_all add: start_screen_def out_def initrd_modules_def Let_def split: prod.splits option.splits cong: if_cong)

lemma core_init_effect:
  shows "km_heap (mk (b_machine (core_init env B b))) = heap_init env 1048576 (km_heap (mk (b_machine b)))"
    "k_vfs (mk (b_machine (core_init env B b))) = k_vfs (mk (b_machine b))"
    "next_pid (mk (b_machine (core_init env B b))) = next_pid (mk (b_machine b))"
    "initrd_modules (b_machine (core_init env B b)) = initrd_modules (b_machine b)"
    "b_gdt (core_init env B b) = gdt_install (b_gdt b)"
    "b_msrs (core_init env B b) = b_msrs b @ [(0xC0000081, 0x1B0008, 0),
       (0xC0000082, ucast (drop_bit 32 (bi_syscall_entry B)), ucast (bi_syscall_entry B AND 0xFFFFFFFF)), (0xC0000084, 0, 0)]"
  by (simp_all add: core_init_def init_syscall_def write_msr_def initrd_modules_def Let_def cong: if_cong)

text \<open>The first task is one more block beside those of the file system.\<close>

lemma init_scheduler_fs:
  assumes inv: "hf_inv E S pay (kernel_fs k)" and S: "room_cost sizeof_Task \<le> S" and se: "se_boot se = hw_boot E"
  obtains t k' where "init_scheduler se rsp_val k = Some k'" "k_vfs k' = k_vfs k"
    "ring (sc_tasks k') [t]" "task_list k' = t" "current_task k' = t" "pid (sc_tasks k' t) = next_pid k"
    "t_state (sc_tasks k' t) = TASK_RUNNING" "t_rsp (sc_tasks k' t) = rsp_val"
    "hf_inv E (S - room_cost sizeof_Task) pay (kernel_fs k')"
proof -
  obtain A where A: "heap_room (se_boot se) S A (km_heap k)" "0 \<notin> A" "entries_ok A (entries (vf_fs (k_vfs k)))"
    "payload_len (entries (vf_fs (k_vfs k))) \<le> pay"
    using inv by (auto simp: hf_inv_def hf_room_def kernel_fs_def se)
  have hs: "heap_start (km_heap k) \<noteq> 0" using A(1) by (simp add: heap_room_def)
  obtain t k' where i: "init_scheduler se rsp_val k = Some k'" "sc_inv se (S - room_cost sizeof_Task) (insert t A) [t] k'"
    "current_task k' = t" "pid (sc_tasks k' t) = next_pid k" "t_state (sc_tasks k' t) = TASK_RUNNING" "t_rsp (sc_tasks k' t) = rsp_val"
    by (rule init_scheduler_ring [OF A(1,2) hs S])
  have v: "k_vfs k' = k_vfs k" using init_scheduler_vfs [OF i(1)] by simp
  have "hf_inv E (S - room_cost sizeof_Task) pay (kernel_fs k')"
    unfolding hf_inv_def hf_room_def kernel_fs_def v
    using i(2) A(4) entries_ok_mono [OF A(3) subset_insertI] by (intro conjI exI [of _ "insert t A"]) (simp_all add: sc_inv_def se)
  with i v show ?thesis by (intro that [of k' t]) (simp_all add: sc_inv_def)
qed

section \<open>A concrete system\<close>

definition demo_items :: "titem list" where
  "demo_items = [TDir ''bin'', TFile ''bin/sh'' [1, 2, 3]]"

definition demo_board :: "ata ide board" where
  "demo_board = \<lparr>b_machine = \<lparr>mk = \<lparr>km_heap = heap_boot, km_fdt = \<lambda>_. [], sc_tasks = \<lambda>_. task_zero, sc_words = \<lambda>_. 0, task_list = 0,
       current_task = 0, next_pid = 1, k_vfs = \<lparr>vf_fs = demo_fat_fs, mounts = replicate 16 no_mount, mount_count = 0\<rparr>,
       k_tty = tty_boot, k_pipes = \<lambda>_. \<lparr>pi_buf_ptr = 0, pi_buf = [], pi_cap = 0, pi_rpos = 0, pi_wpos = 0, pi_refs = 0\<rparr>,
       k_mem = \<lambda>a. archive demo_items ! unat (a - 0x400000), k_stats = \<lambda>_. \<lparr>st_size = 0, st_nlink = 0, st_mode = 0\<rparr>\<rparr>,
       m_users = users_boot, m_kbd = kbd_boot, m_cwd = ''/'',
       m_modules = Some [\<lparr>mod_path = Some ''/boot/initrd.tar'', mod_address = 0x400000, mod_size = of_nat (length (archive demo_items))\<rparr>]\<rparr>,
     b_fb = \<lparr>fb_global = None, fb_width = 0, fb_height = 0, fb_pitch = 0, fb_virt = 0\<rparr>, b_gdt = replicate 5 (set_gdt_entry 0 0 0 0),
     b_idt = replicate 256 (set_idt_entry 0 0 0), b_msrs = []\<rparr>"

definition demo_info :: "ata ide boot_info" where
  "demo_info = \<lparr>bi_framebuffers = None, bi_init_array = [None], bi_isr_common_stub = 0x1000, bi_syscall_entry = 0x2000, bi_rsp = 0x9000\<rparr>"

definition demo_login :: "ata ide login_env" where
  "demo_login = \<lparr>lg_run = \<lambda>_ _. None, lg_others = id, lg_shell = demo_shell\<rparr>"

lemma bytes_in_list: "length bs < 2 ^ 64 \<Longrightarrow> bytes_in (\<lambda>a. bs ! unat (a - base)) base (length bs) = bs"
  by (rule nth_equalityI) (simp_all add: bytes_in_def unat_of_nat)

section \<open>Properties\<close>



end
