(* ===== verification/Logger.thy ===== *)
theory Logger
  imports Tty Libc
begin

text \<open>
  The log lines of \<^verbatim>\<open>kernel/utils/logger.cpp\<close>: a colour, the tag with the formatted message cut
  to the buffer of 512 bytes, and the colour reset with a newline, each printed on the console.
  \<open>None\<close> is a format that does not fit its arguments, as in \<open>vsnprintf\<close>.
\<close>

definition ansi :: "string \<Rightarrow> string" where
  "ansi code = CHR 0x1B # CHR ''['' # code @ ''m''"

definition ANSI_RESET :: string where "ANSI_RESET = ansi ''0''"
definition ANSI_GREEN :: string where "ANSI_GREEN = ansi ''32''"
definition ANSI_RED :: string where "ANSI_RED = ansi ''31''"
definition ANSI_CYAN :: string where "ANSI_CYAN = ansi ''36''"
definition ANSI_MAGENTA :: string where "ANSI_MAGENTA = ansi ''35''"
definition ANSI_GRAY :: string where "ANSI_GRAY = ansi ''90''"

text \<open>The tag and the space in front of the message.\<close>

definition log_tag :: "string \<Rightarrow> string" where
  "log_tag tag = (let b = take 511 tag in if length b + 1 < 512 then b @ '' '' else b)"

definition print_colorv :: "string \<Rightarrow> string \<Rightarrow> string \<Rightarrow> va_arg list \<Rightarrow> tty_state \<Rightarrow> tty_state option" where
  "print_colorv color tag fmt args st = do {
     (written, txt) \<leftarrow> vsnprintf (512 - length (log_tag tag)) fmt args;
     Some (print (ANSI_RESET @ ''\<newline>'') (print (log_tag tag @ (case txt of Some s \<Rightarrow> s | None \<Rightarrow> [])) (print color st)))
   }"

definition log_ok :: "string \<Rightarrow> va_arg list \<Rightarrow> tty_state \<Rightarrow> tty_state option" where
  "log_ok fmt args st = print_colorv ANSI_GREEN ''[OK]'' fmt args st"

definition log_fail :: "string \<Rightarrow> va_arg list \<Rightarrow> tty_state \<Rightarrow> tty_state option" where
  "log_fail fmt args st = print_colorv ANSI_RED ''[FAIL]'' fmt args st"

definition log_info :: "string \<Rightarrow> va_arg list \<Rightarrow> tty_state \<Rightarrow> tty_state option" where
  "log_info fmt args st = print_colorv ANSI_CYAN ''[INFO]'' fmt args st"

definition log_debug :: "string \<Rightarrow> va_arg list \<Rightarrow> tty_state \<Rightarrow> tty_state option" where
  "log_debug fmt args st = print_colorv ANSI_GRAY ''[DEBUG]'' fmt args st"

text \<open>A null label is the empty string.\<close>

definition log_hex64 :: "string option \<Rightarrow> u64 \<Rightarrow> tty_state \<Rightarrow> tty_state option" where
  "log_hex64 label v st = do {
     (_, txt) \<leftarrow> vsnprintf 64 ''%s0x%016llX'' [VStr (case label of None \<Rightarrow> [] | Some l \<Rightarrow> l), VWord v];
     Some (print (ANSI_RESET @ ''\<newline>'') (print (case txt of Some s \<Rightarrow> s | None \<Rightarrow> []) (print ANSI_MAGENTA st)))
   }"

section \<open>What is printed\<close>

lemma vsprintf_plain: "CHR ''%'' \<notin> set fmt \<Longrightarrow> vsprintf fmt args = Some fmt"
  by (induction fmt) auto

text \<open>A message without conversions comes out as it is, up to the size of the buffer.\<close>

lemma log_info_plain:
  assumes "CHR ''%'' \<notin> set msg" "length msg < 1024"
  shows "log_info msg args st = Some (st\<lparr>console := console st @
     [Print ANSI_CYAN, Print (''[INFO] '' @ take 504 msg), Print (ANSI_RESET @ ''\<newline>'')]\<rparr>)"
  using assms by (auto simp: log_info_def print_colorv_def log_tag_def vsnprintf_def vsprintf_plain print_def)

text \<open>The formatter knows no field width, so the conversion \<open>%016llX\<close> is printed as text and
  the value is never shown.\<close>

lemma log_hex64_ignores_value:
  assumes "length l < 1000"
  shows "log_hex64 (Some l) v st = Some (st\<lparr>console := console st @
     [Print ANSI_MAGENTA, Print (take 63 (l @ ''0x%016llX'')), Print (ANSI_RESET @ ''\<newline>'')]\<rparr>)"
proof -
  have "vsprintf ''%s0x%016llX'' [VStr l, VWord v] = Some (l @ ''0x%016llX'')"
    by (simp add: fmt_mod_def fmt_conv_def)
  then show ?thesis
    using assms by (auto simp: log_hex64_def vsnprintf_def Let_def print_def)
qed

end
