(* ===== verification/Screen.thy ===== *)
theory Screen
  imports Framebuffer Logger
begin

text \<open>
  The console, \<^verbatim>\<open>kernel/drivers/screen.cpp\<close>: it starts the third-party terminal Flanterm on the
  framebuffer and sends text to it, or to the debug port before that, and paints rectangles.
  The calls of Flanterm are recorded as a list; whether its initialisation succeeds is an
  argument. The drawing routines work on the memory of the machine, and an \<open>int\<close> that overflows
  is \<open>None\<close>.
\<close>

record screen_framebuffer = limine_framebuffer +
  red_mask :: "u8 \<times> u8"
  green_mask :: "u8 \<times> u8"
  blue_mask :: "u8 \<times> u8"

datatype flanterm_call =
    Ft_fb_init u64 u64 u64 u64 "u8 list"
  | Ft_write string
  | Ft_full_refresh
  | Ft_flush

record screen =
  term_on :: bool
  debug_port :: string
  ft_calls :: "flanterm_call list"
  sc_fb_ptr :: u64
  sc_fb_width :: u64
  sc_fb_height :: u64
  sc_fb_pitch :: u64

section \<open>The debug port\<close>

definition debug_putchar :: "char \<Rightarrow> screen \<Rightarrow> screen" where
  "debug_putchar c st = st\<lparr>debug_port := debug_port st @ [c]\<rparr>"

definition debug_puts :: "string option \<Rightarrow> screen \<Rightarrow> screen" where
  "debug_puts s st = (case s of None \<Rightarrow> st | Some t \<Rightarrow> fold debug_putchar t st)"

definition debug_puthex64 :: "u64 \<Rightarrow> screen \<Rightarrow> screen" where
  "debug_puthex64 v st =
     fold (\<lambda>i. debug_putchar (''0123456789ABCDEF'' ! unat (drop_bit (i * 4) v AND 0xF))) (rev [0..<16])
       (debug_putchar (CHR ''x'') (debug_putchar (CHR ''0'') st))"

definition debug_putln_hex64 :: "string \<Rightarrow> u64 \<Rightarrow> screen \<Rightarrow> screen" where
  "debug_putln_hex64 label v st = debug_puts (Some ''\<newline>'') (debug_puthex64 v (debug_puts (Some label) st))"

section \<open>Text\<close>

definition ft :: "flanterm_call \<Rightarrow> screen \<Rightarrow> screen" where
  "ft c st = st\<lparr>ft_calls := ft_calls st @ [c]\<rparr>"

definition screen_print :: "string option \<Rightarrow> screen \<Rightarrow> screen" where
  "screen_print str st =
     (case str of
        None \<Rightarrow> st
      | Some s \<Rightarrow>
          if \<not> term_on st then debug_puts (Some s) (debug_puts (Some ''TERM_NOT_INIT:'') st)
          else ft (Ft_write s) st)"

definition print_fmt :: "string \<Rightarrow> va_arg list \<Rightarrow> screen \<Rightarrow> screen option" where
  "print_fmt fmt args st = do { (_, txt) \<leftarrow> vsnprintf 512 fmt args; Some (screen_print txt st) }"

text \<open>The warning sign, the check mark and the cross in front of some messages.\<close>

definition sign :: "char \<Rightarrow> char \<Rightarrow> string" where
  "sign a b = [CHR 0xE2, a, b, CHR '' '']"

definition fb_lines :: "(string \<times> u64) list \<Rightarrow> screen \<Rightarrow> screen" where
  "fb_lines ls st = fold (\<lambda>(label, v). debug_putln_hex64 label v) ls st"

definition mask_lines :: "screen_framebuffer \<Rightarrow> (string \<times> u64) list" where
  "mask_lines fb =
     [(''red_mask_size:    '', ucast (fst (red_mask fb))), (''red_mask_shift:   '', ucast (snd (red_mask fb))),
      (''green_mask_size:  '', ucast (fst (green_mask fb))), (''green_mask_shift: '', ucast (snd (green_mask fb))),
      (''blue_mask_size:   '', ucast (fst (blue_mask fb))), (''blue_mask_shift:  '', ucast (snd (blue_mask fb)))]"

text \<open>\<open>log_ok\<close> once the terminal is there.\<close>

definition ft_log_ok :: "string \<Rightarrow> screen \<Rightarrow> screen" where
  "ft_log_ok msg st = fold (\<lambda>s. screen_print (Some s)) [ANSI_GREEN, ''[OK] '' @ msg, ANSI_RESET @ ''\<newline>''] st"

text \<open>The first call: \<open>resp\<close> is the answer of the boot loader with its address, each framebuffer with
  the address of its description.\<close>

definition start_terminal ::
  "bool \<Rightarrow> boot_env \<Rightarrow> (u64 \<times> (u64 \<times> screen_framebuffer) list) option \<Rightarrow> screen \<Rightarrow> screen" where
  "start_terminal ft_ok env resp st =
     (let st0 = debug_puts (Some ''=== Flanterm Initialization ===\<newline>'') st;
          none = debug_puts (Some ''Using debug port only.\<newline>'')
            (debug_puts (Some (sign (CHR 0x9A) (CHR 0xA0) @ ''No framebuffer response from Limine - Flanterm unavailable.\<newline>'')) st0)
      in case resp of
           None \<Rightarrow> none
         | Some (rp, fbs) \<Rightarrow>
             (case fbs of
                [] \<Rightarrow> none
              | (fp, fb) # _ \<Rightarrow>
                  let st1 = fb_lines [(''limine_response_ptr: '', rp), (''framebuffer_ptr:    '', fp), (''fb->address:       '', lf_address fb),
                        (''fb->width:         '', lf_width fb), (''fb->height:        '', lf_height fb), (''fb->pitch:         '', lf_pitch fb)]
                        (debug_puts (Some ''Framebuffer found - initializing Flanterm...\<newline>'') st0)
                  in case hhdm_offset env of
                       None \<Rightarrow> debug_puts (Some ''Flanterm will not be initialised. Using debug port only.\<newline>'')
                         (debug_puts (Some (sign (CHR 0x9A) (CHR 0xA0) @ ''No HHDM provided by Limine. Avoiding unsafe physical access.\<newline>'')) st1)
                     | Some off \<Rightarrow>
                         let virt = (if off \<le> lf_address fb then lf_address fb else off + lf_address fb);
                             st2 = fb_lines ([(''hhdm_offset:       '', off), (''fb_virt:           '', virt)] @ mask_lines fb) st1;
                             st3 = (ft (Ft_fb_init virt (lf_width fb) (lf_height fb) (lf_pitch fb)
                                [fst (red_mask fb), snd (red_mask fb), fst (green_mask fb), snd (green_mask fb), fst (blue_mask fb), snd (blue_mask fb)]) st2)
                                \<lparr>term_on := ft_ok\<rparr>
                         in if ft_ok
                            then (ft Ft_flush (ft_log_ok ''Flanterm Terminal Ready!'' (ft Ft_full_refresh
                                   (debug_puts (Some (sign (CHR 0x9C) (CHR 0x93) @ ''Flanterm initialization successful!\<newline>'')) st3))))
                                 \<lparr>sc_fb_ptr := virt, sc_fb_width := lf_width fb, sc_fb_height := lf_height fb, sc_fb_pitch := lf_pitch fb\<rparr>
                            else debug_puts (Some (sign (CHR 0x9C) (CHR 0x97) @ ''Flanterm initialization failed. Using debug port only.\<newline>'')) st3))"

definition screen_clear ::
  "bool \<Rightarrow> boot_env \<Rightarrow> (u64 \<times> (u64 \<times> screen_framebuffer) list) option \<Rightarrow> screen \<Rightarrow> screen" where
  "screen_clear ft_ok env resp st =
     (if \<not> term_on st then start_terminal ft_ok env resp st
      else ft Ft_flush (ft Ft_full_refresh (ft (Ft_write (CHR 0x1B # ''[2J'' @ CHR 0x1B # ''[H'')) st)))"

section \<open>Drawing\<close>

definition screen_put_pixel :: "screen \<Rightarrow> int \<Rightarrow> int \<Rightarrow> u32 \<Rightarrow> mem \<Rightarrow> mem" where
  "screen_put_pixel st x y color m =
     (if sc_fb_ptr st = 0 then m
      else if x < 0 \<or> y < 0 \<or> sc_fb_width st \<le> of_int x \<or> sc_fb_height st \<le> of_int y then m
      else store_bytes m (sc_fb_ptr st + of_int y * sc_fb_pitch st + 4 * of_int x) (bytes32 color))"

primrec put_points :: "screen \<Rightarrow> u32 \<Rightarrow> (int \<times> int) list \<Rightarrow> mem \<Rightarrow> mem option" where
  "put_points st color [] m = Some m"
| "put_points st color (p # ps) m =
     (if \<not> int_range (fst p) \<or> \<not> int_range (snd p) then None
      else put_points st color ps (screen_put_pixel st (fst p) (snd p) color m))"

definition screen_fill_rect :: "screen \<Rightarrow> int \<Rightarrow> int \<Rightarrow> int \<Rightarrow> int \<Rightarrow> u32 \<Rightarrow> mem \<Rightarrow> mem option" where
  "screen_fill_rect st x y w h color m =
     put_points st color (concat (map (\<lambda>yy. map (\<lambda>xx. (x + xx, y + yy)) [0..w - 1]) [0..h - 1])) m"

definition screen_draw_rect :: "screen \<Rightarrow> int \<Rightarrow> int \<Rightarrow> int \<Rightarrow> int \<Rightarrow> u32 \<Rightarrow> mem \<Rightarrow> mem option" where
  "screen_draw_rect st x y w h color m =
     put_points st color
       (concat (map (\<lambda>xx. [(x + xx, y), (x + xx, y + h - 1)]) [0..w - 1]) @
        concat (map (\<lambda>yy. [(x, y + yy), (x + w - 1, y + yy)]) [0..h - 1])) m"

section \<open>Numbers\<close>

text \<open>The swap loop of \<open>reverse_str\<close>.\<close>

definition reverse_str :: "string \<Rightarrow> string" where
  "reverse_str s = fold (\<lambda>i t. t[i := t ! (length s - 1 - i), length s - 1 - i := t ! i]) [0..<length s div 2] s"

text \<open>The digits in the order the loop produces them; a base of zero divides by zero, a base of
  one never ends, and with a base above 16 the table of digits is too short.\<close>

function uint_digits :: "string \<Rightarrow> nat \<Rightarrow> nat \<Rightarrow> string" where
  "uint_digits digits base v =
     (if v = 0 \<or> base < 2 then [] else digits ! (v mod base) # uint_digits digits base (v div base))"
  by pat_completeness auto
termination
  by (relation "measure (\<lambda>(digits, base, v). v)") auto

definition uint_to_str :: "u64 \<Rightarrow> nat \<Rightarrow> bool \<Rightarrow> string option" where
  "uint_to_str v base uppercase =
     (let digits = (if uppercase then ''0123456789ABCDEF'' else ''0123456789abcdef'')
      in if v = 0 then Some (reverse_str ''0'')
         else if base < 2 \<or> 16 < base then None
         else Some (reverse_str (uint_digits digits base (unat v))))"

declare uint_digits.simps [simp del]

lemma reverse_step:
  assumes "k \<le> length s div 2"
  shows "length (fold (\<lambda>i t. t[i := t ! (length s - 1 - i), length s - 1 - i := t ! i]) [0..<k] s) = length s \<and>
    (\<forall>j<length s. fold (\<lambda>i t. t[i := t ! (length s - 1 - i), length s - 1 - i := t ! i]) [0..<k] s ! j =
      (if j < k \<or> length s - k \<le> j then s ! (length s - 1 - j) else s ! j))"
  using assms
proof (induction k)
  case (Suc k)
  let ?f = "fold (\<lambda>i t. t[i := t ! (length s - 1 - i), length s - 1 - i := t ! i]) [0..<k] s"
  have k: "k < length s" "length s - 1 - k < length s" "k \<noteq> length s - 1 - k" using Suc.prems by auto
  have IH: "length ?f = length s" "\<And>j. j < length s \<Longrightarrow> ?f ! j =
      (if j < k \<or> length s - k \<le> j then s ! (length s - 1 - j) else s ! j)"
    using Suc by auto
  let ?g = "?f[k := ?f ! (length s - 1 - k), length s - 1 - k := ?f ! k]"
  have mid: "?f ! k = s ! k" "?f ! (length s - 1 - k) = s ! (length s - 1 - k)"
    using IH(2) [OF k(1)] IH(2) [OF k(2)] Suc.prems by auto
  have "?g ! j = (if j < Suc k \<or> length s - Suc k \<le> j then s ! (length s - 1 - j) else s ! j)" if j: "j < length s" for j
  proof -
    consider "j = k" | "j = length s - 1 - k" | "j \<noteq> k" "j \<noteq> length s - 1 - k" by blast
    then show ?thesis
    proof cases
      case 1
      then show ?thesis using k IH(1) mid by (simp add: nth_list_update)
    next
      case 2
      moreover have "length s - 1 - (length s - 1 - k) = k" "length s - Suc k \<le> length s - 1 - k" using k(1) by simp_all
      ultimately show ?thesis using k IH(1) mid by (simp add: nth_list_update)
    next
      case 3
      then have "?g ! j = ?f ! j" by simp
      moreover have "j < Suc k \<longleftrightarrow> j < k" "length s - Suc k \<le> j \<longleftrightarrow> length s - k \<le> j" using 3 k j by linarith+
      ultimately show ?thesis using IH(2) [OF j] by simp
    qed
  qed
  then show ?case using IH(1) by simp
qed auto

lemma reverse_str_rev: "reverse_str s = rev s"
proof (rule nth_equalityI)
  show "length (reverse_str s) = length (rev s)"
    using reverse_step [of "length s div 2" s] by (simp add: reverse_str_def)
  fix j
  assume "j < length (reverse_str s)"
  then have j: "j < length s" using reverse_step [of "length s div 2" s] by (simp add: reverse_str_def)
  then have "reverse_str s ! j = (if j < length s div 2 \<or> length s - length s div 2 \<le> j then s ! (length s - 1 - j) else s ! j)"
    using reverse_step [of "length s div 2" s] by (simp add: reverse_str_def)
  moreover have "s ! (length s - 1 - j) = s ! j" if "\<not> j < length s div 2" "\<not> length s - length s div 2 \<le> j"
  proof -
    have "length s - 1 - j = j" using that j by linarith
    then show ?thesis by simp
  qed
  ultimately show "reverse_str s ! j = rev s ! j" using j by (simp add: rev_nth split: if_splits)
qed

text \<open>The number a text stands for, most significant digit first.\<close>

definition digit_index :: "string \<Rightarrow> char \<Rightarrow> nat" where
  "digit_index digits c = length (takeWhile (\<lambda>d. d \<noteq> c) digits)"

definition text_value :: "string \<Rightarrow> nat \<Rightarrow> string \<Rightarrow> nat" where
  "text_value digits base s = foldr (\<lambda>c a. digit_index digits c + base * a) (rev s) 0"

lemma digit_index_nth:
  assumes "distinct ds" "i < length ds"
  shows "digit_index ds (ds ! i) = i"
proof -
  have "takeWhile (\<lambda>d. d \<noteq> ds ! i) ds = take i ds"
    using assms by (intro takeWhile_eq_take_P_nth) (auto simp: nth_eq_iff_index_eq)
  then show ?thesis using assms(2) by (simp add: digit_index_def)
qed

lemma uint_digits_value:
  assumes "distinct ds" "2 \<le> base" "base \<le> length ds"
  shows "foldr (\<lambda>c a. digit_index ds c + base * a) (uint_digits ds base v) 0 = v"
proof (induction v rule: less_induct)
  case (less v)
  show ?case
  proof (cases "v = 0")
    case True
    then show ?thesis by (subst uint_digits.simps) simp
  next
    case False
    have "v mod base < base" using assms(2) by simp
    with assms(3) have "v mod base < length ds" by simp
    then have "digit_index ds (ds ! (v mod base)) = v mod base" by (rule digit_index_nth [OF assms(1)])
    moreover have "v div base < v" using False assms(2) by simp
    ultimately show ?thesis using False assms(2) less.IH [of "v div base"] by (subst uint_digits.simps) simp
  qed
qed

lemma uint_to_str_value:
  assumes "2 \<le> base" "base \<le> 16"
  shows "\<exists>s. uint_to_str v base uppercase = Some s \<and>
    text_value (if uppercase then ''0123456789ABCDEF'' else ''0123456789abcdef'') base s = unat v"
proof -
  let ?ds = "if uppercase then ''0123456789ABCDEF'' else ''0123456789abcdef''"
  have d: "distinct ?ds" "length ?ds = 16" by simp_all
  show ?thesis
  proof (cases "v = 0")
    case True
    have "digit_index ?ds (CHR ''0'') = 0" by (simp add: digit_index_def)
    with True show ?thesis by (simp add: uint_to_str_def reverse_str_rev text_value_def)
  next
    case False
    have "uint_to_str v base uppercase = Some (rev (uint_digits ?ds base (unat v)))"
      using False assms unfolding uint_to_str_def Let_def reverse_str_rev by simp
    moreover have "text_value ?ds base (rev (uint_digits ?ds base (unat v))) = unat v"
      unfolding text_value_def rev_rev_ident by (rule uint_digits_value [OF d(1) assms(1)]) (use assms(2) d(2) in simp)
    ultimately show ?thesis by blast
  qed
qed

end
