(* ===== verification/Wm.thy ===== *)
theory Wm
  imports Framebuffer
begin

text \<open>
  The window manager demo, \<^verbatim>\<open>kernel/graphics/wm.cpp\<close>: it paints a desktop and moves a cursor with
  the mouse until the left button or the key \<open>q\<close> is pressed. The mouse, the keyboard and the
  scheduler are reached through the functions of the record \<open>wm_env\<close> on a state of their own;
  a session that nobody ends is \<open>None\<close>.
\<close>

record 'e wm_env =
  we_mouse_init :: "'e \<Rightarrow> 'e"
  we_mouse_poll :: "'e \<Rightarrow> (int \<times> int \<times> int) option \<times> 'e"
  we_key_poll :: "'e \<Rightarrow> char \<times> 'e"
  we_yield :: "'e \<Rightarrow> 'e option"

record 'e wm =
  w_tty :: tty_state
  w_mem :: mem
  w_dev :: 'e

section \<open>The cursor\<close>

text \<open>The rows of the bitmap: the ones come first in every row.\<close>

definition cursor_rows :: "nat list" where
  "cursor_rows = [1, 2, 3, 4, 5, 6, 7, 8, 9, 10, 5, 2, 1, 0, 0, 0]"

definition cursor_bitmap :: "nat \<Rightarrow> nat \<Rightarrow> bool" where
  "cursor_bitmap py px \<longleftrightarrow> px < cursor_rows ! py"

definition draw_cursor_at :: "framebuffer \<Rightarrow> int \<Rightarrow> int \<Rightarrow> mem \<Rightarrow> mem" where
  "draw_cursor_at fb x y m =
     fold (\<lambda>py. fold (\<lambda>px m. if cursor_bitmap py px
         then framebuffer_put_pixel fb (of_int (x + int px)) (of_int (y + int py)) (framebuffer_rgb 255 255 255) m else m)
       [0..<16]) [0..<16] m"

section \<open>The desktop\<close>

definition draw_desktop :: "framebuffer \<Rightarrow> mem \<Rightarrow> mem option" where
  "draw_desktop fb m =
     framebuffer_draw_filled_circle fb 200 150 28 (framebuffer_rgb 255 100 100)
       (framebuffer_draw_rect fb 422 82 296 18 (framebuffer_rgb 80 140 80)
         (framebuffer_draw_rect fb 420 80 300 180 (framebuffer_rgb 220 220 220)
           (framebuffer_draw_rect fb 42 42 356 20 (framebuffer_rgb 60 100 200)
             (framebuffer_draw_rect fb 40 40 360 220 (framebuffer_rgb 200 200 200) m))))"

section \<open>The loop\<close>

text \<open>The two tests for one coordinate, with the cursor's size of twelve pixels.\<close>

definition wm_clamp :: "u32 \<Rightarrow> int \<Rightarrow> int" where
  "wm_clamp limit c =
     (let c1 = (if c < 0 then 0 else c)
      in if limit \<le> of_int (c1 + 12) then sint limit - 12 - 1 else c1)"

definition wm_redraw :: "framebuffer \<Rightarrow> bool \<Rightarrow> int \<Rightarrow> int \<Rightarrow> 'e wm \<Rightarrow> 'e wm option" where
  "wm_redraw fb moved cx cy w =
     (if moved then do { m \<leftarrow> draw_desktop fb (w_mem w); Some (w\<lparr>w_mem := draw_cursor_at fb cx cy m\<rparr>) } else Some w)"

partial_function (option) wm_loop :: "'e wm_env \<Rightarrow> framebuffer \<Rightarrow> int \<Rightarrow> int \<Rightarrow> 'e wm \<Rightarrow> 'e wm option" where
  "wm_loop X fb cx cy w =
     (case we_mouse_poll X (w_dev w) of (ev, e1) \<Rightarrow>
       if (case ev of Some (dx, dy, btn) \<Rightarrow> (of_int btn :: u32) AND 1 \<noteq> 0 | None \<Rightarrow> False) then Some (w\<lparr>w_dev := e1\<rparr>)
       else case we_key_poll X e1 of (kc, e2) \<Rightarrow>
         if kc = CHR ''q'' \<or> kc = CHR ''Q'' then Some (w\<lparr>w_dev := e2\<rparr>)
         else Option.bind
           (wm_redraw fb (case ev of Some (dx, dy, btn) \<Rightarrow> dx \<noteq> 0 \<or> dy \<noteq> 0 | None \<Rightarrow> False)
             (wm_clamp (framebuffer_get_width fb) (case ev of Some (dx, dy, btn) \<Rightarrow> cx + dx | None \<Rightarrow> cx))
             (wm_clamp (framebuffer_get_height fb) (case ev of Some (dx, dy, btn) \<Rightarrow> cy - dy | None \<Rightarrow> cy)) (w\<lparr>w_dev := e2\<rparr>))
           (\<lambda>w1. Option.bind (we_yield X (w_dev w1)) (\<lambda>e3.
             wm_loop X fb
               (wm_clamp (framebuffer_get_width fb) (case ev of Some (dx, dy, btn) \<Rightarrow> cx + dx | None \<Rightarrow> cx))
               (wm_clamp (framebuffer_get_height fb) (case ev of Some (dx, dy, btn) \<Rightarrow> cy - dy | None \<Rightarrow> cy)) (w1\<lparr>w_dev := e3\<rparr>))))"

definition builtin_wm_cmd :: "'e wm_env \<Rightarrow> framebuffer \<Rightarrow> 'e wm \<Rightarrow> 'e wm option" where
  "builtin_wm_cmd X fb w =
     (if \<not> framebuffer_available fb then Some (w\<lparr>w_tty := print ''wm: framebuffer not available\<newline>'' (w_tty w)\<rparr>)
      else do {
        let cx = sint (framebuffer_get_width fb div 2);
        let cy = sint (framebuffer_get_height fb div 2);
        m \<leftarrow> draw_desktop fb (w_mem w);
        w1 \<leftarrow> wm_loop X fb cx cy (w\<lparr>w_tty := clear_screen (w_tty w), w_mem := draw_cursor_at fb cx cy m,
                w_dev := we_mouse_init X (w_dev w)\<rparr>);
        Some (w1\<lparr>w_tty := print ''wm: exiting\<newline>'' (w_tty w1)\<rparr>)
      })"

section \<open>A picture\<close>

text \<open>The function of \<^verbatim>\<open>kernel/drivers/fun.cpp\<close>: four circles.\<close>

definition lol :: "framebuffer \<Rightarrow> mem \<Rightarrow> mem option" where
  "lol fb m = do {
     let width = framebuffer_get_width fb;
     let height = framebuffer_get_height fb;
     m1 \<leftarrow> framebuffer_draw_filled_circle fb (width div 2) (height div 2) 100 (framebuffer_rgb 255 0 0) m;
     m2 \<leftarrow> framebuffer_draw_filled_circle fb (width div 4) (height div 4) 50 (framebuffer_rgb 0 255 0) m1;
     m3 \<leftarrow> framebuffer_draw_filled_circle fb (3 * width div 4) (height div 4) 50 (framebuffer_rgb 0 0 255) m2;
     framebuffer_draw_filled_circle fb (width div 4) (3 * height div 4) 50 (framebuffer_rgb 255 255 0) m3
   }"

text \<open>The cursor stays on the screen, wherever the mouse moves to.\<close>

lemma wm_clamp_inside:
  assumes "12 < uint limit" "uint limit < 2 ^ 31" "c < 2 ^ 31 - 12"
  shows "0 \<le> wm_clamp limit c" "wm_clamp limit c + 12 < uint limit"
proof -
  have s: "sint limit = uint limit"
    unfolding sint_uint by (rule signed_take_bit_int_eq_self) (use assms(1,2) in simp_all)
  define n where "n = (if c < 0 then 0 else c)"
  have r: "0 \<le> n" "n + 12 < 2 ^ 32" using assms(3) by (auto simp: n_def)
  have "uint (of_int (n + 12) :: u32) = n + 12"
    unfolding uint_word_of_int using r by (intro mod_pos_pos_trivial) auto
  then have iff: "limit \<le> of_int (n + 12) \<longleftrightarrow> uint limit \<le> n + 12" by (simp only: word_le_def)
  have w: "wm_clamp limit c = (if uint limit \<le> n + 12 then uint limit - 12 - 1 else n)"
    unfolding wm_clamp_def Let_def n_def [symmetric] iff s ..
  show "0 \<le> wm_clamp limit c" "wm_clamp limit c + 12 < uint limit"
    unfolding w using r(1) assms(1) by auto
qed

end
