(* ===== verification/Spec2Isabelle.thy ===== *)
theory Spec2Isabelle
  imports Kheap Libc Keyboard Ide HanaDisk HanaIso SchedRun Users ElfLoader Initrd SysTypes FatFormat Ext3 Kernel Screen Wm
begin

text \<open>
  A verification development for the HanaCore kernel, a small x86-64 operating system in C++.

  \<^bold>\<open>The program.\<close> The boot loader starts \<^verbatim>\<open>kernel_main\<close> (\<^verbatim>\<open>kernel/kernel.cpp\<close>). It sets up the
  framebuffer, the descriptor tables, the heap and the keyboard, unpacks a boot archive into the
  in-memory file system HanaFS, registers the process and device file systems, initialises the
  scheduler and ends in the login, which starts a shell. All memory comes from a first-fit heap
  (\<^verbatim>\<open>kernel/mem\<close>). File operations go through a dispatcher (\<^verbatim>\<open>kernel/filesystem/vfs.cpp\<close>) to HanaFS,
  FAT32, a floppy image or the pseudo file systems; FAT32 and the stored form of HanaFS lie on an
  IDE disk (\<^verbatim>\<open>kernel/drivers/ide.cpp\<close>). Tasks have a table of descriptors and enter the kernel
  through \<^verbatim>\<open>syscall_dispatch\<close> (\<^verbatim>\<open>kernel/userland/syscalls.cpp\<close>).

  \<^bold>\<open>Conventions.\<close> Integers have the width of the code (\<open>64 word\<close> for pointers and \<^verbatim>\<open>size_t\<close>, \<open>32 word\<close>
  for \<^verbatim>\<open>uint32_t\<close>); an \<open>int\<close> of the code is an \<open>int\<close> where it cannot overflow, and otherwise the
  definition tests the range. A struct or a group of static variables is a record, and an operation
  takes the state and returns it. A call that faults, runs past a buffer or does not return is
  \<open>None\<close>; loops that may not end are \<open>partial_function (option)\<close>, and no definition uses fuel. A
  status code is a value. Strings are \<open>string\<close> without the terminator, file contents lists of bytes.
  Hardware is reached through records of port operations (\<open>'d ports\<close>, \<open>'d hw\<close>) with the state \<open>'d\<close> of
  the device. Log lines are left out, except in \<open>Logger\<close> and \<open>Screen\<close>, which model how they are printed.

  \<^bold>\<open>Theories, in the order of the code they model.\<close>

  \<^item> \<open>Prelude\<close>: words, bytes, C strings, lists; the collections \<open>str_simps\<close> and \<open>cost_simps\<close>.
  \<^item> \<open>Bump\<close>, \<open>Kheap\<close>: \<^verbatim>\<open>kernel/mem/bump_alloc.cpp\<close>, \<^verbatim>\<open>pma.cpp\<close>, \<^verbatim>\<open>vmm.cpp\<close>, \<^verbatim>\<open>heap.cpp\<close>. The free list is
    followed in a store of headers; \<open>heap_inv\<close> says that free and allocated blocks tile the heap. The
    lemmas show that every sequence of \<^verbatim>\<open>kmalloc\<close> and \<^verbatim>\<open>kfree\<close> keeps it, that blocks are aligned,
    disjoint and large enough, and when memory is available (\<open>heap_room\<close>). The locales \<open>allocator\<close>
    and \<open>room_allocator\<close> are what clients use, interpreted as \<open>kh\<close> and \<open>rm\<close>.
  \<^item> \<open>Libc\<close>: \<^verbatim>\<open>kernel/libs/libc.c\<close>, the loops over memory and strings equal to list functions,
    number conversion and \<^verbatim>\<open>vsnprintf\<close>.
  \<^item> \<open>Pty\<close>, \<open>Tty\<close>, \<open>Pipes\<close>: \<^verbatim>\<open>kernel/tty\<close> and the pipes of the system calls. The locale \<open>byte_channel\<close>
    states first in, first out; it is interpreted on the rings (\<open>rb\<close>) and the pipes (\<open>pq\<close>). The
    terminals refine a specification with one text per terminal.
  \<^item> \<open>Keyboard\<close>, \<open>Ports\<close>: \<^verbatim>\<open>kernel/drivers/keyboard.cpp\<close>, \<^verbatim>\<open>mouse.cpp\<close>, \<^verbatim>\<open>pci.cpp\<close> and \<^verbatim>\<open>kernel/arch\<close> (descriptor
    tables, interrupt controller, timer): what typing and mouse packets come to.
  \<^item> \<open>Ide\<close>: \<^verbatim>\<open>kernel/drivers/ide.cpp\<close> against a model of the ATA registers. The locale \<open>block_device\<close>,
    interpreted as \<open>ide_disk\<close>, gives reading back what was written.
  \<^item> \<open>HanaPath\<close>, \<open>HanaFS\<close>, \<open>HanaSpec\<close>, \<open>HanaDisk\<close>, \<open>HanaIso\<close>: \<^verbatim>\<open>kernel/filesystem/hanafs.cpp\<close>. The entries
    are the linked list with its node addresses. \<open>HanaSpec\<close> has the specification, a finite map from
    paths to files and directories (\<open>spec_calls\<close>), the locale \<open>file_store\<close> and its interpretation
    \<open>hana\<close>: with room in the heap every call returns what the map gives. \<open>HanaDisk\<close> is the image on
    the disk, \<open>HanaIso\<close> the mount of an ISO image.
  \<^item> \<open>FdTable\<close>, \<open>Scheduler\<close>, \<open>SchedRun\<close>: \<^verbatim>\<open>kernel/userland/fdtable.cpp\<close> and \<^verbatim>\<open>kernel/scheduler\<close>. Tasks are
    a circular list in a store; \<open>sc_inv\<close> is the invariant, \<open>sched_reach\<close> the states that creating,
    yielding, killing and ending tasks can lead to, and the lemmas show the invariant, that a
    yield switches, fairness, and when \<^verbatim>\<open>kill_task\<close> returns.
  \<^item> \<open>Users\<close>, \<open>ElfLoader\<close>, \<open>Initrd\<close>: \<^verbatim>\<open>kernel/userland/users.cpp\<close>, \<^verbatim>\<open>elf_loader.cpp\<close> and
    \<^verbatim>\<open>kernel/filesystem/initrd.cpp\<close>.
  \<^item> \<open>Vfs\<close>, \<open>Syscalls\<close>, \<open>SysTypes\<close>: \<^verbatim>\<open>kernel/filesystem/vfs.cpp\<close>, \<^verbatim>\<open>ramfs.cpp\<close>, \<^verbatim>\<open>procfs.cpp\<close>, \<^verbatim>\<open>devfs.cpp\<close> and
    \<^verbatim>\<open>kernel/userland/syscalls.cpp\<close>. The record \<open>kernel\<close> joins scheduler, file systems, terminals, pipes
    and memory over one heap. Shown are what reading, writing, closing and opening do together,
    processes and pipes, and that every sequence of calls keeps the descriptor table well-typed.
  \<^item> \<open>Fat32\<close>, \<open>FatDisk\<close>, \<open>FatFiles\<close>, \<open>FatFormat\<close>: \<^verbatim>\<open>kernel/filesystem/fat32.cpp\<close> and \<^verbatim>\<open>floppy.cpp\<close>. The
    first has the definitions; the others show, over any block device (locale \<open>fat_volume\<close>,
    interpreted as \<open>ide_fat\<close>), that a file is read back, that writing and removing leaves other files
    alone, and what formatting gives.
  \<^item> \<open>Ext3\<close>: \<^verbatim>\<open>kernel/filesystem/ext3.cpp\<close> on an image in memory.
  \<^item> \<open>Logger\<close>, \<open>Framebuffer\<close>, \<open>Screen\<close>, \<open>Wm\<close>: \<^verbatim>\<open>kernel/utils/logger.cpp\<close>, \<^verbatim>\<open>kernel/drivers/framebuffer.cpp\<close>,
    \<^verbatim>\<open>screen.cpp\<close>, \<^verbatim>\<open>fun.cpp\<close> and \<^verbatim>\<open>kernel/graphics\<close>: which pixels a drawing changes.
  \<^item> \<open>Shell\<close>, \<open>Login\<close>, \<open>Kernel\<close>: \<^verbatim>\<open>kernel/shell\<close>, \<^verbatim>\<open>kernel/userland/module_runner.cpp\<close>, \<^verbatim>\<open>login.cpp\<close>,
    \<^verbatim>\<open>kernel/kernel.cpp\<close> and \<^verbatim>\<open>kernel/arch/syscall_init.cpp\<close>. These compose everything above: what a
    session at the keyboard does, what failed logins do, and that the kernel starts.

  \<^bold>\<open>Bounds.\<close> Where a theorem says that calls succeed it assumes room in the heap, as a sum that
  bounds what the calls take (\<open>call_cost\<close>, \<open>task_cost\<close>, \<open>boot_cost\<close>; \<open>room_cost n = n + 64\<close> covers header,
  rounding and the rest of a split block). The kernel starts with a heap of one megabyte, and the
  concrete instances are evaluated with that. The theorems on the heap itself need no such bound
  beyond the address space. Numbers of sectors are below 2 to the 28, the range of the disk
  commands. Loops over rings and chains are shown to end from the invariants, and where the code
  loops forever (a process id that is not in the list) the theorem says when it returns.

  \<^bold>\<open>Parameters.\<close> Code outside of the repository is an argument: the answers of the boot loader, the
  machine code that is jumped to, the constructors and entry points of the image, the date of the
  build. Its hypotheses are written in the theorem and met in the witness that follows it.

  \<^bold>\<open>Not modelled.\<close> The assembly files (register saving, the switch of stacks and privilege levels),
  of which the definitions contain what the C++ code relies on; \<^verbatim>\<open>framebuffer_draw_line\<close>, which
  computes with floating-point numbers; the third-party terminal Flanterm, whose calls are
  recorded by \<open>Screen\<close>; the declarations for user programs (\<^verbatim>\<open>kernel/api/hanaapi.h\<close>,
  \<^verbatim>\<open>kernel/userland/musl_shim\<close>); build scripts and the host test program. Interrupts are not
  interleaved with the code: the timer only counts, and tasks switch when they yield.
\<close>

end
